(* ===== verification/Prelude.thy ===== *)
theory Prelude
  imports Main "HOL-Library.AList" "HOL-Library.Char_ord" "HOL-Library.List_Lexorder"
    "HOL-Library.Multiset"
begin

text \<open>
  What the components share.

  The program is TypeScript. A JavaScript \<open>Map\<close> keeps its insertion order, and \<open>set\<close> on a key
  already present keeps that key's place: this is \<^const>\<open>AList.update\<close> on an association list, with
  \<^const>\<open>map_of\<close> as \<open>get\<close>. \<open>new Set(xs)\<close> read back as an array keeps the first occurrence of each
  element, in order (\<open>js_set\<close> below). \<open>findIndex\<close> is \<open>find_index\<close>. Strings compare by code unit, as
  lists of characters do under the lexicographic order. A value that may be \<open>null\<close> or absent is an
  option.

  A database table is the list of its rows. An \<open>UPDATE ... SET ... WHERE\<close> is \<open>update_where\<close>, and
  the first row of its \<open>RETURNING\<close> is \<open>returning_first\<close>.

  Two contracts that several components share are stated as locales: a machine whose every step
  keeps an invariant, and a machine whose every step can only move a measure one way.
\<close>

named_theorems component_defs \<open>definitions that unfold in the component proofs\<close>

type_synonym time = string
type_synonym uuid = string

text \<open>A JSON value, as a column of type \<open>jsonb\<close> holds it. The numbers the models read are integers.\<close>

datatype json =
    JNull | JBool bool | JNum int | JStr string
  | JArr "json list" | JObj "(string \<times> json) list"

type_synonym json_object = "(string \<times> json) list"

text \<open>\<open>a || b\<close> of two \<open>jsonb\<close> objects: the keys of \<open>b\<close> win.\<close>

definition json_concat :: "json_object \<Rightarrow> json_object \<Rightarrow> json_object" where
  "json_concat a b = AList.merge a b"

lemma map_of_json_concat: "map_of (json_concat a b) = map_of a ++ map_of b"
  by (simp add: json_concat_def merge_conv')

text \<open>A string the language reads as true.\<close>

definition truthy :: "string option \<Rightarrow> bool" where
  "truthy s \<longleftrightarrow> (case s of None \<Rightarrow> False | Some t \<Rightarrow> t \<noteq> [])"

subsection \<open>Lists as the language has them\<close>

fun js_set :: "'a list \<Rightarrow> 'a list" where
  "js_set [] = []"
| "js_set (x # xs) = x # filter (\<lambda>y. y \<noteq> x) (js_set xs)"

lemma set_js_set [simp]: "set (js_set xs) = set xs"
  by (induction xs) auto

lemma distinct_js_set [simp]: "distinct (js_set xs)"
  by (induction xs) auto

lemma js_set_distinct: "distinct xs \<Longrightarrow> js_set xs = xs"
proof (induction xs)
  case (Cons x xs)
  then have "filter (\<lambda>y. y \<noteq> x) xs = xs" by (auto simp: filter_id_conv)
  with Cons show ?case by simp
qed simp

text \<open>\<open>Array.prototype.join\<close>.\<close>

fun js_join :: "string \<Rightarrow> string list \<Rightarrow> string" where
  "js_join sep [] = []"
| "js_join sep [x] = x"
| "js_join sep (x # y # xs) = x @ sep @ js_join sep (y # xs)"

fun find_index :: "('a \<Rightarrow> bool) \<Rightarrow> 'a list \<Rightarrow> nat option" where
  "find_index P [] = None"
| "find_index P (x # xs) = (if P x then Some 0 else map_option Suc (find_index P xs))"

lemma pred_option_code [code]: "pred_option P None = True" "pred_option P (Some x) = P x"
  by simp_all

lemma find_index_SomeD:
  "find_index P xs = Some i \<Longrightarrow> i < length xs \<and> P (xs ! i) \<and> (\<forall>j<i. \<not> P (xs ! j))"
proof (induction xs arbitrary: i)
  case (Cons x xs)
  show ?case
  proof (cases "P x")
    case False
    with Cons.prems obtain k where k: "find_index P xs = Some k" "i = Suc k" by auto
    with Cons.IH [of k] False show ?thesis by (auto simp: nth_Cons split: nat.splits)
  qed (use Cons.prems in auto)
qed simp

lemma find_index_None_iff: "find_index P xs = None \<longleftrightarrow> (\<forall>x\<in>set xs. \<not> P x)"
  by (induction xs) auto

subsection \<open>Tables\<close>

definition update_where :: "('r \<Rightarrow> bool) \<Rightarrow> ('r \<Rightarrow> 'r) \<Rightarrow> 'r list \<Rightarrow> 'r list" where
  "update_where P f rows = map (\<lambda>r. if P r then f r else r) rows"

definition returning :: "('r \<Rightarrow> bool) \<Rightarrow> ('r \<Rightarrow> 'r) \<Rightarrow> 'r list \<Rightarrow> 'r list" where
  "returning P f rows = map f (filter P rows)"

definition returning_first :: "('r \<Rightarrow> bool) \<Rightarrow> ('r \<Rightarrow> 'r) \<Rightarrow> 'r list \<Rightarrow> 'r option" where
  "returning_first P f rows = map_option f (find P rows)"

lemma length_update_where [simp]: "length (update_where P f rows) = length rows"
  by (simp add: update_where_def)

lemma update_where_Nil [simp]: "update_where P f [] = []"
  by (simp add: update_where_def)

lemma update_where_Cons [simp]:
  "update_where P f (r # rows) = (if P r then f r else r) # update_where P f rows"
  by (simp add: update_where_def)

lemma set_update_where:
  "set (update_where P f rows) = f ` {r \<in> set rows. P r} \<union> {r \<in> set rows. \<not> P r}"
  by (auto simp: update_where_def image_iff)

lemma update_where_none: "\<forall>r\<in>set rows. \<not> P r \<Longrightarrow> update_where P f rows = rows"
  by (induction rows) auto

lemma map_update_where:
  "(\<And>r. P r \<Longrightarrow> g (f r) = g r) \<Longrightarrow> map g (update_where P f rows) = map g rows"
  by (induction rows) auto

lemma find_None_update: "find P rows = None \<Longrightarrow> update_where P f rows = rows"
  by (auto simp: find_None_iff intro: update_where_none)

lemma returning_first_Some:
  "returning_first P f rows = Some r' \<longleftrightarrow> (\<exists>r. find P rows = Some r \<and> r' = f r)"
  by (auto simp: returning_first_def)

lemma returning_first_None:
  "returning_first P f rows = None \<longleftrightarrow> find P rows = None"
  by (simp add: returning_first_def)

lemma find_append: "find P (xs @ ys) = (case find P xs of Some x \<Rightarrow> Some x | None \<Rightarrow> find P ys)"
  by (induction xs) simp_all

lemma find_Some_mem: "find P xs = Some x \<Longrightarrow> x \<in> set xs \<and> P x"
  by (auto simp: find_Some_iff)

subsection \<open>Grouping under a key\<close>

text \<open>The idiom \<open>const held = groups.get(k); if (held) held.push(x); else groups.set(k, [x])\<close>, and the map
  it makes of a list.\<close>

definition bucket :: "('x \<Rightarrow> 'k) \<Rightarrow> ('k \<times> 'x list) list \<Rightarrow> 'x \<Rightarrow> ('k \<times> 'x list) list" where
  "bucket key groups x =
     (case map_of groups (key x) of
        Some held \<Rightarrow> AList.update (key x) (held @ [x]) groups
      | None \<Rightarrow> AList.update (key x) [x] groups)"

definition buckets :: "('x \<Rightarrow> 'k) \<Rightarrow> 'x list \<Rightarrow> ('k \<times> 'x list) list" where
  "buckets key xs = foldl (bucket key) [] xs"

lemma buckets_snoc: "buckets key (xs @ [x]) = bucket key (buckets key xs) x"
  by (simp add: buckets_def)

lemma distinct_buckets [simp]: "distinct (map fst (buckets key xs))"
  by (induction xs rule: rev_induct)
    (auto simp: buckets_snoc bucket_def distinct_update, simp add: buckets_def, auto split: option.split
      simp: distinct_update)

lemma map_of_buckets:
  "map_of (buckets key xs) k
     = (if \<exists>x\<in>set xs. key x = k then Some (filter (\<lambda>x. key x = k) xs) else None)"
proof (induction xs rule: rev_induct)
  case Nil
  show ?case by (simp add: buckets_def)
next
  case (snoc x xs)
  show ?case
    using snoc filter_False [of xs "\<lambda>x. key x = k"]
    by (auto simp: buckets_snoc bucket_def update_conv' split: option.split)
qed

lemma buckets_member:
  "(k, g) \<in> set (buckets key xs) \<longleftrightarrow> (\<exists>x\<in>set xs. key x = k) \<and> g = filter (\<lambda>x. key x = k) xs"
proof -
  have "(k, g) \<in> set (buckets key xs) \<longleftrightarrow> map_of (buckets key xs) k = Some g"
    by (simp add: map_of_eq_Some_iff)
  then show ?thesis by (auto simp: map_of_buckets)
qed

lemma sum_list_bucket:
  fixes f :: "'x list \<Rightarrow> 'n :: comm_monoid_add"
  assumes "\<And>ys. f (ys @ [x]) = f ys + f [x]"
  shows "sum_list (map (f \<circ> snd) (bucket key groups x)) = sum_list (map (f \<circ> snd) groups) + f [x]"
proof -
  have "sum_list (map (f \<circ> snd) (AList.update k (held @ [x]) groups))
      = sum_list (map (f \<circ> snd) groups) + f [x]" if "map_of groups k = Some held" for k held
    using that by (induction groups) (auto simp: assms add_ac)
  moreover have "sum_list (map (f \<circ> snd) (AList.update k [x] groups))
      = sum_list (map (f \<circ> snd) groups) + f [x]" if "map_of groups k = None" for k
    using that by (induction groups) (auto simp: add_ac)
  ultimately show ?thesis
    by (simp add: bucket_def split: option.split)
qed

lemma sum_list_buckets:
  fixes f :: "'x list \<Rightarrow> 'n :: comm_monoid_add"
  assumes "f [] = 0" and "\<And>ys x. f (ys @ [x]) = f ys + f [x]"
  shows "sum_list (map (f \<circ> snd) (buckets key xs)) = f xs"
proof (induction xs rule: rev_induct)
  case Nil
  show ?case using assms(1) by (simp add: buckets_def)
next
  case (snoc x xs)
  then show ?case
    unfolding buckets_snoc sum_list_bucket [of f, OF assms(2)] by (simp only: assms(2) [of xs x])
qed

lemma mset_concat_buckets: "mset (concat (map snd (buckets key xs))) = mset xs"
  using sum_list_buckets [of mset key xs] by (simp add: mset_concat comp_def)

subsection \<open>Machines\<close>

text \<open>A component whose operations are steps over one state, all of which keep an invariant.\<close>

locale invariant_machine =
  fixes step :: "'s \<Rightarrow> 'e \<Rightarrow> 's"
    and inv :: "'s \<Rightarrow> bool"
  assumes step_inv: "inv s \<Longrightarrow> inv (step s e)"
begin

lemma run_inv: "inv s \<Longrightarrow> inv (foldl step s es)"
  by (induction es arbitrary: s) (auto intro: step_inv)

lemma run_prefix_inv: "inv s \<Longrightarrow> inv (foldl step s (take n es))"
  by (rule run_inv)

end

text \<open>A component in which, once a fact holds, no step takes it back.\<close>

locale latch_machine =
  fixes step :: "'s \<Rightarrow> 'e \<Rightarrow> 's"
    and latched :: "'s \<Rightarrow> bool"
  assumes step_latched: "latched s \<Longrightarrow> latched (step s e)"
begin

lemma run_latched: "latched s \<Longrightarrow> latched (foldl step s es)"
  by (induction es arbitrary: s) (auto intro: step_latched)

lemma latched_suffix:
  "latched (foldl step s es) \<Longrightarrow> latched (foldl step s (es @ es'))"
  by (simp add: run_latched)

end

end
