(* ===== verification/Credits.thy ===== *)
theory Credits
  imports Prelude
begin

text \<open>
  The credit ledger: \<open>PgCreditsStore\<close> of \<open>packages/data-store/src/credits-store.ts\<close> over the two
  tables of \<open>packages/db/src/schema/credits.ts\<close>, and the parts of
  \<open>apps/dashboard/server/src/services/credits.service.ts\<close> that move or read it.

  Every movement is one transaction that first locks the workspace's balance row, so movements
  on one workspace run one after the other: a movement is one function from the tables to the
  tables. The two columns are Postgres integers, 32 bits wide; a value outside them is an error
  of the statement, and the transaction rolls back. The clock and the random ids are arguments.
\<close>

type_synonym org = string

datatype ledger_kind = Grant | Debit | Adjustment

record balance_row =
  br_balance :: int
  br_lastGrantCredits :: int
  br_lastGrantAt :: "time option"
  br_lowNotifiedAt :: "time option"
  br_emptyNotifiedAt :: "time option"
  br_updatedAt :: time

record ledger_row =
  lr_id :: uuid
  lr_org :: org
  lr_kind :: ledger_kind
  lr_amount :: int
  lr_balanceAfter :: int
  lr_actorUserId :: "string option"
  lr_note :: "string option"
  lr_usageId :: "uuid option"
  lr_createdAt :: time

record credits_db =
  creditBalances :: "(org \<times> balance_row) list"
  creditLedger :: "ledger_row list"

record credit_movement =
  mv_org :: org
  mv_credits :: int
  mv_actor :: string
  mv_note :: "string option"

record credit_charge =
  ch_org :: org
  ch_credits :: int
  ch_usageId :: uuid

record charge_result =
  cr_balance :: int
  crossedLow :: bool
  crossedEmpty :: bool

record balance_record =
  bal_balance :: int
  bal_lastGrantCredits :: int
  bal_lastGrantAt :: "time option"

datatype db_error = IntegerOutOfRange | NoBalanceRow org

subsection \<open>The operations\<close>

definition in_int4 :: "int \<Rightarrow> bool" where
  "in_int4 n \<longleftrightarrow> - (2 ^ 31) \<le> n \<and> n < 2 ^ 31"

definition toBalanceRecord :: "balance_row option \<Rightarrow> balance_record" where
  "toBalanceRecord row =
     (case row of
        None \<Rightarrow> \<lparr>bal_balance = 0, bal_lastGrantCredits = 0, bal_lastGrantAt = None\<rparr>
      | Some r \<Rightarrow> \<lparr>bal_balance = br_balance r, bal_lastGrantCredits = br_lastGrantCredits r,
                   bal_lastGrantAt = br_lastGrantAt r\<rparr>)"

definition read_balance :: "credits_db \<Rightarrow> org \<Rightarrow> balance_record" where
  "read_balance db org = toBalanceRecord (map_of (creditBalances db) org)"

definition fresh_row :: "time \<Rightarrow> balance_row" where
  "fresh_row now = \<lparr>br_balance = 0, br_lastGrantCredits = 0, br_lastGrantAt = None,
                    br_lowNotifiedAt = None, br_emptyNotifiedAt = None, br_updatedAt = now\<rparr>"

text \<open>\<open>INSERT ... ON CONFLICT DO NOTHING\<close>, then \<open>SELECT ... FOR UPDATE\<close>.\<close>

definition lockBalance ::
    "time \<Rightarrow> org \<Rightarrow> credits_db \<Rightarrow> db_error + (balance_row \<times> credits_db)" where
  "lockBalance now org db =
     (let db' = (case map_of (creditBalances db) org of
                   Some _ \<Rightarrow> db
                 | None \<Rightarrow> db\<lparr>creditBalances := creditBalances db @ [(org, fresh_row now)]\<rparr>)
      in case map_of (creditBalances db') org of
           None \<Rightarrow> Inl (NoBalanceRow org)
         | Some row \<Rightarrow> Inr (row, db'))"

definition move ::
    "time \<Rightarrow> uuid \<Rightarrow> ledger_kind \<Rightarrow> credit_movement \<Rightarrow> credits_db
      \<Rightarrow> db_error + (ledger_row \<times> credits_db)" where
  "move now uid kind m db =
     (case lockBalance now (mv_org m) db of
        Inl e \<Rightarrow> Inl e
      | Inr (held, db') \<Rightarrow>
          (let bal = br_balance held + mv_credits m;
               row = held\<lparr>br_balance := bal, br_updatedAt := now\<rparr>;
               row' = (if kind = Grant
                       then row\<lparr>br_lastGrantCredits := mv_credits m, br_lastGrantAt := Some now,
                                br_lowNotifiedAt := None, br_emptyNotifiedAt := None\<rparr>
                       else row);
               entry = \<lparr>lr_id = uid, lr_org = mv_org m, lr_kind = kind, lr_amount = mv_credits m,
                         lr_balanceAfter = bal, lr_actorUserId = Some (mv_actor m), lr_note = mv_note m,
                         lr_usageId = None, lr_createdAt = now\<rparr>
           in if in_int4 bal \<and> in_int4 (mv_credits m)
              then Inr (entry, db'\<lparr>creditBalances := AList.update (mv_org m) row' (creditBalances db'),
                                    creditLedger := creditLedger db' @ [entry]\<rparr>)
              else Inl IntegerOutOfRange))"

definition grant_credits ::
    "time \<Rightarrow> uuid \<Rightarrow> credit_movement \<Rightarrow> credits_db \<Rightarrow> db_error + (ledger_row \<times> credits_db)" where
  "grant_credits now uid m db = move now uid Grant m db"

definition adjust_credits ::
    "time \<Rightarrow> uuid \<Rightarrow> credit_movement \<Rightarrow> credits_db \<Rightarrow> db_error + (ledger_row \<times> credits_db)" where
  "adjust_credits now uid m db = move now uid Adjustment m db"

text \<open>\<open>Math.floor(br_lastGrantCredits * 0.1)\<close>: for the integers of the column this is the quotient by 10
  rounded down (the double nearest 0.1 lies above it by less than one part in \<open>2 ^ 53\<close>).\<close>

definition low_line :: "balance_row \<Rightarrow> int" where
  "low_line held = br_lastGrantCredits held div 10"

definition crosses_low :: "balance_row \<Rightarrow> int \<Rightarrow> bool" where
  "crosses_low held bal \<longleftrightarrow>
     br_lastGrantCredits held > 0 \<and> br_lowNotifiedAt held = None \<and>
     br_balance held > low_line held \<and> bal \<le> low_line held"

definition crosses_empty :: "balance_row \<Rightarrow> int \<Rightarrow> bool" where
  "crosses_empty held bal \<longleftrightarrow> br_emptyNotifiedAt held = None \<and> br_balance held > 0 \<and> bal \<le> 0"

definition charge ::
    "time \<Rightarrow> uuid \<Rightarrow> credit_charge \<Rightarrow> credits_db \<Rightarrow> db_error + (charge_result \<times> credits_db)" where
  "charge now uid c db =
     (case lockBalance now (ch_org c) db of
        Inl e \<Rightarrow> Inl e
      | Inr (held, db') \<Rightarrow>
          (let bal = br_balance held - ch_credits c;
               low = crosses_low held bal;
               empty = crosses_empty held bal;
               row = held\<lparr>br_balance := bal, br_updatedAt := now,
                          br_lowNotifiedAt := (if low then Some now else br_lowNotifiedAt held),
                          br_emptyNotifiedAt := (if empty then Some now else br_emptyNotifiedAt held)\<rparr>;
               entry = \<lparr>lr_id = uid, lr_org = ch_org c, lr_kind = Debit, lr_amount = - ch_credits c,
                         lr_balanceAfter = bal, lr_actorUserId = None, lr_note = None,
                         lr_usageId = Some (ch_usageId c), lr_createdAt = now\<rparr>
           in if in_int4 bal \<and> in_int4 (- ch_credits c)
              then Inr (\<lparr>cr_balance = bal, crossedLow = low, crossedEmpty = empty\<rparr>,
                        db'\<lparr>creditBalances := AList.update (ch_org c) row (creditBalances db'),
                             creditLedger := creditLedger db' @ [entry]\<rparr>)
              else Inl IntegerOutOfRange))"

subsection \<open>The movements as one alphabet\<close>

datatype credits_op =
    OpGrant time uuid credit_movement
  | OpAdjust time uuid credit_movement
  | OpCharge time uuid credit_charge

text \<open>A movement that fails leaves the tables as they were.\<close>

definition credits_step :: "credits_db \<Rightarrow> credits_op \<Rightarrow> credits_db" where
  "credits_step db op =
     (case op of
        OpGrant now uid m \<Rightarrow> (case grant_credits now uid m db of Inl _ \<Rightarrow> db | Inr (_, db') \<Rightarrow> db')
      | OpAdjust now uid m \<Rightarrow> (case adjust_credits now uid m db of Inl _ \<Rightarrow> db | Inr (_, db') \<Rightarrow> db')
      | OpCharge now uid c \<Rightarrow> (case charge now uid c db of Inl _ \<Rightarrow> db | Inr (_, db') \<Rightarrow> db'))"


subsection \<open>The lock\<close>

text \<open>The row a movement works on: the workspace's own, or the fresh one the lock creates.\<close>

definition held_row :: "time \<Rightarrow> org \<Rightarrow> credits_db \<Rightarrow> balance_row" where
  "held_row now org db =
     (case map_of (creditBalances db) org of None \<Rightarrow> fresh_row now | Some r \<Rightarrow> r)"

lemma map_of_append_fresh:
  "map_of xs k = None \<Longrightarrow> map_of (xs @ [(k, v)]) = (map_of xs)(k \<mapsto> v)"
  by (auto simp: map_add_def fun_eq_iff split: option.splits)

lemma lockBalance_Inr:
  obtains db' where "lockBalance now org db = Inr (held_row now org db, db')"
    and "map_of (creditBalances db') = (map_of (creditBalances db))(org \<mapsto> held_row now org db)"
    and "creditLedger db' = creditLedger db"
proof (cases "map_of (creditBalances db) org")
  case None
  then show ?thesis
    by (intro that [of "db\<lparr>creditBalances := creditBalances db @ [(org, fresh_row now)]\<rparr>"])
      (simp_all add: lockBalance_def held_row_def map_of_append_fresh del: map_of_append)
next
  case (Some r)
  then show ?thesis
    by (intro that [of db]) (auto simp: lockBalance_def held_row_def fun_eq_iff)
qed

lemma balance_held: "br_balance (held_row now org db) = bal_balance (read_balance db org)"
  by (simp add: held_row_def read_balance_def toBalanceRecord_def fresh_row_def split: option.splits)

subsection \<open>One movement\<close>

definition org_rows :: "credits_db \<Rightarrow> org \<Rightarrow> ledger_row list" where
  "org_rows db org = filter (\<lambda>r. lr_org r = org) (creditLedger db)"

definition row_of :: "credits_db \<Rightarrow> org \<Rightarrow> balance_row option" where
  "row_of db org = map_of (creditBalances db) org"

definition balance_of :: "credits_db \<Rightarrow> org \<Rightarrow> int" where
  "balance_of db org = bal_balance (read_balance db org)"

lemma balance_of_row:
  "balance_of db org = (case row_of db org of None \<Rightarrow> 0 | Some r \<Rightarrow> br_balance r)"
  by (simp add: balance_of_def read_balance_def row_of_def toBalanceRecord_def split: option.splits)

text \<open>What every movement that commits does to the tables.\<close>

definition posts :: "credits_db \<Rightarrow> org \<Rightarrow> balance_row \<Rightarrow> ledger_row \<Rightarrow> credits_db \<Rightarrow> bool" where
  "posts db org row entry db' \<longleftrightarrow>
     (\<forall>k. row_of db' k = (if k = org then Some row else row_of db k)) \<and>
     creditLedger db' = creditLedger db @ [entry] \<and>
     lr_org entry = org \<and>
     br_balance row = balance_of db org + lr_amount entry \<and>
     lr_balanceAfter entry = br_balance row \<and> in_int4 (br_balance row)"

lemma posts_row_of: "posts db org row entry db' \<Longrightarrow> row_of db' k = (if k = org then Some row else row_of db k)"
  by (simp add: posts_def)

lemma posts_org_rows:
  "posts db org row entry db' \<Longrightarrow>
     org_rows db' k = org_rows db k @ (if k = org then [entry] else [])"
  by (auto simp: posts_def org_rows_def)

lemma posts_balance_of:
  "posts db org row entry db' \<Longrightarrow>
     balance_of db' k = (if k = org then balance_of db org + lr_amount entry else balance_of db k)"
  by (auto simp: posts_def balance_of_row split: option.splits)

lemma move_posts:
  assumes "move now uid kind m db = Inr (entry, db')"
  shows "\<exists>row. posts db (mv_org m) row entry db' \<and> lr_amount entry = mv_credits m \<and>
     lr_kind entry = kind \<and>
     (kind \<noteq> Grant \<longrightarrow>
        br_lastGrantCredits row = br_lastGrantCredits (held_row now (mv_org m) db) \<and>
        br_lowNotifiedAt row = br_lowNotifiedAt (held_row now (mv_org m) db) \<and>
        br_emptyNotifiedAt row = br_emptyNotifiedAt (held_row now (mv_org m) db)) \<and>
     (kind = Grant \<longrightarrow> br_lastGrantCredits row = mv_credits m \<and>
        br_lowNotifiedAt row = None \<and> br_emptyNotifiedAt row = None)"
proof -
  obtain db1 where l: "lockBalance now (mv_org m) db = Inr (held_row now (mv_org m) db, db1)"
    and b: "map_of (creditBalances db1) = (map_of (creditBalances db))(mv_org m \<mapsto> held_row now (mv_org m) db)"
    and e: "creditLedger db1 = creditLedger db"
    by (rule lockBalance_Inr)
  from assms show ?thesis
    unfolding move_def l
    by (cases "kind = Grant")
      (auto simp: Let_def posts_def row_of_def balance_of_def update_conv' b e balance_held
        split: if_splits)
qed

lemma charge_posts:
  assumes "charge now uid c db = Inr (res, db')"
  defines "held \<equiv> held_row now (ch_org c) db"
  shows "\<exists>row entry. posts db (ch_org c) row entry db' \<and> lr_amount entry = - ch_credits c \<and>
     lr_kind entry = Debit \<and> lr_usageId entry = Some (ch_usageId c) \<and>
     cr_balance res = br_balance row \<and>
     crossedLow res = crosses_low held (br_balance row) \<and>
     crossedEmpty res = crosses_empty held (br_balance row) \<and>
     br_lastGrantCredits row = br_lastGrantCredits held \<and>
     br_lowNotifiedAt row = (if crossedLow res then Some now else br_lowNotifiedAt held) \<and>
     br_emptyNotifiedAt row = (if crossedEmpty res then Some now else br_emptyNotifiedAt held)"
proof -
  obtain db1 where l: "lockBalance now (ch_org c) db = Inr (held, db1)"
    and b: "map_of (creditBalances db1) = (map_of (creditBalances db))(ch_org c \<mapsto> held)"
    and e: "creditLedger db1 = creditLedger db"
    unfolding held_def by (rule lockBalance_Inr)
  from assms(1) show ?thesis
    unfolding charge_def l
    by (auto simp: Let_def posts_def row_of_def balance_of_def update_conv' b e balance_held held_def
        split: if_splits)
qed

lemma credits_step_cases:
  obtains (failed) "credits_step db op = db"
  | (posted) org row entry where "posts db org row entry (credits_step db op)"
proof (cases op)
  case (OpGrant now uid m)
  show ?thesis
  proof (cases "move now uid Grant m db")
    case (Inr p)
    then have "\<exists>row. posts db (mv_org m) row (fst p) (snd p)"
      using move_posts [of now uid Grant m db "fst p" "snd p"] by auto
    then have "\<exists>row. posts db (mv_org m) row (fst p) (credits_step db op)"
      using Inr by (simp add: credits_step_def OpGrant grant_credits_def case_prod_beta)
    with posted show ?thesis by blast
  qed (simp add: failed credits_step_def OpGrant grant_credits_def)
next
  case (OpAdjust now uid m)
  show ?thesis
  proof (cases "move now uid Adjustment m db")
    case (Inr p)
    then have "\<exists>row. posts db (mv_org m) row (fst p) (snd p)"
      using move_posts [of now uid Adjustment m db "fst p" "snd p"] by auto
    then have "\<exists>row. posts db (mv_org m) row (fst p) (credits_step db op)"
      using Inr by (simp add: credits_step_def OpAdjust adjust_credits_def case_prod_beta)
    with posted show ?thesis by blast
  qed (simp add: failed credits_step_def OpAdjust adjust_credits_def)
next
  case (OpCharge now uid c)
  show ?thesis
  proof (cases "charge now uid c db")
    case (Inr p)
    then have "\<exists>row entry. posts db (ch_org c) row entry (snd p)"
      using charge_posts [of now uid c db "fst p" "snd p"] by auto
    then have "\<exists>row entry. posts db (ch_org c) row entry (credits_step db op)"
      using Inr by (simp add: credits_step_def OpCharge case_prod_beta)
    with posted show ?thesis by blast
  qed (simp add: failed credits_step_def OpCharge)
qed

subsection \<open>The ledger reads as arithmetic\<close>

fun running :: "int \<Rightarrow> ledger_row list \<Rightarrow> bool" where
  "running b [] \<longleftrightarrow> True"
| "running b (r # rs) \<longleftrightarrow> lr_balanceAfter r = b + lr_amount r \<and> running (b + lr_amount r) rs"

definition ledger_total :: "ledger_row list \<Rightarrow> int" where
  "ledger_total rs = sum_list (map lr_amount rs)"

lemma ledger_total_simps [simp]: "ledger_total [] = 0" "ledger_total (r # rs) = lr_amount r + ledger_total rs"
  "ledger_total (xs @ ys) = ledger_total xs + ledger_total ys"
  by (simp_all add: ledger_total_def)

lemma running_snoc:
  "running b (rs @ [r]) \<longleftrightarrow> running b rs \<and> lr_balanceAfter r = b + ledger_total rs + lr_amount r"
  by (induction rs arbitrary: b) (simp_all add: add.assoc)

lemma running_nth:
  "running b rs \<Longrightarrow> i < length rs \<Longrightarrow> lr_balanceAfter (rs ! i) = b + ledger_total (take (Suc i) rs)"
proof (induction rs arbitrary: b i)
  case (Cons r rs)
  then show ?case
    using Cons.IH [of "b + lr_amount r" "i - 1"] by (cases i) (simp_all add: add.assoc)
qed simp

definition ledger_inv :: "credits_db \<Rightarrow> bool" where
  "ledger_inv db \<longleftrightarrow>
     (\<forall>k. running 0 (org_rows db k) \<and> balance_of db k = ledger_total (org_rows db k) \<and>
          in_int4 (balance_of db k))"

lemma ledger_inv_posts:
  assumes "posts db org row entry db'" and "ledger_inv db"
  shows "ledger_inv db'"
  unfolding ledger_inv_def
proof
  fix k
  from assms(2) have k: "running 0 (org_rows db k)" "balance_of db k = ledger_total (org_rows db k)"
    "in_int4 (balance_of db k)"
    unfolding ledger_inv_def by blast+
  show "running 0 (org_rows db' k) \<and> balance_of db' k = ledger_total (org_rows db' k) \<and>
          in_int4 (balance_of db' k)"
  proof (cases "k = org")
    case True
    from assms(1) have "lr_balanceAfter entry = balance_of db org + lr_amount entry"
      "in_int4 (balance_of db org + lr_amount entry)"
      by (auto simp: posts_def)
    with True k show ?thesis
      by (simp add: posts_org_rows [OF assms(1)] posts_balance_of [OF assms(1)] running_snoc)
  next
    case False
    with k show ?thesis
      by (simp add: posts_org_rows [OF assms(1)] posts_balance_of [OF assms(1)])
  qed
qed

lemma ledger_inv_step: "ledger_inv db \<Longrightarrow> ledger_inv (credits_step db op)"
  by (cases rule: credits_step_cases [of db op]) (auto intro: ledger_inv_posts)

interpretation ledger: invariant_machine credits_step ledger_inv
  by unfold_locales (rule ledger_inv_step)

definition empty_db :: credits_db where
  "empty_db = \<lparr>creditBalances = [], creditLedger = []\<rparr>"

lemma ledger_inv_empty: "ledger_inv empty_db"
  by (simp add: ledger_inv_def empty_db_def org_rows_def balance_of_def read_balance_def
      toBalanceRecord_def in_int4_def)

subsection \<open>The warnings\<close>

text \<open>What a charge reports, as the caller that notifies on it sees it.\<close>

definition charge_out :: "credits_db \<Rightarrow> credits_op \<Rightarrow> (org \<times> charge_result) option" where
  "charge_out db op =
     (case op of
        OpCharge now uid c \<Rightarrow>
          (case charge now uid c db of Inl _ \<Rightarrow> None | Inr (res, _) \<Rightarrow> Some (ch_org c, res))
      | _ \<Rightarrow> None)"

definition reports_low :: "org \<Rightarrow> credits_db \<Rightarrow> credits_op \<Rightarrow> bool" where
  "reports_low org db op \<longleftrightarrow>
     (case charge_out db op of Some (k, res) \<Rightarrow> k = org \<and> crossedLow res | None \<Rightarrow> False)"

definition reports_empty :: "org \<Rightarrow> credits_db \<Rightarrow> credits_op \<Rightarrow> bool" where
  "reports_empty org db op \<longleftrightarrow>
     (case charge_out db op of Some (k, res) \<Rightarrow> k = org \<and> crossedEmpty res | None \<Rightarrow> False)"

fun count_reports ::
    "(credits_db \<Rightarrow> credits_op \<Rightarrow> bool) \<Rightarrow> credits_db \<Rightarrow> credits_op list \<Rightarrow> nat" where
  "count_reports R db [] = 0"
| "count_reports R db (op # ops) =
     (if R db op then 1 else 0) + count_reports R (credits_step db op) ops"

definition grants_to :: "org \<Rightarrow> credits_op \<Rightarrow> bool" where
  "grants_to org op \<longleftrightarrow> (case op of OpGrant _ _ m \<Rightarrow> mv_org m = org | _ \<Rightarrow> False)"

definition low_stamped :: "org \<Rightarrow> credits_db \<Rightarrow> bool" where
  "low_stamped org db \<longleftrightarrow> (\<exists>r. row_of db org = Some r \<and> br_lowNotifiedAt r \<noteq> None)"

definition empty_stamped :: "org \<Rightarrow> credits_db \<Rightarrow> bool" where
  "empty_stamped org db \<longleftrightarrow> (\<exists>r. row_of db org = Some r \<and> br_emptyNotifiedAt r \<noteq> None)"

lemma held_row_Some: "row_of db org = Some r \<Longrightarrow> held_row now org db = r"
  by (simp add: held_row_def row_of_def)

lemma held_row_None: "row_of db org = None \<Longrightarrow> held_row now org db = fresh_row now"
  by (simp add: held_row_def row_of_def)

lemma stamped_held:
  "low_stamped org db \<longleftrightarrow> br_lowNotifiedAt (held_row now org db) \<noteq> None"
  "empty_stamped org db \<longleftrightarrow> br_emptyNotifiedAt (held_row now org db) \<noteq> None"
  by (cases "row_of db org";
      simp add: low_stamped_def empty_stamped_def held_row_Some held_row_None fresh_row_def)+

text \<open>What one movement that is not a grant to the workspace does to its stamps.\<close>

lemma stamps_charge:
  assumes "charge now uid c db = Inr (res, db')"
  shows "low_stamped (ch_org c) db' \<longleftrightarrow> low_stamped (ch_org c) db \<or> crossedLow res"
    and "empty_stamped (ch_org c) db' \<longleftrightarrow> empty_stamped (ch_org c) db \<or> crossedEmpty res"
    and "crossedLow res \<Longrightarrow> \<not> low_stamped (ch_org c) db"
    and "crossedEmpty res \<Longrightarrow> \<not> empty_stamped (ch_org c) db"
proof -
  obtain row entry where p: "posts db (ch_org c) row entry db'"
    "crossedLow res = crosses_low (held_row now (ch_org c) db) (br_balance row)"
    "crossedEmpty res = crosses_empty (held_row now (ch_org c) db) (br_balance row)"
    "br_lowNotifiedAt row =
       (if crossedLow res then Some now else br_lowNotifiedAt (held_row now (ch_org c) db))"
    "br_emptyNotifiedAt row =
       (if crossedEmpty res then Some now else br_emptyNotifiedAt (held_row now (ch_org c) db))"
    using charge_posts [OF assms] by blast
  have row: "row_of db' (ch_org c) = Some row"
    by (simp add: posts_row_of [OF p(1)])
  show "low_stamped (ch_org c) db' \<longleftrightarrow> low_stamped (ch_org c) db \<or> crossedLow res"
    "empty_stamped (ch_org c) db' \<longleftrightarrow> empty_stamped (ch_org c) db \<or> crossedEmpty res"
    using row p(4,5) by (auto simp: stamped_held [where now = now] held_row_Some)
  show "crossedLow res \<Longrightarrow> \<not> low_stamped (ch_org c) db"
    "crossedEmpty res \<Longrightarrow> \<not> empty_stamped (ch_org c) db"
    using p(2,3) by (auto simp: stamped_held [where now = now] crosses_low_def crosses_empty_def)
qed

lemma stamps_other:
  assumes "posts db org' row entry db'" and "org \<noteq> org'"
  shows "low_stamped org db' = low_stamped org db" "empty_stamped org db' = empty_stamped org db"
  using assms by (simp_all add: low_stamped_def empty_stamped_def posts_row_of [OF assms(1)])

lemma stamps_move:
  assumes "move now uid kind m db = Inr (entry, db')" and "kind = Grant \<longrightarrow> mv_org m \<noteq> org"
  shows "low_stamped org db' = low_stamped org db \<and> empty_stamped org db' = empty_stamped org db"
proof -
  obtain row where p: "posts db (mv_org m) row entry db'"
    "kind \<noteq> Grant \<longrightarrow>
        br_lowNotifiedAt row = br_lowNotifiedAt (held_row now (mv_org m) db) \<and>
        br_emptyNotifiedAt row = br_emptyNotifiedAt (held_row now (mv_org m) db)"
    using move_posts [OF assms(1)] by blast
  show ?thesis
  proof (cases "mv_org m = org")
    case True
    with assms(2) p have "row_of db' org = Some row" "kind \<noteq> Grant"
      by (auto simp: posts_row_of [OF p(1)])
    with True p(2) show ?thesis by (simp add: stamped_held [where now = now] held_row_Some)
  next
    case False
    with stamps_other [OF p(1)] show ?thesis by auto
  qed
qed

lemma stamps_step:
  assumes "\<not> grants_to org op"
  shows "low_stamped org (credits_step db op) \<longleftrightarrow> low_stamped org db \<or> reports_low org db op"
    and "empty_stamped org (credits_step db op) \<longleftrightarrow> empty_stamped org db \<or> reports_empty org db op"
    and "reports_low org db op \<Longrightarrow> \<not> low_stamped org db"
    and "reports_empty org db op \<Longrightarrow> \<not> empty_stamped org db"
proof -
  have "(low_stamped org (credits_step db op) \<longleftrightarrow> low_stamped org db \<or> reports_low org db op) \<and>
    (empty_stamped org (credits_step db op) \<longleftrightarrow> empty_stamped org db \<or> reports_empty org db op) \<and>
    (reports_low org db op \<longrightarrow> \<not> low_stamped org db) \<and>
    (reports_empty org db op \<longrightarrow> \<not> empty_stamped org db)"
  proof (cases op)
    case (OpCharge now uid c)
    show ?thesis
    proof (cases "charge now uid c db")
      case (Inr p)
      then obtain res db' where c: "charge now uid c db = Inr (res, db')" by (cases p) auto
      obtain row entry where "posts db (ch_org c) row entry db'"
        using charge_posts [OF c] by blast
      note o = stamps_other [OF this, of org]
      have st: "credits_step db op = db'"
        "reports_low org db op \<longleftrightarrow> ch_org c = org \<and> crossedLow res"
        "reports_empty org db op \<longleftrightarrow> ch_org c = org \<and> crossedEmpty res"
        by (simp_all add: OpCharge c credits_step_def charge_out_def reports_low_def reports_empty_def)
      show ?thesis
        unfolding st using stamps_charge [OF c] o by (cases "ch_org c = org") auto
    qed (simp add: OpCharge credits_step_def charge_out_def reports_low_def reports_empty_def)
  qed (use assms stamps_move in
      \<open>auto simp: credits_step_def grant_credits_def adjust_credits_def charge_out_def
        reports_low_def reports_empty_def grants_to_def split: sum.splits\<close>)
  then show "low_stamped org (credits_step db op) \<longleftrightarrow> low_stamped org db \<or> reports_low org db op"
    and "empty_stamped org (credits_step db op) \<longleftrightarrow> empty_stamped org db \<or> reports_empty org db op"
    and "reports_low org db op \<Longrightarrow> \<not> low_stamped org db"
    and "reports_empty org db op \<Longrightarrow> \<not> empty_stamped org db"
    by blast+
qed

lemma count_reports_latch:
  assumes "\<And>db op. op \<in> set ops \<Longrightarrow>
      (stamped (credits_step db op) \<longleftrightarrow> stamped db \<or> R db op) \<and> (R db op \<longrightarrow> \<not> stamped db)"
  shows "count_reports R db ops =
     (if stamped (foldl credits_step db ops) \<and> \<not> stamped db then 1 else 0)"
  using assms
proof (induction ops arbitrary: db)
  case (Cons op ops)
  have 1: "stamped (credits_step db op) \<longleftrightarrow> stamped db \<or> R db op" "R db op \<longrightarrow> \<not> stamped db"
    using Cons.prems [of op db] by auto
  have "stamped d \<Longrightarrow> stamped (foldl credits_step d ops)" for d
    using Cons.prems by (induction ops arbitrary: d) auto
  moreover have "count_reports R (credits_step db op) ops =
     (if stamped (foldl credits_step (credits_step db op) ops) \<and> \<not> stamped (credits_step db op)
      then 1 else 0)"
    using Cons.prems by (intro Cons.IH) auto
  ultimately show ?case using 1 by auto
qed simp

subsection \<open>The reads of the ledger\<close>

text \<open>Newest first: \<open>ORDER BY created_at DESC, id DESC LIMIT\<close>.\<close>

definition newest :: "ledger_row list \<Rightarrow> ledger_row list" where
  "newest rows = rev (sort_key lr_createdAt (sort_key lr_id rows))"

definition ledger_read :: "credits_db \<Rightarrow> org \<Rightarrow> nat \<Rightarrow> ledger_row list" where
  "ledger_read db org limit = take limit (newest (org_rows db org))"

text \<open>What the statement reads of a row of \<open>llm_usage\<close>.\<close>

record usage_row =
  us_id :: uuid
  us_jobId :: string
  us_runId :: "string option"
  us_jobType :: string
  us_repoFullName :: "string option"

record statement_line =
  sl_id :: string
  sl_kind :: ledger_kind
  sl_amount :: int
  sl_balanceAfter :: int
  sl_actorUserId :: "string option"
  sl_note :: "string option"
  sl_createdAt :: time
  sl_jobId :: "string option"
  sl_runId :: "string option"
  sl_jobType :: "string option"
  sl_repoFullName :: "string option"

text \<open>\<open>max\<close> and \<open>min\<close> of a column as SQL has them: a null is passed over, and of nothing it is null.\<close>

definition sql_max :: "'a :: linorder option list \<Rightarrow> 'a option" where
  "sql_max xs = (case concat (map (\<lambda>x. case x of None \<Rightarrow> [] | Some y \<Rightarrow> [y]) xs) of
                   [] \<Rightarrow> None | y # ys \<Rightarrow> Some (foldl max y ys))"

definition sql_min :: "'a :: linorder option list \<Rightarrow> 'a option" where
  "sql_min xs = (case concat (map (\<lambda>x. case x of None \<Rightarrow> [] | Some y \<Rightarrow> [y]) xs) of
                   [] \<Rightarrow> None | y # ys \<Rightarrow> Some (foldl min y ys))"

text \<open>The inner join of the workspace's debits with the usage rows they charge.\<close>

definition charged_debits :: "credits_db \<Rightarrow> usage_row list \<Rightarrow> org \<Rightarrow> (ledger_row \<times> usage_row) list" where
  "charged_debits db usage org =
     concat (map (\<lambda>l. map (Pair l) (filter (\<lambda>u. lr_usageId l = Some (us_id u)) usage))
       (filter (\<lambda>l. lr_kind l = Debit) (org_rows db org)))"

definition debit_line :: "string \<times> (ledger_row \<times> usage_row) list \<Rightarrow> statement_line" where
  "debit_line g =
     (let ls = map fst (snd g); us = map snd (snd g)
      in \<lparr>sl_id = ''run:'' @ fst g, sl_kind = Debit, sl_amount = sum_list (map lr_amount ls),
          sl_balanceAfter = lr_balanceAfter (hd (newest ls)), sl_actorUserId = None, sl_note = None,
          sl_createdAt = lr_createdAt (hd (newest ls)), sl_jobId = Some (fst g),
          sl_runId = sql_max (map us_runId us), sl_jobType = sql_min (map (Some \<circ> us_jobType) us),
          sl_repoFullName = sql_min (map us_repoFullName us)\<rparr>)"

definition movement_line :: "ledger_row \<Rightarrow> statement_line" where
  "movement_line r =
     \<lparr>sl_id = lr_id r, sl_kind = lr_kind r, sl_amount = lr_amount r, sl_balanceAfter = lr_balanceAfter r,
      sl_actorUserId = lr_actorUserId r, sl_note = lr_note r, sl_createdAt = lr_createdAt r,
      sl_jobId = None, sl_runId = None, sl_jobType = None, sl_repoFullName = None\<rparr>"

text \<open>Newest line first; lines of one instant keep their order.\<close>

definition newest_lines :: "statement_line list \<Rightarrow> statement_line list" where
  "newest_lines ls = rev (sort_key sl_createdAt (rev ls))"

definition statement :: "credits_db \<Rightarrow> usage_row list \<Rightarrow> org \<Rightarrow> nat \<Rightarrow> statement_line list" where
  "statement db usage org limit =
     (let movements = take limit (newest (filter (\<lambda>r. lr_kind r \<noteq> Debit) (org_rows db org)));
          debits = take limit (newest_lines (map debit_line
                     (buckets (us_jobId \<circ> snd) (charged_debits db usage org))))
      in take limit (newest_lines (map movement_line movements @ debits)))"

record workspace_record =
  wk_org :: org
  wk_balance :: balance_record
  wk_spentRecently :: int

definition spent_since :: "credits_db \<Rightarrow> time \<Rightarrow> org \<Rightarrow> int" where
  "spent_since db since org =
     \<bar>ledger_total (filter (\<lambda>r. lr_kind r = Debit \<and> since \<le> lr_createdAt r) (org_rows db org))\<bar>"

definition workspaces :: "credits_db \<Rightarrow> org list \<Rightarrow> org list \<Rightarrow> time \<Rightarrow> workspace_record list" where
  "workspaces db providers repositories since =
     map (\<lambda>org. \<lparr>wk_org = org, wk_balance = read_balance db org, wk_spentRecently = spent_since db since org\<rparr>)
       (sort (js_set (map fst (creditBalances db) @ js_set providers @ js_set repositories)))"

subsection \<open>The ledger's properties\<close>

text \<open>C11: The ledger is arithmetic: after any movements, failed ones included, each entry of a workspace
  shows the sum of the amounts up to it, and the balance is the sum of them all.\<close>

theorem ledger_is_arithmetic:
  "map lr_balanceAfter (org_rows (foldl credits_step empty_db ops) org)
     = map (\<lambda>i. ledger_total (take (Suc i) (org_rows (foldl credits_step empty_db ops) org)))
         [0..<length (org_rows (foldl credits_step empty_db ops) org)]
   \<and> balance_of (foldl credits_step empty_db ops) org
     = ledger_total (org_rows (foldl credits_step empty_db ops) org)"
proof -
  let ?rows = "org_rows (foldl credits_step empty_db ops) org"
  have "ledger_inv (foldl credits_step empty_db ops)"
    by (rule ledger.run_inv [OF ledger_inv_empty])
  then have r: "running 0 ?rows" "balance_of (foldl credits_step empty_db ops) org = ledger_total ?rows"
    unfolding ledger_inv_def by blast+
  have "map lr_balanceAfter ?rows = map (\<lambda>i. ledger_total (take (Suc i) ?rows)) [0..<length ?rows]"
    using running_nth [OF r(1)] by (intro nth_equalityI) simp_all
  with r(2) show ?thesis by blast
qed

text \<open>Each warning is given once per grant: between two grants to a workspace, at most one charge
  reports the low line crossed and at most one reports the balance emptied.\<close>

theorem warned_once_per_grant:
  assumes "list_all (\<lambda>op. \<not> grants_to org op) ops"
  shows "count_reports (reports_low org) db ops \<le> 1 \<and> count_reports (reports_empty org) db ops \<le> 1"
proof -
  have other: "\<not> grants_to org op" if "op \<in> set ops" for op
    using assms that by (auto simp: list_all_iff)
  have "count_reports (reports_low org) db ops
      = (if low_stamped org (foldl credits_step db ops) \<and> \<not> low_stamped org db then 1 else 0)"
  proof (rule count_reports_latch)
    fix d op assume "op \<in> set ops"
    from stamps_step(1,3) [OF other [OF this]]
    show "(low_stamped org (credits_step d op) \<longleftrightarrow> low_stamped org d \<or> reports_low org d op) \<and>
      (reports_low org d op \<longrightarrow> \<not> low_stamped org d)" by blast
  qed
  moreover have "count_reports (reports_empty org) db ops
      = (if empty_stamped org (foldl credits_step db ops) \<and> \<not> empty_stamped org db then 1 else 0)"
  proof (rule count_reports_latch)
    fix d op assume "op \<in> set ops"
    from stamps_step(2,4) [OF other [OF this]]
    show "(empty_stamped org (credits_step d op) \<longleftrightarrow> empty_stamped org d \<or> reports_empty org d op) \<and>
      (reports_empty org d op \<longrightarrow> \<not> empty_stamped org d)" by blast
  qed
  ultimately show ?thesis by simp
qed

definition demo_charge :: "int \<Rightarrow> credits_op" where
  "demo_charge n = OpCharge ''2'' ''c'' \<lparr>ch_org = ''o'', ch_credits = n, ch_usageId = ''u''\<rparr>"

definition demo_db :: credits_db where
  "demo_db = credits_step empty_db (OpGrant ''1'' ''g''
     \<lparr>mv_org = ''o'', mv_credits = 100, mv_actor = ''op'', mv_note = None\<rparr>)"

theorem warned_once_per_grant_witness:
  "count_reports (reports_low ''o'') demo_db [demo_charge 95, demo_charge 10, demo_charge 1] = 1
   \<and> count_reports (reports_empty ''o'') demo_db [demo_charge 95, demo_charge 10, demo_charge 1] \<le> 1"
proof -
  have "list_all (\<lambda>op. \<not> grants_to ''o'' op) [demo_charge 95, demo_charge 10, demo_charge 1]"
    by (simp add: demo_charge_def grants_to_def)
  moreover have "reports_low ''o'' demo_db (demo_charge 95)"
    by (simp add: demo_db_def demo_charge_def reports_low_def charge_out_def charge_def credits_step_def
        grant_credits_def move_def lockBalance_def empty_db_def crosses_low_def low_line_def in_int4_def
        fresh_row_def Let_def)
  ultimately show ?thesis
    using warned_once_per_grant [of "''o''" "[demo_charge 95, demo_charge 10, demo_charge 1]" demo_db] by simp
qed

subsection \<open>The statement adds up\<close>

lemma length_buckets: "length (buckets key xs) \<le> length xs"
proof -
  have "set (map fst (buckets key xs)) \<subseteq> key ` set xs"
    by (force simp: buckets_member)
  then have "card (set (map fst (buckets key xs))) \<le> card (key ` set xs)"
    by (simp add: card_mono del: set_map)
  also have "\<dots> \<le> length xs"
    using card_image_le [of "set xs" key] card_length [of xs] by simp
  finally show ?thesis
    using distinct_card [OF distinct_buckets, of key xs] by simp
qed

lemma mset_newest [simp]: "mset (newest rows) = mset rows" "mset (newest_lines ls) = mset ls"
  by (simp_all add: newest_def newest_lines_def)

lemma length_newest [simp]: "length (newest rows) = length rows" "length (newest_lines ls) = length ls"
  by (simp_all add: newest_def newest_lines_def)

lemma sum_newest:
  "sum_list (map f (newest rows)) = sum_list (map (f :: _ \<Rightarrow> int) rows)"
  "sum_list (map g (newest_lines ls)) = sum_list (map (g :: _ \<Rightarrow> int) ls)"
  unfolding sum_mset_sum_list [symmetric] by (simp_all add: mset_map)

lemma charged_once:
  assumes "\<And>l. l \<in> set ds \<Longrightarrow> length (filter (\<lambda>u. lr_usageId l = Some (us_id u)) usage) = 1"
  shows "map fst (concat (map (\<lambda>l. map (Pair l) (filter (\<lambda>u. lr_usageId l = Some (us_id u)) usage)) ds)) = ds"
  using assms
proof (induction ds)
  case (Cons l ds)
  have "length (filter (\<lambda>u. lr_usageId l = Some (us_id u)) usage) = Suc 0"
    using Cons.prems [of l] by simp
  then obtain u where u: "filter (\<lambda>u. lr_usageId l = Some (us_id u)) usage = [u]"
    unfolding length_Suc_conv by blast
  have "map fst (concat (map (\<lambda>l. map (Pair l) (filter (\<lambda>u. lr_usageId l = Some (us_id u)) usage)) ds)) = ds"
    by (rule Cons.IH) (simp add: Cons.prems)
  then show ?case by (simp add: u)
qed simp

lemma sum_by_kind:
  "ledger_total (filter (\<lambda>r. lr_kind r \<noteq> k) rs) + ledger_total (filter (\<lambda>r. lr_kind r = k) rs) = ledger_total rs"
  by (induction rs) auto

lemma length_by_kind:
  "length (filter (\<lambda>r. lr_kind r \<noteq> k) rs) + length (filter (\<lambda>r. lr_kind r = k) rs) = length rs"
  by (induction rs) auto

lemma statement_total:
  assumes "\<And>l. l \<in> set (org_rows db org) \<Longrightarrow> lr_kind l = Debit \<Longrightarrow>
      length (filter (\<lambda>u. lr_usageId l = Some (us_id u)) usage) = 1"
    and "length (org_rows db org) \<le> limit"
  shows "sum_list (map sl_amount (statement db usage org limit)) = ledger_total (org_rows db org)"
proof -
  let ?rows = "org_rows db org"
  let ?moves = "filter (\<lambda>r. lr_kind r \<noteq> Debit) ?rows" and ?debits = "filter (\<lambda>r. lr_kind r = Debit) ?rows"
  let ?lines = "map debit_line (buckets (us_jobId \<circ> snd) (charged_debits db usage org))"
  have charged: "map fst (charged_debits db usage org) = ?debits"
    unfolding charged_debits_def by (rule charged_once) (use assms(1) in simp)
  have "length ?lines \<le> length ?debits"
    using length_buckets [of "us_jobId \<circ> snd" "charged_debits db usage org"] arg_cong [OF charged, of length]
    by simp
  then have fits: "length ?lines \<le> limit" "length ?moves \<le> limit" "length ?moves + length ?lines \<le> limit"
    using length_by_kind [of Debit ?rows] assms(2) by linarith+
  have "sum_list (map sl_amount ?lines)
      = sum_list (map ((\<lambda>g. ledger_total (map fst g)) \<circ> snd)
          (buckets (us_jobId \<circ> snd) (charged_debits db usage org)))"
    by (simp add: debit_line_def Let_def ledger_total_def comp_def)
  also have "\<dots> = ledger_total (map fst (charged_debits db usage org))"
    by (rule sum_list_buckets) simp_all
  finally have lines: "sum_list (map sl_amount ?lines) = ledger_total ?debits"
    using charged by simp
  have moves: "sum_list (map sl_amount (map movement_line ?moves)) = ledger_total ?moves"
    by (simp add: movement_line_def ledger_total_def comp_def)
  have "sum_list (map (sl_amount \<circ> movement_line) (newest ?moves)) = ledger_total ?moves"
    using moves by (simp only: sum_newest map_map)
  then show ?thesis
    using fits lines sum_by_kind [of Debit ?rows]
    by (simp add: statement_def Let_def sum_newest)
qed

text \<open>The statement adds up: where every charge carries the one usage row it pays for, and the statement is
  asked for at least as many lines as there are movements, its lines, one per operator movement and one
  per run, sum to the balance of the workspace.\<close>

theorem statement_adds_up:
  assumes "\<forall>l\<in>set (org_rows (foldl credits_step empty_db ops) org). lr_kind l = Debit \<longrightarrow>
      length (filter (\<lambda>u. lr_usageId l = Some (us_id u)) usage) = 1"
    and "length (org_rows (foldl credits_step empty_db ops) org) \<le> limit"
  shows "sum_list (map sl_amount (statement (foldl credits_step empty_db ops) usage org limit))
    = balance_of (foldl credits_step empty_db ops) org"
proof -
  have "ledger_inv (foldl credits_step empty_db ops)"
    by (rule ledger.run_inv [OF ledger_inv_empty])
  then show ?thesis
    using statement_total [of "foldl credits_step empty_db ops" org usage limit] assms
    unfolding ledger_inv_def by simp
qed

definition demo_usage :: usage_row where
  "demo_usage = \<lparr>us_id = ''u'', us_jobId = ''j'', us_runId = None, us_jobType = ''t'', us_repoFullName = None\<rparr>"

definition demo_ops :: "credits_op list" where
  "demo_ops = [OpGrant ''1'' ''g'' \<lparr>mv_org = ''o'', mv_credits = 100, mv_actor = ''op'', mv_note = None\<rparr>,
     demo_charge 30, demo_charge 5]"

lemma demo_org_rows:
  "map (\<lambda>r. (lr_kind r, lr_usageId r)) (org_rows (foldl credits_step empty_db demo_ops) ''o'')
     = [(Grant, None), (Debit, Some ''u''), (Debit, Some ''u'')]"
  by (simp add: demo_ops_def demo_charge_def charge_def credits_step_def org_rows_def
      grant_credits_def move_def lockBalance_def empty_db_def crosses_low_def low_line_def in_int4_def
      fresh_row_def Let_def)

theorem statement_adds_up_witness:
  "sum_list (map sl_amount (statement (foldl credits_step empty_db demo_ops) [demo_usage] ''o'' 5))
     = balance_of (foldl credits_step empty_db demo_ops) ''o''"
proof -
  let ?rows = "org_rows (foldl credits_step empty_db demo_ops) ''o''"
  have "length ?rows = 3" using arg_cong [OF demo_org_rows, of length] by simp
  moreover have "lr_usageId l = Some ''u''" if "l \<in> set ?rows" "lr_kind l = Debit" for l
  proof -
    have "(lr_kind l, lr_usageId l) \<in> set (map (\<lambda>r. (lr_kind r, lr_usageId r)) ?rows)"
      using that(1) by force
    then show ?thesis using that(2) unfolding demo_org_rows by auto
  qed
  ultimately show ?thesis
    by (intro statement_adds_up) (auto simp: demo_usage_def)
qed

end
