(* ===== verification/JobStore.thy ===== *)
theory JobStore
  imports Prelude
begin

text \<open>
  The rows a background job and its notifications live in: \<open>JobStore\<close> and \<open>NotificationStore\<close> of
  \<open>packages/data-store/src/jobs-store.ts\<close>, over the tables of \<open>packages/db/src/schema/jobs.ts\<close>,
  with the vocabulary of \<open>packages/shared/src/types/jobs.ts\<close>.

  Each method is one statement, so it is one function on the table. The table has a primary key
  and the partial unique index on \<open>(workspace_org_id, key) WHERE status IN ('queued','running')\<close>:
  an insert or an update that would break either is the error 23505 and changes nothing. SQL leaves
  the order of rows with equal sort keys open; here such rows keep the table's order.
\<close>

datatype job_status =
  Queued | Running | Succeeded | Failed | Cancelled | Interrupted | Paused

datatype pause_reason = PauseCredits

record job_row =
  j_id :: uuid
  j_org :: string
  j_type :: string
  j_key :: "string option"
  j_status :: job_status
  j_pauseReason :: "pause_reason option"
  j_progressCurrent :: nat
  j_progressTotal :: nat
  j_progressMessage :: "string option"
  j_payload :: "json_object option"
  j_result :: "json option"
  j_error :: "string option"
  j_createdAt :: time
  j_startedAt :: "time option"
  j_finishedAt :: "time option"

record job_progress =
  p_current :: nat
  p_total :: nat
  p_message :: "string option"

record job_view =
  v_id :: uuid
  v_org :: string
  v_type :: string
  v_key :: "string option"
  v_status :: job_status
  v_progress :: job_progress
  v_result :: "json option"
  v_error :: "string option"
  v_pauseReason :: "pause_reason option"
  v_createdAt :: time
  v_startedAt :: "time option"
  v_finishedAt :: "time option"

record paused_job =
  pj_id :: uuid
  pj_org :: string
  pj_type :: string
  pj_key :: "string option"
  pj_payload :: "json_object option"
  pj_reason :: "pause_reason option"
  pj_pausedAt :: "time option"

record orphaned_job =
  oj_id :: uuid
  oj_org :: string
  oj_type :: string
  oj_key :: "string option"
  oj_payload :: "json_object option"

datatype job_error = ActiveJobExists job_view | UniqueViolation

definition isActiveJob :: "job_status \<Rightarrow> bool" where
  "isActiveJob s \<longleftrightarrow> s = Queued \<or> s = Running"

definition toJobView :: "job_row \<Rightarrow> job_view" where
  "toJobView r =
     \<lparr>v_id = j_id r, v_org = j_org r, v_type = j_type r, v_key = j_key r, v_status = j_status r,
      v_progress = \<lparr>p_current = j_progressCurrent r, p_total = j_progressTotal r,
                     p_message = j_progressMessage r\<rparr>,
      v_result = j_result r, v_error = j_error r, v_pauseReason = j_pauseReason r,
      v_createdAt = j_createdAt r, v_startedAt = j_startedAt r, v_finishedAt = j_finishedAt r\<rparr>"

definition toPausedJob :: "job_row \<Rightarrow> paused_job" where
  "toPausedJob r =
     \<lparr>pj_id = j_id r, pj_org = j_org r, pj_type = j_type r, pj_key = j_key r,
      pj_payload = j_payload r, pj_reason = j_pauseReason r, pj_pausedAt = j_finishedAt r\<rparr>"

definition toOrphanedJob :: "job_row \<Rightarrow> orphaned_job" where
  "toOrphanedJob r =
     \<lparr>oj_id = j_id r, oj_org = j_org r, oj_type = j_type r, oj_key = j_key r,
      oj_payload = j_payload r\<rparr>"

subsection \<open>The index\<close>

text \<open>Two rows the partial unique index refuses to hold together.\<close>

definition same_active_key :: "job_row \<Rightarrow> job_row \<Rightarrow> bool" where
  "same_active_key a b \<longleftrightarrow>
     isActiveJob (j_status a) \<and> isActiveJob (j_status b) \<and>
     j_org a = j_org b \<and> (case j_key a of None \<Rightarrow> False | Some k \<Rightarrow> j_key b = Some k)"

definition insert_violates :: "job_row \<Rightarrow> job_row list \<Rightarrow> bool" where
  "insert_violates row rows \<longleftrightarrow> (\<exists>r\<in>set rows. j_id r = j_id row \<or> same_active_key r row)"

definition update_violates :: "uuid \<Rightarrow> job_row \<Rightarrow> job_row list \<Rightarrow> bool" where
  "update_violates i row' rows \<longleftrightarrow> (\<exists>r\<in>set rows. j_id r \<noteq> i \<and> same_active_key r row')"

subsection \<open>Reads\<close>

definition get :: "job_row list \<Rightarrow> uuid \<Rightarrow> string option \<Rightarrow> job_view option" where
  "get rows i org =
     map_option toJobView
       (find (\<lambda>r. j_id r = i \<and> (truthy org \<longrightarrow> org = Some (j_org r))) rows)"

definition getActiveByKey :: "job_row list \<Rightarrow> string \<Rightarrow> string \<Rightarrow> job_view option" where
  "getActiveByKey rows org k =
     map_option toJobView
       (find (\<lambda>r. j_org r = org \<and> j_key r = Some k \<and> isActiveJob (j_status r)) rows)"

definition listActive :: "job_row list \<Rightarrow> string \<Rightarrow> string option \<Rightarrow> job_view list" where
  "listActive rows org ty =
     map toJobView (rev (sort_key j_createdAt
       (filter (\<lambda>r. j_org r = org \<and> (truthy ty \<longrightarrow> ty = Some (j_type r)) \<and>
                    isActiveJob (j_status r)) rows)))"

definition listForOrg :: "job_row list \<Rightarrow> string \<Rightarrow> nat \<Rightarrow> job_view list" where
  "listForOrg rows org limit =
     map toJobView (take limit (rev (sort_key j_createdAt (filter (\<lambda>r. j_org r = org) rows))))"

text \<open>\<open>ORDER BY finished_at, created_at\<close>, both ascending; Postgres puts a null last.\<close>

definition pause_order :: "job_row \<Rightarrow> bool \<times> time" where
  "pause_order r = (j_finishedAt r = None, case j_finishedAt r of None \<Rightarrow> [] | Some t \<Rightarrow> t)"

definition paused_rows :: "job_row list \<Rightarrow> string \<Rightarrow> job_row list" where
  "paused_rows rows org =
     sort_key (\<lambda>r. fst (pause_order r))
       (sort_key (\<lambda>r. snd (pause_order r))
         (sort_key j_createdAt (filter (\<lambda>r. j_org r = org \<and> j_status r = Paused) rows)))"

definition listPaused :: "job_row list \<Rightarrow> string \<Rightarrow> paused_job list" where
  "listPaused rows org = map toPausedJob (paused_rows rows org)"

text \<open>\<open>GROUP BY\<close>: one count per workspace that has a paused row.\<close>

definition pausedCounts :: "job_row list \<Rightarrow> string list \<Rightarrow> (string \<times> nat) list" where
  "pausedCounts rows orgs =
     (if orgs = [] then []
      else let hits = filter (\<lambda>r. j_org r \<in> set orgs \<and> j_status r = Paused) rows
           in map (\<lambda>o'. (o', length (filter (\<lambda>r. j_org r = o') hits)))
                  (js_set (map j_org hits)))"

record job_filters =
  f_org :: "string option"
  f_type :: "string option"
  f_status :: "job_status option"
  f_limit :: "nat option"

definition listAll :: "job_row list \<Rightarrow> job_filters \<Rightarrow> job_view list" where
  "listAll rows f =
     map toJobView (take (case f_limit f of None \<Rightarrow> 100 | Some n \<Rightarrow> n)
       (rev (sort_key j_createdAt
         (filter (\<lambda>r. (truthy (f_org f) \<longrightarrow> f_org f = Some (j_org r)) \<and>
                      (truthy (f_type f) \<longrightarrow> f_type f = Some (j_type r)) \<and>
                      (f_status f \<noteq> None \<longrightarrow> f_status f = Some (j_status r))) rows))))"

subsection \<open>Writes\<close>

record create_input =
  in_org :: string
  in_type :: string
  in_key :: "string option"
  in_payload :: "json_object option"

definition queued_row :: "time \<Rightarrow> uuid \<Rightarrow> create_input \<Rightarrow> job_row" where
  "queued_row now uid input =
     \<lparr>j_id = uid, j_org = in_org input, j_type = in_type input, j_key = in_key input,
      j_status = Queued, j_pauseReason = None, j_progressCurrent = 0, j_progressTotal = 0,
      j_progressMessage = None, j_payload = in_payload input, j_result = None, j_error = None,
      j_createdAt = now, j_startedAt = None, j_finishedAt = None\<rparr>"

definition create ::
    "time \<Rightarrow> uuid \<Rightarrow> create_input \<Rightarrow> job_row list \<Rightarrow> job_error + (job_view \<times> job_row list)" where
  "create now uid input rows =
     (let row = queued_row now uid input
      in if \<not> insert_violates row rows then Inr (toJobView row, rows @ [row])
         else if truthy (in_key input)
              then (case getActiveByKey rows (in_org input) (the (in_key input)) of
                      Some existing \<Rightarrow> Inl (ActiveJobExists existing)
                    | None \<Rightarrow> Inl UniqueViolation)
              else Inl UniqueViolation)"

text \<open>\<open>UPDATE ... WHERE id = i AND P RETURNING *\<close>, with the view of the row it returns.\<close>

definition update_job ::
    "uuid \<Rightarrow> (job_row \<Rightarrow> bool) \<Rightarrow> (job_row \<Rightarrow> job_row) \<Rightarrow> job_row list
      \<Rightarrow> job_view option \<times> job_row list" where
  "update_job i P f rows =
     (map_option toJobView (returning_first (\<lambda>r. j_id r = i \<and> P r) f rows),
      update_where (\<lambda>r. j_id r = i \<and> P r) f rows)"

definition markRunning :: "time \<Rightarrow> uuid \<Rightarrow> job_row list \<Rightarrow> job_view option \<times> job_row list" where
  "markRunning now i =
     update_job i (\<lambda>r. j_status r = Queued) (\<lambda>r. r\<lparr>j_status := Running, j_startedAt := Some now\<rparr>)"

definition setProgress :: "uuid \<Rightarrow> job_progress \<Rightarrow> job_row list \<Rightarrow> job_view option \<times> job_row list" where
  "setProgress i p =
     update_job i (\<lambda>_. True)
       (\<lambda>r. r\<lparr>j_progressCurrent := p_current p, j_progressTotal := p_total p,
              j_progressMessage := p_message p\<rparr>)"

definition markSucceeded ::
    "time \<Rightarrow> uuid \<Rightarrow> json \<Rightarrow> job_row list \<Rightarrow> job_view option \<times> job_row list" where
  "markSucceeded now i result =
     update_job i (\<lambda>_. True)
       (\<lambda>r. r\<lparr>j_status := Succeeded, j_result := Some result, j_finishedAt := Some now\<rparr>)"

definition markFailed ::
    "time \<Rightarrow> uuid \<Rightarrow> string \<Rightarrow> job_row list \<Rightarrow> job_view option \<times> job_row list" where
  "markFailed now i err =
     update_job i (\<lambda>_. True)
       (\<lambda>r. r\<lparr>j_status := Failed, j_error := Some err, j_finishedAt := Some now\<rparr>)"

definition markPaused ::
    "time \<Rightarrow> uuid \<Rightarrow> pause_reason \<Rightarrow> json_object option \<Rightarrow> job_row list
      \<Rightarrow> job_view option \<times> job_row list" where
  "markPaused now i reason resume =
     update_job i (\<lambda>r. isActiveJob (j_status r))
       (\<lambda>r. r\<lparr>j_status := Paused, j_pauseReason := Some reason, j_finishedAt := Some now,
              j_payload := Some (json_concat (case j_payload r of None \<Rightarrow> [] | Some p \<Rightarrow> p)
                                             (case resume of None \<Rightarrow> [] | Some p \<Rightarrow> p))\<rparr>)"

definition requeue_row :: "job_row \<Rightarrow> job_row" where
  "requeue_row r =
     r\<lparr>j_status := Queued, j_pauseReason := None, j_error := None, j_result := None,
       j_startedAt := None, j_finishedAt := None, j_progressCurrent := 0, j_progressTotal := 0,
       j_progressMessage := None\<rparr>"

definition markRequeued :: "uuid \<Rightarrow> job_row list \<Rightarrow> job_view option \<times> job_row list" where
  "markRequeued i rows =
     (case find (\<lambda>r. j_id r = i \<and> j_status r = Paused) rows of
        None \<Rightarrow> (None, rows)
      | Some r \<Rightarrow>
          if update_violates i (requeue_row r) rows then (None, rows)
          else update_job i (\<lambda>r. j_status r = Paused) requeue_row rows)"

definition cancel_row :: "time \<Rightarrow> job_row \<Rightarrow> job_row" where
  "cancel_row now r = r\<lparr>j_status := Cancelled, j_pauseReason := None, j_finishedAt := Some now\<rparr>"

definition supersedePaused :: "time \<Rightarrow> string \<Rightarrow> string \<Rightarrow> job_row list \<Rightarrow> nat \<times> job_row list" where
  "supersedePaused now org k rows =
     (let P = (\<lambda>r. j_org r = org \<and> j_key r = Some k \<and> j_status r = Paused)
      in (length (filter P rows), update_where P (cancel_row now) rows))"

definition cancelPaused :: "time \<Rightarrow> uuid \<Rightarrow> job_row list \<Rightarrow> job_view option \<times> job_row list" where
  "cancelPaused now i = update_job i (\<lambda>r. j_status r = Paused) (cancel_row now)"

definition markCancelled :: "time \<Rightarrow> uuid \<Rightarrow> job_row list \<Rightarrow> job_view option \<times> job_row list" where
  "markCancelled now i =
     update_job i (\<lambda>r. isActiveJob (j_status r))
       (\<lambda>r. r\<lparr>j_status := Cancelled, j_finishedAt := Some now\<rparr>)"

definition interruptOrphaned :: "time \<Rightarrow> job_row list \<Rightarrow> orphaned_job list \<times> job_row list" where
  "interruptOrphaned now rows =
     (let f = (\<lambda>r. r\<lparr>j_status := Interrupted,
                      j_error := Some ''interrupted by a server restart'',
                      j_finishedAt := Some now\<rparr>);
          P = (\<lambda>r. isActiveJob (j_status r))
      in (map toOrphanedJob (returning P f rows), update_where P f rows))"

subsection \<open>The methods as one alphabet\<close>

datatype job_op =
    OpCreate time uuid create_input
  | OpRunning time uuid
  | OpProgress uuid job_progress
  | OpSucceeded time uuid json
  | OpFailed time uuid string
  | OpPaused time uuid pause_reason "json_object option"
  | OpRequeued uuid
  | OpSupersede time string string
  | OpCancelPaused time uuid
  | OpCancelled time uuid
  | OpInterrupt time

fun jobs_step :: "job_row list \<Rightarrow> job_op \<Rightarrow> job_row list" where
  "jobs_step rows (OpCreate now uid input) =
     (case create now uid input rows of Inl _ \<Rightarrow> rows | Inr (_, rows') \<Rightarrow> rows')"
| "jobs_step rows (OpRunning now i) = snd (markRunning now i rows)"
| "jobs_step rows (OpProgress i p) = snd (setProgress i p rows)"
| "jobs_step rows (OpSucceeded now i res) = snd (markSucceeded now i res rows)"
| "jobs_step rows (OpFailed now i err) = snd (markFailed now i err rows)"
| "jobs_step rows (OpPaused now i reason resume) = snd (markPaused now i reason resume rows)"
| "jobs_step rows (OpRequeued i) = snd (markRequeued i rows)"
| "jobs_step rows (OpSupersede now org k) = snd (supersedePaused now org k rows)"
| "jobs_step rows (OpCancelPaused now i) = snd (cancelPaused now i rows)"
| "jobs_step rows (OpCancelled now i) = snd (markCancelled now i rows)"
| "jobs_step rows (OpInterrupt now) = snd (interruptOrphaned now rows)"

subsection \<open>Single flight\<close>

definition no_twins :: "job_row list \<Rightarrow> bool" where
  "no_twins rows \<longleftrightarrow>
     (\<forall>a\<in>set rows. \<forall>b\<in>set rows. same_active_key a b \<longrightarrow> j_id a = j_id b)"

definition jobs_inv :: "job_row list \<Rightarrow> bool" where
  "jobs_inv rows \<longleftrightarrow> distinct (map j_id rows) \<and> no_twins rows"

lemma same_active_key_sym: "same_active_key a b \<longleftrightarrow> same_active_key b a"
  by (auto simp: same_active_key_def split: option.splits)

text \<open>
  An update keeps single flight when the rows it makes active were active under the same key
  before: every method but \<open>create\<close> and \<open>markRequeued\<close> is of this kind.
\<close>

definition calms :: "(job_row \<Rightarrow> bool) \<Rightarrow> (job_row \<Rightarrow> job_row) \<Rightarrow> bool" where
  "calms P f \<longleftrightarrow>
     (\<forall>r. P r \<longrightarrow> j_id (f r) = j_id r \<and> j_org (f r) = j_org r \<and> j_key (f r) = j_key r \<and>
        (isActiveJob (j_status (f r)) \<longrightarrow> isActiveJob (j_status r)))"

lemma calms_same_active:
  assumes "calms P f" and "same_active_key (if P a then f a else a) (if P b then f b else b)"
  shows "same_active_key a b \<and> j_id (if P a then f a else a) = j_id a \<and>
     j_id (if P b then f b else b) = j_id b"
  using assms
  by (cases "P a"; cases "P b") (auto simp: calms_def same_active_key_def split: option.splits)

lemma jobs_inv_calm:
  assumes "calms P f" and "jobs_inv rows"
  shows "jobs_inv (update_where P f rows)"
proof -
  have "map j_id (update_where P f rows) = map j_id rows"
    using assms(1) by (intro map_update_where) (auto simp: calms_def)
  moreover have "no_twins (update_where P f rows)"
    unfolding no_twins_def
  proof (intro ballI impI)
    fix a b
    assume "a \<in> set (update_where P f rows)" "b \<in> set (update_where P f rows)"
    then obtain a0 b0 where 0: "a0 \<in> set rows" "a = (if P a0 then f a0 else a0)"
      "b0 \<in> set rows" "b = (if P b0 then f b0 else b0)"
      by (auto simp: update_where_def)
    assume "same_active_key a b"
    then have "same_active_key a0 b0" "j_id a = j_id a0" "j_id b = j_id b0"
      using calms_same_active [OF assms(1), of a0 b0] 0 by auto
    with 0 assms(2) show "j_id a = j_id b" by (auto simp: jobs_inv_def no_twins_def)
  qed
  ultimately show ?thesis using assms(2) by (simp add: jobs_inv_def)
qed

lemma jobs_inv_insert:
  assumes "\<not> insert_violates row rows" and "jobs_inv rows"
  shows "jobs_inv (rows @ [row])"
proof -
  have "j_id row \<notin> j_id ` set rows"
    using assms(1) unfolding insert_violates_def by force
  moreover have "no_twins (rows @ [row])"
    unfolding no_twins_def
  proof (intro ballI impI)
    fix a b
    assume "a \<in> set (rows @ [row])" "b \<in> set (rows @ [row])" and same: "same_active_key a b"
    then have "a = row \<or> a \<in> set rows" "b = row \<or> b \<in> set rows" by auto
    moreover have "\<not> same_active_key r row \<and> \<not> same_active_key row r" if "r \<in> set rows" for r
      using assms(1) that same_active_key_sym [of r row] unfolding insert_violates_def by blast
    ultimately show "j_id a = j_id b"
      using same assms(2) unfolding jobs_inv_def no_twins_def by blast
  qed
  ultimately show ?thesis using assms(2) by (simp add: jobs_inv_def)
qed

lemma distinct_idD:
  "distinct (map j_id rows) \<Longrightarrow> a \<in> set rows \<Longrightarrow> b \<in> set rows \<Longrightarrow> j_id a = j_id b \<Longrightarrow> a = b"
  by (auto simp: distinct_map inj_on_def)

lemma jobs_inv_requeue:
  assumes inv: "jobs_inv rows" and r: "r \<in> set rows" "j_id r = i" "j_status r = Paused"
    and ok: "\<not> update_violates i (requeue_row r) rows"
  shows "jobs_inv (update_where (\<lambda>r. j_id r = i \<and> j_status r = Paused) requeue_row rows)"
proof -
  let ?P = "\<lambda>r. j_id r = i \<and> j_status r = Paused"
  let ?rows = "update_where ?P requeue_row rows"
  have ids: "map j_id ?rows = map j_id rows"
    by (intro map_update_where) (simp add: requeue_row_def)
  have only: "q = r" if "q \<in> set rows" "j_id q = i" for q
    using distinct_idD [of rows q r] that r inv by (simp add: jobs_inv_def)
  have mem: "a = requeue_row r \<or> a \<in> set rows \<and> j_id a \<noteq> i" if "a \<in> set ?rows" for a
  proof -
    from that obtain q where q: "q \<in> set rows" "a = (if ?P q then requeue_row q else q)"
      by (auto simp: update_where_def)
    show ?thesis using q only [of q] r by (cases "j_id q = i") auto
  qed
  have "no_twins ?rows"
    unfolding no_twins_def
  proof (intro ballI impI)
    fix a b
    assume "a \<in> set ?rows" "b \<in> set ?rows" and same: "same_active_key a b"
    then have "a = requeue_row r \<or> a \<in> set rows \<and> j_id a \<noteq> i"
      "b = requeue_row r \<or> b \<in> set rows \<and> j_id b \<noteq> i"
      using mem by blast+
    moreover have "\<not> same_active_key q (requeue_row r) \<and> \<not> same_active_key (requeue_row r) q"
      if "q \<in> set rows" "j_id q \<noteq> i" for q
      using ok that same_active_key_sym [of q "requeue_row r"] by (auto simp: update_violates_def)
    ultimately show "j_id a = j_id b"
      using same inv unfolding jobs_inv_def no_twins_def by blast
  qed
  with ids inv show ?thesis by (simp add: jobs_inv_def)
qed

lemmas job_update_defs = update_job_def markRunning_def setProgress_def markSucceeded_def
  markFailed_def markPaused_def supersedePaused_def cancelPaused_def markCancelled_def
  interruptOrphaned_def cancel_row_def [abs_def] Let_def

lemma calm_methods:
  "calms (\<lambda>r. j_id r = i \<and> j_status r = Queued) (\<lambda>r. r\<lparr>j_status := Running, j_startedAt := Some now\<rparr>)"
  "calms (\<lambda>r. j_id r = i) (\<lambda>r. r\<lparr>j_progressCurrent := c, j_progressTotal := t, j_progressMessage := m\<rparr>)"
  "calms (\<lambda>r. j_id r = i) (\<lambda>r. r\<lparr>j_status := Succeeded, j_result := res, j_finishedAt := fin\<rparr>)"
  "calms (\<lambda>r. j_id r = i) (\<lambda>r. r\<lparr>j_status := Failed, j_error := err, j_finishedAt := fin\<rparr>)"
  "calms (\<lambda>r. j_id r = i \<and> isActiveJob (j_status r))
     (\<lambda>r. r\<lparr>j_status := Paused, j_pauseReason := reason, j_finishedAt := fin, j_payload := pay r\<rparr>)"
  "calms Q (\<lambda>r. r\<lparr>j_status := Cancelled, j_pauseReason := None, j_finishedAt := fin\<rparr>)"
  "calms Q (\<lambda>r. r\<lparr>j_status := Cancelled, j_finishedAt := fin\<rparr>)"
  "calms Q (\<lambda>r. r\<lparr>j_status := Interrupted, j_error := err, j_finishedAt := fin\<rparr>)"
  by (auto simp: calms_def isActiveJob_def)

lemma jobs_inv_create:
  "jobs_inv rows \<Longrightarrow> create now uid input rows = Inr (v, rows') \<Longrightarrow> jobs_inv rows'"
  by (auto simp: create_def Let_def intro: jobs_inv_insert split: if_splits option.splits)

lemma jobs_inv_markRequeued: "jobs_inv rows \<Longrightarrow> jobs_inv (snd (markRequeued i rows))"
  using jobs_inv_requeue [of rows _ i]
  by (auto simp: markRequeued_def update_job_def split: option.splits dest: find_Some_mem)

lemma jobs_inv_step: "jobs_inv rows \<Longrightarrow> jobs_inv (jobs_step rows op)"
  by (cases op)
    (auto simp: job_update_defs intro: jobs_inv_create jobs_inv_markRequeued
      intro!: jobs_inv_calm calm_methods split: sum.splits)

interpretation single_flight: invariant_machine jobs_step jobs_inv
  by unfold_locales (rule jobs_inv_step)

lemma jobs_inv_Nil: "jobs_inv []"
  by (simp add: jobs_inv_def no_twins_def)

definition active_under :: "string \<Rightarrow> string \<Rightarrow> job_row \<Rightarrow> bool" where
  "active_under org k r \<longleftrightarrow> j_org r = org \<and> j_key r = Some k \<and> isActiveJob (j_status r)"

lemma active_under_same: "active_under org k a \<Longrightarrow> active_under org k b \<Longrightarrow> same_active_key a b"
  by (simp add: active_under_def same_active_key_def)

lemma length_filter_le1:
  assumes "distinct xs" and "\<And>x y. x \<in> set xs \<Longrightarrow> y \<in> set xs \<Longrightarrow> P x \<Longrightarrow> P y \<Longrightarrow> x = y"
  shows "length (filter P xs) \<le> 1"
  using assms
proof (induction xs)
  case (Cons x xs)
  show ?case
  proof (cases "P x")
    case True
    with Cons.prems have "\<forall>y\<in>set xs. \<not> P y" by (auto)
    then have "filter P xs = []" by (simp add: filter_empty_conv)
    with True show ?thesis by simp
  next
    case False
    then show ?thesis using Cons.IH Cons.prems by simp
  qed
qed simp

lemma jobs_inv_one_active:
  assumes "jobs_inv rows"
  shows "length (filter (active_under org k) rows) \<le> 1"
proof (rule length_filter_le1)
  show "distinct rows"
    using assms by (simp add: jobs_inv_def distinct_map)
  fix a b
  assume "a \<in> set rows" "b \<in> set rows" "active_under org k a" "active_under org k b"
  then show "a = b"
    using assms active_under_same [of org k a b] distinct_idD [of rows a b]
    unfolding jobs_inv_def no_twins_def by blast
qed

subsection \<open>Settled rows\<close>

definition settled :: "job_status \<Rightarrow> bool" where
  "settled s \<longleftrightarrow> s = Succeeded \<or> s = Failed \<or> s = Cancelled \<or> s = Interrupted"

definition has_settled :: "uuid \<Rightarrow> job_row list \<Rightarrow> bool" where
  "has_settled i rows \<longleftrightarrow> (\<exists>r\<in>set rows. j_id r = i \<and> settled (j_status r))"

lemma has_settled_update:
  assumes "has_settled i rows"
    and "\<And>r. P r \<Longrightarrow> settled (j_status r) \<Longrightarrow> j_id (f r) = j_id r \<and> settled (j_status (f r))"
  shows "has_settled i (update_where P f rows)"
  using assms unfolding has_settled_def set_update_where by blast

lemma has_settled_step: "has_settled i rows \<Longrightarrow> has_settled i (jobs_step rows op)"
proof (cases op)
  case (OpCreate now uid input)
  assume "has_settled i rows"
  then show ?thesis
    by (auto simp: OpCreate create_def Let_def has_settled_def split: sum.splits if_splits option.splits)
next
  case (OpRequeued k)
  assume "has_settled i rows"
  then show ?thesis
    by (auto simp: OpRequeued markRequeued_def update_job_def settled_def
        intro!: has_settled_update split: option.splits)
qed (auto simp: job_update_defs settled_def isActiveJob_def intro!: has_settled_update)

lemma distinct_settled_not_active:
  "jobs_inv rows \<Longrightarrow> has_settled i rows \<Longrightarrow> r \<in> set rows \<Longrightarrow> j_id r = i \<Longrightarrow> settled (j_status r)"
  using distinct_idD unfolding jobs_inv_def has_settled_def by blast

interpretation job_settled: latch_machine jobs_step "has_settled i" for i
  by unfold_locales (rule has_settled_step)

lemma settled_not_active: "settled s \<Longrightarrow> \<not> isActiveJob s"
  by (auto simp: settled_def isActiveJob_def)

subsection \<open>A pause and the resume of it\<close>

lemma find_update_where:
  assumes "find P rows = Some r" and "Q (f r)" and "\<And>r. P r \<or> \<not> Q r"
  shows "find Q (update_where P f rows) = Some (f r)"
  using assms by (induction rows) (auto split: if_splits)

lemma find_unique:
  assumes "distinct (map j_id rows)" and "r \<in> set rows" and "j_id r = i" and "P r"
  shows "find (\<lambda>r. j_id r = i \<and> P r) rows = Some r"
  using assms by (induction rows) (auto simp: image_iff split: if_splits)

text \<open>What a job row is after it paused with \<open>resume\<close> and was put back on the queue.\<close>

definition resumed_row :: "json_object \<Rightarrow> job_row \<Rightarrow> job_row" where
  "resumed_row resume r =
     (requeue_row r)\<lparr>j_payload :=
        Some (json_concat (case j_payload r of None \<Rightarrow> [] | Some p \<Rightarrow> p) resume)\<rparr>"

lemma markPaused_row:
  assumes inv: "jobs_inv rows" and r: "r \<in> set rows" "isActiveJob (j_status r)"
  shows "markPaused now (j_id r) reason resume rows =
     (Some (toJobView (r\<lparr>j_status := Paused, j_pauseReason := Some reason, j_finishedAt := Some now,
        j_payload := Some (json_concat (case j_payload r of None \<Rightarrow> [] | Some p \<Rightarrow> p)
                                       (case resume of None \<Rightarrow> [] | Some p \<Rightarrow> p))\<rparr>)),
      map (\<lambda>q. if j_id q = j_id r
               then r\<lparr>j_status := Paused, j_pauseReason := Some reason, j_finishedAt := Some now,
                 j_payload := Some (json_concat (case j_payload r of None \<Rightarrow> [] | Some p \<Rightarrow> p)
                                       (case resume of None \<Rightarrow> [] | Some p \<Rightarrow> p))\<rparr>
               else q) rows)"
proof -
  have "find (\<lambda>q. j_id q = j_id r \<and> isActiveJob (j_status q)) rows = Some r"
    using inv r by (intro find_unique) (auto simp: jobs_inv_def)
  moreover have "q = r" if "q \<in> set rows" "j_id q = j_id r" for q
    using that inv r distinct_idD [of rows q r] by (simp add: jobs_inv_def)
  ultimately show ?thesis
    using r by (auto simp: markPaused_def update_job_def returning_first_def update_where_def)
qed

lemma markRequeued_row:
  assumes inv: "jobs_inv rows" and r: "r \<in> set rows" "j_status r = Paused"
    and free: "\<And>q. q \<in> set rows \<Longrightarrow> j_id q \<noteq> j_id r \<Longrightarrow> \<not> same_active_key q (requeue_row r)"
  shows "markRequeued (j_id r) rows =
     (Some (toJobView (requeue_row r)), map (\<lambda>q. if j_id q = j_id r then requeue_row r else q) rows)"
proof -
  have f: "find (\<lambda>q. j_id q = j_id r \<and> j_status q = Paused) rows = Some r"
    using inv r by (intro find_unique) (auto simp: jobs_inv_def)
  have "q = r" if "q \<in> set rows" "j_id q = j_id r" for q
    using that inv r distinct_idD [of rows q r] by (simp add: jobs_inv_def)
  moreover have "\<not> update_violates (j_id r) (requeue_row r) rows"
    using free by (auto simp: update_violates_def)
  ultimately show ?thesis
    using r f by (auto simp: markRequeued_def update_job_def returning_first_def update_where_def)
qed

subsection \<open>A restart\<close>

lemma interruptOrphaned_no_active:
  "r \<in> set (snd (interruptOrphaned now rows)) \<Longrightarrow> \<not> isActiveJob (j_status r)"
  by (auto simp: interruptOrphaned_def set_update_where isActiveJob_def Let_def)

text \<open>C8: at most one active job per workspace and key, whatever the methods called and in
  whatever order: the single flight the partial unique index promises, over every method.\<close>

theorem single_flight_always:
  "length (filter (active_under org k) (foldl jobs_step [] ops)) \<le> 1"
  by (rule jobs_inv_one_active [OF single_flight.run_inv [OF jobs_inv_Nil]])

text \<open>C9: a job that settled (succeeded, failed, was cancelled or interrupted) never runs again:
  no sequence of the store's methods makes its row queued, running or paused.\<close>

theorem settled_job_stays_settled:
  assumes "has_settled i (foldl jobs_step [] ops)"
    and "r \<in> set (foldl jobs_step [] (ops @ ops'))" and "j_id r = i"
  shows "\<not> isActiveJob (j_status r) \<and> j_status r \<noteq> Paused"
proof -
  have "has_settled i (foldl jobs_step [] (ops @ ops'))"
    using assms(1) by (rule job_settled.latched_suffix)
  moreover have "jobs_inv (foldl jobs_step [] (ops @ ops'))"
    by (rule single_flight.run_inv [OF jobs_inv_Nil])
  ultimately have "settled (j_status r)"
    using assms(2,3) distinct_settled_not_active by blast
  then show ?thesis by (auto simp: settled_def isActiveJob_def)
qed

definition demo_input :: create_input where
  "demo_input = \<lparr>in_org = ''o'', in_type = ''t'', in_key = Some ''k'', in_payload = None\<rparr>"

theorem settled_job_stays_settled_witness:
  "\<exists>r\<in>set (foldl jobs_step [] ([OpCreate ''1'' ''a'' demo_input, OpCancelled ''2'' ''a''] @ [OpRequeued ''a''])).
     j_id r = ''a'' \<and> \<not> isActiveJob (j_status r) \<and> j_status r \<noteq> Paused"
proof -
  let ?r = "(queued_row ''1'' ''a'' demo_input)\<lparr>j_status := Cancelled, j_finishedAt := Some ''2''\<rparr>"
  have ops: "foldl jobs_step [] [OpCreate ''1'' ''a'' demo_input, OpCancelled ''2'' ''a''] = [?r]"
    "foldl jobs_step [] ([OpCreate ''1'' ''a'' demo_input, OpCancelled ''2'' ''a''] @ [OpRequeued ''a'']) = [?r]"
    by (simp_all add: create_def insert_violates_def queued_row_def demo_input_def markCancelled_def
        update_job_def isActiveJob_def markRequeued_def Let_def)
  have s: "has_settled ''a'' (foldl jobs_step [] [OpCreate ''1'' ''a'' demo_input, OpCancelled ''2'' ''a''])"
    unfolding ops by (simp add: has_settled_def settled_def queued_row_def)
  have m: "?r \<in> set (foldl jobs_step []
      ([OpCreate ''1'' ''a'' demo_input, OpCancelled ''2'' ''a''] @ [OpRequeued ''a'']))"
    unfolding ops by simp
  have i: "j_id ?r = ''a''" by (simp add: queued_row_def)
  show ?thesis using settled_job_stays_settled [OF s m i] m i by blast
qed


definition demo_running :: job_row where
  "demo_running = (queued_row ''1'' ''a'' demo_input)\<lparr>j_status := Running, j_startedAt := Some ''2''\<rparr>"


end
