(* ===== verification/JobQueue.thy ===== *)
theory JobQueue
  imports JobStore
begin

text \<open>
  How a job gets onto the queue and off it: \<open>createJobs\<close> of \<open>packages/jobs/src/index.ts\<close> (enqueue,
  cancel, start and stop), the local runs of \<open>worker.ts\<close>, the coalescing of \<open>pending-coalesce.ts\<close> and
  the semaphore of \<open>semaphore.ts\<close>.

  The queue itself is \<open>graphile-worker\<close>: what it answers to \<open>addJob\<close> is an input, and the jobs handed
  to it are kept in \<open>q_added\<close>. An await lets other work go on: what the rest of the system does to the
  table meanwhile is a list of the store's operations. A message that is only logged is left out.
\<close>

record enqueue_options =
  eo_queue :: "string option"
  eo_priority :: "int option"

record added_job =
  aj_task :: string
  aj_payload :: json_object
  aj_jobKey :: string
  aj_queue :: "string option"
  aj_priority :: "int option"
  aj_maxAttempts :: nat

record published =
  pb_org :: string
  pb_job :: job_view
  pb_title :: string

record task_def =
  tk_type :: string
  tk_title :: "json_object \<Rightarrow> string"

record queue_sys =
  q_rows :: "job_row list"
  q_runner :: bool
  q_added :: "added_job list"
  q_published :: "published list"
  q_hub :: bool

datatype queue_error =
    WorkerNotRunning
  | StoreError job_error
  | QueueRefused string

subsection \<open>Enqueue\<close>

text \<open>\<open>answer\<close> is what the queue said: nothing, or the message it threw.\<close>

definition addJob ::
    "string option \<Rightarrow> string \<Rightarrow> json_object \<Rightarrow> string \<Rightarrow> enqueue_options option \<Rightarrow> queue_sys
      \<Rightarrow> (queue_error + unit) \<times> queue_sys" where
  "addJob answer task payload jobKey opts s =
     (if \<not> q_runner s then (Inl WorkerNotRunning, s)
      else case answer of
             Some m \<Rightarrow> (Inl (QueueRefused m), s)
           | None \<Rightarrow>
               (Inr (), s\<lparr>q_added := q_added s @
                  [\<lparr>aj_task = task, aj_payload = payload, aj_jobKey = jobKey,
                    aj_queue = (case opts of Some o' \<Rightarrow> if truthy (eo_queue o') then eo_queue o' else None | None \<Rightarrow> None),
                    aj_priority = Option.bind opts eo_priority, aj_maxAttempts = 1\<rparr>]\<rparr>))"

definition titleOf :: "task_def list \<Rightarrow> string \<Rightarrow> json_object \<Rightarrow> string" where
  "titleOf tasks task payload =
     (case find (\<lambda>t. tk_type t = task) tasks of None \<Rightarrow> task | Some d \<Rightarrow> tk_title d payload)"

text \<open>The message an error carries into the row.\<close>

fun error_message :: "queue_error \<Rightarrow> string" where
  "error_message WorkerNotRunning = ''the background job worker is not running''"
| "error_message (QueueRefused m) = m"
| "error_message (StoreError _) = ''duplicate key value violates unique constraint''"

text \<open>The payload with the row's id stamped last.\<close>

definition stamped :: "json_object \<Rightarrow> uuid \<Rightarrow> json_object" where
  "stamped payload i = AList.update ''jobId'' (JStr i) payload"

text \<open>The clock's readings, the id the store mints, the queue's answer, and what happens to the table while
  the queue answers, while the row is marked failed, and while it is told to supersede.\<close>

record enqueue_world =
  ew_now :: time
  ew_failNow :: time
  ew_supersedeNow :: time
  ew_uuid :: uuid
  ew_answer :: "string option"
  ew_adding :: "job_op list"
  ew_storeDown :: bool

definition singleFlightEnqueue ::
    "task_def list \<Rightarrow> enqueue_world \<Rightarrow> string \<Rightarrow> string \<Rightarrow> string \<Rightarrow> json_object \<Rightarrow> enqueue_options option
      \<Rightarrow> queue_sys \<Rightarrow> (queue_error + uuid option) \<times> queue_sys" where
  "singleFlightEnqueue tasks w task org key payload opts s =
     (if \<not> q_runner s then (Inl WorkerNotRunning, s)
      else case create (ew_now w) (ew_uuid w)
                  \<lparr>in_org = org, in_type = task, in_key = Some key, in_payload = Some payload\<rparr> (q_rows s) of
             Inl (ActiveJobExists _) \<Rightarrow> (Inr None, s)
           | Inl e \<Rightarrow> (Inl (StoreError e), s)
           | Inr (job, rows) \<Rightarrow>
               (case addJob (ew_answer w) task (stamped payload (v_id job)) key opts
                       (s\<lparr>q_rows := foldl jobs_step rows (ew_adding w)\<rparr>) of
                  (Inl err, s1) \<Rightarrow>
                    (Inl err,
                     if ew_storeDown w then s1
                     else s1\<lparr>q_rows := snd (markFailed (ew_failNow w) (v_id job) (error_message err) (q_rows s1))\<rparr>)
                | (Inr _, s1) \<Rightarrow>
                    (let s2 = (if ew_storeDown w then s1
                               else s1\<lparr>q_rows := snd (supersedePaused (ew_supersedeNow w) org key (q_rows s1))\<rparr>)
                     in (Inr (Some (v_id job)),
                         s2\<lparr>q_published := q_published s2 @
                              [\<lparr>pb_org = org, pb_job = job,
                                pb_title = titleOf tasks task (stamped payload (v_id job))\<rparr>]\<rparr>))))"

subsection \<open>Cancel\<close>

datatype cancel_result = CancelDone | CancelNotHere | CancelAbsent

text \<open>The runs of this process: the job and the number of the controller that stops it.\<close>

type_synonym local_runs = "(uuid \<times> nat) list"

definition registerJob :: "uuid \<Rightarrow> nat \<Rightarrow> local_runs \<Rightarrow> local_runs" where
  "registerJob i controller runs = AList.update i controller runs"

definition run_settled :: "uuid \<Rightarrow> nat \<Rightarrow> local_runs \<Rightarrow> local_runs" where
  "run_settled i controller runs =
     (if map_of runs i = Some controller then AList.delete i runs else runs)"

definition isJobRunningLocally :: "local_runs \<Rightarrow> uuid \<Rightarrow> bool" where
  "isJobRunningLocally runs i \<longleftrightarrow> map_of runs i \<noteq> None"

text \<open>\<open>cancelLocalJob\<close>: the controller it aborts, if there is one; the wait is for the run or a deadline.\<close>

definition cancelLocalJob :: "local_runs \<Rightarrow> uuid \<Rightarrow> bool \<times> nat option" where
  "cancelLocalJob runs i =
     (case map_of runs i of None \<Rightarrow> (False, None) | Some c \<Rightarrow> (True, Some c))"

definition cancel ::
    "time \<Rightarrow> job_op list \<Rightarrow> local_runs \<Rightarrow> uuid \<Rightarrow> queue_sys \<Rightarrow> cancel_result \<times> queue_sys" where
  "cancel now waiting runs i s =
     (case get (q_rows s) i None of
        None \<Rightarrow> (CancelAbsent, s)
      | Some job \<Rightarrow>
          if \<not> isActiveJob (v_status job) then (CancelAbsent, s)
          else if isJobRunningLocally runs i then
            (CancelDone, s\<lparr>q_rows := snd (markCancelled now i (foldl jobs_step (q_rows s) waiting))\<rparr>)
          else if v_status job = Running then (CancelNotHere, s)
          else (case markCancelled now i (foldl jobs_step (q_rows s) waiting) of
                  (Some _, rows) \<Rightarrow> (CancelDone, s\<lparr>q_rows := rows\<rparr>)
                | (None, rows) \<Rightarrow> (CancelAbsent, s\<lparr>q_rows := rows\<rparr>)))"

subsection \<open>Start and stop\<close>

definition start :: "time \<Rightarrow> queue_sys \<Rightarrow> orphaned_job list \<times> queue_sys" where
  "start now s =
     (let (reaped, rows) = interruptOrphaned now (q_rows s)
      in (reaped, s\<lparr>q_rows := rows, q_hub := True, q_runner := True\<rparr>))"

definition stop :: "queue_sys \<Rightarrow> queue_sys" where
  "stop s = s\<lparr>q_runner := False, q_hub := False\<rparr>"

subsection \<open>Coalescing\<close>

record coalesce_request =
  cq_repoFullName :: string
  cq_workspaceOrgId :: string

text \<open>One run per repository: a request that loses the race is kept as the pending one. \<open>upsert\<close> is the
  pending store's, \<open>addJob\<close> the answer of the queue.\<close>

definition enqueueOrPendCoalesced ::
    "string \<Rightarrow> (string \<Rightarrow> string) \<Rightarrow> (coalesce_request \<Rightarrow> 'p \<Rightarrow> 'p) \<Rightarrow> enqueue_world \<Rightarrow> coalesce_request
      \<Rightarrow> job_row list \<times> 'p \<Rightarrow> (queue_error + uuid option) \<times> job_row list \<times> 'p" where
  "enqueueOrPendCoalesced task jobKey upsert w req s =
     (let key = jobKey (cq_repoFullName req)
      in case create (ew_now w) (ew_uuid w)
                \<lparr>in_org = cq_workspaceOrgId req, in_type = task, in_key = Some key, in_payload = None\<rparr> (fst s) of
           Inl (ActiveJobExists _) \<Rightarrow> (Inr None, fst s, upsert req (snd s))
         | Inl e \<Rightarrow> (Inl (StoreError e), s)
         | Inr (job, rows) \<Rightarrow>
             (let rows1 = foldl jobs_step rows (ew_adding w)
              in case ew_answer w of
                   Some m \<Rightarrow>
                     (Inl (QueueRefused m),
                      (if ew_storeDown w then rows1
                       else snd (markFailed (ew_failNow w) (v_id job) m rows1)), snd s)
                 | None \<Rightarrow> (Inr (Some (v_id job)), rows1, snd s)))"

text \<open>\<open>drainCoalesced\<close> over the rows the pending store hands out: the count of those that did not throw.\<close>

fun drainCoalesced :: "('v \<Rightarrow> 's \<Rightarrow> (queue_error + uuid option) \<times> 's) \<Rightarrow> 'v list \<Rightarrow> 's \<Rightarrow> nat \<times> 's" where
  "drainCoalesced enqueue [] s = (0, s)"
| "drainCoalesced enqueue (row # rows) s =
     (case enqueue row s of
        (Inr _, s') \<Rightarrow> (case drainCoalesced enqueue rows s' of (n, s'') \<Rightarrow> (Suc n, s''))
      | (Inl _, s') \<Rightarrow> drainCoalesced enqueue rows s')"

subsection \<open>The semaphore\<close>

text \<open>\<open>sm_holders\<close> are the runs that have a permit; the program knows only how many.\<close>

record 'a semaphore =
  sm_max :: nat
  sm_active :: nat
  sm_waiters :: "'a list"
  sm_holders :: "'a list"

definition createSemaphore :: "nat \<Rightarrow> 'a semaphore" where
  "createSemaphore k = \<lparr>sm_max = k, sm_active = 0, sm_waiters = [], sm_holders = []\<rparr>"

definition acquire :: "'a \<Rightarrow> 'a semaphore \<Rightarrow> 'a semaphore" where
  "acquire x s =
     (if sm_active s < sm_max s
      then s\<lparr>sm_active := sm_active s + 1, sm_holders := sm_holders s @ [x]\<rparr>
      else s\<lparr>sm_waiters := sm_waiters s @ [x]\<rparr>)"

definition release :: "'a \<Rightarrow> 'a semaphore \<Rightarrow> 'a semaphore" where
  "release x s =
     (let s1 = s\<lparr>sm_holders := remove1 x (sm_holders s)\<rparr>
      in case sm_waiters s1 of
           next # rest \<Rightarrow> s1\<lparr>sm_waiters := rest, sm_holders := sm_holders s1 @ [next]\<rparr>
         | [] \<Rightarrow> s1\<lparr>sm_active := sm_active s1 - 1\<rparr>)"

datatype 'a sem_event = Acquire 'a | Release 'a

text \<open>A run releases what it holds (the \<open>finally\<close> of \<open>run\<close>), once.\<close>

fun sem_step :: "'a semaphore \<Rightarrow> 'a sem_event \<Rightarrow> 'a semaphore" where
  "sem_step s (Acquire x) = acquire x s"
| "sem_step s (Release x) = (if x \<in> set (sm_holders s) then release x s else s)"

subsection \<open>What an enqueue leaves\<close>

text \<open>How an enqueue that nothing else interferes with leaves the rows of its key.\<close>

definition enqueue_leaves :: "string \<Rightarrow> string \<Rightarrow> (queue_error + uuid option) \<Rightarrow> queue_sys \<Rightarrow> queue_sys \<Rightarrow> bool" where
  "enqueue_leaves org key answer s s' \<longleftrightarrow>
     (case answer of
        Inr (Some i) \<Rightarrow>
          map j_id (filter (active_under org key) (q_rows s')) = [i] \<and>
          filter (\<lambda>r. j_org r = org \<and> j_key r = Some key \<and> j_status r = Paused) (q_rows s') = [] \<and>
          map (\<lambda>a. map_of (aj_payload a) ''jobId'') (drop (length (q_added s)) (q_added s')) = [Some (JStr i)]
      | Inr None \<Rightarrow> s' = s \<and> filter (active_under org key) (q_rows s) \<noteq> []
      | Inl (QueueRefused _) \<Rightarrow> filter (active_under org key) (q_rows s') = [] \<and> q_added s' = q_added s
      | Inl _ \<Rightarrow> s' = s)"

lemma create_Inr:
  "create now uid input rows = Inr (v, rows') \<Longrightarrow>
     v = toJobView (queued_row now uid input) \<and> rows' = rows @ [queued_row now uid input]
     \<and> \<not> insert_violates (queued_row now uid input) rows"
  by (auto simp: create_def Let_def split: if_splits option.splits)

lemma no_violation_no_active:
  assumes "\<not> insert_violates (queued_row now uid input) rows" "in_key input = Some key"
  shows "filter (active_under (in_org input) key) rows = []"
proof -
  have "\<not> active_under (in_org input) key r" if "r \<in> set rows" for r
  proof
    assume "active_under (in_org input) key r"
    then have "same_active_key r (queued_row now uid input)"
      using assms(2) by (simp add: active_under_def same_active_key_def queued_row_def isActiveJob_def)
    with assms(1) that show False by (auto simp: insert_violates_def)
  qed
  then show ?thesis by (simp add: filter_empty_conv)
qed

lemma filter_active_supersede:
  "filter (active_under org key) (snd (supersedePaused now org key rows)) = filter (active_under org key) rows"
  by (induction rows)
    (auto simp: supersedePaused_def Let_def cancel_row_def active_under_def isActiveJob_def)

lemma no_paused_supersede:
  "filter (\<lambda>r. j_org r = org \<and> j_key r = Some key \<and> j_status r = Paused) (snd (supersedePaused now org key rows)) = []"
  by (induction rows) (auto simp: supersedePaused_def Let_def cancel_row_def)

lemma no_active_failed:
  assumes "filter (active_under org key) rows = []" "j_id r = i"
  shows "filter (active_under org key) (snd (markFailed now i m (rows @ [r]))) = []"
  using assms by (induction rows)
    (auto simp: markFailed_def update_job_def active_under_def isActiveJob_def split: if_splits)

lemma active_in_get:
  "getActiveByKey rows org key = Some v \<Longrightarrow> filter (active_under org key) rows \<noteq> []"
  by (auto simp: getActiveByKey_def active_under_def filter_empty_conv dest: find_Some_mem)

text \<open>An enqueue that returns a job's id leaves exactly that job active under its key, no paused job
  of the key left to be carried on, and one job handed to the queue, addressed at that row. One that
  finds the key taken, or the worker down, changes nothing; one the queue refused leaves the key free.\<close>

theorem enqueue_is_single_flight:
  assumes "ew_adding w = []" and "\<not> ew_storeDown w"
  shows "enqueue_leaves org key (fst (singleFlightEnqueue tasks w task org key payload opts s)) s
    (snd (singleFlightEnqueue tasks w task org key payload opts s))"
proof -
  let ?input = "\<lparr>in_org = org, in_type = task, in_key = Some key, in_payload = Some payload\<rparr>"
  let ?row = "queued_row (ew_now w) (ew_uuid w) ?input"
  consider (down) "\<not> q_runner s"
    | (taken) v where "q_runner s" "create (ew_now w) (ew_uuid w) ?input (q_rows s) = Inl (ActiveJobExists v)"
    | (violation) "q_runner s" "create (ew_now w) (ew_uuid w) ?input (q_rows s) = Inl UniqueViolation"
    | (made) v rows where "q_runner s" "create (ew_now w) (ew_uuid w) ?input (q_rows s) = Inr (v, rows)"
    by (metis job_error.exhaust old.sum.exhaust surj_pair)
  then show ?thesis
  proof cases
    case taken
    then have "filter (active_under org key) (q_rows s) \<noteq> []"
      by (auto simp: create_def Let_def split: if_splits option.splits dest: active_in_get)
    with taken show ?thesis
      by (simp add: singleFlightEnqueue_def enqueue_leaves_def)
  next
    case made
    note c = create_Inr [OF made(2)]
    have none: "filter (active_under org key) (q_rows s) = []"
      using no_violation_no_active [of "ew_now w" "ew_uuid w" ?input "q_rows s" key] c by simp
    have active: "active_under org key ?row" and i: "v_id v = ew_uuid w" "j_id ?row = ew_uuid w"
      using c by (simp_all add: active_under_def queued_row_def isActiveJob_def toJobView_def)
    show ?thesis
    proof (cases "ew_answer w")
      case None
      then show ?thesis
        using made c none active i assms
        by (simp add: singleFlightEnqueue_def addJob_def enqueue_leaves_def filter_active_supersede
            no_paused_supersede stamped_def update_conv' Let_def)
    next
      case (Some m)
      then show ?thesis
        using made c none i assms no_active_failed [OF none i(2)]
        by (simp add: singleFlightEnqueue_def addJob_def enqueue_leaves_def)
    qed
  qed (simp_all add: singleFlightEnqueue_def enqueue_leaves_def)
qed

definition demo_world :: enqueue_world where
  "demo_world =
     \<lparr>ew_now = ''1'', ew_failNow = ''2'', ew_supersedeNow = ''2'', ew_uuid = ''a'', ew_answer = None,
      ew_adding = [], ew_storeDown = False\<rparr>"

definition demo_queue :: queue_sys where
  "demo_queue = \<lparr>q_rows = [], q_runner = True, q_added = [], q_published = [], q_hub = True\<rparr>"

theorem enqueue_is_single_flight_witness:
  "fst (singleFlightEnqueue [] demo_world ''scan'' ''o'' ''k'' [] None demo_queue) = Inr (Some ''a'')
   \<and> map j_id (filter (active_under ''o'' ''k'')
       (q_rows (snd (singleFlightEnqueue [] demo_world ''scan'' ''o'' ''k'' [] None demo_queue)))) = [''a'']"
proof -
  have "fst (singleFlightEnqueue [] demo_world ''scan'' ''o'' ''k'' [] None demo_queue) = Inr (Some ''a'')"
    by (simp add: singleFlightEnqueue_def demo_world_def demo_queue_def create_def insert_violates_def
        queued_row_def toJobView_def addJob_def Let_def)
  moreover have "ew_adding demo_world = []" "\<not> ew_storeDown demo_world"
    by (simp_all add: demo_world_def)
  ultimately show ?thesis
    using enqueue_is_single_flight [of demo_world "''o''" "''k''" "[]" "''scan''" "[]" None demo_queue]
    by (simp add: enqueue_leaves_def)
qed

text \<open>The supersede does not spare the job just enqueued: if that job was claimed and paused before it runs,
  its own row is cancelled with the others, and nothing carries it on.\<close>

definition demo_race :: enqueue_world where
  "demo_race = demo_world\<lparr>ew_adding := [OpRunning ''1'' ''a'', OpPaused ''1'' ''a'' PauseCredits None]\<rparr>"

text \<open>A job that pauses while its own enqueue is still under way is cancelled by that enqueue: the id is
  returned, but the row under it is cancelled.\<close>

theorem enqueue_cancels_its_own_pause:
  "fst (singleFlightEnqueue [] demo_race ''scan'' ''o'' ''k'' [] None demo_queue) = Inr (Some ''a'')
   \<and> map j_status (q_rows (snd (singleFlightEnqueue [] demo_race ''scan'' ''o'' ''k'' [] None demo_queue)))
     = [Cancelled]"
  by (simp add: singleFlightEnqueue_def demo_race_def demo_world_def demo_queue_def create_def
      insert_violates_def queued_row_def toJobView_def addJob_def markRunning_def markPaused_def
      update_job_def isActiveJob_def supersedePaused_def cancel_row_def Let_def)

subsection \<open>What a cancel leaves\<close>

lemma markCancelled_quiet:
  "r \<in> set (snd (markCancelled now i rows)) \<Longrightarrow> j_id r = i \<Longrightarrow> \<not> isActiveJob (j_status r)"
proof -
  assume "r \<in> set (snd (markCancelled now i rows))" and i: "j_id r = i"
  then have "r \<in> (\<lambda>r0. if j_id r0 = i \<and> isActiveJob (j_status r0)
      then r0\<lparr>j_status := Cancelled, j_finishedAt := Some now\<rparr> else r0) ` set rows"
    by (simp only: markCancelled_def update_job_def snd_conv update_where_def set_map)
  then obtain r0 where r: "r = (if j_id r0 = i \<and> isActiveJob (j_status r0)
      then r0\<lparr>j_status := Cancelled, j_finishedAt := Some now\<rparr> else r0)"
    by (rule imageE)
  show ?thesis
  proof (cases "isActiveJob (j_status r0)")
    case True
    with i r show ?thesis by (cases "j_id r0 = i") (simp_all add: isActiveJob_def)
  next
    case False
    with r show ?thesis by simp
  qed
qed

text \<open>A cancel that answers done has stopped the job for good: its row is not active afterwards,
  whatever the job itself did while the cancel waited for it.\<close>

theorem cancelled_is_not_active:
  assumes "cancel now waiting runs i s = (CancelDone, s')" and "r \<in> set (q_rows s')" and "j_id r = i"
  shows "\<not> isActiveJob (j_status r)"
proof -
  have "q_rows s' = snd (markCancelled now i (foldl jobs_step (q_rows s) waiting))"
    using assms(1) by (auto simp: cancel_def split: option.splits if_splits prod.splits)
  with assms(2,3) show ?thesis by (metis markCancelled_quiet)
qed

theorem cancelled_is_not_active_witness:
  "\<exists>r s'. cancel ''3'' [] [(''a'', 0)] ''a'' (demo_queue\<lparr>q_rows := [demo_running]\<rparr>) = (CancelDone, s')
     \<and> r \<in> set (q_rows s') \<and> j_id r = ''a'' \<and> \<not> isActiveJob (j_status r)"
proof -
  let ?r = "demo_running\<lparr>j_status := Cancelled, j_finishedAt := Some ''3''\<rparr>"
  have c: "cancel ''3'' [] [(''a'', 0)] ''a'' (demo_queue\<lparr>q_rows := [demo_running]\<rparr>)
      = (CancelDone, demo_queue\<lparr>q_rows := [?r]\<rparr>)"
    by (simp add: cancel_def get_def truthy_def demo_running_def queued_row_def demo_input_def
        toJobView_def isActiveJob_def isJobRunningLocally_def markCancelled_def update_job_def)
  have "?r \<in> set (q_rows (demo_queue\<lparr>q_rows := [?r]\<rparr>))" "j_id ?r = ''a''"
    by (simp_all add: demo_running_def queued_row_def)
  then show ?thesis
    using c cancelled_is_not_active [OF c] by blast
qed

subsection \<open>The semaphore caps and loses no permit\<close>

definition sem_inv :: "'a semaphore \<Rightarrow> bool" where
  "sem_inv s \<longleftrightarrow>
     sm_active s = length (sm_holders s) \<and> sm_active s \<le> sm_max s \<and>
     (sm_waiters s = [] \<or> sm_active s = sm_max s)"

lemma sem_inv_step: "sem_inv s \<Longrightarrow> sem_inv (sem_step s e)"
  by (cases e)
    (auto simp: sem_inv_def acquire_def release_def Let_def length_remove1
      dest: length_pos_if_in_set split: list.split)

interpretation semaphore: invariant_machine sem_step sem_inv
  by unfold_locales (rule sem_inv_step)

lemma sem_max_step [simp]: "sm_max (sem_step s e) = sm_max s"
  by (cases e) (auto simp: acquire_def release_def Let_def split: list.split)

text \<open>The semaphore caps and loses nothing: at every moment no more runs hold a permit than there are, and a run
  waits only while all of them are held.\<close>

theorem semaphore_caps:
  fixes es :: "'a sem_event list"
  shows "length (sm_holders (foldl sem_step (createSemaphore k) es)) \<le> k
   \<and> (sm_waiters (foldl sem_step (createSemaphore k) es) = []
      \<or> length (sm_holders (foldl sem_step (createSemaphore k) es)) = k)"
proof -
  have m: "sm_max (foldl sem_step s es) = sm_max s" for s
    by (induction es arbitrary: s) simp_all
  have "sem_inv (createSemaphore k)"
    by (simp add: sem_inv_def createSemaphore_def)
  note inv = semaphore.run_inv [OF this, of es]
  have "sm_max (createSemaphore k :: 'a semaphore) = k"
    by (simp add: createSemaphore_def)
  with inv show ?thesis
    unfolding sem_inv_def m by auto
qed

end
