(* ===== verification/Notifications.thy ===== *)
theory Notifications
  imports Prelude
begin

text \<open>
  The notification feed: \<open>NotificationStore\<close> of \<open>packages/data-store/src/jobs-store.ts\<close>. A job
  holds one row in it: the row it posts when it begins is the row \<open>moveStarted\<close> settles.
\<close>

datatype level = LStarted | LInfo | LSuccess | LWarning | LError

record note_row =
  n_id :: uuid
  n_org :: string
  n_kind :: string
  n_level :: level
  n_title :: string
  n_body :: "string option"
  n_data :: "json_object option"
  n_readAt :: "time option"
  n_createdAt :: time

record note_view =
  nv_id :: uuid
  nv_kind :: string
  nv_level :: level
  nv_title :: string
  nv_body :: "string option"
  nv_data :: "json_object option"
  nv_readAt :: "time option"
  nv_createdAt :: time

record note_input =
  ni_org :: string
  ni_kind :: string
  ni_level :: level
  ni_title :: string
  ni_body :: "string option"
  ni_data :: "json_object option"

definition toNotificationView :: "note_row \<Rightarrow> note_view" where
  "toNotificationView r =
     \<lparr>nv_id = n_id r, nv_kind = n_kind r, nv_level = n_level r, nv_title = n_title r,
      nv_body = n_body r, nv_data = n_data r, nv_readAt = n_readAt r, nv_createdAt = n_createdAt r\<rparr>"

definition add :: "time \<Rightarrow> uuid \<Rightarrow> note_input \<Rightarrow> note_row list \<Rightarrow> note_view \<times> note_row list" where
  "add now uid input rows =
     (let row = \<lparr>n_id = uid, n_org = ni_org input, n_kind = ni_kind input, n_level = ni_level input,
                 n_title = ni_title input, n_body = ni_body input, n_data = ni_data input,
                 n_readAt = None, n_createdAt = now\<rparr>
      in (toNotificationView row, rows @ [row]))"

text \<open>\<open>data->>'jobId' = jobId\<close>, for the strings the harness writes there.\<close>

definition names_job :: "uuid \<Rightarrow> note_row \<Rightarrow> bool" where
  "names_job jobId r \<longleftrightarrow>
     (case n_data r of None \<Rightarrow> False | Some d \<Rightarrow> map_of d ''jobId'' = Some (JStr jobId))"

definition started_of :: "string \<Rightarrow> uuid \<Rightarrow> note_row \<Rightarrow> bool" where
  "started_of org jobId r \<longleftrightarrow> n_org r = org \<and> n_level r = LStarted \<and> names_job jobId r"

definition moved_row :: "time \<Rightarrow> note_input \<Rightarrow> note_row \<Rightarrow> note_row" where
  "moved_row now input r =
     r\<lparr>n_kind := ni_kind input, n_level := ni_level input, n_title := ni_title input,
       n_body := ni_body input,
       n_data := Some (json_concat (case n_data r of None \<Rightarrow> [] | Some d \<Rightarrow> d)
                                   (case ni_data input of None \<Rightarrow> [] | Some d \<Rightarrow> d)),
       n_createdAt := now, n_readAt := None\<rparr>"

definition moveStarted ::
    "time \<Rightarrow> uuid \<Rightarrow> note_input \<Rightarrow> note_row list \<Rightarrow> note_view option \<times> note_row list" where
  "moveStarted now jobId input rows =
     (map_option toNotificationView
        (returning_first (started_of (ni_org input) jobId) (moved_row now input) rows),
      update_where (started_of (ni_org input) jobId) (moved_row now input) rows)"

definition list_notes :: "note_row list \<Rightarrow> string \<Rightarrow> nat option \<Rightarrow> note_view list" where
  "list_notes rows org limit =
     map toNotificationView (take (case limit of None \<Rightarrow> 100 | Some n \<Rightarrow> n)
       (rev (sort_key n_createdAt (filter (\<lambda>r. n_org r = org) rows))))"

definition unreadCount :: "note_row list \<Rightarrow> string \<Rightarrow> nat" where
  "unreadCount rows org = length (filter (\<lambda>r. n_org r = org \<and> n_readAt r = None) rows)"

definition markRead :: "time \<Rightarrow> string \<Rightarrow> uuid list \<Rightarrow> note_row list \<Rightarrow> note_row list" where
  "markRead now org ids rows =
     (if ids = [] then rows
      else update_where (\<lambda>r. n_org r = org \<and> n_id r \<in> set ids) (\<lambda>r. r\<lparr>n_readAt := Some now\<rparr>) rows)"

definition markAllRead :: "time \<Rightarrow> string \<Rightarrow> note_row list \<Rightarrow> note_row list" where
  "markAllRead now org rows =
     update_where (\<lambda>r. n_org r = org \<and> n_readAt r = None) (\<lambda>r. r\<lparr>n_readAt := Some now\<rparr>) rows"

subsection \<open>What posting does\<close>

record job_notification =
  jn_level :: level
  jn_title :: string
  jn_body :: "string option"
  jn_data :: json_object

text \<open>The row \<open>postNotification\<close> of \<open>packages/jobs/src/harness.ts\<close> writes: its data begins with the
  job's id, and the notification's own data is spread over it.\<close>

definition note_of :: "string \<Rightarrow> string \<Rightarrow> uuid \<Rightarrow> job_notification \<Rightarrow> note_input" where
  "note_of org kind jobId n =
     \<lparr>ni_org = org, ni_kind = kind, ni_level = jn_level n, ni_title = jn_title n,
      ni_body = jn_body n,
      ni_data = Some (json_concat [(''jobId'', JStr jobId)] (jn_data n))\<rparr>"

definition postNotification ::
    "time \<Rightarrow> uuid \<Rightarrow> string \<Rightarrow> string \<Rightarrow> uuid \<Rightarrow> job_notification \<Rightarrow> bool \<Rightarrow> note_row list
      \<Rightarrow> note_view \<times> note_row list" where
  "postNotification now uid org kind jobId n settles rows =
     (let input = note_of org kind jobId n;
          (moved, rows') = (if settles then moveStarted now jobId input rows else (None, rows))
      in case moved of Some v \<Rightarrow> (v, rows') | None \<Rightarrow> add now uid input rows')"

lemma find_Some_iff_ex: "(\<exists>x. find P xs = Some x) \<longleftrightarrow> (\<exists>x\<in>set xs. P x)"
  by (induction xs) auto

lemma find_None_iff_all: "find P xs = None \<longleftrightarrow> (\<forall>x\<in>set xs. \<not> P x)"
  by (induction xs) auto

lemma post_rows:
  "snd (postNotification now uid org kind jobId n settles rows) =
     (if settles \<and> (\<exists>r\<in>set rows. started_of org jobId r)
      then update_where (started_of org jobId) (moved_row now (note_of org kind jobId n)) rows
      else snd (add now uid (note_of org kind jobId n) rows))"
proof -
  have o: "ni_org (note_of org kind jobId n) = org" by (simp add: note_of_def)
  show ?thesis
  proof (cases "find (started_of org jobId) rows")
    case None
    then have "\<not> (\<exists>r\<in>set rows. started_of org jobId r)" by (auto simp: find_None_iff_all)
    with None show ?thesis
      by (simp add: postNotification_def moveStarted_def returning_first_def o Let_def find_None_update)
  next
    case (Some r)
    then have "\<exists>r\<in>set rows. started_of org jobId r" using find_Some_mem by fastforce
    with Some show ?thesis
      by (simp add: postNotification_def moveStarted_def returning_first_def o Let_def)
  qed
qed

text \<open>The rows of the feed about one job.\<close>

definition about_job :: "string \<Rightarrow> uuid \<Rightarrow> note_row list \<Rightarrow> note_row list" where
  "about_job org jobId rows = filter (\<lambda>r. n_org r = org \<and> names_job jobId r) rows"

lemma names_job_moved:
  assumes "names_job jobId r" and "map_of d ''jobId'' = Some (JStr jobId)" and "ni_data input = Some d"
  shows "names_job jobId (moved_row now input r)"
  using assms by (auto simp: names_job_def moved_row_def map_of_json_concat split: option.splits)

lemma note_of_names:
  "map_of (jn_data n) ''jobId'' = None \<Longrightarrow>
     map_of (the (ni_data (note_of org kind jobId n))) ''jobId'' = Some (JStr jobId)"
  by (simp add: note_of_def map_of_json_concat map_add_def)

end
