(* ===== verification/JobSteps.thy ===== *)
theory JobSteps
  imports Prelude
begin

text \<open>
  The step tracker of a job: \<open>JobStepTracker\<close> of \<open>packages/jobs/src/steps.ts\<close>. Its state is the list
  of steps; every operation that changes it emits the snapshot after the change.
\<close>

datatype step_status = Pending | Active | Done | Error

record job_step =
  s_key :: string
  s_label :: string
  s_status :: step_status
  s_detail :: "string option"

record step_snapshot =
  sn_current :: nat
  sn_total :: nat
  sn_message :: string
  sn_steps :: "job_step list"

definition new_tracker :: "(string \<times> string) list \<Rightarrow> job_step list" where
  "new_tracker defs =
     map (\<lambda>(k, l). \<lparr>s_key = k, s_label = l, s_status = Pending, s_detail = None\<rparr>) defs"

definition snapshot :: "job_step list \<Rightarrow> step_snapshot" where
  "snapshot steps =
     (let active = find (\<lambda>s. s_status s = Active) steps;
          message = (case active of
              Some a \<Rightarrow> (case s_detail a of
                            Some d \<Rightarrow> if d \<noteq> [] then s_label a @ '' ('' @ d @ '')'' else s_label a
                          | None \<Rightarrow> s_label a)
            | None \<Rightarrow> if steps = [] then ''Working...'' else s_label (last steps))
      in \<lparr>sn_current = length (filter (\<lambda>s. s_status s = Done \<or> s_status s = Error) steps),
          sn_total = length steps, sn_message = message, sn_steps = steps\<rparr>)"

definition set_detail :: "string option \<Rightarrow> job_step \<Rightarrow> job_step" where
  "set_detail d s = (case d of None \<Rightarrow> s | Some _ \<Rightarrow> s\<lparr>s_detail := d\<rparr>)"

text \<open>Each operation: the steps after it, and the snapshot it emits when it emits one.\<close>

definition advance ::
    "string \<Rightarrow> string option \<Rightarrow> job_step list \<Rightarrow> job_step list \<times> step_snapshot option" where
  "advance key d steps =
     (case find_index (\<lambda>s. s_key s = key) steps of
        None \<Rightarrow> (steps, None)
      | Some idx \<Rightarrow>
          (let before = map (\<lambda>s. if s_status s \<noteq> Error then s\<lparr>s_status := Done\<rparr> else s) (take idx steps);
               it = set_detail d ((steps ! idx)\<lparr>s_status := Active\<rparr>);
               steps' = before @ it # drop (Suc idx) steps
           in (steps', Some (snapshot steps'))))"

definition detail_step ::
    "string \<Rightarrow> string \<Rightarrow> job_step list \<Rightarrow> job_step list \<times> step_snapshot option" where
  "detail_step key d steps =
     (case find_index (\<lambda>s. s_key s = key) steps of
        None \<Rightarrow> (steps, None)
      | Some idx \<Rightarrow>
          (let steps' = steps[idx := (steps ! idx)\<lparr>s_detail := Some d\<rparr>]
           in (steps', Some (snapshot steps'))))"

definition finishAll :: "job_step list \<Rightarrow> job_step list \<times> step_snapshot option" where
  "finishAll steps =
     (let steps' = map (\<lambda>s. if s_status s \<noteq> Error then s\<lparr>s_status := Done\<rparr> else s) steps
      in (steps', Some (snapshot steps')))"

definition fail_step :: "string option \<Rightarrow> job_step list \<Rightarrow> job_step list \<times> step_snapshot option" where
  "fail_step d steps =
     (let at = (case find_index (\<lambda>s. s_status s = Active) steps of
                  Some i \<Rightarrow> Some i
                | None \<Rightarrow> find_index (\<lambda>s. s_status s = Pending) steps);
          steps' = (case at of
                      None \<Rightarrow> steps
                    | Some i \<Rightarrow> steps[i := set_detail d ((steps ! i)\<lparr>s_status := Error\<rparr>)])
      in (steps', Some (snapshot steps')))"

datatype step_op =
    Advance string "string option" | Detail string string | FinishAll | Fail "string option"

fun tracker_step :: "job_step list \<Rightarrow> step_op \<Rightarrow> job_step list" where
  "tracker_step steps (Advance k d) = fst (advance k d steps)"
| "tracker_step steps (Detail k d) = fst (detail_step k d steps)"
| "tracker_step steps FinishAll = fst (finishAll steps)"
| "tracker_step steps (Fail d) = fst (fail_step d steps)"

end
