(* ===== verification/JobHarness.thy ===== *)
theory JobHarness
  imports JobStore Notifications JobSteps
begin

text \<open>
  Running one background job: \<open>executeJob\<close> of \<open>packages/jobs/src/harness.ts\<close>, over the job rows, the
  feed and the step tracker, with \<open>summarizeError\<close> of \<open>packages/core/src/lib/errors.ts\<close>.

  The body of a job is code of another package. What the harness sees of it is a script: the calls
  it makes on its context in order, between them what the environment does (a cancel, a shutdown, a
  statement another process runs on the job table), and how it ends. The world holds the two
  tables, the log of what the harness published and reported, and a counter that the clock and the
  random ids are read from. The stores and the live channel are taken to answer; a statement that
  fails for a reason of the database's own is not modelled.
\<close>

subsection \<open>Errors\<close>

text \<open>An error with what \<open>summarizeError\<close> reads of it: whether it is a \<open>UserFacingError\<close>, its message,
  its \<open>code\<close> when that is a string, whether it carries a query with its parameters, whether a
  database driver made it (a severity or a routine), and its cause.\<close>

datatype js_error =
  JsError (user_facing: bool) (message: string) (code: "string option")
    (has_query: bool) (driver_error: bool) (cause: "js_error option")

definition isCreditsExhausted :: "js_error \<Rightarrow> bool" where
  "isCreditsExhausted e \<longleftrightarrow> code e = Some ''credits-exhausted''"

definition error_summary_limit :: nat where
  "error_summary_limit = 2000"

definition bound :: "string \<Rightarrow> string" where
  "bound m = (if length m \<le> error_summary_limit then m
              else take (error_summary_limit - 3) m @ ''...'')"

text \<open>\<open>/^[0-9A-Z]{5}$/\<close>.\<close>

definition sqlstate :: "string \<Rightarrow> bool" where
  "sqlstate c \<longleftrightarrow> length c = 5 \<and>
     list_all (\<lambda>x. (CHR ''0'' \<le> x \<and> x \<le> CHR ''9'') \<or> (CHR ''A'' \<le> x \<and> x \<le> CHR ''Z'')) c"

definition internal_error :: string where
  "internal_error = ''An internal error prevented this operation from completing.''"

text \<open>The walk down the causes: at most 16 errors, remembering whether a query was seen.\<close>

fun is_internal :: "nat \<Rightarrow> bool \<Rightarrow> js_error option \<Rightarrow> bool" where
  "is_internal 0 query_failure cur = query_failure"
| "is_internal (Suc depth) query_failure None = query_failure"
| "is_internal (Suc depth) query_failure (Some e) =
     (let qf = query_failure \<or> has_query e
      in if (case code e of None \<Rightarrow> False | Some c \<Rightarrow> sqlstate c) \<and> (driver_error e \<or> qf) then True
         else is_internal depth qf (cause e))"

definition summarizeError :: "js_error \<Rightarrow> string" where
  "summarizeError e =
     (if user_facing e then bound (message e)
      else if is_internal 16 False (Some e) then internal_error
      else bound (message e))"

subsection \<open>What a body does\<close>

datatype abort_reason =
    RCancelled  \<comment> \<open>\<open>JobCancelled\<close>: a person or a superseding request\<close>
  | RAbandoned js_error  \<comment> \<open>\<open>JobAbandoned\<close>: the body gave up, with why\<close>
  | RShutdown  \<comment> \<open>the process is going down\<close>

datatype action =
    Phase string "string option"
  | DetailOf string string
  | Notify job_notification
  | ResumeWith json_object
  | GiveUp js_error
  | EnvAbort abort_reason
  | EnvStore job_op

record outcome =
  o_result :: "json option"
  o_notification :: "job_notification option"

datatype body_end = Returns outcome | Throws js_error

record script =
  sc_actions :: "action list"
  sc_end :: body_end

record job_definition =
  d_type :: string
  d_title :: string
  d_steps :: "(string \<times> string) list"
  d_org :: string
  d_onError :: "js_error \<Rightarrow> job_notification"

datatype outcome_status = OSucceeded | OFailed | OCancelled | OPaused

datatype event =
    EvStarted uuid
  | EvProgress string job_view "job_step list option"
  | EvNote note_view
  | EvException js_error
  | EvSettledHook outcome_status "json option"
  | EvSettled outcome_status

record world =
  w_jobs :: "job_row list"
  w_notes :: "note_row list"
  w_events :: "event list"
  w_clock :: nat

record env =
  stamp :: "nat \<Rightarrow> time"
  fresh :: "nat \<Rightarrow> uuid"

definition report :: "event \<Rightarrow> world \<Rightarrow> world" where
  "report ev w = w\<lparr>w_events := w_events w @ [ev]\<rparr>"

text \<open>Run one statement of the job table at the clock's time, and publish the row it returned.\<close>

definition run_store ::
    "job_definition \<Rightarrow> (time \<Rightarrow> job_row list \<Rightarrow> job_view option \<times> job_row list)
      \<Rightarrow> job_step list option \<Rightarrow> env \<Rightarrow> world \<Rightarrow> world" where
  "run_store def f steps e w =
     (let (v, rows) = f (stamp e (w_clock w)) (w_jobs w);
          w' = w\<lparr>w_jobs := rows, w_clock := Suc (w_clock w)\<rparr>
      in case v of None \<Rightarrow> w' | Some job \<Rightarrow> report (EvProgress (d_title def) job steps) w')"

definition post ::
    "job_definition \<Rightarrow> uuid \<Rightarrow> job_notification \<Rightarrow> bool \<Rightarrow> env \<Rightarrow> world \<Rightarrow> world" where
  "post def jobId n settles e w =
     (let (v, rows) = postNotification (stamp e (w_clock w)) (fresh e (w_clock w))
                        (d_org def) (d_type def) jobId n settles (w_notes w)
      in report (EvNote v) (w\<lparr>w_notes := rows, w_clock := Suc (w_clock w)\<rparr>))"

text \<open>What the harness keeps while the body runs: the signal (the first abort wins), the steps and
  the resume pointer.\<close>

record run_state =
  rs_signal :: "abort_reason option"
  rs_steps :: "job_step list"
  rs_pointer :: "json_object option"
  rs_world :: world

definition abort :: "abort_reason \<Rightarrow> run_state \<Rightarrow> run_state" where
  "abort r s = (case rs_signal s of None \<Rightarrow> s\<lparr>rs_signal := Some r\<rparr> | Some _ \<Rightarrow> s)"

definition emit_snapshot ::
    "job_definition \<Rightarrow> uuid \<Rightarrow> env \<Rightarrow> job_step list \<times> step_snapshot option \<Rightarrow> run_state
      \<Rightarrow> run_state" where
  "emit_snapshot def jobId e p s =
     (case p of
        (steps, None) \<Rightarrow> s\<lparr>rs_steps := steps\<rparr>
      | (steps, Some snap) \<Rightarrow>
          s\<lparr>rs_steps := steps,
            rs_world := run_store def
              (\<lambda>_. setProgress jobId \<lparr>p_current = sn_current snap, p_total = sn_total snap,
                                      p_message = Some (sn_message snap)\<rparr>)
              (Some (sn_steps snap)) e (rs_world s)\<rparr>)"

fun act :: "job_definition \<Rightarrow> uuid \<Rightarrow> env \<Rightarrow> run_state \<Rightarrow> action \<Rightarrow> run_state" where
  "act def jobId e s (Phase k d) = emit_snapshot def jobId e (advance k d (rs_steps s)) s"
| "act def jobId e s (DetailOf k d) = emit_snapshot def jobId e (detail_step k d (rs_steps s)) s"
| "act def jobId e s (Notify n) = s\<lparr>rs_world := post def jobId n False e (rs_world s)\<rparr>"
| "act def jobId e s (ResumeWith p) = s\<lparr>rs_pointer := Some p\<rparr>"
| "act def jobId e s (GiveUp err) = abort (RAbandoned err) s"
| "act def jobId e s (EnvAbort r) = abort r s"
| "act def jobId e s (EnvStore op) =
     s\<lparr>rs_world := (rs_world s)\<lparr>w_jobs := jobs_step (w_jobs (rs_world s)) op\<rparr>\<rparr>"

subsection \<open>Settling\<close>

definition wasCancelled :: "abort_reason option \<Rightarrow> bool" where
  "wasCancelled sig \<longleftrightarrow> sig = Some RCancelled"

definition abandoned :: "abort_reason option \<Rightarrow> js_error option" where
  "abandoned sig = (case sig of Some (RAbandoned e) \<Rightarrow> Some e | _ \<Rightarrow> None)"

definition shutDown :: "abort_reason option \<Rightarrow> bool" where
  "shutDown sig \<longleftrightarrow> sig \<noteq> None \<and> \<not> wasCancelled sig \<and> abandoned sig = None"

definition settleCancelled :: "job_definition \<Rightarrow> uuid \<Rightarrow> env \<Rightarrow> world \<Rightarrow> world" where
  "settleCancelled def jobId e w = run_store def (\<lambda>now. markCancelled now jobId) None e w"

definition paused_note :: "job_definition \<Rightarrow> job_notification" where
  "paused_note def =
     \<lparr>jn_level = LWarning, jn_title = ''Paused, out of credits'',
      jn_body = Some (d_title def @
        '' stopped part-way. It carries on as soon as this workspace can spend again.''),
      jn_data = [(''reason'', JStr ''credits''), (''href'', JStr ''/settings/credits'')]\<rparr>"

definition settlePaused :: "job_definition \<Rightarrow> uuid \<Rightarrow> json_object option \<Rightarrow> env \<Rightarrow> world \<Rightarrow> world" where
  "settlePaused def jobId pointer e w =
     post def jobId (paused_note def) True e
       (run_store def (\<lambda>now. markPaused now jobId PauseCredits pointer) None e w)"

definition settleSucceeded :: "job_definition \<Rightarrow> uuid \<Rightarrow> outcome \<Rightarrow> env \<Rightarrow> world \<Rightarrow> world" where
  "settleSucceeded def jobId out e w =
     (let w1 = run_store def
                 (\<lambda>now. markSucceeded now jobId (case o_result out of None \<Rightarrow> JObj [] | Some r \<Rightarrow> r))
                 None e w
      in case o_notification out of None \<Rightarrow> w1 | Some n \<Rightarrow> post def jobId n True e w1)"

definition settleFailed :: "job_definition \<Rightarrow> uuid \<Rightarrow> js_error \<Rightarrow> env \<Rightarrow> world \<Rightarrow> world" where
  "settleFailed def jobId err e w =
     report (EvException err)
       (post def jobId (d_onError def err) True e
         (run_store def (\<lambda>now. markFailed now jobId (summarizeError err)) None e w))"

text \<open>How a run is settled: \<open>None\<close> when a shutdown leaves the row for the next boot, else the outcome,
  the result the hook sees and the error that is rethrown.\<close>

definition settle ::
    "job_definition \<Rightarrow> uuid \<Rightarrow> env \<Rightarrow> run_state \<Rightarrow> body_end
      \<Rightarrow> ((outcome_status \<times> json option \<times> js_error option) option) \<times> world" where
  "settle def jobId e s fin =
     (let sig = rs_signal s; w = rs_world s;
          thrown = (case fin of
              Throws err \<Rightarrow> Some err
            | Returns _ \<Rightarrow> (case abandoned sig of
                  Some c \<Rightarrow> Some (JsError False ''the job could not go on'' None False False (Some c))
                | None \<Rightarrow> None))
      in case (fin, thrown) of
           (Returns out, None) \<Rightarrow>
             if shutDown sig then (None, w)
             else if sig \<noteq> None then (Some (OCancelled, None, None), settleCancelled def jobId e w)
             else (Some (OSucceeded, o_result out, None), settleSucceeded def jobId out e w)
         | (_, Some err) \<Rightarrow>
             if isCreditsExhausted err then
               (Some (OPaused, None, None), settlePaused def jobId (rs_pointer s) e w)
             else if shutDown sig then (None, w)
             else if sig \<noteq> None \<and> abandoned sig = None then
               (Some (OCancelled, None, None), settleCancelled def jobId e w)
             else
               (let err' = (case abandoned sig of Some c \<Rightarrow> c | None \<Rightarrow> err)
                in (Some (OFailed, None, Some err'), settleFailed def jobId err' e w))
         | _ \<Rightarrow> (None, w))"

definition executeJob ::
    "env \<Rightarrow> job_definition \<Rightarrow> uuid \<Rightarrow> abort_reason option \<Rightarrow> script \<Rightarrow> world
      \<Rightarrow> js_error option \<times> world" where
  "executeJob e def jobId pre sc w =
     (let (running, rows) = markRunning (stamp e (w_clock w)) jobId (w_jobs w)
      in case running of
           None \<Rightarrow> (None, w\<lparr>w_jobs := rows, w_clock := Suc (w_clock w)\<rparr>)
         | Some job \<Rightarrow>
             (let steps = new_tracker (d_steps def);
                  w0 = report (EvProgress (d_title def) job (Some steps))
                         (report (EvStarted jobId)
                           (w\<lparr>w_jobs := rows, w_clock := Suc (w_clock w)\<rparr>));
                  s = foldl (act def jobId e)
                        \<lparr>rs_signal = pre, rs_steps = steps, rs_pointer = None, rs_world = w0\<rparr>
                        (sc_actions sc)
              in case settle def jobId e s (sc_end sc) of
                   (None, w1) \<Rightarrow> (None, w1)
                 | (Some (st, res, failure), w1) \<Rightarrow>
                     (failure, report (EvSettled st) (report (EvSettledHook st res) w1))))"

subsection \<open>What the summary of an error shows\<close>

lemma bound_length: "length (bound m) \<le> error_summary_limit"
  by (simp add: bound_def error_summary_limit_def)

lemma is_internal_True: "is_internal n True cur"
  by (induction n "True" cur rule: is_internal.induct) (auto simp: Let_def)

text \<open>The errors of a chain of causes, the first \<open>n\<close> of them.\<close>

fun chain :: "nat \<Rightarrow> js_error option \<Rightarrow> js_error list" where
  "chain 0 cur = []"
| "chain (Suc n) None = []"
| "chain (Suc n) (Some e) = e # chain n (cause e)"

definition database_error :: "js_error \<Rightarrow> bool" where
  "database_error e \<longleftrightarrow>
     has_query e \<or> driver_error e \<and> (case code e of None \<Rightarrow> False | Some c \<Rightarrow> sqlstate c)"

lemma is_internal_iff:
  "is_internal n False cur \<longleftrightarrow> (\<exists>e\<in>set (chain n cur). database_error e)"
proof (induction n arbitrary: cur)
  case (Suc n)
  show ?case
  proof (cases cur)
    case (Some e)
    show ?thesis
    proof (cases "database_error e")
      case True
      then show ?thesis
        by (auto simp: Some is_internal_True database_error_def Let_def split: option.splits)
    next
      case False
      then have "is_internal (Suc n) False cur \<longleftrightarrow> is_internal n False (cause e)"
        by (auto simp: Some database_error_def Let_def)
      with False show ?thesis by (simp add: Some Suc.IH)
    qed
  qed simp
qed simp

subsection \<open>The row of the job while it runs\<close>

definition row :: "uuid \<Rightarrow> world \<Rightarrow> job_row option" where
  "row i w = find (\<lambda>r. j_id r = i) (w_jobs w)"

lemma row_report [simp]: "row i (report ev w) = row i w"
  by (simp add: row_def report_def)

lemma w_jobs_report [simp]: "w_jobs (report ev w) = w_jobs w"
  "w_clock (report ev w) = w_clock w" "w_notes (report ev w) = w_notes w"
  by (simp_all add: report_def)

lemma w_jobs_post [simp]: "w_jobs (post def jobId n b e w) = w_jobs w"
  by (simp add: post_def case_prod_beta)

lemma row_post [simp]: "row i (post def jobId n b e w) = row i w"
  by (simp add: row_def)

lemma w_jobs_run_store:
  "w_jobs (run_store def f steps e w) = snd (f (stamp e (w_clock w)) (w_jobs w))"
  by (simp add: run_store_def case_prod_beta Let_def split: option.splits)

lemma find_id_update:
  assumes "distinct (map j_id rows)" and "\<And>r. j_id (f r) = j_id r"
  shows "find (\<lambda>r. j_id r = i) (update_where (\<lambda>r. j_id r = i \<and> P r) f rows) =
    map_option (\<lambda>r. if P r then f r else r) (find (\<lambda>r. j_id r = i) rows)"
  using assms by (induction rows) (auto split: if_splits)

definition store_ids :: "world \<Rightarrow> bool" where
  "store_ids w \<longleftrightarrow> distinct (map j_id (w_jobs w))"

lemma row_update_job:
  assumes "store_ids w" and "w_jobs w' = snd (update_job i P f (w_jobs w))"
    and "\<And>r. j_id (f r) = j_id r"
  shows "row i w' = map_option (\<lambda>r. if P r then f r else r) (row i w) \<and> store_ids w'"
  using assms by (simp add: row_def update_job_def find_id_update store_ids_def map_update_where)

definition core :: "job_row \<Rightarrow> job_status \<times> json_object option" where
  "core r = (j_status r, j_payload r)"

definition quiet :: "action \<Rightarrow> bool" where
  "quiet a \<longleftrightarrow> (case a of EnvStore _ \<Rightarrow> False | _ \<Rightarrow> True)"

definition calls_off :: "abort_reason option \<Rightarrow> action \<Rightarrow> abort_reason option" where
  "calls_off sig a =
     (case sig of Some _ \<Rightarrow> sig
      | None \<Rightarrow> (case a of GiveUp e \<Rightarrow> Some (RAbandoned e) | EnvAbort r \<Rightarrow> Some r | _ \<Rightarrow> None))"

definition points :: "json_object option \<Rightarrow> action \<Rightarrow> json_object option" where
  "points p a = (case a of ResumeWith q \<Rightarrow> Some q | _ \<Rightarrow> p)"

lemma act_signal: "rs_signal (act def i e s a) = calls_off (rs_signal s) a"
  by (cases a) (auto simp: emit_snapshot_def abort_def calls_off_def split: prod.splits option.splits)

lemma act_pointer: "rs_pointer (act def i e s a) = points (rs_pointer s) a"
  by (cases a) (auto simp: emit_snapshot_def abort_def points_def split: prod.splits option.splits)

lemma setProgress_row:
  assumes "store_ids w"
  shows "map_option core (row i (run_store def (\<lambda>_. setProgress i p) st e w)) = map_option core (row i w)
    \<and> store_ids (run_store def (\<lambda>_. setProgress i p) st e w)"
proof -
  have "row i (run_store def (\<lambda>_. setProgress i p) st e w) = map_option (\<lambda>r. if True
       then r\<lparr>j_progressCurrent := p_current p, j_progressTotal := p_total p,
              j_progressMessage := p_message p\<rparr> else r) (row i w)
    \<and> store_ids (run_store def (\<lambda>_. setProgress i p) st e w)"
    by (rule row_update_job [OF assms]) (simp_all add: w_jobs_run_store setProgress_def)
  then show ?thesis by (simp add: option.map_comp o_def core_def [abs_def])
qed

lemma act_row:
  assumes "quiet a" and "store_ids (rs_world s)"
  shows "map_option core (row i (rs_world (act def i e s a))) = map_option core (row i (rs_world s))
    \<and> store_ids (rs_world (act def i e s a))"
  using assms setProgress_row [of "rs_world s" i]
  by (cases a) (auto simp: emit_snapshot_def abort_def quiet_def store_ids_def split: prod.splits option.splits)

lemma acts_row:
  assumes "\<forall>a\<in>set as. quiet a" and "store_ids (rs_world s)"
  shows "map_option core (row i (rs_world (foldl (act def i e) s as))) = map_option core (row i (rs_world s))
    \<and> store_ids (rs_world (foldl (act def i e) s as))"
  using assms
proof (induction as arbitrary: s)
  case (Cons a as)
  then show ?case using act_row [of a s i def e] by simp
qed simp

lemma acts_signal: "rs_signal (foldl (act def i e) s as) = foldl calls_off (rs_signal s) as"
  by (induction as arbitrary: s) (simp_all add: act_signal)

lemma acts_pointer: "rs_pointer (foldl (act def i e) s as) = foldl points (rs_pointer s) as"
  by (induction as arbitrary: s) (simp_all add: act_pointer)

subsection \<open>The row after each settling\<close>

lemma settled_row:
  assumes "store_ids w" and "map_option core (row i w) = Some (Running, pay)"
  shows "map_option core (row i (settleCancelled def i e w)) = Some (Cancelled, pay)"
    and "map_option core (row i (settlePaused def i ptr e w)) =
      Some (Paused, Some (json_concat (case pay of None \<Rightarrow> [] | Some p \<Rightarrow> p)
                                      (case ptr of None \<Rightarrow> [] | Some p \<Rightarrow> p)))"
    and "map_option core (row i (settleSucceeded def i out e w)) = Some (Succeeded, pay)"
    and "map_option core (row i (settleFailed def i err e w)) = Some (Failed, pay)"
proof -
  obtain r where r: "row i w = Some r" "j_status r = Running" "j_payload r = pay"
    using assms(2) by (auto simp: core_def)
  let ?now = "stamp e (w_clock w)"
  have c: "row i (settleCancelled def i e w) = map_option (\<lambda>r. if isActiveJob (j_status r)
        then r\<lparr>j_status := Cancelled, j_finishedAt := Some ?now\<rparr> else r) (row i w)
      \<and> store_ids (settleCancelled def i e w)"
    by (rule row_update_job [OF assms(1)])
      (simp_all add: settleCancelled_def w_jobs_run_store markCancelled_def)
  have p: "row i (settlePaused def i ptr e w) = map_option (\<lambda>r. if isActiveJob (j_status r)
        then r\<lparr>j_status := Paused, j_pauseReason := Some PauseCredits, j_finishedAt := Some ?now,
          j_payload := Some (json_concat (case j_payload r of None \<Rightarrow> [] | Some p \<Rightarrow> p)
                                         (case ptr of None \<Rightarrow> [] | Some p \<Rightarrow> p))\<rparr> else r) (row i w)
      \<and> store_ids (settlePaused def i ptr e w)"
    by (rule row_update_job [OF assms(1)])
      (simp_all add: settlePaused_def w_jobs_run_store markPaused_def)
  have s: "row i (settleSucceeded def i out e w) = map_option (\<lambda>r. if True
        then r\<lparr>j_status := Succeeded,
          j_result := Some (case o_result out of None \<Rightarrow> JObj [] | Some r \<Rightarrow> r),
          j_finishedAt := Some ?now\<rparr> else r) (row i w)
      \<and> store_ids (settleSucceeded def i out e w)"
    by (rule row_update_job [OF assms(1)])
      (simp_all add: settleSucceeded_def w_jobs_run_store markSucceeded_def Let_def split: option.splits)
  have f: "row i (settleFailed def i err e w) = map_option (\<lambda>r. if True
        then r\<lparr>j_status := Failed, j_error := Some (summarizeError err), j_finishedAt := Some ?now\<rparr>
        else r) (row i w)
      \<and> store_ids (settleFailed def i err e w)"
    by (rule row_update_job [OF assms(1)])
      (simp_all add: settleFailed_def w_jobs_run_store markFailed_def)
  show "map_option core (row i (settleCancelled def i e w)) = Some (Cancelled, pay)"
    using c r by (simp add: core_def isActiveJob_def)
  show "map_option core (row i (settlePaused def i ptr e w)) =
      Some (Paused, Some (json_concat (case pay of None \<Rightarrow> [] | Some p \<Rightarrow> p)
                                      (case ptr of None \<Rightarrow> [] | Some p \<Rightarrow> p)))"
    using p r by (simp add: core_def isActiveJob_def)
  show "map_option core (row i (settleSucceeded def i out e w)) = Some (Succeeded, pay)"
    using s r by (simp add: core_def)
  show "map_option core (row i (settleFailed def i err e w)) = Some (Failed, pay)"
    using f r by (simp add: core_def)
qed

subsection \<open>The outcome of a run\<close>

text \<open>
  The contract the harness states in its comments, on the script alone: out of credits pauses, read
  before any abort; a shutdown leaves the row; a cancel cancels; a body that gave up fails with why;
  what is left succeeds or fails as the body ended. The last component is the error rethrown.
\<close>

definition verdict ::
    "abort_reason option \<Rightarrow> body_end \<Rightarrow> (outcome_status \<times> js_error option) option" where
  "verdict sig fin =
     (case fin of
        Throws err \<Rightarrow>
          if isCreditsExhausted err then Some (OPaused, None)
          else (case sig of
                  None \<Rightarrow> Some (OFailed, Some err)
                | Some RShutdown \<Rightarrow> None
                | Some RCancelled \<Rightarrow> Some (OCancelled, None)
                | Some (RAbandoned why) \<Rightarrow> Some (OFailed, Some why))
      | Returns _ \<Rightarrow>
          (case sig of
             None \<Rightarrow> Some (OSucceeded, None)
           | Some RShutdown \<Rightarrow> None
           | Some RCancelled \<Rightarrow> Some (OCancelled, None)
           | Some (RAbandoned why) \<Rightarrow> Some (OFailed, Some why)))"

definition row_after ::
    "json_object option \<Rightarrow> json_object option \<Rightarrow> (outcome_status \<times> js_error option) option
      \<Rightarrow> job_status \<times> json_object option" where
  "row_after pay ptr v =
     (case v of
        None \<Rightarrow> (Running, pay)
      | Some (OSucceeded, _) \<Rightarrow> (Succeeded, pay)
      | Some (OFailed, _) \<Rightarrow> (Failed, pay)
      | Some (OCancelled, _) \<Rightarrow> (Cancelled, pay)
      | Some (OPaused, _) \<Rightarrow>
          (Paused, Some (json_concat (case pay of None \<Rightarrow> [] | Some p \<Rightarrow> p)
                                     (case ptr of None \<Rightarrow> [] | Some p \<Rightarrow> p))))"

lemma settle_verdict:
  assumes "store_ids (rs_world s)" and "map_option core (row i (rs_world s)) = Some (Running, pay)"
  shows "map_option (\<lambda>(st, _, err). (st, err)) (fst (settle def i e s fin)) = verdict (rs_signal s) fin
    \<and> map_option core (row i (snd (settle def i e s fin))) =
        Some (row_after pay (rs_pointer s) (verdict (rs_signal s) fin))"
  using assms settled_row [OF assms]
  by (auto simp: settle_def verdict_def row_after_def Let_def shutDown_def wasCancelled_def
      abandoned_def isCreditsExhausted_def
      split: body_end.splits option.splits abort_reason.splits)

text \<open>What the runtime's observer is told, of all that was reported.\<close>

definition settled_reports :: "world \<Rightarrow> outcome_status list" where
  "settled_reports w = concat (map (\<lambda>ev. case ev of EvSettled st \<Rightarrow> [st] | _ \<Rightarrow> []) (w_events w))"

lemma settled_reports_report:
  "settled_reports (report ev w) = settled_reports w @ (case ev of EvSettled st \<Rightarrow> [st] | _ \<Rightarrow> [])"
  by (simp add: settled_reports_def report_def)

lemma settled_reports_update [simp]:
  "settled_reports (w\<lparr>w_jobs := x\<rparr>) = settled_reports w"
  "settled_reports (w\<lparr>w_notes := y\<rparr>) = settled_reports w"
  "settled_reports (w\<lparr>w_clock := z\<rparr>) = settled_reports w"
  by (simp_all add: settled_reports_def)

lemma settled_reports_quiet [simp]:
  "settled_reports (run_store def f st e w) = settled_reports w"
  "settled_reports (post def i n b e w) = settled_reports w"
  by (simp_all add: run_store_def post_def settled_reports_report case_prod_beta Let_def split: option.splits)

lemma settled_reports_act: "settled_reports (rs_world (act def i e s a)) = settled_reports (rs_world s)"
  by (cases a) (auto simp: emit_snapshot_def abort_def split: prod.splits option.splits)

lemma settled_reports_acts:
  "settled_reports (rs_world (foldl (act def i e) s as)) = settled_reports (rs_world s)"
  by (induction as arbitrary: s) (simp_all add: settled_reports_act)

lemma settled_reports_settle: "settled_reports (snd (settle def i e s fin)) = settled_reports (rs_world s)"
  by (auto simp: settle_def settleCancelled_def settlePaused_def settleSucceeded_def settleFailed_def
      settled_reports_report Let_def split: body_end.splits option.splits)

lemma markRunning_queued:
  assumes "store_ids w" and "row i w = Some r" and "j_status r = Queued"
  shows "fst (markRunning now i (w_jobs w)) \<noteq> None"
    and "find (\<lambda>r. j_id r = i) (snd (markRunning now i (w_jobs w))) =
      Some (r\<lparr>j_status := Running, j_startedAt := Some now\<rparr>)"
    and "distinct (map j_id (snd (markRunning now i (w_jobs w))))"
proof -
  have mem: "r \<in> set (w_jobs w)" "j_id r = i"
    using assms(2) find_Some_mem by (fastforce simp: row_def)+
  have "find (\<lambda>r. j_id r = i \<and> j_status r = Queued) (w_jobs w) = Some r"
    using assms mem by (intro find_unique) (auto simp: store_ids_def)
  then show "fst (markRunning now i (w_jobs w)) \<noteq> None"
    by (simp add: markRunning_def update_job_def returning_first_def)
  show "find (\<lambda>r. j_id r = i) (snd (markRunning now i (w_jobs w))) =
      Some (r\<lparr>j_status := Running, j_startedAt := Some now\<rparr>)"
    using assms by (simp add: markRunning_def update_job_def find_id_update store_ids_def row_def)
  show "distinct (map j_id (snd (markRunning now i (w_jobs w))))"
    using assms by (simp add: markRunning_def update_job_def map_update_where store_ids_def)
qed

text \<open>C1: a job the harness claims is settled exactly as its contract says: the row ends in the status
  of the verdict on its script (out of credits pauses whatever else stopped it, with the last resume
  pointer merged onto the payload; a shutdown leaves it running for the next boot), the error
  rethrown is the body's own or why it gave up, and the observer is told that one outcome once.\<close>

theorem executeJob_outcome:
  assumes "store_ids w" and "row i w = Some r" and "j_status r = Queued"
    and "\<forall>a\<in>set (sc_actions sc). quiet a"
  shows "let v = verdict (foldl calls_off pre (sc_actions sc)) (sc_end sc);
             (failure, w') = executeJob e def i pre sc w
         in failure = (case v of None \<Rightarrow> None | Some (_, err) \<Rightarrow> err) \<and>
            map_option core (row i w') =
              Some (row_after (j_payload r) (foldl points None (sc_actions sc)) v) \<and>
            settled_reports w' =
              settled_reports w @ (case v of None \<Rightarrow> [] | Some (st, _) \<Rightarrow> [st])"
proof -
  let ?now = "stamp e (w_clock w)"
  obtain job where job: "fst (markRunning ?now i (w_jobs w)) = Some job"
    using markRunning_queued(1) [OF assms(1-3)] by blast
  let ?rows = "snd (markRunning ?now i (w_jobs w))"
  let ?steps = "new_tracker (d_steps def)"
  let ?claimed = "report (EvProgress (d_title def) job (Some ?steps)) (report (EvStarted i)
      (w\<lparr>w_jobs := ?rows, w_clock := Suc (w_clock w)\<rparr>))"
  let ?init = "\<lparr>rs_signal = pre, rs_steps = ?steps, rs_pointer = None, rs_world = ?claimed\<rparr>"
  let ?s = "foldl (act def i e) ?init (sc_actions sc)"
  let ?v = "verdict (foldl calls_off pre (sc_actions sc)) (sc_end sc)"
  have 0: "map_option core (row i ?claimed) = Some (Running, j_payload r)" "store_ids ?claimed"
    using markRunning_queued(2,3) [OF assms(1-3), of ?now]
    by (simp_all add: row_def core_def store_ids_def)
  have s: "map_option core (row i (rs_world ?s)) = Some (Running, j_payload r)" "store_ids (rs_world ?s)"
    using acts_row [OF assms(4), of ?init i def e] 0 by simp_all
  have sig: "rs_signal ?s = foldl calls_off pre (sc_actions sc)"
    "rs_pointer ?s = foldl points None (sc_actions sc)"
    by (simp_all add: acts_signal acts_pointer)
  have v: "map_option (\<lambda>(st, _, err). (st, err)) (fst (settle def i e ?s (sc_end sc))) = ?v"
    "map_option core (row i (snd (settle def i e ?s (sc_end sc)))) =
        Some (row_after (j_payload r) (foldl points None (sc_actions sc)) ?v)"
    using settle_verdict [OF s(2,1), of def e "sc_end sc"] sig by simp_all
  have rep: "settled_reports (snd (settle def i e ?s (sc_end sc))) = settled_reports w"
    by (simp add: settled_reports_settle settled_reports_acts settled_reports_report)
  have ex: "executeJob e def i pre sc w =
      (case settle def i e ?s (sc_end sc) of
         (None, w1) \<Rightarrow> (None, w1)
       | (Some (st, res, failure), w1) \<Rightarrow>
           (failure, report (EvSettled st) (report (EvSettledHook st res) w1)))"
    using job by (simp add: executeJob_def case_prod_beta Let_def)
  obtain res w1 where R: "settle def i e ?s (sc_end sc) = (res, w1)" by (rule prod.exhaust)
  show ?thesis
    using v(2) rep unfolding ex v(1) [symmetric] R
    by (cases res) (auto simp: settled_reports_report)
qed

text \<open>a worker that picks up a row no longer queued (cancelled in between, or already claimed)
  runs nothing: no row, no notice and no report changes.\<close>

theorem executeJob_skips_unqueued:
  assumes "\<forall>r\<in>set (w_jobs w). j_id r = i \<longrightarrow> j_status r \<noteq> Queued"
  shows "executeJob e def i pre sc w = (None, w\<lparr>w_clock := Suc (w_clock w)\<rparr>)"
proof -
  have "find (\<lambda>r. j_id r = i \<and> j_status r = Queued) (w_jobs w) = None"
    using assms by (auto simp: find_None_iff_all)
  then have "markRunning (stamp e (w_clock w)) i (w_jobs w) = (None, w_jobs w)"
    by (simp add: markRunning_def update_job_def returning_first_def find_None_update)
  then show ?thesis by (simp add: executeJob_def)
qed

text \<open>no error a database made shows in what a person reads: if any of the first sixteen errors of
  a chain of causes is a failed query or carries a driver's SQLSTATE, the summary is the fixed
  sentence, unless the operation wrote its own message; and a summary is never longer than its limit.\<close>

theorem summary_hides_database:
  "(summarizeError err = internal_error \<or> summarizeError err = bound (message err)) \<and>
   ((\<exists>e\<in>set (chain 16 (Some err)). database_error e) \<and> \<not> user_facing err \<longrightarrow>
      summarizeError err = internal_error) \<and>
   length (summarizeError err) \<le> error_summary_limit"
proof -
  have "length internal_error \<le> error_summary_limit"
    by (simp add: internal_error_def error_summary_limit_def)
  then show ?thesis
    using bound_length unfolding summarizeError_def is_internal_iff by auto
qed

definition demo_env :: env where
  "demo_env = \<lparr>stamp = (\<lambda>_. ''now''), fresh = (\<lambda>_. ''id'')\<rparr>"

definition demo_def :: job_definition where
  "demo_def = \<lparr>d_type = ''t'', d_title = ''T'', d_steps = [(''a'', ''A'')], d_org = ''o'',
     d_onError = (\<lambda>e. \<lparr>jn_level = LError, jn_title = message e, jn_body = None, jn_data = []\<rparr>)\<rparr>"

definition demo_world :: world where
  "demo_world = \<lparr>w_jobs = [queued_row ''1'' ''j'' demo_input], w_notes = [], w_events = [], w_clock = 0\<rparr>"

definition out_of_credits :: js_error where
  "out_of_credits = JsError False ''out'' (Some ''credits-exhausted'') False False None"

definition demo_script :: script where
  "demo_script = \<lparr>sc_actions = [Phase ''a'' None, ResumeWith [(''runId'', JStr ''r'')], EnvAbort RShutdown],
     sc_end = Throws out_of_credits\<rparr>"

theorem executeJob_outcome_witness:
  "\<exists>w'. executeJob demo_env demo_def ''j'' None demo_script demo_world = (None, w') \<and>
     map_option core (row ''j'' w') = Some (Paused, Some [(''runId'', JStr ''r'')]) \<and>
     settled_reports w' = [OPaused]"
proof -
  let ?r = "queued_row ''1'' ''j'' demo_input"
  have h: "store_ids demo_world" "row ''j'' demo_world = Some ?r" "j_status ?r = Queued"
    "\<forall>a\<in>set (sc_actions demo_script). quiet a"
    by (simp_all add: store_ids_def demo_world_def row_def queued_row_def demo_script_def quiet_def)
  have v: "verdict (foldl calls_off None (sc_actions demo_script)) (sc_end demo_script) = Some (OPaused, None)"
    by (simp add: demo_script_def verdict_def out_of_credits_def isCreditsExhausted_def)
  have p: "foldl points None (sc_actions demo_script) = Some [(''runId'', JStr ''r'')]"
    by (simp add: demo_script_def points_def)
  have m: "j_payload ?r = None" by (simp add: queued_row_def demo_input_def)
  show ?thesis
    using executeJob_outcome [OF h, of None demo_env demo_def] unfolding v p m
    by (auto simp: row_after_def json_concat_def settled_reports_def demo_world_def)
qed

theorem executeJob_skips_unqueued_witness:
  "executeJob demo_env demo_def ''j'' None demo_script (demo_world\<lparr>w_jobs := [demo_running]\<rparr>) =
     (None, demo_world\<lparr>w_jobs := [demo_running], w_clock := 1\<rparr>)"
proof -
  have "\<forall>r\<in>set (w_jobs (demo_world\<lparr>w_jobs := [demo_running]\<rparr>)). j_id r = ''j'' \<longrightarrow> j_status r \<noteq> Queued"
    by (simp add: demo_running_def)
  from executeJob_skips_unqueued [OF this, of demo_env demo_def None demo_script]
  show ?thesis by (simp add: demo_world_def)
qed

theorem summary_hides_database_witness:
  "summarizeError (JsError False ''lost'' None False False
     (Some (JsError False ''select secret'' (Some ''42P01'') True True None))) = internal_error"
proof -
  let ?e = "JsError False ''lost'' None False False
     (Some (JsError False ''select secret'' (Some ''42P01'') True True None))"
  have "(\<exists>e\<in>set (chain 16 (Some ?e)). database_error e) \<and> \<not> user_facing ?e"
    by (simp add: eval_nat_numeral database_error_def)
  with summary_hides_database [of ?e] show ?thesis by blast
qed

end
