(* ===== verification/SessionTypes.thy ===== *)
theory SessionTypes
  imports Complex_Main Prelude
begin

text \<open>
  The vocabulary of an agent session: the events, failures and index entries of
  \<open>packages/agent-loop/src/session-events.ts\<close> and \<open>session-store.ts\<close>, what a driver answers
  (\<open>session-driver.ts\<close>), and what a session is defined by (\<open>session-def.ts\<close>).

  Costs in US dollars are exact rationals where the program has doubles. Fields that only a
  transcript's reader uses (display blocks, raw payloads, images, the timestamp of an event) are
  left out. A value a zod schema has not read yet is a JSON value; the schema, the resolver and the
  validator of an outcome are functions of the definition, as they are in the program.
\<close>

datatype error_class = EProvider | ETransport | EPermission | EValidation | EUnknown

datatype retryability = Transient | Blocked | NoRetry

datatype session_failure =
    BudgetExhausted (notReached: string) retryability
  | ContextExhausted retryability
  | Malformed (malformed_detail: string) retryability
  | Transport (transport_detail: string) error_class retryability
  | SessionLost (providerSessionId: string) retryability

fun retryability_of :: "session_failure \<Rightarrow> retryability" where
  "retryability_of (BudgetExhausted _ r) = r"
| "retryability_of (ContextExhausted r) = r"
| "retryability_of (Malformed _ r) = r"
| "retryability_of (Transport _ _ r) = r"
| "retryability_of (SessionLost _ r) = r"

datatype session_status = SRunning | SWaiting | SParked | SCompleted | SFailed

record turn_cost =
  tc_input :: rat
  tc_output :: rat
  tc_cached :: rat

record turn_usage =
  u_inputTokens :: nat
  u_outputTokens :: nat
  u_cacheReadTokens :: nat
  u_cacheCreateTokens :: nat
  u_costUsd :: rat
  u_cost :: "turn_cost option"

record budget_spent =
  sp_turns :: nat
  sp_tokens :: nat
  sp_costUsd :: rat

record user_question =
  q_id :: string
  q_header :: string
  q_question :: string
  q_options :: "(string \<times> string option) list"
  q_multiSelect :: bool

record child_linkage =
  cl_sessionId :: string
  cl_kind :: string
  cl_workItem :: string

datatype event_body =
    SessionStart string string string "string list" "string option"
  | UserMessage string
  | AssistantTurn turn_usage "string option"
  | ToolResult string string
  | QuestionAsked user_question
  | QuestionResolved string
  | ProviderRetry nat "nat option"
  | ReAsk string string
  | ResumeGrant nat nat
  | ChildStarted child_linkage
  | ChildCompleted child_linkage session_status budget_spent
  | OutcomeEvent json
  | FailureEvent session_failure

record session_event =
  ev_seq :: nat
  ev_body :: event_body

record index_entry =
  ix_sessionId :: string
  ix_kind :: string
  ix_workItem :: string
  ix_parent :: "string option"
  ix_status :: session_status
  ix_spent :: budget_spent
  ix_ended :: bool
  ix_cursor :: "json option"

subsection \<open>The driver's side\<close>

datatype driver_result =
    DOutcome json "json option"
  | DFailure session_failure "json option"

fun cursor_of :: "driver_result \<Rightarrow> json option" where
  "cursor_of (DOutcome _ c) = c"
| "cursor_of (DFailure _ c) = c"

record session_resume =
  re_cursor :: "json option"
  re_events :: "session_event list"

record session_budget =
  b_turns :: nat
  b_maxResumes :: nat
  b_tokenCeiling :: nat

record outcome_precondition =
  op_tool :: string
  op_message :: string

record draft_checkpoint =
  dc_tool :: string
  dc_afterTurn :: nat
  dc_message :: string

text \<open>What a zod schema answers about a value it refuses: the issues, each with the path it is at, and
  the message zod makes of them.\<close>

record zod_error =
  ze_issues :: "(string list \<times> string) list"
  ze_message :: string

text \<open>A session definition. \<open>sd_resolve\<close> and \<open>sd_validate\<close> are optional in the program. A resolver
  may throw (\<open>Inl\<close>, the \<open>ZodError\<close> its exception is or is wrapped in), a validator too (\<open>Inl\<close>, the
  exception as text), and a validator answers a correction or nothing.\<close>

record session_def =
  sd_kind :: string
  sd_systemPrompt :: string
  sd_toolNames :: "string list"
  sd_budget :: session_budget
  sd_schema :: "json \<Rightarrow> zod_error + json"
  sd_resolve :: "(json \<Rightarrow> session_event list \<Rightarrow> zod_error + json) option"
  sd_validate :: "(json \<Rightarrow> bool \<Rightarrow> string + string option) option"
  sd_schemaRepairs :: "nat option"
  sd_precondition :: "outcome_precondition option"
  sd_checkpoint :: "draft_checkpoint option"

datatype session_outcome =
    Completed json "user_question list" budget_spent
  | FailedOutcome session_failure bool budget_spent

definition totalTokens :: "turn_usage \<Rightarrow> nat" where
  "totalTokens u = u_inputTokens u + u_outputTokens u + u_cacheReadTokens u + u_cacheCreateTokens u"

definition contextTokens :: "turn_usage \<Rightarrow> nat" where
  "contextTokens u = u_inputTokens u + u_cacheReadTokens u + u_cacheCreateTokens u"

end
