(* ===== verification/AgentLoop.thy ===== *)
theory AgentLoop
  imports SessionTypes
begin

text \<open>
  The shell around one agent session: \<open>runAgentLoop\<close> of \<open>packages/agent-loop/src/agent-loop.ts\<close>.

  A driver is code behind an interface. What the shell sees of one driver run is a script: the
  inputs that arrive while \<open>runSession\<close> has not returned its handle yet, those that arrive after,
  and how the run ends. An input is an event the driver emits, an abort, a clock that fired, or a
  child session's two lines. A session runs its driver a bounded number of times; \<open>driver k\<close> is the
  script of its run number \<open>k\<close>. Quantifying over all such functions covers a driver that answers to
  what it is sent, since a run of it is one such function.

  When the clocks are armed is not modelled (a clock that fires is an input at any moment), nor are
  tool arguments, display blocks and the live progress channel.
\<close>

definition WRAP_UP_TURNS :: nat where
  "WRAP_UP_TURNS = 3"

datatype interrupt_cause = CBudget | CContext | CMalformed | CAborted

text \<open>What the shell says to a session: the announcement of grant \<open>g\<close> of \<open>n\<close> (of so many turns), the
  demand for the outcome (naming the required tool), and the definition's own draft message. The
  two texts are \<open>resumeGrantMessage\<close> and \<open>wrapUpMessage\<close>.\<close>

datatype steer =
    GrantAnnounced nat nat nat
  | OutcomeDemanded "string option"
  | DraftDemanded string

text \<open>What the shell keeps. \<open>ls_handle\<close> is the number of the driver run whose handle it holds;
  \<open>ls_delivered\<close> and \<open>ls_interrupts\<close> are what it has sent to handles.\<close>

record loop_state =
  ls_events :: "session_event list"
  ls_seq :: nat
  ls_index :: "index_entry list"
  ls_turns :: nat
  ls_tokens :: nat
  ls_costUsd :: rat
  ls_questions :: "(string \<times> user_question) list"
  ls_status :: session_status
  ls_handle :: "nat option"
  ls_pendingInterrupt :: bool
  ls_interrupts :: "nat list"
  ls_cause :: "interrupt_cause option"
  ls_turnsThisGrant :: nat
  ls_grantsUsed :: nat
  ls_wrapUpTurnsLeft :: "int option"
  ls_prevTurnMalformed :: bool
  ls_currentTurnMalformed :: bool
  ls_preconditionMet :: bool
  ls_checkpointMet :: bool
  ls_checkpointFired :: bool
  ls_pendingSteers :: "steer list"
  ls_delivered :: "(nat \<times> steer) list"
  ls_aborted :: bool
  ls_stoppedFor :: "string option"
  ls_runs :: nat
  ls_calls :: "(string list \<times> session_resume option) list"

definition initial_state :: loop_state where
  "initial_state =
     \<lparr>ls_events = [], ls_seq = 0, ls_index = [], ls_turns = 0, ls_tokens = 0, ls_costUsd = 0,
      ls_questions = [], ls_status = SRunning, ls_handle = None, ls_pendingInterrupt = False,
      ls_interrupts = [], ls_cause = None, ls_turnsThisGrant = 0, ls_grantsUsed = 0,
      ls_wrapUpTurnsLeft = None, ls_prevTurnMalformed = False, ls_currentTurnMalformed = False,
      ls_preconditionMet = False, ls_checkpointMet = False, ls_checkpointFired = False,
      ls_pendingSteers = [], ls_delivered = [], ls_aborted = False, ls_stoppedFor = None,
      ls_runs = 0, ls_calls = []\<rparr>"

record loop_input =
  in_workItem :: string
  in_sessionId :: string
  in_parent :: "string option"
  in_messages :: "string list"
  in_resumeOf :: "string option"
  in_resumeCursor :: "json option"
  in_priorEvents :: "session_event list"
  in_preAborted :: bool

definition append_event :: "event_body \<Rightarrow> loop_state \<Rightarrow> loop_state" where
  "append_event body s =
     s\<lparr>ls_events := ls_events s @ [\<lparr>ev_seq = ls_seq s, ev_body = body\<rparr>],
       ls_seq := Suc (ls_seq s)\<rparr>"

definition spent :: "loop_state \<Rightarrow> budget_spent" where
  "spent s = \<lparr>sp_turns = ls_turns s, sp_tokens = ls_tokens s, sp_costUsd = ls_costUsd s\<rparr>"

definition updateIndex ::
    "session_def \<Rightarrow> loop_input \<Rightarrow> json option \<Rightarrow> loop_state \<Rightarrow> loop_state" where
  "updateIndex def inp cur s =
     s\<lparr>ls_index := ls_index s @
        [\<lparr>ix_sessionId = in_sessionId inp, ix_kind = sd_kind def, ix_workItem = in_workItem inp,
          ix_parent = in_parent inp, ix_status = ls_status s, ix_spent = spent s,
          ix_ended = (ls_status s \<noteq> SRunning \<and> ls_status s \<noteq> SWaiting), ix_cursor = cur\<rparr>]\<rparr>"

definition requestInterrupt :: "loop_state \<Rightarrow> loop_state" where
  "requestInterrupt s =
     (case ls_handle s of
        Some h \<Rightarrow> s\<lparr>ls_interrupts := ls_interrupts s @ [h]\<rparr>
      | None \<Rightarrow> s\<lparr>ls_pendingInterrupt := True\<rparr>)"

definition steerSession :: "steer \<Rightarrow> loop_state \<Rightarrow> loop_state" where
  "steerSession m s =
     (case ls_handle s of
        Some h \<Rightarrow> s\<lparr>ls_delivered := ls_delivered s @ [(h, m)]\<rparr>
      | None \<Rightarrow> s\<lparr>ls_pendingSteers := ls_pendingSteers s @ [m]\<rparr>)"

subsection \<open>Following the driver's events\<close>

text \<open>The budget at an assistant turn.\<close>

definition bind_budget :: "session_def \<Rightarrow> turn_usage \<Rightarrow> loop_state \<Rightarrow> loop_state" where
  "bind_budget def usage s =
     (let b = sd_budget def
      in if b_tokenCeiling b \<le> contextTokens usage then
           requestInterrupt (s\<lparr>ls_cause := Some CContext\<rparr>)
         else if b_turns b \<le> ls_turnsThisGrant s then
           (if ls_grantsUsed s < b_maxResumes b then
              (let g = Suc (ls_grantsUsed s)
               in steerSession (GrantAnnounced g (b_maxResumes b) (b_turns b))
                    (append_event (ResumeGrant g (b_maxResumes b))
                      (s\<lparr>ls_grantsUsed := g, ls_turnsThisGrant := 0\<rparr>)))
            else case ls_wrapUpTurnsLeft s of
                None \<Rightarrow>
                  steerSession (OutcomeDemanded (map_option op_tool (sd_precondition def)))
                    (s\<lparr>ls_wrapUpTurnsLeft := Some (int WRAP_UP_TURNS)\<rparr>)
              | Some left \<Rightarrow>
                  (let s' = s\<lparr>ls_wrapUpTurnsLeft := Some (left - 1)\<rparr>
                   in if left - 1 \<le> 0 then requestInterrupt (s'\<lparr>ls_cause := Some CBudget\<rparr>) else s'))
         else s)"

definition fire_checkpoint :: "session_def \<Rightarrow> loop_state \<Rightarrow> loop_state" where
  "fire_checkpoint def s =
     (case sd_checkpoint def of
        None \<Rightarrow> s
      | Some d \<Rightarrow>
          if \<not> ls_checkpointMet s \<and> \<not> ls_checkpointFired s \<and> dc_afterTurn d \<le> ls_turns s \<and>
             ls_cause s = None \<and> ls_wrapUpTurnsLeft s = None
          then steerSession (DraftDemanded (dc_message d)) (s\<lparr>ls_checkpointFired := True\<rparr>)
          else s)"

definition on_turn :: "session_def \<Rightarrow> turn_usage \<Rightarrow> loop_state \<Rightarrow> loop_state" where
  "on_turn def usage s =
     fire_checkpoint def (bind_budget def usage
       (s\<lparr>ls_turns := Suc (ls_turns s), ls_turnsThisGrant := Suc (ls_turnsThisGrant s),
          ls_tokens := ls_tokens s + totalTokens usage, ls_costUsd := ls_costUsd s + u_costUsd usage,
          ls_prevTurnMalformed := ls_currentTurnMalformed s, ls_currentTurnMalformed := False\<rparr>))"

definition on_reask :: "loop_state \<Rightarrow> loop_state" where
  "on_reask s =
     (if ls_currentTurnMalformed s then s
      else (let s' = s\<lparr>ls_currentTurnMalformed := True\<rparr>
            in if ls_prevTurnMalformed s then requestInterrupt (s'\<lparr>ls_cause := Some CMalformed\<rparr>)
               else s'))"

definition on_tool :: "session_def \<Rightarrow> string \<Rightarrow> loop_state \<Rightarrow> loop_state" where
  "on_tool def tool s =
     s\<lparr>ls_preconditionMet := ls_preconditionMet s \<or>
         (case sd_precondition def of None \<Rightarrow> False | Some p \<Rightarrow> op_tool p = tool),
       ls_checkpointMet := ls_checkpointMet s \<or>
         (case sd_checkpoint def of None \<Rightarrow> False | Some d \<Rightarrow> dc_tool d = tool)\<rparr>"

definition track :: "session_def \<Rightarrow> event_body \<Rightarrow> loop_state \<Rightarrow> loop_state" where
  "track def body s =
     (let s' = append_event body s
      in case body of
           AssistantTurn usage _ \<Rightarrow> on_turn def usage s'
         | ReAsk _ _ \<Rightarrow> on_reask s'
         | ToolResult tool _ \<Rightarrow> on_tool def tool s'
         | QuestionAsked q \<Rightarrow> s'\<lparr>ls_questions := AList.update (q_id q) q (ls_questions s')\<rparr>
         | QuestionResolved i \<Rightarrow> s'\<lparr>ls_questions := AList.delete i (ls_questions s')\<rparr>
         | _ \<Rightarrow> s')"

definition onAbort :: "loop_state \<Rightarrow> loop_state" where
  "onAbort s = requestInterrupt (s\<lparr>ls_cause := Some CAborted, ls_aborted := True\<rparr>)"

definition stopFor :: "string \<Rightarrow> loop_state \<Rightarrow> loop_state" where
  "stopFor detail s = (if ls_aborted s then s else onAbort (s\<lparr>ls_stoppedFor := Some detail\<rparr>))"

datatype loop_event =
    Driver event_body
  | Abort
  | Clock string
  | ChildLine event_body

fun loop_step :: "session_def \<Rightarrow> loop_state \<Rightarrow> loop_event \<Rightarrow> loop_state" where
  "loop_step def s (Driver body) = track def body s"
| "loop_step def s Abort = onAbort s"
| "loop_step def s (Clock detail) = stopFor detail s"
| "loop_step def s (ChildLine body) = append_event body s"

text \<open>\<open>dispatchChild\<close> in a session that is itself a child: refused, and nothing runs.\<close>

definition dispatch_refused :: "nat \<Rightarrow> session_outcome option" where
  "dispatch_refused depth =
     (if 1 \<le> depth
      then Some (FailedOutcome
        (Transport ''sub-session depth exceeded: a child session may not dispatch children''
           EValidation NoRetry) False \<lparr>sp_turns = 0, sp_tokens = 0, sp_costUsd = 0\<rparr>)
      else None)"

subsection \<open>One driver run\<close>

record driver_run =
  dr_sync :: "loop_event list"
  dr_throws :: "string option"
  dr_async :: "loop_event list"
  dr_done :: "string + driver_result"

definition driver_defect :: "string \<Rightarrow> driver_result" where
  "driver_defect m = DFailure (Transport (''driver defect: '' @ m) EUnknown NoRetry) None"

definition attach_handle :: "nat \<Rightarrow> loop_state \<Rightarrow> loop_state" where
  "attach_handle k s =
     s\<lparr>ls_handle := Some k,
       ls_interrupts := ls_interrupts s @ (if ls_pendingInterrupt s then [k] else []),
       ls_delivered := ls_delivered s @ map (Pair k) (ls_pendingSteers s),
       ls_pendingSteers := []\<rparr>"

definition runOnce ::
    "session_def \<Rightarrow> (nat \<Rightarrow> driver_run) \<Rightarrow> session_resume option \<Rightarrow> string list \<Rightarrow> loop_state
      \<Rightarrow> driver_result \<times> loop_state" where
  "runOnce def driver resume messages s =
     (let k = ls_runs s;
          run = driver k;
          s1 = foldl (loop_step def) (s\<lparr>ls_runs := Suc k, ls_calls := ls_calls s @ [(messages, resume)]\<rparr>) (dr_sync run)
      in case dr_throws run of
           Some m \<Rightarrow> (driver_defect m, s1)
         | None \<Rightarrow>
             (let s2 = foldl (loop_step def) (attach_handle k s1) (dr_async run)
              in (case dr_done run of Inl m \<Rightarrow> driver_defect m | Inr r \<Rightarrow> r, s2)))"

subsection \<open>The end of a session\<close>

text \<open>One line of a schema correction per issue.\<close>

definition issue_line :: "string list \<times> string \<Rightarrow> string" where
  "issue_line i =
     (let path = js_join ''.'' (fst i) in (if path = [] then ''outcome'' else path) @ '': '' @ snd i)"

definition schema_correction :: "zod_error \<Rightarrow> string" where
  "schema_correction err =
     ''Outcome schema needs correction. Repair the terminal object without discarding accepted work. ''
       @ ''This uses the existing session budget.'' @ [CHR 0x0A]
       @ js_join [CHR 0x0A] (map issue_line (ze_issues err))"

definition parseOutcome :: "session_def \<Rightarrow> session_event list \<Rightarrow> json \<Rightarrow> zod_error + json" where
  "parseOutcome def events value =
     (case sd_resolve def of
        None \<Rightarrow> sd_schema def value
      | Some f \<Rightarrow> (case f value events of Inl e \<Rightarrow> Inl e | Inr v \<Rightarrow> sd_schema def v))"

definition fail ::
    "session_def \<Rightarrow> loop_input \<Rightarrow> session_failure \<Rightarrow> json option \<Rightarrow> loop_state
      \<Rightarrow> session_outcome \<times> loop_state" where
  "fail def inp failure cur s =
     (let s1 = append_event (FailureEvent failure) s;
          s2 = updateIndex def inp cur
                 (s1\<lparr>ls_status := (if retryability_of failure = Blocked then SParked else SFailed)\<rparr>)
      in (FailedOutcome failure (case failure of SessionLost _ _ \<Rightarrow> False | _ \<Rightarrow> True) (spent s2), s2))"

definition complete ::
    "session_def \<Rightarrow> loop_input \<Rightarrow> json \<Rightarrow> json option \<Rightarrow> loop_state
      \<Rightarrow> session_outcome \<times> loop_state" where
  "complete def inp out cur s =
     (let s1 = append_event (OutcomeEvent out) s;
          s2 = updateIndex def inp cur (s1\<lparr>ls_status := SCompleted\<rparr>)
      in (Completed out (map snd (ls_questions s2)) (spent s2), s2))"

definition aborted_failure :: "loop_state \<Rightarrow> session_failure" where
  "aborted_failure s =
     Transport (case ls_stoppedFor s of Some d \<Rightarrow> d | None \<Rightarrow> ''aborted by caller'') EUnknown NoRetry"

definition finalize ::
    "session_def \<Rightarrow> loop_input \<Rightarrow> driver_result \<Rightarrow> loop_state \<Rightarrow> session_outcome \<times> loop_state" where
  "finalize def inp result s =
     (case result of
        DOutcome value cur \<Rightarrow>
          (case parseOutcome def (in_priorEvents inp @ ls_events s) value of
             Inr out \<Rightarrow> complete def inp out cur s
           | Inl err \<Rightarrow> fail def inp (Malformed (''outcome failed schema: '' @ ze_message err) NoRetry) cur s)
      | DFailure failure cur \<Rightarrow>
          (case ls_cause s of
             Some CBudget \<Rightarrow> fail def inp (BudgetExhausted (in_workItem inp) NoRetry) cur s
           | Some CContext \<Rightarrow> fail def inp (ContextExhausted NoRetry) cur s
           | Some CMalformed \<Rightarrow> fail def inp (Malformed ''two consecutive malformed turns'' NoRetry) cur s
           | Some CAborted \<Rightarrow> fail def inp (aborted_failure s) cur s
           | None \<Rightarrow> fail def inp failure cur s))"

subsection \<open>The session\<close>

definition prior_tool :: "string \<Rightarrow> session_event list \<Rightarrow> bool" where
  "prior_tool tool events \<longleftrightarrow>
     (\<exists>e\<in>set events. case ev_body e of ToolResult t _ \<Rightarrow> t = tool | _ \<Rightarrow> False)"

definition fold_prior :: "session_def \<Rightarrow> loop_input \<Rightarrow> loop_state \<Rightarrow> loop_state" where
  "fold_prior def inp s =
     s\<lparr>ls_preconditionMet := ls_preconditionMet s \<or>
         (case sd_precondition def of None \<Rightarrow> False | Some p \<Rightarrow> prior_tool (op_tool p) (in_priorEvents inp)),
       ls_checkpointMet := ls_checkpointMet s \<or>
         (case sd_checkpoint def of None \<Rightarrow> False | Some d \<Rightarrow> prior_tool (dc_tool d) (in_priorEvents inp))\<rparr>"

definition open_session :: "session_def \<Rightarrow> loop_input \<Rightarrow> loop_state" where
  "open_session def inp =
     (let s = updateIndex def inp None
                (append_event (SessionStart (sd_kind def) (in_workItem inp) (sd_systemPrompt def) (sd_toolNames def)
                                 (in_resumeOf inp)) initial_state)
      in fold_prior def inp (if in_preAborted inp then onAbort s else s))"

text \<open>What a continuation resumes from: the whole transcript so far, and the last cursor known.\<close>

definition continue_from :: "loop_input \<Rightarrow> driver_result \<Rightarrow> loop_state \<Rightarrow> session_resume" where
  "continue_from inp result s =
     \<lparr>re_cursor = (case cursor_of result of Some c \<Rightarrow> Some c | None \<Rightarrow> in_resumeCursor inp),
      re_events = in_priorEvents inp @ ls_events s\<rparr>"

definition first_run ::
    "session_def \<Rightarrow> loop_input \<Rightarrow> (nat \<Rightarrow> driver_run) \<Rightarrow> loop_state \<Rightarrow> driver_result \<times> loop_state" where
  "first_run def inp driver s =
     runOnce def driver
       (case in_resumeOf inp of None \<Rightarrow> None
        | Some _ \<Rightarrow> Some \<lparr>re_cursor = in_resumeCursor inp, re_events = in_priorEvents inp\<rparr>)
       (in_messages inp) s"

definition is_user_message :: "session_event \<Rightarrow> bool" where
  "is_user_message e \<longleftrightarrow> (case ev_body e of UserMessage _ \<Rightarrow> True | _ \<Rightarrow> False)"

text \<open>One retry of a transient failure, when nothing has stopped the session.\<close>

definition retry_transient ::
    "session_def \<Rightarrow> loop_input \<Rightarrow> (nat \<Rightarrow> driver_run) \<Rightarrow> driver_result \<times> loop_state
      \<Rightarrow> driver_result \<times> loop_state" where
  "retry_transient def inp driver p =
     (case p of
        (DFailure failure cur, s) \<Rightarrow>
          if retryability_of failure = Transient \<and> ls_cause s = None then
            (let s1 = append_event (FailureEvent failure) s;
                 ingested = (\<exists>e\<in>set (ls_events s1). is_user_message e)
             in runOnce def driver (Some (continue_from inp (DFailure failure cur) s1))
                  (if ingested then [] else in_messages inp) s1)
          else (DFailure failure cur, s)
      | _ \<Rightarrow> p)"

text \<open>An outcome that came before the required tool is sent back, once.\<close>

definition require_tool ::
    "session_def \<Rightarrow> loop_input \<Rightarrow> (nat \<Rightarrow> driver_run) \<Rightarrow> driver_result \<times> loop_state
      \<Rightarrow> driver_result \<times> loop_state" where
  "require_tool def inp driver p =
     (case (p, sd_precondition def) of
        ((DOutcome value cur, s), Some pre) \<Rightarrow>
          if \<not> ls_preconditionMet s \<and> ls_cause s = None
          then runOnce def driver (Some (continue_from inp (DOutcome value cur) s)) [op_message pre] s
          else p
      | _ \<Rightarrow> p)"

definition refusal_bound :: "session_def \<Rightarrow> nat" where
  "refusal_bound def = b_turns (sd_budget def) * (b_maxResumes (sd_budget def) + 1) + WRAP_UP_TURNS"

definition repairs_outcomes :: "session_def \<Rightarrow> bool" where
  "repairs_outcomes def \<longleftrightarrow>
     sd_validate def \<noteq> None \<or> (case sd_schemaRepairs def of None \<Rightarrow> False | Some n \<Rightarrow> n \<noteq> 0) \<or>
     sd_resolve def \<noteq> None"

text \<open>What one pass of the loop decides about the outcome it holds: it stands, it fails the session,
  or a correction goes back (with the repairs used so far).\<close>

datatype ruling = Stands | Fails session_failure | Correct string nat

definition rule_outcome :: "session_def \<Rightarrow> loop_input \<Rightarrow> nat \<Rightarrow> json \<Rightarrow> loop_state \<Rightarrow> ruling" where
  "rule_outcome def inp repairs value s =
     (case parseOutcome def (in_priorEvents inp @ ls_events s) value of
        Inl err \<Rightarrow>
          if (case sd_schemaRepairs def of None \<Rightarrow> 0 | Some n \<Rightarrow> n) \<le> repairs then Stands
          else Correct (schema_correction err) (Suc repairs)
      | Inr out \<Rightarrow>
          (case sd_validate def of
             None \<Rightarrow> Stands
           | Some v \<Rightarrow>
               (case v out (ls_wrapUpTurnsLeft s \<noteq> None) of
                  Inl e \<Rightarrow> Fails (Malformed (''outcome validator failed: '' @ e) NoRetry)
                | Inr None \<Rightarrow> Stands
                | Inr (Some c) \<Rightarrow> if c = [] then Stands else Correct c repairs)))"

text \<open>Why a correction that cannot be sent ends the session.\<close>

definition refused_failure :: "string \<Rightarrow> loop_state \<Rightarrow> session_failure" where
  "refused_failure correction s =
     (case ls_cause s of
        Some CContext \<Rightarrow> ContextExhausted NoRetry
      | Some CAborted \<Rightarrow> aborted_failure s
      | _ \<Rightarrow> BudgetExhausted correction NoRetry)"

function repair_loop ::
    "session_def \<Rightarrow> loop_input \<Rightarrow> (nat \<Rightarrow> driver_run) \<Rightarrow> nat \<Rightarrow> nat \<Rightarrow> driver_result \<times> loop_state
      \<Rightarrow> (session_failure \<times> json option + driver_result) \<times> loop_state" where
  "repair_loop def inp driver refusals repairs (DFailure failure cur, s) =
     (Inr (DFailure failure cur), s)"
| "repair_loop def inp driver refusals repairs (DOutcome value cur, s) =
     (if \<not> repairs_outcomes def then (Inr (DOutcome value cur), s)
      else case rule_outcome def inp repairs value s of
             Stands \<Rightarrow> (Inr (DOutcome value cur), s)
           | Fails f \<Rightarrow> (Inl (f, cur), s)
           | Correct c repairs' \<Rightarrow>
               if ls_cause s \<noteq> None \<or> refusal_bound def < Suc refusals
               then (Inl (refused_failure c s, cur), s)
               else repair_loop def inp driver (Suc refusals) repairs'
                      (runOnce def driver (Some (continue_from inp (DOutcome value cur) s)) [c] s))"
  by pat_completeness auto
termination
  by (relation "measure (\<lambda>(def, _, _, refusals, _, _). refusal_bound def - refusals)") auto

definition startSession ::
    "session_def \<Rightarrow> loop_input \<Rightarrow> (nat \<Rightarrow> driver_run) \<Rightarrow> session_outcome \<times> loop_state" where
  "startSession def inp driver =
     (case repair_loop def inp driver 0 0
             (require_tool def inp driver
               (retry_transient def inp driver
                 (first_run def inp driver (open_session def inp)))) of
        (Inl (failure, cur), s) \<Rightarrow> fail def inp failure cur s
      | (Inr result, s) \<Rightarrow> finalize def inp result s)"

subsection \<open>What every session keeps\<close>

text \<open>
  A fact about the shell's state that every input keeps, and that the shell's own bookkeeping keeps,
  holds at the end of a session if it holds at the start.
\<close>

locale session_invariant =
  fixes def :: session_def
    and P :: "loop_state \<Rightarrow> bool"
  assumes step: "P s \<Longrightarrow> P (loop_step def s e)"
    and attach: "P s \<Longrightarrow> P (attach_handle k s)"
    and append: "P s \<Longrightarrow> P (append_event body s)"
    and call: "P s \<Longrightarrow> P (s\<lparr>ls_runs := k, ls_calls := c\<rparr>)"
    and close: "P s \<Longrightarrow> P (updateIndex def inp cur (s\<lparr>ls_status := st\<rparr>))"
begin

lemma steps: "P s \<Longrightarrow> P (foldl (loop_step def) s es)"
  by (induction es arbitrary: s) (simp_all add: step)

lemma runOnce: "P s \<Longrightarrow> P (snd (runOnce def driver re ms s))"
  by (auto simp: runOnce_def Let_def intro!: steps attach call split: option.splits)

lemma retry: "P (snd p) \<Longrightarrow> P (snd (retry_transient def inp driver p))"
  by (auto simp: retry_transient_def Let_def intro!: runOnce append split: prod.splits driver_result.splits)

lemma require: "P (snd p) \<Longrightarrow> P (snd (require_tool def inp driver p))"
  by (auto simp: require_tool_def intro!: runOnce split: prod.splits driver_result.splits option.splits)

lemma repair_any:
  "d = def \<Longrightarrow> P (snd p) \<Longrightarrow> P (snd (repair_loop d inp driver refusals repairs p))"
proof (induction d inp driver refusals repairs p rule: repair_loop.induct)
  case (2 d inp driver refusals repairs val cur s)
  then show ?case
    using runOnce by (auto split: ruling.splits)
qed simp

lemma fail: "P s \<Longrightarrow> P (snd (fail def inp failure cur s))"
  by (auto simp: fail_def Let_def intro!: close append)

lemma finalize: "P s \<Longrightarrow> P (snd (finalize def inp result s))"
  by (auto simp: finalize_def complete_def Let_def intro!: fail close append
      split: driver_result.splits sum.splits option.splits interrupt_cause.splits)

lemma session: "P (open_session def inp) \<Longrightarrow> P (snd (startSession def inp driver))"
proof -
  assume "P (open_session def inp)"
  then have "P (snd (first_run def inp driver (open_session def inp)))"
    by (simp add: first_run_def runOnce)
  then have *: "P (snd (repair_loop def inp driver 0 0 (require_tool def inp driver
      (retry_transient def inp driver (first_run def inp driver (open_session def inp))))))"
    by (intro repair_any require retry) simp_all
  show ?thesis
  proof (cases "repair_loop def inp driver 0 0 (require_tool def inp driver
      (retry_transient def inp driver (first_run def inp driver (open_session def inp))))")
    case (Pair r s)
    with * have "P s" by simp
    then show ?thesis
      using Pair by (auto simp: startSession_def intro!: fail finalize split: sum.splits)
  qed
qed

end

lemmas loop_defs = append_event_def requestInterrupt_def steerSession_def bind_budget_def
  fire_checkpoint_def on_turn_def on_reask_def on_tool_def track_def onAbort_def stopFor_def

subsection \<open>The transcript is numbered without a gap\<close>

definition numbered :: "loop_state \<Rightarrow> bool" where
  "numbered s \<longleftrightarrow> map ev_seq (ls_events s) = [0..<ls_seq s]"

definition transcript :: "loop_state \<Rightarrow> session_event list \<times> nat" where
  "transcript s = (ls_events s, ls_seq s)"

lemma numbered_cong: "transcript s = transcript s' \<Longrightarrow> numbered s = numbered s'"
  by (simp add: numbered_def transcript_def)

lemma numbered_append [intro]: "numbered s \<Longrightarrow> numbered (append_event body s)"
  by (simp add: numbered_def append_event_def)

lemma transcript_simps [simp]:
  "transcript (requestInterrupt s) = transcript s"
  "transcript (steerSession m s) = transcript s"
  "transcript (fire_checkpoint def s) = transcript s"
  "transcript (on_reask s) = transcript s"
  "transcript (on_tool def tool s) = transcript s"
  "transcript (onAbort s) = transcript s"
  "transcript (stopFor d s) = transcript s"
  "transcript (attach_handle k s) = transcript s"
  by (simp_all add: transcript_def loop_defs attach_handle_def Let_def split: option.splits)

lemma numbered_simps [simp]:
  "numbered (requestInterrupt s) = numbered s"
  "numbered (steerSession m s) = numbered s"
  "numbered (fire_checkpoint def s) = numbered s"
  "numbered (on_reask s) = numbered s"
  "numbered (on_tool def tool s) = numbered s"
  "numbered (onAbort s) = numbered s"
  "numbered (stopFor d s) = numbered s"
  "numbered (attach_handle k s) = numbered s"
  by (intro numbered_cong transcript_simps)+

lemma numbered_bind_budget: "numbered s \<Longrightarrow> numbered (bind_budget def usage s)"
  by (auto simp: bind_budget_def Let_def numbered_def append_event_def requestInterrupt_def
      steerSession_def split: option.splits)

lemma numbered_on_turn: "numbered s \<Longrightarrow> numbered (on_turn def usage s)"
  unfolding on_turn_def numbered_simps
  by (rule numbered_bind_budget) (simp add: numbered_def)

lemma numbered_track: "numbered s \<Longrightarrow> numbered (track def body s)"
proof -
  assume "numbered s"
  then have a: "numbered (append_event body s)" by blast
  then have "numbered ((append_event body s)\<lparr>ls_questions := qs\<rparr>)" for qs
    by (simp add: numbered_def)
  with a show ?thesis
    by (auto simp: track_def Let_def numbered_on_turn split: event_body.splits)
qed

interpretation numbering: session_invariant def numbered for def
proof
  fix s e k body c inp cur st
  assume n: "numbered s"
  then show "numbered (loop_step def s e)"
    by (cases e) (auto simp: numbered_track)
  show "numbered (attach_handle k s)" "numbered (append_event body s)"
    using n by auto
  show "numbered (s\<lparr>ls_runs := k, ls_calls := c\<rparr>)"
    "numbered (updateIndex def inp cur (s\<lparr>ls_status := st\<rparr>))"
    using n by (simp_all add: numbered_def updateIndex_def)
qed

lemma numbered_initial: "numbered (open_session def inp)"
  by (simp add: open_session_def fold_prior_def updateIndex_def numbered_def initial_state_def
      append_event_def onAbort_def requestInterrupt_def Let_def)

text \<open>The events of a session's transcript are numbered from zero without a gap, in the order
  they were appended, whatever the driver runs do.\<close>

theorem transcript_numbered:
  "map ev_seq (ls_events (snd (startSession def inp driver)))
     = [0..<length (ls_events (snd (startSession def inp driver)))]"
proof -
  have "numbered (snd (startSession def inp driver))"
    by (rule numbering.session [OF numbered_initial])
  then show ?thesis
    unfolding numbered_def by (metis length_map length_upt minus_nat.diff_0)
qed

subsection \<open>The budget\<close>

text \<open>While nothing has interrupted a session, the turns it has used are accounted for: whole grants
  and the turns of the running one, or every grant and the wrap-up turns used.\<close>

definition accounted :: "session_def \<Rightarrow> loop_state \<Rightarrow> bool" where
  "accounted def s \<longleftrightarrow>
     (let b = sd_budget def
      in case ls_wrapUpTurnsLeft s of
           None \<Rightarrow> ls_grantsUsed s \<le> b_maxResumes b \<and> ls_turnsThisGrant s < b_turns b \<and>
             ls_turns s = ls_grantsUsed s * b_turns b + ls_turnsThisGrant s
         | Some k \<Rightarrow> 1 \<le> k \<and> k \<le> int WRAP_UP_TURNS \<and> ls_grantsUsed s = b_maxResumes b \<and>
             b_turns b \<le> ls_turnsThisGrant s \<and>
             int (ls_turns s) = int ((b_maxResumes b + 1) * b_turns b) + (int WRAP_UP_TURNS - k))"

definition budget_inv :: "session_def \<Rightarrow> loop_state \<Rightarrow> bool" where
  "budget_inv def s \<longleftrightarrow>
     ls_grantsUsed s \<le> b_maxResumes (sd_budget def) \<and> (ls_cause s = None \<longrightarrow> accounted def s)"

lemmas budget_defs = budget_inv_def accounted_def WRAP_UP_TURNS_def Let_def

definition budget_view ::
    "loop_state \<Rightarrow> nat \<times> nat \<times> nat \<times> int option \<times> interrupt_cause option" where
  "budget_view s = (ls_turns s, ls_turnsThisGrant s, ls_grantsUsed s, ls_wrapUpTurnsLeft s, ls_cause s)"

lemma budget_inv_cong: "budget_view s = budget_view s' \<Longrightarrow> budget_inv def s = budget_inv def s'"
  by (auto simp: budget_defs budget_view_def Let_def split: option.splits)

lemma budget_view_simps [simp]:
  "budget_view (append_event body s) = budget_view s"
  "budget_view (steerSession m s) = budget_view s"
  "budget_view (requestInterrupt s) = budget_view s"
  "budget_view (fire_checkpoint def s) = budget_view s"
  "budget_view (on_tool def tool s) = budget_view s"
  "budget_view (attach_handle k s) = budget_view s"
  "budget_view (updateIndex def inp cur s) = budget_view s"
  "budget_view (s\<lparr>ls_questions := qs\<rparr>) = budget_view s"
  "budget_view (s\<lparr>ls_status := st\<rparr>) = budget_view s"
  "budget_view (s\<lparr>ls_runs := r, ls_calls := c\<rparr>) = budget_view s"
  by (simp_all add: budget_view_def loop_defs attach_handle_def updateIndex_def Let_def
      split: option.splits)

lemma budget_inv_simps [simp]:
  "budget_inv def (append_event body s) = budget_inv def s"
  "budget_inv def (steerSession m s) = budget_inv def s"
  "budget_inv def (requestInterrupt s) = budget_inv def s"
  "budget_inv def (fire_checkpoint def s) = budget_inv def s"
  "budget_inv def (on_tool def tool s) = budget_inv def s"
  "budget_inv def (attach_handle k s) = budget_inv def s"
  "budget_inv def (updateIndex def inp cur s) = budget_inv def s"
  "budget_inv def (s\<lparr>ls_questions := qs\<rparr>) = budget_inv def s"
  "budget_inv def (s\<lparr>ls_status := st\<rparr>) = budget_inv def s"
  "budget_inv def (s\<lparr>ls_runs := r, ls_calls := c\<rparr>) = budget_inv def s"
  by (intro budget_inv_cong budget_view_simps)+

lemma budget_inv_interrupted:
  "budget_inv def s \<Longrightarrow> budget_inv def (s\<lparr>ls_cause := Some c\<rparr>)"
  by (simp add: budget_inv_def)

lemma budget_inv_fields [simp]:
  "budget_inv def (s\<lparr>ls_currentTurnMalformed := b\<rparr>) = budget_inv def s"
  "budget_inv def (s\<lparr>ls_aborted := b\<rparr>) = budget_inv def s"
  "budget_inv def (s\<lparr>ls_stoppedFor := d\<rparr>) = budget_inv def s"
  "budget_inv def (s\<lparr>ls_cause := c, ls_aborted := b\<rparr>) = budget_inv def (s\<lparr>ls_cause := c\<rparr>)"
  by (intro budget_inv_cong; simp add: budget_view_def)+

lemma budget_inv_on_reask: "budget_inv def s \<Longrightarrow> budget_inv def (on_reask s)"
  by (simp add: on_reask_def Let_def budget_inv_interrupted)

lemma budget_inv_onAbort: "budget_inv def s \<Longrightarrow> budget_inv def (onAbort s)"
  by (simp add: onAbort_def budget_inv_interrupted)

lemma budget_inv_stopFor: "budget_inv def s \<Longrightarrow> budget_inv def (stopFor d s)"
  by (simp add: stopFor_def budget_inv_onAbort)

text \<open>The turn that arrives is counted before the budget is read.\<close>

definition counted :: "turn_usage \<Rightarrow> loop_state \<Rightarrow> loop_state" where
  "counted usage s =
     s\<lparr>ls_turns := Suc (ls_turns s), ls_turnsThisGrant := Suc (ls_turnsThisGrant s),
       ls_tokens := ls_tokens s + totalTokens usage, ls_costUsd := ls_costUsd s + u_costUsd usage,
       ls_prevTurnMalformed := ls_currentTurnMalformed s, ls_currentTurnMalformed := False\<rparr>"

lemma budget_view_counted:
  "budget_view (counted usage s)
     = (Suc (ls_turns s), Suc (ls_turnsThisGrant s), ls_grantsUsed s, ls_wrapUpTurnsLeft s, ls_cause s)"
  by (simp add: counted_def budget_view_def)

lemma bind_budget_interrupts:
  assumes "ls_cause s \<noteq> None"
  shows "ls_cause (bind_budget def usage s) \<noteq> None"
  using assms
  by (auto simp: bind_budget_def Let_def append_event_def requestInterrupt_def steerSession_def
      split: option.splits)

lemma bind_budget_grants:
  assumes "ls_grantsUsed s \<le> b_maxResumes (sd_budget def)"
  shows "ls_grantsUsed (bind_budget def usage s) \<le> b_maxResumes (sd_budget def)"
  using assms
  by (auto simp: bind_budget_def Let_def append_event_def requestInterrupt_def steerSession_def
      split: option.splits)

lemma accounted_bind_budget:
  assumes a: "accounted def s" and T: "1 \<le> b_turns (sd_budget def)"
    and c: "ls_cause (bind_budget def usage (counted usage s)) = None"
  shows "accounted def (bind_budget def usage (counted usage s))"
proof (cases "ls_wrapUpTurnsLeft s")
  case None
  with a have "Suc (ls_turnsThisGrant s) = b_turns (sd_budget def) \<or> Suc (ls_turnsThisGrant s) < b_turns (sd_budget def)"
    by (auto simp: accounted_def Let_def)
  then show ?thesis
    using a c T None
    by (auto simp: bind_budget_def counted_def accounted_def Let_def append_event_def requestInterrupt_def
        steerSession_def WRAP_UP_TURNS_def algebra_simps split: option.splits if_splits)
next
  case (Some k)
  then show ?thesis
    using a c
    by (auto simp: bind_budget_def counted_def accounted_def Let_def append_event_def requestInterrupt_def
        steerSession_def WRAP_UP_TURNS_def algebra_simps split: option.splits if_splits)
qed

lemma budget_inv_on_turn:
  assumes "budget_inv def s" "1 \<le> b_turns (sd_budget def)"
  shows "budget_inv def (on_turn def usage s)"
proof -
  have on: "budget_inv def (on_turn def usage s) = budget_inv def (bind_budget def usage (counted usage s))"
    by (simp add: on_turn_def counted_def)
  have grants: "ls_grantsUsed (bind_budget def usage (counted usage s)) \<le> b_maxResumes (sd_budget def)"
    using assms(1) by (intro bind_budget_grants) (simp add: budget_inv_def counted_def)
  show ?thesis
  proof (cases "ls_cause (bind_budget def usage (counted usage s))")
    case None
    have "ls_cause (counted usage s) = None"
      using bind_budget_interrupts [of "counted usage s" def usage] None by blast
    then have "ls_cause s = None"
      by (simp add: counted_def)
    then show ?thesis
      using assms accounted_bind_budget [OF _ assms(2) None] grants on by (simp add: budget_inv_def)
  next
    case (Some c)
    then show ?thesis
      using on grants by (simp add: budget_inv_def)
  qed
qed

lemma budget_inv_step:
  assumes "budget_inv def s" "1 \<le> b_turns (sd_budget def)"
  shows "budget_inv def (loop_step def s e)"
  using assms
  by (cases e)
    (auto simp: track_def Let_def budget_inv_on_turn budget_inv_on_reask budget_inv_onAbort
      budget_inv_stopFor split: event_body.splits)

interpretation budgets: session_invariant def "\<lambda>s. 1 \<le> b_turns (sd_budget def) \<longrightarrow> budget_inv def s" for def
  by unfold_locales (simp_all add: budget_inv_step)

lemma budget_inv_open: "1 \<le> b_turns (sd_budget def) \<Longrightarrow> budget_inv def (open_session def inp)"
  by (simp add: open_session_def fold_prior_def updateIndex_def initial_state_def append_event_def
      onAbort_def requestInterrupt_def budget_defs)

text \<open>C4: The turn budget is a hard bound. A session that nothing interrupted (no abort, no clock,
  no context ceiling, no malformed pair, no spent budget) has used fewer turns than its grants
  together with the wrap-up allowance, and it never uses more resume grants than it has.\<close>

theorem turns_bounded:
  assumes "1 \<le> b_turns (sd_budget def)"
    and "startSession def inp driver = (result, s)"
  shows "ls_grantsUsed s \<le> b_maxResumes (sd_budget def)
    \<and> (ls_cause s = None \<longrightarrow>
        ls_turns s < (b_maxResumes (sd_budget def) + 1) * b_turns (sd_budget def) + WRAP_UP_TURNS)"
proof -
  let ?T = "b_turns (sd_budget def)" and ?M = "b_maxResumes (sd_budget def)"
  have inv: "budget_inv def s"
    using budgets.session [of def inp driver] assms by (simp add: budget_inv_open)
  have "ls_turns s < (?M + 1) * ?T + WRAP_UP_TURNS" if "accounted def s"
  proof (cases "ls_wrapUpTurnsLeft s")
    case None
    with that have "ls_turns s < ls_grantsUsed s * ?T + ?T" "ls_grantsUsed s \<le> ?M"
      by (auto simp: accounted_def Let_def)
    moreover from this(2) have "ls_grantsUsed s * ?T \<le> ?M * ?T" by simp
    ultimately show ?thesis unfolding add_mult_distrib by linarith
  next
    case (Some k)
    with that have "int (ls_turns s) < int ((?M + 1) * ?T) + int WRAP_UP_TURNS"
      by (auto simp: accounted_def Let_def)
    then show ?thesis by linarith
  qed
  with inv show ?thesis by (simp add: budget_inv_def)
qed

subsection \<open>How often a driver runs\<close>

lemma runs_simps [simp]:
  "ls_runs (append_event body s) = ls_runs s"
  "ls_runs (steerSession m s) = ls_runs s"
  "ls_runs (requestInterrupt s) = ls_runs s"
  "ls_runs (attach_handle k s) = ls_runs s"
  "ls_runs (updateIndex def inp cur s) = ls_runs s"
  by (simp_all add: loop_defs attach_handle_def updateIndex_def split: option.splits)

lemma runs_bind_budget [simp]: "ls_runs (bind_budget def usage s) = ls_runs s"
  by (simp add: bind_budget_def Let_def split: option.splits)

lemma runs_step [simp]: "ls_runs (loop_step def s e) = ls_runs s"
  by (cases e)
    (simp_all add: track_def on_turn_def fire_checkpoint_def on_reask_def on_tool_def stopFor_def
      onAbort_def Let_def split: event_body.splits option.splits)

lemma runs_steps [simp]: "ls_runs (foldl (loop_step def) s es) = ls_runs s"
  by (induction es arbitrary: s) simp_all

lemma runs_runOnce: "ls_runs (snd (runOnce def driver re ms s)) = Suc (ls_runs s)"
  by (simp add: runOnce_def Let_def split: option.splits)

lemma runs_retry: "ls_runs (snd (retry_transient def inp driver p)) \<le> Suc (ls_runs (snd p))"
  by (auto simp: retry_transient_def Let_def runs_runOnce split: prod.splits driver_result.splits)

lemma runs_require: "ls_runs (snd (require_tool def inp driver p)) \<le> Suc (ls_runs (snd p))"
  by (auto simp: require_tool_def runs_runOnce split: prod.splits driver_result.splits option.splits)

lemma runs_repair:
  "ls_runs (snd (repair_loop def inp driver refusals repairs p))
     \<le> ls_runs (snd p) + (refusal_bound def - refusals)"
proof (induction def inp driver refusals repairs p rule: repair_loop.induct)
  case (2 def inp driver refusals repairs val cur s)
  show ?case
  proof (cases "rule_outcome def inp repairs val s")
    case (Correct c r)
    then show ?thesis
      using "2.IH" [OF _ Correct] by (auto simp: runs_runOnce)
  qed auto
qed simp

lemma runs_end [simp]:
  "ls_runs (snd (fail def inp failure cur s)) = ls_runs s"
  "ls_runs (snd (finalize def inp result s)) = ls_runs s"
  by (auto simp: fail_def complete_def finalize_def Let_def
      split: driver_result.splits sum.splits option.splits interrupt_cause.splits)

text \<open>C12: A session runs its driver a bounded number of times: the first run, one retry of a transient
  failure, one return for a required tool, and at most as many corrections as the budget has turns.\<close>

theorem driver_runs_bounded:
  "ls_runs (snd (startSession def inp driver)) \<le> 3 + refusal_bound def"
proof -
  let ?first = "first_run def inp driver (open_session def inp)"
  let ?held = "require_tool def inp driver (retry_transient def inp driver ?first)"
  have "ls_runs (snd ?first) = 1"
    by (simp add: first_run_def runs_runOnce open_session_def fold_prior_def initial_state_def
        onAbort_def Let_def)
  then have "ls_runs (snd ?held) \<le> 3"
    using runs_retry [of def inp driver ?first]
      runs_require [of def inp driver "retry_transient def inp driver ?first"] by linarith
  then have "ls_runs (snd (repair_loop def inp driver 0 0 ?held)) \<le> 3 + refusal_bound def"
    using runs_repair [of def inp driver 0 0 ?held] by linarith
  then show ?thesis
    by (auto simp: startSession_def split: prod.splits sum.splits)
qed

subsection \<open>How a session ends\<close>

text \<open>The record a session leaves agrees with what it returned: the last event carries the outcome or
  the failure, and the last index entry is ended and has the status.\<close>

definition settled :: "session_outcome \<times> loop_state \<Rightarrow> bool" where
  "settled p =
     (let s = snd p; body = ev_body (last (ls_events s)); entry = last (ls_index s)
      in ix_status entry = ls_status s \<and> ix_ended entry \<and>
         (case fst p of
            Completed out _ sp \<Rightarrow>
              ls_status s = SCompleted \<and> body = OutcomeEvent out \<and> sp = spent s
          | FailedOutcome f resumable sp \<Rightarrow>
              ls_status s = (if retryability_of f = Blocked then SParked else SFailed) \<and>
              body = FailureEvent f \<and> sp = spent s \<and> resumable = (\<nexists>i r. f = SessionLost i r)))"

lemma settled_fail: "settled (fail def inp failure cur s)"
  by (cases failure) (simp_all add: settled_def fail_def append_event_def updateIndex_def spent_def Let_def)

lemma settled_complete: "settled (complete def inp out cur s)"
  by (simp add: settled_def complete_def append_event_def updateIndex_def spent_def Let_def)

lemma settled_finalize: "settled (finalize def inp result s)"
  by (simp add: finalize_def settled_fail settled_complete
      split: driver_result.splits sum.splits option.splits interrupt_cause.splits)

text \<open>A session always ends, whatever its driver runs do, and the record it leaves agrees with what
  it returns: the last event carries the outcome or the failure, the last index entry is ended with
  the same status (parked exactly when the failure is blocked), the spend is the tally, and only a
  lost session cannot be resumed.\<close>

theorem session_ends: "settled (startSession def inp driver)"
  by (simp add: startSession_def settled_fail settled_finalize split: prod.splits sum.splits)

text \<open>What the definition itself accepted.\<close>

definition accepted :: "session_def \<Rightarrow> json \<Rightarrow> bool" where
  "accepted def out \<longleftrightarrow>
     (\<exists>val events. parseOutcome def events val = Inr out) \<and>
     (case sd_validate def of
        None \<Rightarrow> True
      | Some v \<Rightarrow> (\<exists>late. v out late = Inr None \<or> v out late = Inr (Some [])))"

lemma accepted_ruling:
  assumes "rule_outcome def inp repairs val s = Stands"
    and "parseOutcome def (in_priorEvents inp @ ls_events s) val = Inr out"
  shows "accepted def out"
  using assms unfolding accepted_def rule_outcome_def
  by (auto split: option.splits sum.splits if_splits)

lemma accepted_unruled:
  assumes "\<not> repairs_outcomes def" "parseOutcome def events val = Inr out"
  shows "accepted def out"
  using assms unfolding accepted_def repairs_outcomes_def by auto

lemma repair_loop_accepts:
  assumes "repair_loop def inp driver refusals repairs p = (Inr (DOutcome val cur), s)"
    and "parseOutcome def (in_priorEvents inp @ ls_events s) val = Inr out"
  shows "accepted def out"
  using assms
proof (induction def inp driver refusals repairs p rule: repair_loop.induct)
  case (2 def inp driver refusals repairs v c s1)
  show ?case
  proof (cases "repairs_outcomes def")
    case True
    with 2 show ?thesis
      by (auto split: ruling.splits if_splits intro: accepted_ruling)
  next
    case False
    with 2 show ?thesis by (auto intro: accepted_unruled)
  qed
qed simp

text \<open>C5: An output a session returns passed the definition: it is what its schema made of some outcome,
  and its validator, when it has one, had no correction for it.\<close>

theorem completed_is_accepted:
  assumes "startSession def inp driver = (Completed out qs sp, s)"
  shows "accepted def out"
proof -
  obtain r s' where r: "repair_loop def inp driver 0 0 (require_tool def inp driver
      (retry_transient def inp driver (first_run def inp driver (open_session def inp)))) = (r, s')"
    by fastforce
  have "\<exists>val cur. r = Inr (DOutcome val cur)
      \<and> parseOutcome def (in_priorEvents inp @ ls_events s') val = Inr out"
    using assms r
    by (auto simp: startSession_def finalize_def fail_def complete_def Let_def
        split: sum.splits driver_result.splits option.splits interrupt_cause.splits)
  then show ?thesis
    using r repair_loop_accepts by blast
qed

subsection \<open>A session that is corrected once\<close>

text \<open>Two turns with one resume grant, a required tool the first run does not call, and a validator that
  asks for one correction.\<close>

definition demo_def :: session_def where
  "demo_def =
     \<lparr>sd_kind = ''spec'', sd_systemPrompt = [], sd_toolNames = [''check''],
      sd_budget = \<lparr>b_turns = 2, b_maxResumes = 1, b_tokenCeiling = 100\<rparr>,
      sd_schema = (\<lambda>v. case v of JStr t \<Rightarrow> Inr (JStr t)
                    | _ \<Rightarrow> Inl \<lparr>ze_issues = [([], ''not a string'')], ze_message = ''bad''\<rparr>),
      sd_resolve = None,
      sd_validate = Some (\<lambda>v late. Inr (if v = JStr ''good'' then None else Some ''again'')),
      sd_schemaRepairs = None,
      sd_precondition = Some \<lparr>op_tool = ''check'', op_message = ''call check''\<rparr>,
      sd_checkpoint = None\<rparr>"

definition demo_session :: loop_input where
  "demo_session =
     \<lparr>in_workItem = ''w'', in_sessionId = ''s1'', in_parent = None, in_messages = [''go''],
      in_resumeOf = None, in_resumeCursor = None, in_priorEvents = [], in_preAborted = False\<rparr>"

definition demo_turn :: event_body where
  "demo_turn =
     AssistantTurn \<lparr>u_inputTokens = 3, u_outputTokens = 2, u_cacheReadTokens = 0,
       u_cacheCreateTokens = 0, u_costUsd = 0, u_cost = None\<rparr> None"

definition demo_driver :: "nat \<Rightarrow> driver_run" where
  "demo_driver k =
     (let run = (\<lambda>es v. \<lparr>dr_sync = [], dr_throws = None, dr_async = map Driver es,
                         dr_done = Inr (DOutcome (JStr v) None)\<rparr>)
      in if k = 0 then run [demo_turn] ''bad''
         else if k = 1 then run [demo_turn, ToolResult ''check'' ''ok'', demo_turn] ''bad''
         else run [demo_turn] ''good'')"

lemmas demo_session_defs = demo_def_def demo_session_def demo_turn_def demo_driver_def startSession_def
  finalize_def complete_def fail_def parseOutcome_def rule_outcome_def repairs_outcomes_def
  refusal_bound_def WRAP_UP_TURNS_def runOnce_def require_tool_def retry_transient_def first_run_def
  continue_from_def open_session_def fold_prior_def updateIndex_def initial_state_def attach_handle_def
  loop_defs prior_tool_def spent_def contextTokens_def totalTokens_def Let_def

lemma demo_session_runs:
  "fst (startSession demo_def demo_session demo_driver)
     = Completed (JStr ''good'') [] \<lparr>sp_turns = 4, sp_tokens = 20, sp_costUsd = 0\<rparr>"
  by (simp add: demo_session_defs)

lemma demo_session_state:
  "ls_cause (snd (startSession demo_def demo_session demo_driver)) = None
   \<and> ls_runs (snd (startSession demo_def demo_session demo_driver)) = 3
   \<and> map ev_seq (ls_events (snd (startSession demo_def demo_session demo_driver))) = [0, 1, 2, 3, 4, 5, 6, 7]"
  by (simp add: demo_session_defs)

theorem turns_bounded_witness:
  "ls_turns (snd (startSession demo_def demo_session demo_driver)) < (1 + 1) * 2 + WRAP_UP_TURNS"
proof -
  have "1 \<le> b_turns (sd_budget demo_def)" "b_turns (sd_budget demo_def) = 2"
    "b_maxResumes (sd_budget demo_def) = 1"
    by (simp_all add: demo_def_def)
  then show ?thesis
    using turns_bounded [OF _ surjective_pairing, of demo_def demo_session demo_driver]
      demo_session_state by simp
qed

theorem completed_is_accepted_witness: "accepted demo_def (JStr ''good'')"
proof -
  obtain r s where "startSession demo_def demo_session demo_driver = (r, s)"
    by fastforce
  then have "startSession demo_def demo_session demo_driver
      = (Completed (JStr ''good'') [] \<lparr>sp_turns = 4, sp_tokens = 20, sp_costUsd = 0\<rparr>, s)"
    using demo_session_runs by simp
  then show ?thesis by (rule completed_is_accepted)
qed

end
