(* ===== verification/CreditUnits.thy ===== *)
theory CreditUnits
  imports SessionTypes
begin

text \<open>
  Credits as the two halves of the program share them (\<open>packages/shared/src/types/credits.ts\<close>): what a
  dollar is worth, and the one failure a session that cannot pay ends with.
\<close>

definition CREDITS_PER_USD :: rat where
  "CREDITS_PER_USD = 100"

text \<open>\<open>Math.round\<close> rounds a half up, as \<open>\<lfloor>x + 1/2\<rfloor>\<close> does.\<close>

definition js_round :: "rat \<Rightarrow> int" where
  "js_round x = \<lfloor>x + 1 / 2\<rfloor>"

definition creditsOfUsd :: "rat \<Rightarrow> int" where
  "creditsOfUsd usd = js_round (usd * CREDITS_PER_USD)"

definition usdOfCredits :: "int \<Rightarrow> rat" where
  "usdOfCredits credits = of_int credits / CREDITS_PER_USD"

definition CREDITS_PAUSE_FAILURE :: session_failure where
  "CREDITS_PAUSE_FAILURE = Transport ''out of credits'' EPermission Blocked"

definition isCreditsPauseFailure :: "session_failure \<Rightarrow> bool" where
  "isCreditsPauseFailure f \<longleftrightarrow>
     (case f of
        Transport detail cls r \<Rightarrow> cls = EPermission \<and> r = Blocked \<and> detail = ''out of credits''
      | _ \<Rightarrow> False)"

lemma floor_half [simp]: "\<lfloor>1 / 2 :: rat\<rfloor> = 0"
  by linarith

lemma isCreditsPauseFailure_iff: "isCreditsPauseFailure f \<longleftrightarrow> f = CREDITS_PAUSE_FAILURE"
  by (cases f) (auto simp: isCreditsPauseFailure_def CREDITS_PAUSE_FAILURE_def)

lemma creditsOfUsd_usdOfCredits: "creditsOfUsd (usdOfCredits n) = n"
  by (simp add: creditsOfUsd_def usdOfCredits_def js_round_def CREDITS_PER_USD_def)

lemma creditsOfUsd_mono: "a \<le> b \<Longrightarrow> creditsOfUsd a \<le> creditsOfUsd b"
  by (simp add: creditsOfUsd_def js_round_def CREDITS_PER_USD_def floor_mono)

lemma creditsOfUsd_zero [simp]: "creditsOfUsd 0 = 0"
  by (simp add: creditsOfUsd_def js_round_def)

lemma creditsOfUsd_nonneg: "0 \<le> a \<Longrightarrow> 0 \<le> creditsOfUsd a"
  using creditsOfUsd_mono [of 0 a] by simp

lemma creditsOfUsd_near: "\<bar>of_int (creditsOfUsd a) - a * CREDITS_PER_USD\<bar> \<le> 1 / 2"
  unfolding creditsOfUsd_def js_round_def by linarith

end
