(* ===== verification/SessionPool.thy ===== *)
theory SessionPool
  imports CreditUnits
begin

text \<open>
  One agent session per work item: \<open>runSessionPool\<close> of
  \<open>packages/core/src/services/agent/session-pool.ts\<close>.

  The pool is a machine that reacts to what happens around it: the limiter (\<open>p-limit\<close>, which the
  pool hands its tasks to) starts a queued task, a session appends an event or an index entry, a
  session ends, a fold finishes or throws, the caller aborts. \<open>pool_step\<close> is what the pool does at
  each. The limiter is code outside the repository and is free here: any queued task may start at any
  moment, so what is proved holds for whatever order and width it runs them with. A session id the
  pool mints comes with the input. How a session comes to its outcome is the theory \<open>AgentLoop\<close>.

  The callbacks \<open>session\<close> and \<open>briefing\<close> answer, and do not throw; prompts and timeouts are left out.
\<close>

subsection \<open>The throttle governor\<close>

definition GOVERNOR_RESTORE_TURNS :: nat where
  "GOVERNOR_RESTORE_TURNS = 4"

record governor =
  gv_configured :: nat
  gv_permits :: nat
  gv_cleanTurns :: nat
  gv_halvedSinceTurn :: bool
  gv_announced :: "nat list"

definition new_governor :: "nat \<Rightarrow> governor" where
  "new_governor configured =
     \<lparr>gv_configured = configured, gv_permits = configured, gv_cleanTurns = 0,
      gv_halvedSinceTurn = False, gv_announced = []\<rparr>"

definition setPermits :: "nat \<Rightarrow> governor \<Rightarrow> governor" where
  "setPermits k g =
     (if k = gv_permits g then g else g\<lparr>gv_permits := k, gv_announced := gv_announced g @ [k]\<rparr>)"

definition govern :: "event_body \<Rightarrow> governor \<Rightarrow> governor" where
  "govern body g =
     (case body of
        ProviderRetry _ (Some status) \<Rightarrow>
          if status = 429 then
            (let g1 = g\<lparr>gv_cleanTurns := 0\<rparr>
             in if gv_halvedSinceTurn g then g1
                else setPermits (max 1 (gv_permits g div 2)) (g1\<lparr>gv_halvedSinceTurn := True\<rparr>))
          else g
      | AssistantTurn _ _ \<Rightarrow>
          (let g1 = g\<lparr>gv_halvedSinceTurn := False\<rparr>
           in if gv_permits g < gv_configured g then
                (let g2 = g1\<lparr>gv_cleanTurns := Suc (gv_cleanTurns g)\<rparr>
                 in if GOVERNOR_RESTORE_TURNS \<le> gv_cleanTurns g2
                    then setPermits (min (gv_configured g) (gv_permits g + 1)) (g2\<lparr>gv_cleanTurns := 0\<rparr>)
                    else g2)
              else g1)
      | _ \<Rightarrow> g)"

definition defaultPoolConcurrency :: "int option \<Rightarrow> nat \<Rightarrow> nat" where
  "defaultPoolConcurrency declared cpus =
     (case declared of
        Some n \<Rightarrow> if 0 < n then nat n else min cpus 4
      | None \<Rightarrow> min cpus 4)"

subsection \<open>The pool\<close>

record 'i pool_options =
  po_items :: "'i list"
  po_workItem :: "'i \<Rightarrow> string"
  po_serialKey :: "('i \<Rightarrow> string) option"
  po_concurrency :: "nat option"
  po_declared :: "int option"
  po_cpus :: nat

definition configured :: "'i pool_options \<Rightarrow> nat" where
  "configured opts =
     max 1 (case po_concurrency opts of
              Some n \<Rightarrow> n
            | None \<Rightarrow> defaultPoolConcurrency (po_declared opts) (po_cpus opts))"

definition groupItems :: "'i list \<Rightarrow> ('i \<Rightarrow> string) option \<Rightarrow> 'i list list" where
  "groupItems items serialKey =
     (case serialKey of
        None \<Rightarrow> map (\<lambda>item. [item]) items
      | Some key \<Rightarrow> map snd (buckets key items))"

datatype 'i task = Group "'i list" | Rerun 'i string

record 'i run =
  rn_item :: 'i
  rn_session :: string
  rn_prior :: "string option"
  rn_rest :: "'i list"

record pool_result =
  pr_workItem :: string
  pr_sessionId :: string
  pr_outcome :: session_outcome

datatype pool_progress =
    ItemStart string nat
  | ItemDone string nat
  | ItemRequeued string nat

text \<open>\<open>pl_folding\<close> is the serial fold: its head is the fold that runs, the others wait for it in the
  order they finished. \<open>pl_starts\<close> are the sessions started, each with the session and the cursor it
  resumes from.\<close>

record 'i pool =
  pl_governor :: governor
  pl_queue :: "'i task list"
  pl_running :: "'i run list"
  pl_folding :: "('i run \<times> session_outcome) list"
  pl_results :: "pool_result list"
  pl_requeued :: "string list"
  pl_cursors :: "(string \<times> json) list"
  pl_starts :: "(string \<times> string \<times> (string \<times> json option) option) list"
  pl_progress :: "pool_progress list"
  pl_paused :: bool
  pl_aborted :: bool
  pl_error :: "string option"

definition open_pool :: "'i pool_options \<Rightarrow> bool \<Rightarrow> 'i pool" where
  "open_pool opts aborted =
     \<lparr>pl_governor = new_governor (configured opts),
      pl_queue = map Group (groupItems (po_items opts) (po_serialKey opts)),
      pl_running = [], pl_folding = [], pl_results = [], pl_requeued = [], pl_cursors = [],
      pl_starts = [], pl_progress = [], pl_paused = False, pl_aborted = aborted, pl_error = None\<rparr>"

definition indexOf :: "'i pool_options \<Rightarrow> 'i \<Rightarrow> nat" where
  "indexOf opts item =
     (case map_of (rev (zip (po_items opts) [0..<length (po_items opts)])) item of
        Some i \<Rightarrow> i | None \<Rightarrow> 0)"

definition order :: "'i pool_options \<Rightarrow> string \<Rightarrow> nat" where
  "order opts w =
     (case map_of (rev (zip (map (po_workItem opts) (po_items opts)) [0..<length (po_items opts)])) w of
        Some i \<Rightarrow> i | None \<Rightarrow> 0)"

definition requeueable :: "session_outcome \<Rightarrow> bool" where
  "requeueable outcome \<longleftrightarrow>
     (case outcome of
        FailedOutcome (Transport _ _ r) resumable _ \<Rightarrow> resumable \<and> r = Transient
      | _ \<Rightarrow> False)"

definition parked_on_credits :: "session_outcome \<Rightarrow> bool" where
  "parked_on_credits outcome \<longleftrightarrow>
     (case outcome of FailedOutcome f _ _ \<Rightarrow> isCreditsPauseFailure f | _ \<Rightarrow> False)"

text \<open>\<open>runItem\<close> up to the session's end. \<open>rest\<close> is what its group still has to run.\<close>

definition start_item ::
    "'i pool_options \<Rightarrow> 'i \<Rightarrow> string \<Rightarrow> string option \<Rightarrow> 'i list \<Rightarrow> 'i pool \<Rightarrow> 'i pool" where
  "start_item opts item sid prior rest p =
     (let w = po_workItem opts item
      in p\<lparr>pl_progress := pl_progress p @ [ItemStart w (indexOf opts item)],
           pl_starts := pl_starts p @
             [(w, sid, map_option (\<lambda>before. (before, map_of (pl_cursors p) before)) prior)],
           pl_running := pl_running p @
             [\<lparr>rn_item = item, rn_session = sid, rn_prior = prior, rn_rest = rest\<rparr>]\<rparr>)"

text \<open>The loop of a group, from where it stands.\<close>

definition run_group :: "'i pool_options \<Rightarrow> 'i list \<Rightarrow> string \<Rightarrow> 'i pool \<Rightarrow> 'i pool" where
  "run_group opts items sid p =
     (if pl_aborted p \<or> pl_paused p then p
      else case items of [] \<Rightarrow> p | item # rest \<Rightarrow> start_item opts item sid None rest p)"

definition run_task :: "'i pool_options \<Rightarrow> 'i task \<Rightarrow> string \<Rightarrow> 'i pool \<Rightarrow> 'i pool" where
  "run_task opts task sid p =
     (case task of
        Group items \<Rightarrow> run_group opts items sid p
      | Rerun item before \<Rightarrow>
          if pl_aborted p \<or> pl_paused p then p else start_item opts item sid (Some before) [] p)"

text \<open>\<open>runItem\<close> from the session's end to the wait for its fold.\<close>

definition end_item ::
    "'i pool_options \<Rightarrow> 'i run \<Rightarrow> session_outcome \<Rightarrow> string \<Rightarrow> 'i pool \<Rightarrow> 'i pool" where
  "end_item opts r outcome sid p =
     (let w = po_workItem opts (rn_item r)
      in if parked_on_credits outcome then p\<lparr>pl_paused := True\<rparr>
         else if requeueable outcome \<and> w \<notin> set (pl_requeued p) \<and> \<not> pl_aborted p then
           run_group opts (rn_rest r) sid
             (p\<lparr>pl_requeued := pl_requeued p @ [w],
                pl_progress := pl_progress p @ [ItemRequeued w (indexOf opts (rn_item r))],
                pl_queue := pl_queue p @ [Rerun (rn_item r) (rn_session r)]\<rparr>)
         else p\<lparr>pl_folding := pl_folding p @ [(r, outcome)]\<rparr>)"

text \<open>The end of the fold at the head, and the rest of its \<open>runItem\<close>.\<close>

definition end_fold ::
    "'i pool_options \<Rightarrow> 'i run \<Rightarrow> session_outcome \<Rightarrow> string \<Rightarrow> 'i pool \<Rightarrow> 'i pool" where
  "end_fold opts r outcome sid p =
     (let w = po_workItem opts (rn_item r)
      in run_group opts (rn_rest r) sid
           (p\<lparr>pl_results := pl_results p @
                [\<lparr>pr_workItem = w, pr_sessionId = rn_session r, pr_outcome = outcome\<rparr>],
              pl_progress := pl_progress p @ [ItemDone w (indexOf opts (rn_item r))]\<rparr>))"

definition without :: "nat \<Rightarrow> 'a list \<Rightarrow> 'a list" where
  "without i xs = take i xs @ drop (Suc i) xs"

datatype pool_event =
    Begin nat string
  | Emit nat event_body
  | Indexed nat "json option"
  | Ended nat session_outcome string
  | Folded string
  | FoldThrew string
  | AbortPool

fun pool_step :: "'i pool_options \<Rightarrow> pool_event \<Rightarrow> 'i pool \<Rightarrow> 'i pool" where
  "pool_step opts (Begin i sid) p =
     (if i < length (pl_queue p)
      then run_task opts (pl_queue p ! i) sid (p\<lparr>pl_queue := without i (pl_queue p)\<rparr>)
      else p)"
| "pool_step opts (Emit i body) p =
     (if i < length (pl_running p) then p\<lparr>pl_governor := govern body (pl_governor p)\<rparr> else p)"
| "pool_step opts (Indexed i cur) p =
     (if i < length (pl_running p) then
        (case cur of
           Some c \<Rightarrow> p\<lparr>pl_cursors := AList.update (rn_session (pl_running p ! i)) c (pl_cursors p)\<rparr>
         | None \<Rightarrow> p)
      else p)"
| "pool_step opts (Ended i outcome sid) p =
     (if i < length (pl_running p)
      then end_item opts (pl_running p ! i) outcome sid (p\<lparr>pl_running := without i (pl_running p)\<rparr>)
      else p)"
| "pool_step opts (Folded sid) p =
     (case pl_folding p of
        [] \<Rightarrow> p
      | (r, outcome) # waiting \<Rightarrow> end_fold opts r outcome sid (p\<lparr>pl_folding := waiting\<rparr>))"
| "pool_step opts (FoldThrew err) p =
     (case pl_folding p of
        [] \<Rightarrow> p
      | _ # waiting \<Rightarrow>
          p\<lparr>pl_folding := waiting,
            pl_error := (case pl_error p of None \<Rightarrow> Some err | Some e \<Rightarrow> Some e)\<rparr>)"
| "pool_step opts AbortPool p = p\<lparr>pl_aborted := True\<rparr>"

definition pool_done :: "'i pool \<Rightarrow> bool" where
  "pool_done p \<longleftrightarrow> pl_queue p = [] \<and> pl_running p = [] \<and> pl_folding p = []"

datatype pool_end = PoolRejected string | PoolCreditsExhausted | PoolReturned "pool_result list"

definition pool_end_of :: "'i pool_options \<Rightarrow> 'i pool \<Rightarrow> pool_end" where
  "pool_end_of opts p =
     (case pl_error p of
        Some e \<Rightarrow> PoolRejected e
      | None \<Rightarrow>
          if pl_paused p then PoolCreditsExhausted
          else PoolReturned (sort_key (order opts \<circ> pr_workItem) (pl_results p)))"

definition run_pool :: "'i pool_options \<Rightarrow> bool \<Rightarrow> pool_event list \<Rightarrow> 'i pool" where
  "run_pool opts aborted es = foldl (\<lambda>p e. pool_step opts e p) (open_pool opts aborted) es"

subsection \<open>The governor stays within its bounds and recovers\<close>

definition governor_ok :: "governor \<Rightarrow> bool" where
  "governor_ok g \<longleftrightarrow>
     1 \<le> gv_permits g \<and> gv_permits g \<le> gv_configured g \<and> gv_cleanTurns g < GOVERNOR_RESTORE_TURNS"

lemma governor_ok_new: "1 \<le> k \<Longrightarrow> governor_ok (new_governor k)"
  by (simp add: governor_ok_def new_governor_def GOVERNOR_RESTORE_TURNS_def)

lemma govern_configured [simp]: "gv_configured (govern body g) = gv_configured g"
  by (auto simp: govern_def setPermits_def Let_def split: event_body.splits option.splits)

lemma governor_ok_govern: "governor_ok g \<Longrightarrow> governor_ok (govern body g)"
  by (auto simp: governor_ok_def govern_def setPermits_def Let_def GOVERNOR_RESTORE_TURNS_def
      split: event_body.splits option.splits)

interpretation governor: invariant_machine "\<lambda>g body. govern body g" governor_ok
  by unfold_locales (rule governor_ok_govern)

lemma governor_runs [simp]:
  "pl_governor (start_item opts item sid prior rest p) = pl_governor p"
  "pl_governor (run_group opts items sid p) = pl_governor p"
  "pl_governor (run_task opts task sid p) = pl_governor p"
  "pl_governor (end_item opts r outcome sid p) = pl_governor p"
  "pl_governor (end_fold opts r outcome sid p) = pl_governor p"
  by (simp_all add: start_item_def run_group_def run_task_def end_item_def end_fold_def Let_def
      split: list.split task.split)

lemma pool_step_governor:
  "pl_governor (pool_step opts e p) = pl_governor p
   \<or> (\<exists>body. pl_governor (pool_step opts e p) = govern body (pl_governor p))"
  by (cases e) (auto split: option.splits list.splits prod.splits)

interpretation pool_governor: invariant_machine "\<lambda>p e. pool_step opts e p"
    "\<lambda>p. governor_ok (pl_governor p) \<and> gv_configured (pl_governor p) = configured opts" for opts :: "'i pool_options"
proof
  fix p :: "'i pool" and e
  assume "governor_ok (pl_governor p) \<and> gv_configured (pl_governor p) = configured opts"
  with pool_step_governor [of opts e p]
  show "governor_ok (pl_governor (pool_step opts e p)) \<and> gv_configured (pl_governor (pool_step opts e p)) = configured opts"
    by (auto simp: governor_ok_govern)
qed

text \<open>The throttle keeps at least one permit and never more than the ceiling, whatever the sessions
  of the pool emit and in whatever order.\<close>

theorem permits_bounded:
  "1 \<le> gv_permits (pl_governor (run_pool opts aborted es))
   \<and> gv_permits (pl_governor (run_pool opts aborted es)) \<le> configured opts"
proof -
  have "1 \<le> configured opts"
    by (simp add: configured_def)
  then have "governor_ok (pl_governor (open_pool opts aborted))
      \<and> gv_configured (pl_governor (open_pool opts aborted)) = configured opts"
    by (simp add: open_pool_def governor_ok_new) (simp add: new_governor_def)
  from pool_governor.run_inv [OF this, of es] show ?thesis
    unfolding run_pool_def governor_ok_def by simp
qed

text \<open>How far the governor is from the ceiling, in turns.\<close>

definition turns_to_ceiling :: "governor \<Rightarrow> nat" where
  "turns_to_ceiling g =
     GOVERNOR_RESTORE_TURNS * (gv_configured g - gv_permits g)
       - (if gv_permits g < gv_configured g then gv_cleanTurns g else 0)"

lemma turn_approaches:
  assumes "governor_ok g"
  shows "turns_to_ceiling (govern (AssistantTurn usage m) g) = turns_to_ceiling g - 1"
proof (cases "gv_permits g < gv_configured g")
  case True
  then have "\<exists>d. gv_configured g = gv_permits g + Suc d"
    by (metis less_imp_Suc_add add_Suc_right)
  then show ?thesis
    using assms
    by (auto simp: governor_ok_def turns_to_ceiling_def govern_def setPermits_def Let_def
        GOVERNOR_RESTORE_TURNS_def min_def)
next
  case False
  then show ?thesis
    using assms by (auto simp: governor_ok_def turns_to_ceiling_def govern_def Let_def)
qed

lemma at_ceiling: "governor_ok g \<Longrightarrow> turns_to_ceiling g = 0 \<longleftrightarrow> gv_permits g = gv_configured g"
  by (auto simp: governor_ok_def turns_to_ceiling_def GOVERNOR_RESTORE_TURNS_def)

text \<open>A throttled pool recovers: after as many clean turns in a row as four times the permits it is
  short of, it is back at its ceiling, from any state the governor can be in.\<close>

theorem governor_recovers:
  assumes "governor_ok g" and "GOVERNOR_RESTORE_TURNS * (gv_configured g - gv_permits g) \<le> length us"
  shows "gv_permits (foldl (\<lambda>g u. govern (AssistantTurn u m) g) g us) = gv_configured g"
proof -
  have *: "governor_ok (foldl (\<lambda>g u. govern (AssistantTurn u m) g) g us)
      \<and> gv_configured (foldl (\<lambda>g u. govern (AssistantTurn u m) g) g us) = gv_configured g
      \<and> turns_to_ceiling (foldl (\<lambda>g u. govern (AssistantTurn u m) g) g us)
          = turns_to_ceiling g - length us"
    using assms(1)
    by (induction us arbitrary: g) (simp_all add: governor_ok_govern turn_approaches)
  have "turns_to_ceiling g \<le> length us"
    using assms(2) by (simp add: turns_to_ceiling_def)
  with * show ?thesis by (metis at_ceiling diff_is_0_eq)
qed

theorem governor_recovers_witness:
  "let g = govern (ProviderRetry 1 (Some 429)) (new_governor 5);
       u = \<lparr>u_inputTokens = 1, u_outputTokens = 1, u_cacheReadTokens = 0, u_cacheCreateTokens = 0,
            u_costUsd = 0, u_cost = None\<rparr>
   in gv_permits g = 2 \<and> gv_permits (foldl (\<lambda>g u. govern (AssistantTurn u None) g) g (replicate 12 u)) = 5"
proof -
  have "governor_ok (govern (ProviderRetry 1 (Some 429)) (new_governor 5))"
    by (simp add: governor_ok_govern governor_ok_new)
  moreover have "gv_permits (govern (ProviderRetry 1 (Some 429)) (new_governor 5)) = 2"
    "gv_configured (govern (ProviderRetry 1 (Some 429)) (new_governor 5)) = 5"
    by (simp_all add: govern_def new_governor_def setPermits_def)
  ultimately show ?thesis
    using governor_recovers [of "govern (ProviderRetry 1 (Some 429)) (new_governor 5)"]
    by (simp add: Let_def GOVERNOR_RESTORE_TURNS_def)
qed

subsection \<open>Every item is accounted for\<close>

definition works :: "'i pool_options \<Rightarrow> 'i list \<Rightarrow> string multiset" where
  "works opts items = mset (map (po_workItem opts) items)"

lemma works_simps [simp]:
  "works opts [] = {#}" "works opts (x # xs) = {#po_workItem opts x#} + works opts xs"
  by (simp_all add: works_def)

fun task_items :: "'i task \<Rightarrow> 'i list" where
  "task_items (Group items) = items"
| "task_items (Rerun item _) = [item]"

text \<open>What has not started yet, and what is somewhere between its start and its result.\<close>

definition unstarted :: "'i pool_options \<Rightarrow> 'i pool \<Rightarrow> string multiset" where
  "unstarted opts p =
     sum_list (map (works opts \<circ> task_items) (pl_queue p))
     + sum_list (map (works opts \<circ> rn_rest) (pl_running p))
     + sum_list (map (works opts \<circ> rn_rest \<circ> fst) (pl_folding p))"

definition in_flight :: "'i pool_options \<Rightarrow> 'i pool \<Rightarrow> string multiset" where
  "in_flight opts p =
     mset (map (po_workItem opts \<circ> rn_item) (pl_running p))
     + mset (map (po_workItem opts \<circ> rn_item \<circ> fst) (pl_folding p))"

definition folded :: "'i pool \<Rightarrow> string multiset" where
  "folded p = mset (map pr_workItem (pl_results p))"

definition accounted_for :: "'i pool_options \<Rightarrow> 'i pool \<Rightarrow> string multiset" where
  "accounted_for opts p = unstarted opts p + in_flight opts p + folded p"

definition started :: "'i pool \<Rightarrow> string multiset" where
  "started p = mset (map fst (pl_starts p))"

definition cut_short :: "'i pool \<Rightarrow> bool" where
  "cut_short p \<longleftrightarrow> pl_aborted p \<or> pl_paused p \<or> pl_error p \<noteq> None"

lemmas tally_defs = unstarted_def in_flight_def folded_def accounted_for_def started_def cut_short_def

lemma sum_list_without:
  fixes f :: "'a \<Rightarrow> 'b :: comm_monoid_add"
  assumes "i < length xs"
  shows "sum_list (map f xs) = f (xs ! i) + sum_list (map f (without i xs))"
proof -
  have "xs = take i xs @ xs ! i # drop (Suc i) xs"
    using assms by (rule id_take_nth_drop)
  then have "sum_list (map f xs) = sum_list (map f (take i xs @ xs ! i # drop (Suc i) xs))"
    by simp
  then show ?thesis
    by (simp add: without_def add_ac)
qed

lemma mset_without: "i < length xs \<Longrightarrow> mset (map f xs) = {#f (xs ! i)#} + mset (map f (without i xs))"
  using sum_list_without [of i xs "\<lambda>x. {#f x#}"] by (simp add: sum_list_singleton_mset)

lemma works_groupItems: "sum_list (map (works opts) (groupItems items k)) = works opts items"
proof (cases k)
  case None
  then show ?thesis
    by (simp add: groupItems_def comp_def) (induction items; simp)
next
  case (Some key)
  then show ?thesis
    using sum_list_buckets [of "works opts" key items] by (simp add: groupItems_def comp_def works_def)
qed

lemma accounted_open: "accounted_for opts (open_pool opts aborted) = works opts (po_items opts)"
  by (simp add: tally_defs open_pool_def comp_def works_groupItems)

lemma started_open: "started (open_pool opts aborted) + unstarted opts (open_pool opts aborted) = works opts (po_items opts)"
  by (simp add: tally_defs open_pool_def comp_def works_groupItems)

lemma start_item_tally:
  "accounted_for opts (start_item opts item sid prior rest p)
     = accounted_for opts p + works opts (item # rest)"
  "started (start_item opts item sid prior rest p) + unstarted opts (start_item opts item sid prior rest p)
     = started p + unstarted opts p + works opts (item # rest)"
  by (simp_all add: start_item_def tally_defs Let_def)

lemma run_group_stopped: "pl_aborted p \<or> pl_paused p \<Longrightarrow> run_group opts items sid p = p"
  by (simp add: run_group_def)

lemma run_group_tally:
  assumes "\<not> (pl_aborted p \<or> pl_paused p)"
  shows "accounted_for opts (run_group opts items sid p) = accounted_for opts p + works opts items"
    and "started (run_group opts items sid p) + unstarted opts (run_group opts items sid p)
      = started p + unstarted opts p + works opts items"
  using assms by (auto simp: run_group_def start_item_tally split: list.split)

lemma run_task_tally:
  assumes "\<not> (pl_aborted p \<or> pl_paused p)"
  shows "accounted_for opts (run_task opts task sid p) = accounted_for opts p + works opts (task_items task)"
    and "started (run_task opts task sid p) + unstarted opts (run_task opts task sid p)
      = started p + unstarted opts p + works opts (task_items task)"
  using assms by (simp_all add: run_task_def run_group_tally start_item_tally split: task.split)

lemma run_task_stopped: "pl_aborted p \<or> pl_paused p \<Longrightarrow> run_task opts task sid p = p"
  by (auto simp: run_task_def run_group_stopped split: task.split)

lemma kept_fields [simp]:
  "pl_aborted (start_item opts item sid prior rest p) = pl_aborted p"
  "pl_paused (start_item opts item sid prior rest p) = pl_paused p"
  "pl_error (start_item opts item sid prior rest p) = pl_error p"
  "pl_requeued (start_item opts item sid prior rest p) = pl_requeued p"
  "pl_aborted (run_group opts items sid p) = pl_aborted p"
  "pl_paused (run_group opts items sid p) = pl_paused p"
  "pl_error (run_group opts items sid p) = pl_error p"
  "pl_requeued (run_group opts items sid p) = pl_requeued p"
  "pl_aborted (run_task opts task sid p) = pl_aborted p"
  "pl_paused (run_task opts task sid p) = pl_paused p"
  "pl_error (run_task opts task sid p) = pl_error p"
  "pl_requeued (run_task opts task sid p) = pl_requeued p"
  by (simp_all add: start_item_def run_group_def run_task_def Let_def split: list.split task.split)

text \<open>The pool's tally: nothing is accounted for twice, and nothing is lost unless the pool was cut short.\<close>

definition tally_ok :: "'i pool_options \<Rightarrow> 'i pool \<Rightarrow> bool" where
  "tally_ok opts p \<longleftrightarrow>
     accounted_for opts p \<subseteq># works opts (po_items opts) \<and>
     (cut_short p \<or> accounted_for opts p = works opts (po_items opts)) \<and>
     started p + unstarted opts p \<subseteq># works opts (po_items opts) + mset (pl_requeued p) \<and>
     distinct (pl_requeued p)"

lemma tally_okI:
  assumes "tally_ok opts p" and "cut_short p \<Longrightarrow> cut_short q" and "pl_requeued q = pl_requeued p"
    and "accounted_for opts q \<subseteq># accounted_for opts p" and "cut_short q \<or> accounted_for opts q = accounted_for opts p"
    and "started q + unstarted opts q \<subseteq># started p + unstarted opts p"
  shows "tally_ok opts q"
  using assms unfolding tally_ok_def by (metis subset_mset.order_trans)

lemma tally_unqueue:
  assumes "i < length (pl_queue p)"
  shows "accounted_for opts (p\<lparr>pl_queue := without i (pl_queue p)\<rparr>) + works opts (task_items (pl_queue p ! i))
      = accounted_for opts p"
    and "started (p\<lparr>pl_queue := without i (pl_queue p)\<rparr>)
        + unstarted opts (p\<lparr>pl_queue := without i (pl_queue p)\<rparr>) + works opts (task_items (pl_queue p ! i))
      = started p + unstarted opts p"
  using sum_list_without [OF assms, of "works opts \<circ> task_items"]
  by (simp_all add: tally_defs add_ac)

lemma tally_ok_begin:
  assumes "tally_ok opts p"
  shows "tally_ok opts (pool_step opts (Begin i sid) p)"
proof (cases "i < length (pl_queue p)")
  case True
  let ?q = "p\<lparr>pl_queue := without i (pl_queue p)\<rparr>"
  note unqueue = tally_unqueue [OF True, of opts]
  show ?thesis
  proof (cases "pl_aborted p \<or> pl_paused p")
    case stopped: True
    show ?thesis
    proof (rule tally_okI [OF assms])
      show "accounted_for opts (pool_step opts (Begin i sid) p) \<subseteq># accounted_for opts p"
        "started (pool_step opts (Begin i sid) p) + unstarted opts (pool_step opts (Begin i sid) p)
           \<subseteq># started p + unstarted opts p"
        using True stopped unqueue by (simp_all add: run_task_stopped) (metis mset_subset_eq_add_left)+
    qed (use True stopped in \<open>auto simp: run_task_stopped cut_short_def\<close>)
  next
    case False
    show ?thesis
      by (rule tally_okI [OF assms])
        (use True False unqueue run_task_tally [of ?q opts "pl_queue p ! i" sid] in \<open>simp_all add: cut_short_def\<close>)
  qed
qed (use assms in simp)

text \<open>A run taken off the running sessions, or off the head of the fold, leaves the rest of its group.\<close>

lemma tally_ended:
  assumes "i < length (pl_running p)"
  defines "r \<equiv> pl_running p ! i"
  shows "accounted_for opts (p\<lparr>pl_running := without i (pl_running p)\<rparr>)
        + works opts (rn_item r # rn_rest r) = accounted_for opts p"
    and "started (p\<lparr>pl_running := without i (pl_running p)\<rparr>)
        + unstarted opts (p\<lparr>pl_running := without i (pl_running p)\<rparr>) + works opts (rn_rest r)
      = started p + unstarted opts p"
  using sum_list_without [OF assms(1), of "works opts \<circ> rn_rest"]
    mset_without [OF assms(1), of "po_workItem opts \<circ> rn_item"]
  by (simp_all add: tally_defs r_def add_ac)

lemma tally_fold_head:
  assumes "pl_folding p = (r, outcome) # waiting"
  shows "accounted_for opts (p\<lparr>pl_folding := waiting\<rparr>) + works opts (rn_item r # rn_rest r)
      = accounted_for opts p"
    and "started (p\<lparr>pl_folding := waiting\<rparr>) + unstarted opts (p\<lparr>pl_folding := waiting\<rparr>)
        + works opts (rn_rest r) = started p + unstarted opts p"
  using assms by (simp_all add: tally_defs add_ac)

lemma tally_ok_fold:
  assumes "tally_ok opts p"
  shows "tally_ok opts (pool_step opts (Folded sid) p)"
proof (cases "pl_folding p")
  case (Cons f waiting)
  obtain r outcome where f: "f = (r, outcome)" by fastforce
  note head = tally_fold_head [OF Cons [unfolded f], of opts]
  let ?w = "po_workItem opts (rn_item r)"
  define q where "q = p\<lparr>pl_folding := waiting, pl_results := pl_results p @
      [\<lparr>pr_workItem = ?w, pr_sessionId = rn_session r, pr_outcome = outcome\<rparr>],
      pl_progress := pl_progress p @ [ItemDone ?w (indexOf opts (rn_item r))]\<rparr>"
  have step: "pool_step opts (Folded sid) p = run_group opts (rn_rest r) sid q"
    by (simp add: Cons f end_fold_def q_def Let_def)
  have q: "accounted_for opts q + works opts (rn_rest r) = accounted_for opts p"
    "started q + unstarted opts q + works opts (rn_rest r) = started p + unstarted opts p"
    using head by (simp_all add: q_def tally_defs add_ac)
  have same: "pl_aborted q = pl_aborted p" "pl_paused q = pl_paused p" "pl_error q = pl_error p"
    "pl_requeued q = pl_requeued p"
    by (simp_all add: q_def)
  show ?thesis
  proof (cases "pl_aborted p \<or> pl_paused p")
    case True
    show ?thesis
      unfolding step
    proof (rule tally_okI [OF assms])
      show "accounted_for opts (run_group opts (rn_rest r) sid q) \<subseteq># accounted_for opts p"
        "started (run_group opts (rn_rest r) sid q) + unstarted opts (run_group opts (rn_rest r) sid q)
           \<subseteq># started p + unstarted opts p"
        using True same q by (simp_all add: run_group_stopped) (metis mset_subset_eq_add_left)+
    qed (use True same in \<open>auto simp: run_group_stopped cut_short_def\<close>)
  next
    case False
    show ?thesis
      unfolding step
      by (rule tally_okI [OF assms])
        (use False same q run_group_tally [of q opts "rn_rest r" sid] in \<open>simp_all add: cut_short_def\<close>)
  qed
qed (use assms in simp)

lemma tally_ok_threw:
  assumes "tally_ok opts p"
  shows "tally_ok opts (pool_step opts (FoldThrew err) p)"
proof (cases "pl_folding p")
  case (Cons f waiting)
  obtain r outcome where f: "f = (r, outcome)" by fastforce
  note head = tally_fold_head [OF Cons [unfolded f], of opts]
  let ?q = "pool_step opts (FoldThrew err) p"
  have "accounted_for opts ?q = accounted_for opts (p\<lparr>pl_folding := waiting\<rparr>)"
    "started ?q + unstarted opts ?q = started (p\<lparr>pl_folding := waiting\<rparr>) + unstarted opts (p\<lparr>pl_folding := waiting\<rparr>)"
    by (simp_all add: Cons f tally_defs)
  moreover have "pl_error ?q \<noteq> None"
    by (simp add: Cons f split: option.split)
  moreover have "accounted_for opts (p\<lparr>pl_folding := waiting\<rparr>) \<subseteq># accounted_for opts p"
    "started (p\<lparr>pl_folding := waiting\<rparr>) + unstarted opts (p\<lparr>pl_folding := waiting\<rparr>)
       \<subseteq># started p + unstarted opts p"
    using head by (metis mset_subset_eq_add_left)+
  ultimately show ?thesis
    by (intro tally_okI [OF assms]) (auto simp: Cons f cut_short_def)
qed (use assms in simp)

lemma tally_ok_ended:
  assumes ok: "tally_ok opts p"
  shows "tally_ok opts (pool_step opts (Ended i outcome sid) p)"
proof (cases "i < length (pl_running p)")
  case True
  define r where "r = pl_running p ! i"
  define w where "w = po_workItem opts (rn_item r)"
  define q where "q = p\<lparr>pl_running := without i (pl_running p)\<rparr>"
  note taken = tally_ended [OF True, of opts, folded r_def q_def, simplified, folded w_def]
  have step: "pool_step opts (Ended i outcome sid) p = end_item opts r outcome sid q"
    using True by (simp add: r_def q_def)
  have same: "pl_aborted q = pl_aborted p" "pl_paused q = pl_paused p" "pl_error q = pl_error p"
    "pl_requeued q = pl_requeued p"
    by (simp_all add: q_def)
  consider (parked) "parked_on_credits outcome"
    | (again) "\<not> parked_on_credits outcome" "requeueable outcome" "w \<notin> set (pl_requeued p)" "\<not> pl_aborted p"
    | (fold) "\<not> parked_on_credits outcome" "\<not> (requeueable outcome \<and> w \<notin> set (pl_requeued p) \<and> \<not> pl_aborted p)"
    by blast
  then show ?thesis
  proof cases
    case parked
    then have q: "end_item opts r outcome sid q = q\<lparr>pl_paused := True\<rparr>"
      by (simp add: end_item_def Let_def)
    have "accounted_for opts (q\<lparr>pl_paused := True\<rparr>) = accounted_for opts q"
      "started (q\<lparr>pl_paused := True\<rparr>) + unstarted opts (q\<lparr>pl_paused := True\<rparr>) = started q + unstarted opts q"
      by (simp_all add: tally_defs)
    moreover have "accounted_for opts q \<subseteq># accounted_for opts p"
      "started q + unstarted opts q \<subseteq># started p + unstarted opts p"
      unfolding taken(1) [symmetric] taken(2) [symmetric] by simp_all
    ultimately show ?thesis
      unfolding step q by (intro tally_okI [OF ok]) (auto simp: cut_short_def same)
  next
    case fold
    then have q: "end_item opts r outcome sid q = q\<lparr>pl_folding := pl_folding q @ [(r, outcome)]\<rparr>"
      by (auto simp: end_item_def Let_def same w_def)
    have "accounted_for opts (q\<lparr>pl_folding := pl_folding q @ [(r, outcome)]\<rparr>) = accounted_for opts p"
      "started (q\<lparr>pl_folding := pl_folding q @ [(r, outcome)]\<rparr>)
         + unstarted opts (q\<lparr>pl_folding := pl_folding q @ [(r, outcome)]\<rparr>) = started p + unstarted opts p"
      using taken by (simp_all add: tally_defs w_def add_ac)
    then show ?thesis
      unfolding step q by (intro tally_okI [OF ok]) (auto simp: cut_short_def same)
  next
    case again
    define q' where "q' = q\<lparr>pl_requeued := pl_requeued p @ [w],
      pl_progress := pl_progress p @ [ItemRequeued w (indexOf opts (rn_item r))],
      pl_queue := pl_queue p @ [Rerun (rn_item r) (rn_session r)]\<rparr>"
    have e: "end_item opts r outcome sid q = run_group opts (rn_rest r) sid q'"
      using again by (simp add: end_item_def Let_def same w_def q'_def) (simp add: q_def)
    have a: "accounted_for opts q' + works opts (rn_rest r) = accounted_for opts p"
      "started q' + unstarted opts q' + works opts (rn_rest r) = started p + unstarted opts p + {#w#}"
      using taken by (simp_all add: q'_def q_def tally_defs w_def add_ac)
    have same': "pl_aborted q' = pl_aborted p" "pl_paused q' = pl_paused p" "pl_error q' = pl_error p"
      "pl_requeued q' = pl_requeued p @ [w]"
      by (simp_all add: q'_def same)
    let ?e = "run_group opts (rn_rest r) sid q'"
    have "accounted_for opts ?e \<subseteq># accounted_for opts p"
      "started ?e + unstarted opts ?e \<subseteq># started p + unstarted opts p + {#w#}"
      "cut_short ?e \<or> accounted_for opts ?e = accounted_for opts p"
    proof -
      have "accounted_for opts q' \<subseteq># accounted_for opts p"
        "started q' + unstarted opts q' \<subseteq># started p + unstarted opts p + {#w#}"
        using a by (metis mset_subset_eq_add_left)+
      then show "accounted_for opts ?e \<subseteq># accounted_for opts p"
        "started ?e + unstarted opts ?e \<subseteq># started p + unstarted opts p + {#w#}"
        "cut_short ?e \<or> accounted_for opts ?e = accounted_for opts p"
        using run_group_tally [of q' opts "rn_rest r" sid] run_group_stopped [of q' opts "rn_rest r" sid] a
        by (cases "pl_aborted q' \<or> pl_paused q'"; auto simp: cut_short_def)+
    qed
    note e_tally = this
    have short: "cut_short p \<Longrightarrow> cut_short ?e"
      by (auto simp: cut_short_def same')
    have ok': "accounted_for opts p \<subseteq># works opts (po_items opts)"
      "cut_short p \<or> accounted_for opts p = works opts (po_items opts)"
      "started p + unstarted opts p \<subseteq># works opts (po_items opts) + mset (pl_requeued p)"
      "distinct (pl_requeued p)"
      using ok by (simp_all add: tally_ok_def)
    have "started p + unstarted opts p + {#w#} \<subseteq># works opts (po_items opts) + mset (pl_requeued p) + {#w#}"
      using ok'(3) by (rule subset_mset.add_right_mono)
    then have "started ?e + unstarted opts ?e \<subseteq># works opts (po_items opts) + mset (pl_requeued ?e)"
      using e_tally(2) by (simp add: same' subset_mset.order_trans)
    moreover have "accounted_for opts ?e \<subseteq># works opts (po_items opts)"
      using e_tally(1) ok'(1) by (rule subset_mset.order_trans)
    moreover have "cut_short ?e \<or> accounted_for opts ?e = works opts (po_items opts)"
      using e_tally(3) ok'(2) short by argo
    moreover have "distinct (pl_requeued ?e)"
      using ok'(4) again by (simp add: same')
    ultimately show ?thesis
      unfolding step e tally_ok_def by blast
  qed
qed (use ok in simp)

lemma tally_ok_step: "tally_ok opts p \<Longrightarrow> tally_ok opts (pool_step opts e p)"
proof (cases e)
  case (Emit i body)
  assume ok: "tally_ok opts p"
  show ?thesis
    using Emit by (intro tally_okI [OF ok]) (auto simp: tally_defs)
next
  case (Indexed i cur)
  assume ok: "tally_ok opts p"
  show ?thesis
    using Indexed by (intro tally_okI [OF ok]) (auto simp: tally_defs split: option.splits)
next
  case AbortPool
  assume ok: "tally_ok opts p"
  show ?thesis
    using AbortPool by (intro tally_okI [OF ok]) (auto simp: tally_defs)
qed (auto intro: tally_ok_begin tally_ok_ended tally_ok_fold tally_ok_threw simp del: pool_step.simps)

interpretation tally: invariant_machine "\<lambda>p e. pool_step opts e p" "tally_ok opts"
    for opts :: "'i pool_options"
  by unfold_locales (rule tally_ok_step)

lemma tally_open: "tally_ok opts (open_pool opts aborted)"
  unfolding tally_ok_def by (simp add: accounted_open started_open) (simp add: open_pool_def)

lemma tally_run: "tally_ok opts (run_pool opts aborted es)"
  unfolding run_pool_def by (rule tally.run_inv [OF tally_open])

subsection \<open>What the pool returns\<close>

lemma map_of_rev_zip_upt:
  assumes "distinct xs" "i < length xs"
  shows "map_of (rev (zip xs [0..<length xs])) (xs ! i) = Some i"
proof (rule map_of_is_SomeI)
  show "distinct (map fst (rev (zip xs [0..<length xs])))"
    using assms by (simp add: rev_map [symmetric])
  show "(xs ! i, i) \<in> set (rev (zip xs [0..<length xs]))"
    using assms by (auto simp: set_zip)
qed

lemma order_nth:
  assumes "distinct (map (po_workItem opts) (po_items opts))"
  shows "map (order opts) (map (po_workItem opts) (po_items opts)) = [0..<length (po_items opts)]"
  using map_of_rev_zip_upt [OF assms] by (intro nth_equalityI) (simp_all add: order_def)

lemma insort_key_map: "map f (insort_key (g \<circ> f) x xs) = insort_key g (f x) (map f xs)"
  by (induction xs) auto

lemma sort_key_map: "map f (sort_key (g \<circ> f) xs) = sort_key g (map f xs)"
  by (induction xs) (simp_all add: insort_key_map [unfolded comp_def] comp_def)

lemma sort_by_order:
  assumes "distinct (map (po_workItem opts) (po_items opts))"
    and "mset ws = mset (map (po_workItem opts) (po_items opts))"
  shows "sort_key (order opts) ws = map (po_workItem opts) (po_items opts)"
proof (rule properties_for_sort_key)
  let ?ws = "map (po_workItem opts) (po_items opts)"
  show "mset ?ws = mset ws"
    using assms(2) by simp
  have d: "distinct (map (order opts) ?ws)" and s: "sorted (map (order opts) ?ws)"
    unfolding order_nth [OF assms(1)] by simp_all
  show "sorted (map (order opts) ?ws)"
    by (rule s)
  have inj: "inj_on (order opts) (set ?ws)"
    using d distinct_map by blast
  have sub: "set ws = set ?ws"
    using assms(2) by (rule mset_eq_setD)
  have dw: "distinct ws"
    by (rule iffD2 [OF mset_eq_imp_distinct_iff [OF assms(2)] assms(1)])
  fix k
  assume k: "k \<in> set ?ws"
  have only: "filter (\<lambda>x. order opts k = order opts x) xs = [k]"
    if xs: "set xs = set ?ws" "distinct xs" for xs
  proof -
    have "(order opts k = order opts x) = (x = k)" if "x \<in> set xs" for x
      using inj_on_eq_iff [OF inj k, of x] that xs(1) by blast
    then have "filter (\<lambda>x. order opts k = order opts x) xs = filter (\<lambda>x. x = k) xs"
      by (intro filter_cong refl)
    moreover have "k \<in> set xs"
      using xs(1) k by simp
    then have "filter (\<lambda>x. x = k) xs = [k]"
      using xs(2) by (induction xs) (auto simp: filter_empty_conv)
    ultimately show ?thesis by simp
  qed
  show "filter (\<lambda>x. order opts k = order opts x) ?ws = filter (\<lambda>x. order opts k = order opts x) ws"
    unfolding only [OF refl assms(1)] only [OF sub dw] by (rule refl)
qed

text \<open>C2: A pool that runs to its end, unaborted and with every fold answering, returns one result per
  work item, in the order of the work list, whatever order the sessions and the folds ended in and
  whichever items were queued again.\<close>

theorem pool_returns_the_work_list:
  assumes "distinct (map (po_workItem opts) (po_items opts))"
    and "pool_done (run_pool opts aborted es)" and "\<not> pl_aborted (run_pool opts aborted es)"
    and "pool_end_of opts (run_pool opts aborted es) = PoolReturned results"
  shows "map pr_workItem results = map (po_workItem opts) (po_items opts)"
proof -
  let ?p = "run_pool opts aborted es"
  have e: "pl_error ?p = None" "\<not> pl_paused ?p"
    and r: "results = sort_key (order opts \<circ> pr_workItem) (pl_results ?p)"
    using assms(4) by (auto simp: pool_end_of_def split: option.splits if_splits)
  have "accounted_for opts ?p = works opts (po_items opts)"
    using tally_run [of opts aborted es] assms(3) e by (auto simp: tally_ok_def cut_short_def)
  then have "mset (map pr_workItem (pl_results ?p)) = mset (map (po_workItem opts) (po_items opts))"
    using assms(2) by (simp add: tally_defs pool_done_def works_def)
  then show ?thesis
    unfolding r sort_key_map by (rule sort_by_order [OF assms(1)])
qed

lemma distinct_submset:
  assumes "mset xs \<subseteq># mset ys" "distinct ys"
  shows "distinct xs"
proof -
  obtain zs where "mset ys = mset (xs @ zs)"
    using assms(1) by (metis mset_append mset_subset_eq_exists_conv ex_mset)
  then have "distinct (xs @ zs)"
    using assms(2) mset_eq_imp_distinct_iff by blast
  then show ?thesis by simp
qed

text \<open>Whatever happens, aborts, pauses and failed folds included, no work item is folded twice and
  none has more than two sessions.\<close>

theorem pool_folds_once_runs_twice:
  assumes "distinct (map (po_workItem opts) (po_items opts))"
  shows "distinct (map pr_workItem (pl_results (run_pool opts aborted es)))
    \<and> count_list (map fst (pl_starts (run_pool opts aborted es))) w \<le> 2"
proof -
  let ?p = "run_pool opts aborted es"
  have ok: "tally_ok opts ?p"
    by (rule tally_run)
  then have "accounted_for opts ?p \<subseteq># works opts (po_items opts)"
    by (simp add: tally_ok_def)
  then have "folded ?p \<subseteq># works opts (po_items opts)"
    unfolding accounted_for_def by (metis mset_subset_eq_add_right subset_mset.order_trans)
  then have "mset (map pr_workItem (pl_results ?p)) \<subseteq># mset (map (po_workItem opts) (po_items opts))"
    by (simp add: folded_def works_def)
  then have once: "distinct (map pr_workItem (pl_results ?p))"
    using assms distinct_submset by blast
  have "started ?p \<subseteq># works opts (po_items opts) + mset (pl_requeued ?p)" "distinct (pl_requeued ?p)"
    using ok mset_subset_eq_add_left subset_mset.order_trans unfolding tally_ok_def by blast+
  then have "count (started ?p) w \<le> count (works opts (po_items opts)) w + count (mset (pl_requeued ?p)) w"
    by (metis count_union mset_subset_eq_count)
  also have "\<dots> \<le> 1 + 1"
    using assms \<open>distinct (pl_requeued ?p)\<close> unfolding works_def
    by (intro add_mono) (simp_all add: distinct_count_atmost_1 split: if_splits)
  finally show ?thesis
    using once by (simp add: started_def count_mset del: mset_map)
qed

subsection \<open>A run with a re-queue\<close>

text \<open>Three items named by themselves, the first two in one serial group.\<close>

definition demo_pool :: "string pool_options" where
  "demo_pool =
     \<lparr>po_items = [''a1'', ''a2'', ''b1''], po_workItem = (\<lambda>i. i), po_serialKey = Some (take 1),
      po_concurrency = Some 4, po_declared = None, po_cpus = 2\<rparr>"

definition demo_ok :: session_outcome where
  "demo_ok = Completed JNull [] \<lparr>sp_turns = 1, sp_tokens = 5, sp_costUsd = 0\<rparr>"

definition demo_throttled :: session_outcome where
  "demo_throttled =
     FailedOutcome (Transport ''429'' EProvider Transient) True \<lparr>sp_turns = 1, sp_tokens = 5, sp_costUsd = 0\<rparr>"

definition demo_pool_events :: "pool_event list" where
  "demo_pool_events =
     [Begin 0 ''s1'', Begin 0 ''s2'', Emit 0 (ProviderRetry 1 (Some 429)), Indexed 0 (Some (JNum 7)),
      Ended 0 demo_throttled ''s3'', Ended 0 demo_ok [], Begin 0 ''s4'', Folded [],
      Ended 1 demo_ok [], Ended 0 demo_ok [], Folded [], Folded []]"

lemmas demo_pool_defs = demo_pool_def demo_ok_def demo_throttled_def demo_pool_events_def run_pool_def
  open_pool_def groupItems_def buckets_def bucket_def new_governor_def configured_def run_group_def
  run_task_def start_item_def end_item_def end_fold_def without_def requeueable_def
  parked_on_credits_def isCreditsPauseFailure_def govern_def setPermits_def pool_end_of_def order_def
  indexOf_def pool_done_def Let_def

lemma demo_pool_run:
  "pool_done (run_pool demo_pool False demo_pool_events)"
  "\<not> pl_aborted (run_pool demo_pool False demo_pool_events)"
  "map fst (pl_starts (run_pool demo_pool False demo_pool_events)) = [''a1'', ''b1'', ''a2'', ''a1'']"
  "map snd (pl_starts (run_pool demo_pool False demo_pool_events))
     = [(''s1'', None), (''s2'', None), (''s3'', None), (''s4'', Some (''s1'', Some (JNum 7)))]"
  "map pr_workItem (pl_results (run_pool demo_pool False demo_pool_events)) = [''b1'', ''a1'', ''a2'']"
  "pl_error (run_pool demo_pool False demo_pool_events) = None \<and> \<not> pl_paused (run_pool demo_pool False demo_pool_events)"
  by (simp_all add: demo_pool_defs)

lemma demo_pool_distinct: "distinct (map (po_workItem demo_pool) (po_items demo_pool))"
  by (simp add: demo_pool_def)

theorem pool_returns_the_work_list_witness:
  "\<exists>results. pool_end_of demo_pool (run_pool demo_pool False demo_pool_events) = PoolReturned results
     \<and> map pr_workItem results = [''a1'', ''a2'', ''b1'']"
proof -
  obtain results where r:
    "pool_end_of demo_pool (run_pool demo_pool False demo_pool_events) = PoolReturned results"
    using demo_pool_run(6) by (simp add: pool_end_of_def)
  show ?thesis
    using pool_returns_the_work_list [OF demo_pool_distinct demo_pool_run(1,2) r] r
    by (simp add: demo_pool_def)
qed

theorem pool_folds_once_runs_twice_witness:
  "distinct [''b1'', ''a1'', ''a2''] \<and> count_list [''a1'', ''b1'', ''a2'', ''a1''] ''a1'' \<le> 2"
  using pool_folds_once_runs_twice [OF demo_pool_distinct, of False demo_pool_events "''a1''"]
  unfolding demo_pool_run by blast

text \<open>The re-queue takes an item out of its serial group: here the first two items share a serial key,
  and after the first is throttled and re-queued both run side by side, neither folded, against the
  module's note that each item of a group starts only after its predecessor has folded.\<close>

theorem serial_group_overlaps:
  "map rn_item (pl_running (run_pool demo_pool False (take 7 demo_pool_events))) = [''a2'', ''a1'']
   \<and> pl_results (run_pool demo_pool False (take 7 demo_pool_events)) = []"
  by (simp add: demo_pool_defs)

end
