(* ===== verification/UsageMeter.thy ===== *)
theory UsageMeter
  imports CreditUnits
begin

text \<open>
  The meter a job spends through: \<open>createUsageMeter\<close>, \<open>withCredits\<close> and \<open>meterDriver\<close> of
  \<open>apps/dashboard/server/src/services/usage-meter.service.ts\<close>.

  A flush takes the whole buffer and then writes it row by row, awaiting the usage store and the
  account in between; spend can be observed at each of those awaits. So the meter is a machine:
  \<open>mt_taken\<close> is what the flush under way still has to write, \<open>mt_debit\<close> the charge it is waiting for,
  and the store's and the account's answers are inputs. What the meter asked of them is kept in
  \<open>mt_written\<close> and \<open>mt_debits\<close>. \<open>meter_step\<close> is one input. The chain of flushes is serial in the
  program; here a flush begins only when none is under way.

  Money in US dollars is an exact rational. The timer is an input (it begins a flush); log lines and
  the naming of an earlier run's rows (\<open>attachUsageRun\<close>) are left out.
\<close>

record spend =
  lm_subjectKind :: string
  lm_subject :: string
  lm_provider :: string
  lm_model :: string
  lm_inputTokens :: nat
  lm_outputTokens :: nat
  lm_cacheReadTokens :: nat
  lm_cacheCreateTokens :: nat
  lm_costUsd :: rat
  lm_cost :: turn_cost

record pending =
  pd_subjectKind :: string
  pd_subject :: string
  pd_provider :: string
  pd_model :: string
  pd_inputTokens :: nat
  pd_outputTokens :: nat
  pd_cacheReadTokens :: nat
  pd_cacheCreateTokens :: nat
  pd_calls :: nat
  pd_costUsd :: rat
  pd_cost :: turn_cost
  pd_startedAt :: time
  pd_finishedAt :: time

record charged =
  ch_usageId :: uuid
  ch_costUsd :: rat
  ch_credits :: int

record credits_account =
  ac_workspaceOrgId :: string
  ac_balance :: int

type_synonym subject_key = "string \<times> string"

record meter =
  mt_buffer :: "(subject_key \<times> pending) list"
  mt_charged :: "(subject_key \<times> charged) list"
  mt_runId :: "string option"
  mt_timer :: bool
  mt_closed :: bool
  mt_account :: "credits_account option"
  mt_balance :: int
  mt_tripped :: bool
  mt_taken :: "(subject_key \<times> pending) list"
  mt_debit :: "int option"
  mt_written :: "(subject_key \<times> string option \<times> pending) list"
  mt_debits :: "(subject_key \<times> int \<times> uuid) list"

definition createUsageMeter :: meter where
  "createUsageMeter =
     \<lparr>mt_buffer = [], mt_charged = [], mt_runId = None, mt_timer = False, mt_closed = False,
      mt_account = None, mt_balance = 0, mt_tripped = False, mt_taken = [], mt_debit = None,
      mt_written = [], mt_debits = []\<rparr>"

definition addCost :: "turn_cost \<Rightarrow> turn_cost \<Rightarrow> turn_cost" where
  "addCost into extra =
     \<lparr>tc_input = tc_input into + tc_input extra, tc_output = tc_output into + tc_output extra,
      tc_cached = tc_cached into + tc_cached extra\<rparr>"

definition NO_COST :: turn_cost where
  "NO_COST = \<lparr>tc_input = 0, tc_output = 0, tc_cached = 0\<rparr>"

definition keyOf :: "string \<Rightarrow> string \<Rightarrow> subject_key" where
  "keyOf subjectKind subject = (subjectKind, subject)"

text \<open>\<open>pending\<close> folded back into what arrived since.\<close>

definition restore_into :: "pending \<Rightarrow> pending \<Rightarrow> pending" where
  "restore_into held p =
     held\<lparr>pd_inputTokens := pd_inputTokens held + pd_inputTokens p,
          pd_outputTokens := pd_outputTokens held + pd_outputTokens p,
          pd_cacheReadTokens := pd_cacheReadTokens held + pd_cacheReadTokens p,
          pd_cacheCreateTokens := pd_cacheCreateTokens held + pd_cacheCreateTokens p,
          pd_calls := pd_calls held + pd_calls p,
          pd_costUsd := pd_costUsd held + pd_costUsd p,
          pd_cost := addCost (pd_cost held) (pd_cost p),
          pd_startedAt := (if pd_startedAt p < pd_startedAt held then pd_startedAt p else pd_startedAt held),
          pd_finishedAt := (if pd_finishedAt held < pd_finishedAt p then pd_finishedAt p else pd_finishedAt held)\<rparr>"

definition restore :: "subject_key \<Rightarrow> pending \<Rightarrow> meter \<Rightarrow> meter" where
  "restore key p m =
     (case map_of (mt_buffer m) key of
        None \<Rightarrow> m\<lparr>mt_buffer := AList.update key p (mt_buffer m)\<rparr>
      | Some held \<Rightarrow> m\<lparr>mt_buffer := AList.update key (restore_into held p) (mt_buffer m)\<rparr>)"

text \<open>\<open>chargeRow\<close> up to its call of the account.\<close>

definition chargeRow :: "subject_key \<Rightarrow> uuid \<Rightarrow> rat \<Rightarrow> meter \<Rightarrow> meter" where
  "chargeRow key usageId costUsd m =
     (case mt_account m of
        None \<Rightarrow> m
      | Some _ \<Rightarrow>
          (let held0 = (case map_of (mt_charged m) key of
                          Some h \<Rightarrow> h
                        | None \<Rightarrow> \<lparr>ch_usageId = usageId, ch_costUsd = 0, ch_credits = 0\<rparr>);
               held = held0\<lparr>ch_usageId := usageId, ch_costUsd := ch_costUsd held0 + costUsd\<rparr>;
               owed = creditsOfUsd (ch_costUsd held) - ch_credits held
           in if owed \<le> 0 then m\<lparr>mt_charged := AList.update key held (mt_charged m)\<rparr>
              else m\<lparr>mt_charged := AList.update key (held\<lparr>ch_credits := ch_credits held + owed\<rparr>) (mt_charged m),
                     mt_debit := Some owed,
                     mt_debits := mt_debits m @ [(key, owed, usageId)]\<rparr>))"

text \<open>A flush that begins, and the answers it waits for.\<close>

definition flush_begins :: "meter \<Rightarrow> meter" where
  "flush_begins m =
     (if mt_taken m = [] \<and> mt_debit m = None
      then m\<lparr>mt_taken := mt_buffer m, mt_buffer := []\<rparr> else m)"

definition recorded :: "string + uuid \<Rightarrow> meter \<Rightarrow> meter" where
  "recorded answer m =
     (case mt_taken m of
        [] \<Rightarrow> m
      | (key, p) # rest \<Rightarrow>
          if mt_debit m \<noteq> None then m
          else (case answer of
                  Inl _ \<Rightarrow> restore key p (m\<lparr>mt_taken := rest\<rparr>)
                | Inr usageId \<Rightarrow>
                    chargeRow key usageId (pd_costUsd p)
                      (m\<lparr>mt_taken := rest, mt_written := mt_written m @ [(key, mt_runId m, p)]\<rparr>)))"

definition debited :: "string + int \<Rightarrow> meter \<Rightarrow> meter" where
  "debited answer m =
     (if mt_debit m = None then m
      else (case answer of
              Inl _ \<Rightarrow> m\<lparr>mt_debit := None\<rparr>
            | Inr b \<Rightarrow> m\<lparr>mt_debit := None, mt_balance := b, mt_tripped := mt_tripped m \<or> b \<le> 0\<rparr>))"

definition arm :: "meter \<Rightarrow> meter" where
  "arm m = (if mt_timer m \<or> mt_closed m then m else m\<lparr>mt_timer := True\<rparr>)"

definition new_pending :: "time \<Rightarrow> spend \<Rightarrow> pending" where
  "new_pending now s =
     \<lparr>pd_subjectKind = lm_subjectKind s, pd_subject = lm_subject s, pd_provider = lm_provider s,
      pd_model = lm_model s, pd_inputTokens = lm_inputTokens s, pd_outputTokens = lm_outputTokens s,
      pd_cacheReadTokens = lm_cacheReadTokens s, pd_cacheCreateTokens = lm_cacheCreateTokens s,
      pd_calls = 1, pd_costUsd = lm_costUsd s, pd_cost = lm_cost s, pd_startedAt = now,
      pd_finishedAt = now\<rparr>"

definition add_spend :: "time \<Rightarrow> pending \<Rightarrow> spend \<Rightarrow> pending" where
  "add_spend now held s =
     held\<lparr>pd_inputTokens := pd_inputTokens held + lm_inputTokens s,
          pd_outputTokens := pd_outputTokens held + lm_outputTokens s,
          pd_cacheReadTokens := pd_cacheReadTokens held + lm_cacheReadTokens s,
          pd_cacheCreateTokens := pd_cacheCreateTokens held + lm_cacheCreateTokens s,
          pd_calls := pd_calls held + 1,
          pd_costUsd := pd_costUsd held + lm_costUsd s,
          pd_cost := addCost (pd_cost held) (lm_cost s),
          pd_finishedAt := now,
          pd_model := (if lm_model s = [] then pd_model held else lm_model s)\<rparr>"

definition observe :: "bool \<Rightarrow> time \<Rightarrow> spend \<Rightarrow> meter \<Rightarrow> meter" where
  "observe installed now s m =
     (if \<not> installed then m
      else (let key = keyOf (lm_subjectKind s) (lm_subject s)
            in arm (case map_of (mt_buffer m) key of
                      None \<Rightarrow> m\<lparr>mt_buffer := AList.update key (new_pending now s) (mt_buffer m)\<rparr>
                    | Some held \<Rightarrow>
                        m\<lparr>mt_buffer := AList.update key (add_spend now held s) (mt_buffer m)\<rparr>)))"

definition spendable :: "meter \<Rightarrow> bool \<times> meter" where
  "spendable m =
     (if mt_account m = None \<or> 0 < mt_balance m then (True, m)
      else (False, m\<lparr>mt_tripped := True\<rparr>))"

text \<open>An exhausted balance as an exception: the workspace and the balance it carries.\<close>

datatype credits_error = CreditsExhausted string int

definition check :: "meter \<Rightarrow> (credits_error + unit) \<times> meter" where
  "check m =
     (case spendable m of
        (True, m') \<Rightarrow> (Inr (), m')
      | (False, m') \<Rightarrow>
          (Inl (CreditsExhausted (ac_workspaceOrgId (the (mt_account m'))) (mt_balance m')), m'))"

definition exhausted :: "meter \<Rightarrow> bool" where
  "exhausted m = mt_tripped m"

definition chargeTo :: "credits_account \<Rightarrow> meter \<Rightarrow> meter" where
  "chargeTo account m = m\<lparr>mt_account := Some account, mt_balance := ac_balance account\<rparr>"

definition assertCredits :: "meter \<Rightarrow> credits_error option" where
  "assertCredits m =
     (if \<not> mt_tripped m then None
      else map_option (\<lambda>a. CreditsExhausted (ac_workspaceOrgId a) (mt_balance m)) (mt_account m))"

definition setRunId :: "string \<Rightarrow> meter \<Rightarrow> meter" where
  "setRunId run m = (if mt_runId m = Some run then m else m\<lparr>mt_runId := Some run\<rparr>)"

definition close :: "meter \<Rightarrow> meter" where
  "close m = m\<lparr>mt_closed := True, mt_timer := False\<rparr>"

text \<open>\<open>withCredits\<close>: what is thrown, or the value. \<open>run\<close> is how the wrapped work ended.\<close>

definition withCredits :: "meter \<Rightarrow> 'e + 'a \<Rightarrow> (credits_error + 'e) + 'a" where
  "withCredits m run =
     (case assertCredits m of
        Some e \<Rightarrow> Inl (Inl e)
      | None \<Rightarrow> (case run of Inr value \<Rightarrow> Inr value | Inl e \<Rightarrow> Inl (Inr e)))"

datatype meter_event =
    Observed bool time spend
  | TimerFired
  | FlushBegins
  | Recorded "string + uuid"
  | Debited "string + int"
  | Asked
  | ChargedTo credits_account
  | RunNamed string
  | MeterClosed

fun meter_step :: "meter \<Rightarrow> meter_event \<Rightarrow> meter" where
  "meter_step m (Observed installed now s) = observe installed now s m"
| "meter_step m TimerFired = m\<lparr>mt_timer := False\<rparr>"
| "meter_step m FlushBegins = flush_begins m"
| "meter_step m (Recorded answer) = recorded answer m"
| "meter_step m (Debited answer) = debited answer m"
| "meter_step m Asked = snd (spendable m)"
| "meter_step m (ChargedTo account) = chargeTo account m"
| "meter_step m (RunNamed run) = setRunId run m"
| "meter_step m MeterClosed = close m"

subsection \<open>A metered driver\<close>

text \<open>What the wrapper around one driver run keeps. \<open>md_attached\<close> says that \<open>runSession\<close> has returned its
  handle: before that there is nothing to interrupt.\<close>

record metered =
  md_meter :: meter
  md_attached :: bool
  md_stopped :: bool
  md_interrupts :: nat
  md_emitted :: "event_body list"

definition turnModel :: "string \<Rightarrow> string option \<Rightarrow> string" where
  "turnModel attributed model =
     (case model of None \<Rightarrow> attributed | Some t \<Rightarrow> if t = [] then attributed else t)"

definition turn_spend :: "string \<Rightarrow> string \<Rightarrow> string \<Rightarrow> turn_usage \<Rightarrow> string option \<Rightarrow> spend" where
  "turn_spend kind provider attributed u model =
     \<lparr>lm_subjectKind = ''session'', lm_subject = kind, lm_provider = provider,
      lm_model = turnModel attributed model, lm_inputTokens = u_inputTokens u,
      lm_outputTokens = u_outputTokens u, lm_cacheReadTokens = u_cacheReadTokens u,
      lm_cacheCreateTokens = u_cacheCreateTokens u, lm_costUsd = u_costUsd u,
      lm_cost = (case u_cost u of Some c \<Rightarrow> c | None \<Rightarrow> NO_COST)\<rparr>"

definition onEvent ::
    "string \<Rightarrow> string \<Rightarrow> string \<Rightarrow> bool \<Rightarrow> time \<Rightarrow> event_body \<Rightarrow> metered \<Rightarrow> metered" where
  "onEvent kind provider attributed installed now event d =
     (let d1 = (case event of
                  AssistantTurn u model \<Rightarrow>
                    (case spendable (observe installed now (turn_spend kind provider attributed u model)
                                      (md_meter d)) of
                       (True, m) \<Rightarrow> d\<lparr>md_meter := m\<rparr>
                     | (False, m) \<Rightarrow>
                         d\<lparr>md_meter := m, md_stopped := True,
                           md_interrupts := md_interrupts d + (if md_attached d then 1 else 0)\<rparr>)
                | _ \<Rightarrow> d)
      in d1\<lparr>md_emitted := md_emitted d1 @ [event]\<rparr>)"

definition metered_done :: "metered \<Rightarrow> driver_result \<Rightarrow> driver_result" where
  "metered_done d result =
     (case result of
        DFailure _ cur \<Rightarrow> if md_stopped d then DFailure CREDITS_PAUSE_FAILURE cur else result
      | DOutcome _ _ \<Rightarrow> result)"

definition parkedHandle :: driver_result where
  "parkedHandle = DFailure CREDITS_PAUSE_FAILURE None"

text \<open>\<open>runSession\<close> of the wrapped driver: parked at once when there is nothing to spend, the driver's own
  run otherwise.\<close>

definition runSession :: "meter \<Rightarrow> driver_result option \<times> metered" where
  "runSession m =
     (let d = \<lparr>md_meter = snd (spendable m), md_attached = False, md_stopped = False,
               md_interrupts = 0, md_emitted = []\<rparr>
      in (if fst (spendable m) then None else Some parkedHandle, d))"

subsection \<open>No spend is lost\<close>

text \<open>A tally of a row: an amount that every fold of a row adds up.\<close>

definition total_of :: "('a \<Rightarrow> 'n :: comm_monoid_add) \<Rightarrow> subject_key \<Rightarrow> (subject_key \<times> 'a) list \<Rightarrow> 'n" where
  "total_of f key rows = sum_list (map (\<lambda>r. f (snd r)) (filter (\<lambda>r. fst r = key) rows))"

lemma total_of_simps [simp]:
  "total_of f key [] = 0"
  "total_of f key ((k, x) # rows) = (if k = key then f x else 0) + total_of f key rows"
  "total_of f key (rows @ rows') = total_of f key rows + total_of f key rows'"
  by (simp_all add: total_of_def)

lemma total_of_update_new:
  "map_of rows k = None \<Longrightarrow> total_of f key (AList.update k x rows) = total_of f key rows + (if k = key then f x else 0)"
  by (induction rows) (auto simp: add_ac split: if_splits)

lemma total_of_update_held:
  assumes "map_of rows k = Some held" "f x = f held + n"
  shows "total_of f key (AList.update k x rows) = total_of f key rows + (if k = key then n else 0)"
  using assms by (induction rows) (auto simp: add_ac split: if_splits)

text \<open>Everything of a row the meter still knows of, and what an input adds to it.\<close>

definition known :: "(pending \<Rightarrow> 'n :: comm_monoid_add) \<Rightarrow> subject_key \<Rightarrow> meter \<Rightarrow> 'n" where
  "known amount key m =
     total_of amount key (mt_buffer m) + total_of amount key (mt_taken m)
     + total_of (amount \<circ> snd) key (mt_written m)"

definition seen :: "(spend \<Rightarrow> 'n :: comm_monoid_add) \<Rightarrow> subject_key \<Rightarrow> meter_event \<Rightarrow> 'n" where
  "seen worth key e =
     (case e of
        Observed True _ s \<Rightarrow> if keyOf (lm_subjectKind s) (lm_subject s) = key then worth s else 0
      | _ \<Rightarrow> 0)"

lemma known_cong:
  "mt_buffer m = mt_buffer m' \<Longrightarrow> mt_taken m = mt_taken m' \<Longrightarrow> mt_written m = mt_written m'
     \<Longrightarrow> known f key m = known f key m'"
  by (simp add: known_def)

lemma known_kept [simp]:
  "known f key (chargeRow k u c m) = known f key m"
  "known f key (debited answer m) = known f key m"
  "known f key (snd (spendable m)) = known f key m"
  "known f key (chargeTo a m) = known f key m"
  "known f key (setRunId r m) = known f key m"
  "known f key (close m) = known f key m"
  "known f key (m\<lparr>mt_timer := b\<rparr>) = known f key m"
  by (intro known_cong; simp add: chargeRow_def debited_def spendable_def chargeTo_def setRunId_def
      close_def Let_def split: option.split sum.split)+

lemma known_flush [simp]: "known f key (flush_begins m) = known f key m"
  by (simp add: flush_begins_def known_def add_ac)

text \<open>The amounts of a row that add up, with what one spend contributes to each.\<close>

locale row_tally =
  fixes amount :: "pending \<Rightarrow> 'n :: comm_monoid_add"
    and worth :: "spend \<Rightarrow> 'n"
  assumes amount_new: "amount (new_pending now s) = worth s"
    and amount_add: "amount (add_spend now held s) = amount held + worth s"
    and amount_restore: "amount (restore_into held p) = amount held + amount p"
begin

lemma known_restore:
  "known amount key (restore k p m) = known amount key m + (if k = key then amount p else 0)"
  by (auto simp: restore_def known_def total_of_update_new add_ac
      total_of_update_held [where f = amount, OF _ amount_restore] split: option.split)

lemma known_observe:
  "known amount key (observe True now s m)
     = known amount key m + (if keyOf (lm_subjectKind s) (lm_subject s) = key then worth s else 0)"
  by (auto simp: observe_def arm_def known_def total_of_update_new amount_new add_ac Let_def
      total_of_update_held [where f = amount, OF _ amount_add] split: option.split)

lemma known_recorded: "known amount key (recorded answer m) = known amount key m"
proof (cases "mt_taken m")
  case (Cons t rest)
  obtain k p where t: "t = (k, p)" by fastforce
  show ?thesis
    using Cons t by (auto simp: recorded_def known_restore split: sum.split)
      (auto simp: known_def add_ac)
qed (simp add: recorded_def)

lemma known_step: "known amount key (meter_step m e) = known amount key m + seen worth key e"
proof (cases e)
  case (Observed installed now s)
  then show ?thesis
    by (cases installed) (simp_all add: known_observe seen_def, simp add: observe_def)
qed (simp_all add: seen_def known_recorded)

lemma known_run:
  "known amount key (foldl meter_step m es) = known amount key m + sum_list (map (seen worth key) es)"
  by (induction es arbitrary: m) (simp_all add: known_step add_ac)

end

interpretation cost: row_tally pd_costUsd lm_costUsd
  by unfold_locales (simp_all add: new_pending_def add_spend_def restore_into_def)

interpretation calls: row_tally pd_calls "\<lambda>s. 1"
  by unfold_locales (simp_all add: new_pending_def add_spend_def restore_into_def)

definition pending_tokens :: "pending \<Rightarrow> nat" where
  "pending_tokens p =
     pd_inputTokens p + pd_outputTokens p + pd_cacheReadTokens p + pd_cacheCreateTokens p"

definition spend_tokens :: "spend \<Rightarrow> nat" where
  "spend_tokens s =
     lm_inputTokens s + lm_outputTokens s + lm_cacheReadTokens s + lm_cacheCreateTokens s"

interpretation tokens: row_tally pending_tokens spend_tokens
  by unfold_locales
    (simp_all add: new_pending_def add_spend_def restore_into_def pending_tokens_def spend_tokens_def)

lemma known_fresh: "known f key createUsageMeter = 0"
  by (simp add: known_def createUsageMeter_def)

text \<open>C6: The meter loses nothing and counts nothing twice: for each row of a job, the cost, the calls
  and the tokens observed are exactly what was written, what the flush under way still holds and what
  is buffered, whatever writes failed and whatever was spent while a flush waited.\<close>

theorem meter_loses_nothing:
  "known pd_costUsd key (foldl meter_step createUsageMeter es) = sum_list (map (seen lm_costUsd key) es)
   \<and> known pd_calls key (foldl meter_step createUsageMeter es) = sum_list (map (seen (\<lambda>s. 1) key) es)
   \<and> known pending_tokens key (foldl meter_step createUsageMeter es)
       = sum_list (map (seen spend_tokens key) es)"
  by (simp add: cost.known_run calls.known_run tokens.known_run known_fresh)

subsection \<open>A row is charged what it cost\<close>

definition written_cost :: "subject_key \<Rightarrow> meter \<Rightarrow> rat" where
  "written_cost key m = total_of (pd_costUsd \<circ> snd) key (mt_written m)"

definition asked_for :: "subject_key \<Rightarrow> meter \<Rightarrow> int" where
  "asked_for key m = total_of fst key (mt_debits m)"

definition held_charge :: "subject_key \<Rightarrow> meter \<Rightarrow> rat \<times> int" where
  "held_charge key m =
     (case map_of (mt_charged m) key of None \<Rightarrow> (0, 0) | Some h \<Rightarrow> (ch_costUsd h, ch_credits h))"

definition costs_nonneg :: "(subject_key \<times> pending) list \<Rightarrow> bool" where
  "costs_nonneg rows \<longleftrightarrow> (\<forall>r\<in>set rows. 0 \<le> pd_costUsd (snd r))"

definition charged_ok :: "meter \<Rightarrow> bool" where
  "charged_ok m \<longleftrightarrow>
     mt_account m \<noteq> None \<and> costs_nonneg (mt_buffer m) \<and> costs_nonneg (mt_taken m) \<and>
     (\<forall>key. 0 \<le> written_cost key m \<and> held_charge key m = (written_cost key m, asked_for key m)
        \<and> asked_for key m = creditsOfUsd (written_cost key m))"

lemma costs_nonneg_update:
  "costs_nonneg rows \<Longrightarrow> 0 \<le> pd_costUsd p \<Longrightarrow> costs_nonneg (AList.update k p rows)"
  by (induction rows) (auto simp: costs_nonneg_def)

lemma costs_nonneg_held:
  "costs_nonneg rows \<Longrightarrow> map_of rows k = Some p \<Longrightarrow> 0 \<le> pd_costUsd p"
  by (force simp: costs_nonneg_def dest: map_of_SomeD)

lemma charged_ok_cong:
  assumes "charged_ok m" "mt_account m' \<noteq> None" "costs_nonneg (mt_buffer m')" "costs_nonneg (mt_taken m')"
    "mt_written m' = mt_written m" "mt_debits m' = mt_debits m" "mt_charged m' = mt_charged m"
  shows "charged_ok m'"
  using assms by (simp add: charged_ok_def written_cost_def asked_for_def held_charge_def)

lemma charged_ok_restore:
  "charged_ok m \<Longrightarrow> 0 \<le> pd_costUsd p \<Longrightarrow> charged_ok (restore k p m)"
  by (rule charged_ok_cong, assumption)
    (auto simp: restore_def charged_ok_def restore_into_def intro!: costs_nonneg_update
      dest: costs_nonneg_held split: option.split)

lemma charged_ok_observe:
  "charged_ok m \<Longrightarrow> 0 \<le> lm_costUsd s \<Longrightarrow> charged_ok (observe installed now s m)"
  by (rule charged_ok_cong, assumption)
    (auto simp: observe_def arm_def charged_ok_def new_pending_def add_spend_def Let_def
      intro!: costs_nonneg_update dest: costs_nonneg_held split: option.split)

lemma charged_ok_charge:
  assumes ok: "charged_ok m" and taken: "mt_taken m = (k, p) # rest"
  shows "charged_ok (chargeRow k u (pd_costUsd p)
    (m\<lparr>mt_taken := rest, mt_written := mt_written m @ [(k, mt_runId m, p)]\<rparr>))"
    (is "charged_ok ?m")
proof -
  have p: "0 \<le> pd_costUsd p" and rest: "costs_nonneg rest"
    using ok taken by (auto simp: charged_ok_def costs_nonneg_def)
  have written: "written_cost key ?m = written_cost key m + (if k = key then pd_costUsd p else 0)" for key
    by (simp add: written_cost_def chargeRow_def Let_def split: option.split)
  have k: "0 \<le> written_cost k m" "held_charge k m = (written_cost k m, asked_for k m)"
    "asked_for k m = creditsOfUsd (written_cost k m)"
    using ok unfolding charged_ok_def by blast+
  let ?owed = "creditsOfUsd (written_cost k m + pd_costUsd p) - creditsOfUsd (written_cost k m)"
  have owed: "0 \<le> ?owed"
    using p by (simp add: creditsOfUsd_mono)
  obtain a where a: "mt_account m = Some a"
    using ok by (auto simp: charged_ok_def)
  have asked: "asked_for key ?m = asked_for key m + (if k = key then ?owed else 0)"
    and held: "held_charge key ?m
      = (if k = key then (written_cost k m + pd_costUsd p, asked_for k m + ?owed) else held_charge key m)" for key
    using k a owed
    by (auto simp: asked_for_def held_charge_def chargeRow_def Let_def update_conv' split: option.splits)
  have "mt_account ?m \<noteq> None" "costs_nonneg (mt_buffer ?m)" "mt_taken ?m = rest"
    using ok a by (auto simp: chargeRow_def charged_ok_def Let_def)
  then show ?thesis
    using ok k p rest unfolding charged_ok_def by (auto simp: written asked held)
qed

text \<open>A cost is never negative.\<close>

fun nonneg_spend :: "meter_event \<Rightarrow> bool" where
  "nonneg_spend (Observed _ _ s) = (0 \<le> lm_costUsd s)"
| "nonneg_spend _ = True"

lemma charged_ok_step:
  assumes ok: "charged_ok m" and cost: "nonneg_spend e"
  shows "charged_ok (meter_step m e)"
proof (cases e)
  case (Observed i now s)
  then show ?thesis using ok cost by (simp add: charged_ok_observe)
next
  case (Recorded answer)
  show ?thesis
  proof (cases "mt_taken m")
    case (Cons t rest)
    obtain k p where t: "t = (k, p)" by fastforce
    have p: "0 \<le> pd_costUsd p" "costs_nonneg rest"
      using ok Cons t by (auto simp: charged_ok_def costs_nonneg_def)
    have "charged_ok (m\<lparr>mt_taken := rest\<rparr>)"
      by (rule charged_ok_cong [OF ok]) (use ok p in \<open>auto simp: charged_ok_def\<close>)
    then show ?thesis
      using ok p Recorded Cons t charged_ok_charge [OF ok Cons [unfolded t]]
      by (auto simp: recorded_def charged_ok_restore split: sum.split)
  qed (use ok Recorded in \<open>simp add: recorded_def\<close>)
qed (rule charged_ok_cong [OF ok]; insert ok; auto simp: charged_ok_def flush_begins_def debited_def
      spendable_def chargeTo_def setRunId_def close_def costs_nonneg_def split: sum.split)+

text \<open>Rounding never drifts. With an account attached before anything is flushed, the credits asked
  for a row so far are exactly the credits its whole written cost is worth, however the flushes cut
  it, whichever writes failed and whatever the account answered.\<close>

theorem row_charged_its_cost:
  assumes "list_all nonneg_spend es"
  shows "asked_for key (foldl meter_step (chargeTo account createUsageMeter) es)
    = creditsOfUsd (written_cost key (foldl meter_step (chargeTo account createUsageMeter) es))"
proof -
  have "charged_ok (chargeTo account createUsageMeter)"
    by (simp add: charged_ok_def chargeTo_def createUsageMeter_def costs_nonneg_def written_cost_def
        asked_for_def held_charge_def)
  moreover have "charged_ok (foldl meter_step m es)" if "charged_ok m" for m
    using that assms by (induction es arbitrary: m) (auto simp: charged_ok_step)
  ultimately show ?thesis
    unfolding charged_ok_def by blast
qed

text \<open>Three turns of $0.004. The first flush writes one of them, worth no credit; the write of the second
  fails and is folded back before the third; together the three are worth one credit.\<close>

definition demo_spend :: spend where
  "demo_spend =
     \<lparr>lm_subjectKind = ''session'', lm_subject = ''k'', lm_provider = ''p'', lm_model = ''m'',
      lm_inputTokens = 1, lm_outputTokens = 1, lm_cacheReadTokens = 0, lm_cacheCreateTokens = 0,
      lm_costUsd = 4 / 1000, lm_cost = NO_COST\<rparr>"

definition demo_meter_events :: "meter_event list" where
  "demo_meter_events =
     [Observed True ''t1'' demo_spend, FlushBegins, Recorded (Inr ''u''),
      Observed True ''t2'' demo_spend, FlushBegins, Observed True ''t3'' demo_spend,
      Recorded (Inl ''down''), FlushBegins, Recorded (Inr ''u''), Debited (Inr 41)]"

definition demo_account :: credits_account where
  "demo_account = \<lparr>ac_workspaceOrgId = ''o'', ac_balance = 42\<rparr>"

lemmas demo_meter_defs = demo_spend_def demo_meter_events_def demo_account_def chargeTo_def
  createUsageMeter_def observe_def arm_def keyOf_def new_pending_def add_spend_def flush_begins_def
  recorded_def chargeRow_def debited_def restore_def Let_def asked_for_def
  written_cost_def

theorem row_charged_its_cost_witness:
  "written_cost (''session'', ''k'') (foldl meter_step (chargeTo demo_account createUsageMeter) demo_meter_events)
     = 12 / 1000
   \<and> asked_for (''session'', ''k'') (foldl meter_step (chargeTo demo_account createUsageMeter) demo_meter_events)
     = creditsOfUsd (12 / 1000)"
proof -
  have "list_all nonneg_spend demo_meter_events"
    by (simp add: demo_meter_events_def demo_spend_def)
  moreover have "written_cost (''session'', ''k'')
      (foldl meter_step (chargeTo demo_account createUsageMeter) demo_meter_events) = 12 / 1000"
    by (simp add: demo_meter_defs creditsOfUsd_def js_round_def CREDITS_PER_USD_def restore_into_def)
  ultimately show ?thesis
    using row_charged_its_cost [of demo_meter_events "(''session'', ''k'')" demo_account] by metis
qed

end
