(* ===== verification/JsText.thy ===== *)
theory JsText
  imports Prelude "HOL-Library.Sublist"
begin

text \<open>
  The string operations of the language that the components use, and a scanner for the tokens a text may
  carry.

  Strings are lists of code units below 256, where a JavaScript string has 16-bit units; lower case and
  white space are those of that range. Integers of a JSON document are written out in full, as the
  language does for every integer of less than 22 digits.
\<close>

subsection \<open>Characters\<close>

definition js_space :: "char \<Rightarrow> bool" where
  "js_space c \<longleftrightarrow> (let n = of_char c :: nat in (9 \<le> n \<and> n \<le> 13) \<or> n = 32 \<or> n = 160)"

definition js_lower :: "char \<Rightarrow> char" where
  "js_lower c =
     (let n = of_char c :: nat
      in if (65 \<le> n \<and> n \<le> 90) \<or> (192 \<le> n \<and> n \<le> 222 \<and> n \<noteq> 215) then char_of (n + 32) else c)"

text \<open>Of a method name: the units whose upper case is one unit below 256 again.\<close>

definition js_upper :: "char \<Rightarrow> char" where
  "js_upper c =
     (let n = of_char c :: nat
      in if (97 \<le> n \<and> n \<le> 122) \<or> (224 \<le> n \<and> n \<le> 254 \<and> n \<noteq> 247) then char_of (n - 32) else c)"

definition digit :: "char \<Rightarrow> bool" where
  "digit c \<longleftrightarrow> (let n = of_char c :: nat in 48 \<le> n \<and> n \<le> 57)"

definition js_trim :: "string \<Rightarrow> string" where
  "js_trim s = rev (dropWhile js_space (rev (dropWhile js_space s)))"

text \<open>\<open>replace(/\s+/g, ' ')\<close>.\<close>

fun squeeze :: "string \<Rightarrow> string" where
  "squeeze [] = []"
| "squeeze (c # cs) =
     (if js_space c then
        (case squeeze cs of
           [] \<Rightarrow> [CHR 0x20]
         | d # ds \<Rightarrow> if d = CHR 0x20 then d # ds else CHR 0x20 # d # ds)
      else c # squeeze cs)"

definition hex_digit :: "nat \<Rightarrow> char" where
  "hex_digit n = ''0123456789abcdef'' ! n"

fun hex_string :: "nat \<Rightarrow> string" where
  "hex_string n = (if n < 16 then [hex_digit n] else hex_string (n div 16) @ [hex_digit (n mod 16)])"

declare hex_string.simps [simp del]

definition padStart :: "nat \<Rightarrow> char \<Rightarrow> string \<Rightarrow> string" where
  "padStart n c s = replicate (n - length s) c @ s"

text \<open>A natural number as \<open>String(n)\<close> writes it.\<close>

fun decimal :: "nat \<Rightarrow> string" where
  "decimal n = (if n < 10 then [hex_digit n] else decimal (n div 10) @ [hex_digit (n mod 10)])"

declare decimal.simps [simp del]

definition js_int :: "int \<Rightarrow> string" where
  "js_int i = (if i < 0 then ''-'' @ decimal (nat (- i)) else decimal (nat i))"

subsection \<open>Searching and splitting\<close>

definition starts_with :: "string \<Rightarrow> string \<Rightarrow> bool" where
  "starts_with p s \<longleftrightarrow> take (length p) s = p"

lemma starts_with_append: "starts_with p s \<longleftrightarrow> (\<exists>t. s = p @ t)"
  unfolding starts_with_def by (metis append_eq_conv_conj append_take_drop_id)

fun index_of :: "string \<Rightarrow> string \<Rightarrow> nat option" where
  "index_of p [] = (if p = [] then Some 0 else None)"
| "index_of p (c # cs) =
     (if starts_with p (c # cs) then Some 0 else map_option Suc (index_of p cs))"

definition js_includes :: "string \<Rightarrow> string \<Rightarrow> bool" where
  "js_includes p s \<longleftrightarrow> index_of p s \<noteq> None"

lemma index_of_SomeD: "index_of p s = Some i \<Longrightarrow> s = take i s @ p @ drop (i + length p) s"
proof (induction s arbitrary: i)
  case (Cons c cs)
  show ?case
  proof (cases "starts_with p (c # cs)")
    case True
    then have "i = 0" "take (length p) (c # cs) = p"
      using Cons.prems by (auto simp: starts_with_def)
    then show ?thesis
      using append_take_drop_id [of "length p" "c # cs"] by simp
  next
    case False
    with Cons.prems obtain j where "index_of p cs = Some j" "i = Suc j" by auto
    with Cons.IH show ?thesis by simp
  qed
qed (auto split: if_splits)

lemma index_of_NoneD: "index_of p s = None \<Longrightarrow> s \<noteq> u @ p @ v"
proof (induction s arbitrary: u)
  case (Cons c cs)
  show ?case
  proof (cases u)
    case Nil
    with Cons.prems show ?thesis by (auto simp: starts_with_append split: if_splits)
  next
    case (Cons d ds)
    with Cons.prems Cons.IH [of ds] show ?thesis by (auto split: if_splits)
  qed
qed (auto split: if_splits)

lemma js_includes_iff: "js_includes p s \<longleftrightarrow> sublist p s"
  unfolding js_includes_def sublist_def using index_of_SomeD index_of_NoneD by blast

lemma js_includes_refl [simp]: "js_includes s s"
  by (simp add: js_includes_iff)

lemma js_includes_trans: "js_includes p q \<Longrightarrow> js_includes q s \<Longrightarrow> js_includes p s"
  unfolding js_includes_iff by (rule sublist_order.order_trans)

function js_split :: "string \<Rightarrow> string \<Rightarrow> string list" where
  "js_split sep s =
     (if sep = [] then map (\<lambda>c. [c]) s
      else case index_of sep s of
             None \<Rightarrow> [s]
           | Some i \<Rightarrow> take i s # js_split sep (drop (i + length sep) s))"
  by pat_completeness auto
termination
proof (relation "measure (\<lambda>(sep, s). length s)")
  fix sep s :: string and i
  assume "sep \<noteq> []" and "index_of sep s = Some i"
  then have "s \<noteq> []" by (cases s) (auto split: if_splits)
  with \<open>sep \<noteq> []\<close> show "((sep, drop (i + length sep) s), sep, s) \<in> measure (\<lambda>(sep, s). length s)"
    by simp
qed simp

declare js_split.simps [simp del]

definition replace_all :: "string \<Rightarrow> string \<Rightarrow> string \<Rightarrow> string" where
  "replace_all sep by s = js_join by (js_split sep s)"

lemma js_split_ne [simp]: "sep \<noteq> [] \<Longrightarrow> js_split sep s \<noteq> []"
  by (subst js_split.simps) (auto split: option.split)

lemma js_join_Cons: "xs \<noteq> [] \<Longrightarrow> js_join sep (x # xs) = x @ sep @ js_join sep xs"
  by (cases xs) simp_all

lemma replace_all_absent: "sep \<noteq> [] \<Longrightarrow> \<not> js_includes sep s \<Longrightarrow> replace_all sep by s = s"
  by (simp add: replace_all_def js_includes_def js_split.simps)

lemma join_split: "sep \<noteq> [] \<Longrightarrow> js_join sep (js_split sep s) = s"
proof (induction sep s rule: js_split.induct)
  case (1 sep s)
  show ?case
  proof (cases "index_of sep s")
    case (Some i)
    then have "js_join sep (js_split sep s) = take i s @ sep @ drop (i + length sep) s"
      using 1 by (subst js_split.simps) (simp add: js_join_Cons)
    with index_of_SomeD [OF Some] show ?thesis by simp
  qed (use 1 in \<open>simp add: js_split.simps\<close>)
qed

subsection \<open>Tokens of a text\<close>

text \<open>
  A regular expression applied with the \<open>g\<close> flag: at each place the token reader says whether a token
  starts there, what it means and how many characters it has after the first. What lies between tokens
  stays as it is, one character each.
\<close>

datatype 'm lexeme = Lit char | Tok 'm string

function lex :: "(string \<Rightarrow> ('m \<times> nat) option) \<Rightarrow> string \<Rightarrow> 'm lexeme list" where
  "lex at [] = []"
| "lex at (c # cs) =
     (case at (c # cs) of
        None \<Rightarrow> Lit c # lex at cs
      | Some (m, n) \<Rightarrow> Tok m (c # take n cs) # lex at (drop n cs))"
  by pat_completeness auto
termination
  by (relation "measure (length \<circ> snd)") auto

fun source :: "'m lexeme \<Rightarrow> string" where
  "source (Lit c) = [c]"
| "source (Tok m t) = t"

lemma lex_source: "concat (map source (lex at s)) = s"
  by (induction at s rule: lex.induct) (auto split: option.split)

fun meanings :: "'m lexeme list \<Rightarrow> 'm list" where
  "meanings [] = []"
| "meanings (Lit c # ls) = meanings ls"
| "meanings (Tok m t # ls) = m # meanings ls"

definition tokens :: "(string \<Rightarrow> ('m \<times> nat) option) \<Rightarrow> string \<Rightarrow> 'm list" where
  "tokens at s = meanings (lex at s)"

text \<open>Resolve the tokens of a text, and run \<open>literal\<close> over each stretch between two of them. The first
  failure, from the left, is the failure of the whole.\<close>

fun weave ::
    "('m \<Rightarrow> string \<Rightarrow> 'e + string) \<Rightarrow> (string \<Rightarrow> 'e + string) \<Rightarrow> string \<Rightarrow> 'm lexeme list \<Rightarrow> 'e + string" where
  "weave resolve literal seg [] = literal seg"
| "weave resolve literal seg (Lit c # ls) = weave resolve literal (seg @ [c]) ls"
| "weave resolve literal seg (Tok m t # ls) =
     (case literal seg of Inl e \<Rightarrow> Inl e | Inr a \<Rightarrow>
      (case resolve m t of Inl e \<Rightarrow> Inl e | Inr b \<Rightarrow>
       (case weave resolve literal [] ls of Inl e \<Rightarrow> Inl e | Inr r \<Rightarrow> Inr (a @ b @ r))))"

lemma weave_cong:
  assumes "\<And>m t. m \<in> set (meanings ls) \<Longrightarrow> resolve m t = resolve' m t"
  shows "weave resolve literal seg ls = weave resolve' literal seg ls"
  using assms by (induction resolve literal seg ls rule: weave.induct) (auto split: sum.split)

text \<open>With no token to resolve, the text is one stretch.\<close>

lemma weave_plain: "meanings ls = [] \<Longrightarrow> weave resolve literal seg ls = literal (seg @ concat (map source ls))"
proof (induction ls arbitrary: seg)
  case (Cons l ls)
  then show ?case by (cases l) simp_all
qed simp

lemma weave_no_token: "tokens at s = [] \<Longrightarrow> weave resolve literal [] (lex at s) = literal s"
  using weave_plain [of "lex at s" resolve literal "[]"] by (simp add: tokens_def lex_source)

subsection \<open>JSON text\<close>

definition json_escape :: "char \<Rightarrow> string" where
  "json_escape c =
     (let n = of_char c :: nat
      in if n = 34 then [CHR 0x5C, CHR 0x22]
         else if n = 92 then [CHR 0x5C, CHR 0x5C]
         else if n = 8 then CHR 0x5C # ''b''
         else if n = 9 then CHR 0x5C # ''t''
         else if n = 10 then CHR 0x5C # ''n''
         else if n = 12 then CHR 0x5C # ''f''
         else if n = 13 then CHR 0x5C # ''r''
         else if n < 32 then CHR 0x5C # ''u'' @ padStart 4 (CHR ''0'') (hex_string n)
         else [c])"

definition json_quote :: "string \<Rightarrow> string" where
  "json_quote s = CHR 0x22 # concat (map json_escape s) @ [CHR 0x22]"

fun json_stringify :: "json \<Rightarrow> string" where
  "json_stringify JNull = ''null''"
| "json_stringify (JBool b) = (if b then ''true'' else ''false'')"
| "json_stringify (JNum i) = js_int i"
| "json_stringify (JStr s) = json_quote s"
| "json_stringify (JArr xs) = ''['' @ js_join '','' (map json_stringify xs) @ '']''"
| "json_stringify (JObj kvs) =
     ''{'' @ js_join '','' (map (\<lambda>(k, v). json_quote k @ '':'' @ json_stringify v) kvs) @ ''}''"

end
