(* ===== verification/Conflicts.thy ===== *)
theory Conflicts
  imports JsText "HOL-Library.Word" "HOL-Library.Product_Lexorder"
begin

text \<open>
  The conflicts between two documents' sentences, and the rulings a person leaves on them:
  \<open>packages/shared/src/spec/conflict-resolution.ts\<close>.

  Strings are lists of code units below 256, where a JavaScript string has 16-bit units; lower case
  and white space are those of that range. A group of entries is sorted with a comparator that
  answers 1 on a tie; the sort is stable, so this is a stable sort by (area, note).
\<close>

unbundle bit_operations_syntax

subsection \<open>Sentence keys\<close>

definition normalizeQuote :: "string \<Rightarrow> string" where
  "normalizeQuote text =
     js_trim (squeeze (map js_lower (filter (\<lambda>c. c \<notin> set ''`*_~'') text)))"

definition hash_unit :: "32 word \<Rightarrow> char \<Rightarrow> 32 word" where
  "hash_unit h c = (h XOR of_nat (of_char c)) * 0x01000193"

definition shortHash :: "string \<Rightarrow> string" where
  "shortHash s = padStart 8 (CHR ''0'') (hex_string (unat (foldl hash_unit 0x811c9dc5 s)))"

definition sentenceKey :: "string \<Rightarrow> nat \<Rightarrow> string" where
  "sentenceKey text again =
     shortHash (if 0 < again then normalizeQuote text @ [CHR 0x00] @ decimal again
                else normalizeQuote text)"

subsection \<open>Conflicts and rulings\<close>

record conflict_side =
  cs_doc :: string
  cs_quote :: "string option"
  cs_sentence :: string

record conflict_like =
  cf_docs :: "string \<times> string"
  cf_note :: "string option"
  cf_sections :: "conflict_side list"
  cf_areas :: "string list option"

record area_like =
  ar_id :: string
  ar_conflicts :: "conflict_like list"

record corpus_like =
  co_areas :: "area_like list"

datatype verdict = VerdictA | VerdictB | VerdictDismissed

record conflict_resolution =
  cr_docA :: string
  cr_quoteA :: "string option"
  cr_sentenceA :: string
  cr_docB :: string
  cr_quoteB :: "string option"
  cr_sentenceB :: string
  cr_verdict :: verdict
  cr_resolvedAt :: "string option"
  cr_note :: "string option"
  cr_resolvedBy :: "string option"

record decisions_like =
  de_manualExcludes :: "string list option"
  de_conflictResolutions :: "conflict_resolution list option"

record corpus_conflict =
  cc_docs :: "string \<times> string"
  cc_sections :: "conflict_side list"
  cc_id :: string
  cc_area :: string
  cc_areas :: "string list"
  cc_a :: string
  cc_b :: string
  cc_note :: string
  cc_resolved :: bool
  cc_resolution :: "conflict_resolution option"
  cc_excludedRef :: "string option"

record area_conflict =
  ac_area :: string
  ac_conflict :: conflict_like

record merged_conflict =
  mc_area :: string
  mc_areas :: "string list"
  mc_conflict :: conflict_like
  mc_members :: "conflict_like list"

definition NUL :: string where
  "NUL = [CHR 0x00]"

definition unorderedPairKey :: "string \<Rightarrow> string \<Rightarrow> string" where
  "unorderedPairKey a b = (if a < b then a @ NUL @ b else b @ NUL @ a)"

record key_side =
  ks_doc :: string
  ks_sentence :: string

definition identityOf :: "key_side \<Rightarrow> key_side \<Rightarrow> string" where
  "identityOf p q = js_join NUL (sort (map (\<lambda>s. ks_doc s @ NUL @ ks_sentence s) [p, q]))"

definition conflictSides ::
    "string \<Rightarrow> string \<Rightarrow> conflict_side list \<Rightarrow> conflict_side list \<times> conflict_side list" where
  "conflictSides a b sections =
     (if a \<noteq> b
      then (filter (\<lambda>s. cs_doc s = a) sections, filter (\<lambda>s. cs_doc s = b) sections)
      else (let onDoc = filter (\<lambda>s. cs_doc s = a) sections in (take 1 onDoc, take 1 (drop 1 onDoc))))"

definition first_sentence :: "conflict_side list \<Rightarrow> string" where
  "first_sentence sides = (case sides of [] \<Rightarrow> [] | s # _ \<Rightarrow> cs_sentence s)"

definition first_quote :: "conflict_side list \<Rightarrow> string option" where
  "first_quote sides = (case sides of [] \<Rightarrow> None | s # _ \<Rightarrow> cs_quote s)"

definition keySides :: "string \<Rightarrow> string \<Rightarrow> conflict_side list \<Rightarrow> key_side \<times> key_side" where
  "keySides a b sections =
     (case conflictSides a b sections of
        (sidesA, sidesB) \<Rightarrow>
          (\<lparr>ks_doc = a, ks_sentence = first_sentence sidesA\<rparr>,
           \<lparr>ks_doc = b, ks_sentence = first_sentence sidesB\<rparr>))"

definition conflictKey :: "string \<Rightarrow> string \<Rightarrow> conflict_side list \<Rightarrow> string" where
  "conflictKey a b sections = (case keySides a b sections of (p, q) \<Rightarrow> identityOf p q)"

definition conflictIdentity :: "conflict_like \<Rightarrow> string" where
  "conflictIdentity c = conflictKey (fst (cf_docs c)) (snd (cf_docs c)) (cf_sections c)"

definition CONFLICT_ID_PREFIX :: string where
  "CONFLICT_ID_PREFIX = ''conflict::''"

definition conflictId :: "string \<Rightarrow> string \<Rightarrow> string \<Rightarrow> conflict_like \<Rightarrow> string" where
  "conflictId area a b conflict =
     CONFLICT_ID_PREFIX @ area @ ''::'' @ a @ ''::'' @ b @ ''::'' @ shortHash (conflictIdentity conflict)"

definition isConflictId :: "string \<Rightarrow> bool" where
  "isConflictId i \<longleftrightarrow> take (length CONFLICT_ID_PREFIX) i = CONFLICT_ID_PREFIX"

definition resolveConflictId :: "corpus_conflict list \<Rightarrow> string \<Rightarrow> corpus_conflict option" where
  "resolveConflictId conflicts i = find (\<lambda>c. cc_id c = i) conflicts"

subsection \<open>One conflict per pair of sentences\<close>

definition note_of :: "conflict_like \<Rightarrow> string" where
  "note_of c = (case cf_note c of None \<Rightarrow> [] | Some n \<Rightarrow> n)"

definition by_identity :: "area_conflict list \<Rightarrow> (string \<times> area_conflict list) list" where
  "by_identity entries = buckets (conflictIdentity \<circ> ac_conflict) entries"

definition sort_group :: "area_conflict list \<Rightarrow> area_conflict list" where
  "sort_group g = sort_key (\<lambda>e. (ac_area e, note_of (ac_conflict e))) g"

definition merge_group :: "area_conflict list \<Rightarrow> merged_conflict" where
  "merge_group entries =
     (let g = sort_group entries; rep = hd g;
          span = concat (map (\<lambda>e. ac_area e # (case cf_areas (ac_conflict e) of None \<Rightarrow> [] | Some l \<Rightarrow> l)) g)
      in \<lparr>mc_area = ac_area rep, mc_areas = sort (js_set span), mc_conflict = ac_conflict rep,
          mc_members = ac_conflict rep # map ac_conflict (tl g)\<rparr>)"

definition merged_key :: "merged_conflict \<Rightarrow> string \<times> string" where
  "merged_key m =
     (mc_area m, unorderedPairKey (fst (cf_docs (mc_conflict m))) (snd (cf_docs (mc_conflict m))))"

definition dedupeCrossAreaConflicts :: "area_conflict list \<Rightarrow> merged_conflict list" where
  "dedupeCrossAreaConflicts entries =
     sort_key merged_key (map (merge_group \<circ> snd) (by_identity entries))"

subsection \<open>Rulings\<close>

definition samePair :: "string \<Rightarrow> string \<Rightarrow> string \<Rightarrow> string \<Rightarrow> bool" where
  "samePair a1 b1 a2 b2 \<longleftrightarrow> (a1 = a2 \<and> b1 = b2) \<or> (a1 = b2 \<and> b1 = a2)"

definition sameSentence :: "conflict_side \<Rightarrow> conflict_side \<Rightarrow> bool" where
  "sameSentence p q \<longleftrightarrow> cs_doc p = cs_doc q \<and> cs_sentence p = cs_sentence q"

definition resolutionConflictKey :: "conflict_resolution \<Rightarrow> string" where
  "resolutionConflictKey r =
     identityOf \<lparr>ks_doc = cr_docA r, ks_sentence = cr_sentenceA r\<rparr>
                \<lparr>ks_doc = cr_docB r, ks_sentence = cr_sentenceB r\<rparr>"

definition resolutionMatchesConflict ::
    "conflict_resolution \<Rightarrow> string \<Rightarrow> string \<Rightarrow> conflict_side list \<Rightarrow> bool" where
  "resolutionMatchesConflict r a b sections \<longleftrightarrow> resolutionConflictKey r = conflictKey a b sections"

definition resolutionForConflict ::
    "conflict_resolution list option \<Rightarrow> string \<Rightarrow> string \<Rightarrow> conflict_side list \<Rightarrow> conflict_resolution option" where
  "resolutionForConflict resolutions a b sections =
     find (\<lambda>r. resolutionMatchesConflict r a b sections) (case resolutions of None \<Rightarrow> [] | Some l \<Rightarrow> l)"

definition resolutions_of :: "decisions_like \<Rightarrow> conflict_resolution list" where
  "resolutions_of d = (case de_conflictResolutions d of None \<Rightarrow> [] | Some l \<Rightarrow> l)"

definition matchResolution ::
    "decisions_like \<Rightarrow> string \<Rightarrow> string \<Rightarrow> conflict_side list \<Rightarrow> conflict_resolution option" where
  "matchResolution decisions a b sections =
     find (\<lambda>r. resolutionMatchesConflict r a b sections) (resolutions_of decisions)"

definition excluded_doc :: "decisions_like \<Rightarrow> string \<Rightarrow> string \<Rightarrow> string option" where
  "excluded_doc decisions a b =
     (let excludes = (case de_manualExcludes decisions of None \<Rightarrow> [] | Some l \<Rightarrow> l)
      in if a \<in> set excludes then Some a else if b \<in> set excludes then Some b else None)"

definition flag_conflict :: "decisions_like \<Rightarrow> merged_conflict \<Rightarrow> corpus_conflict" where
  "flag_conflict decisions m =
     (let c = mc_conflict m; a = fst (cf_docs c); b = snd (cf_docs c);
          excludedRef = excluded_doc decisions a b;
          resolution = matchResolution decisions a b (cf_sections c)
      in \<lparr>cc_docs = cf_docs c, cc_sections = cf_sections c, cc_id = conflictId (mc_area m) a b c,
          cc_area = mc_area m, cc_areas = mc_areas m, cc_a = a, cc_b = b, cc_note = note_of c,
          cc_resolved = (excludedRef \<noteq> None \<or> resolution \<noteq> None), cc_resolution = resolution,
          cc_excludedRef = (case excludedRef of Some [] \<Rightarrow> None | _ \<Rightarrow> excludedRef)\<rparr>)"

definition corpus_entries :: "corpus_like \<Rightarrow> area_conflict list" where
  "corpus_entries corpus =
     concat (map (\<lambda>a. map (\<lambda>c. \<lparr>ac_area = ar_id a, ac_conflict = c\<rparr>) (ar_conflicts a)) (co_areas corpus))"

definition buildCorpusConflicts :: "corpus_like \<Rightarrow> decisions_like \<Rightarrow> corpus_conflict list" where
  "buildCorpusConflicts corpus decisions =
     map (flag_conflict decisions) (dedupeCrossAreaConflicts (corpus_entries corpus))"

definition conflictVerdictFor ::
    "conflict_side list \<Rightarrow> string \<Rightarrow> string \<Rightarrow> verdict \<Rightarrow> conflict_resolution" where
  "conflictVerdictFor sections docA docB v =
     (case conflictSides docA docB sections of
        (sidesA, sidesB) \<Rightarrow>
          \<lparr>cr_docA = docA, cr_quoteA = first_quote sidesA, cr_sentenceA = first_sentence sidesA,
           cr_docB = docB, cr_quoteB = first_quote sidesB, cr_sentenceB = first_sentence sidesB,
           cr_verdict = v, cr_resolvedAt = None, cr_note = None, cr_resolvedBy = None\<rparr>)"

definition verdictNamesOneSentence :: "conflict_resolution \<Rightarrow> bool" where
  "verdictNamesOneSentence r \<longleftrightarrow> cr_docA r = cr_docB r \<and> cr_sentenceA r = cr_sentenceB r"

definition openConflicts :: "corpus_like \<Rightarrow> decisions_like \<Rightarrow> corpus_conflict list" where
  "openConflicts corpus decisions = filter (\<lambda>c. \<not> cc_resolved c) (buildCorpusConflicts corpus decisions)"

definition orphansAmong ::
    "conflict_resolution list \<Rightarrow> corpus_conflict list \<Rightarrow> conflict_resolution list" where
  "orphansAmong resolutions conflicts =
     (let current = map (\<lambda>c. conflictKey (cc_a c) (cc_b c) (cc_sections c)) conflicts
      in filter (\<lambda>r. resolutionConflictKey r \<notin> set current) resolutions)"

definition orphanedConflictResolutions :: "corpus_like \<Rightarrow> decisions_like \<Rightarrow> conflict_resolution list" where
  "orphanedConflictResolutions corpus decisions =
     (if resolutions_of decisions = [] then []
      else orphansAmong (resolutions_of decisions) (buildCorpusConflicts corpus decisions))"

definition dormantResolutionForPair ::
    "decisions_like \<Rightarrow> corpus_conflict list \<Rightarrow> string \<Rightarrow> string \<Rightarrow> conflict_resolution option" where
  "dormantResolutionForPair decisions conflicts a b =
     find (\<lambda>r. samePair (cr_docA r) (cr_docB r) a b) (orphansAmong (resolutions_of decisions) conflicts)"

record suppressed_claim =
  su_doc :: string
  su_quote :: string
  su_sentence :: string

definition trimmed :: "string option \<Rightarrow> string option" where
  "trimmed q = (case q of None \<Rightarrow> None | Some t \<Rightarrow> if js_trim t = [] then None else Some (js_trim t))"

definition suppressed_of :: "corpus_conflict \<Rightarrow> suppressed_claim option" where
  "suppressed_of c =
     (case cc_resolution c of
        None \<Rightarrow> None
      | Some r \<Rightarrow>
          if cr_verdict r = VerdictDismissed then None
          else (let (doc, quote, sentence) =
                      (if cr_verdict r = VerdictA then (cr_docB r, cr_quoteB r, cr_sentenceB r)
                       else (cr_docA r, cr_quoteA r, cr_sentenceA r));
                    current = find (\<lambda>s. cs_doc s = doc \<and> cs_sentence s = sentence) (cc_sections c)
                in case (case trimmed (Option.bind current cs_quote) of
                           Some q \<Rightarrow> Some q | None \<Rightarrow> trimmed quote) of
                     None \<Rightarrow> None
                   | Some q \<Rightarrow> Some \<lparr>su_doc = doc, su_quote = q, su_sentence = sentence\<rparr>))"

definition suppressedClaims :: "corpus_like \<Rightarrow> decisions_like \<Rightarrow> suppressed_claim list" where
  "suppressedClaims corpus decisions =
     map the (filter (\<lambda>s. s \<noteq> None) (map suppressed_of (buildCorpusConflicts corpus decisions)))"

subsection \<open>What identifies a conflict\<close>

lemma identityOf_sym: "identityOf p q = identityOf q p"
  by (auto simp: identityOf_def intro!: arg_cong [where f = "js_join NUL"])

lemma conflictKey_swap: "conflictKey a b sections = conflictKey b a sections"
  by (cases "a = b")
    (auto simp: conflictKey_def keySides_def conflictSides_def intro: identityOf_sym)

definition nul_free :: "key_side \<Rightarrow> bool" where
  "nul_free s \<longleftrightarrow> CHR 0x00 \<notin> set (ks_doc s) \<and> CHR 0x00 \<notin> set (ks_sentence s)"

definition encode_side :: "key_side \<Rightarrow> string" where
  "encode_side s = ks_doc s @ NUL @ ks_sentence s"

lemma split_at_nul:
  assumes "x @ CHR 0x00 # r = y @ CHR 0x00 # t" "CHR 0x00 \<notin> set x" "CHR 0x00 \<notin> set y"
  shows "x = y \<and> r = t"
proof -
  have "takeWhile (\<lambda>c. c \<noteq> CHR 0x00) (z @ CHR 0x00 # u) = z" if "CHR 0x00 \<notin> set z" for z u
    using that by (subst takeWhile_append2) auto
  then have "x = y"
    using assms by metis
  with assms(1) show ?thesis by simp
qed

lemma encode_pair_inj:
  assumes "encode_side p @ NUL @ encode_side q = encode_side p' @ NUL @ encode_side q'"
    and "nul_free p" "nul_free q" "nul_free p'" "nul_free q'"
  shows "p = p' \<and> q = q'"
proof -
  note nf = assms(2-5) [unfolded nul_free_def]
  have 1: "ks_doc p = ks_doc p' \<and> ks_sentence p @ NUL @ encode_side q = ks_sentence p' @ NUL @ encode_side q'"
    using assms(1) nf by (intro split_at_nul) (simp_all add: encode_side_def NUL_def)
  then have 2: "ks_sentence p = ks_sentence p' \<and> encode_side q = encode_side q'"
    using nf by (intro split_at_nul) (simp_all add: NUL_def)
  then have "ks_doc q = ks_doc q' \<and> ks_sentence q = ks_sentence q'"
    using nf by (intro split_at_nul) (simp_all add: encode_side_def NUL_def)
  with 1 2 show ?thesis by (simp add: key_side.equality)
qed

lemma identityOf_cases:
  "identityOf p q = encode_side p @ NUL @ encode_side q
   \<or> identityOf p q = encode_side q @ NUL @ encode_side p"
  by (auto simp: identityOf_def encode_side_def)

text \<open>A conflict's identity is its two sides as an unordered pair, no more and no less: two pairs of
  sides have one identity exactly when they are the same two sides in either order (documents and
  sentences without a NUL).\<close>

theorem identity_is_unordered_pair:
  assumes "nul_free p" "nul_free q" "nul_free p'" "nul_free q'"
  shows "identityOf p q = identityOf p' q' \<longleftrightarrow> (p = p' \<and> q = q') \<or> (p = q' \<and> q = p')"
proof
  assume "identityOf p q = identityOf p' q'"
  then show "(p = p' \<and> q = q') \<or> (p = q' \<and> q = p')"
    using identityOf_cases [of p q] identityOf_cases [of p' q'] assms encode_pair_inj by metis
qed (auto intro: identityOf_sym)

theorem identity_is_unordered_pair_witness:
  "identityOf \<lparr>ks_doc = ''a.md'', ks_sentence = ''1''\<rparr> \<lparr>ks_doc = ''b.md'', ks_sentence = ''2''\<rparr>
     = identityOf \<lparr>ks_doc = ''b.md'', ks_sentence = ''2''\<rparr> \<lparr>ks_doc = ''a.md'', ks_sentence = ''1''\<rparr>
   \<and> identityOf \<lparr>ks_doc = ''a.md'', ks_sentence = ''1''\<rparr> \<lparr>ks_doc = ''b.md'', ks_sentence = ''2''\<rparr>
     \<noteq> identityOf \<lparr>ks_doc = ''a.md'', ks_sentence = ''2''\<rparr> \<lparr>ks_doc = ''b.md'', ks_sentence = ''1''\<rparr>"
  by (simp add: identity_is_unordered_pair nul_free_def)

subsection \<open>A short hash is eight digits\<close>

lemma length_hex_string: "n < 16 ^ Suc k \<Longrightarrow> length (hex_string n) \<le> Suc k"
proof (induction k arbitrary: n)
  case 0
  then show ?case by (simp add: hex_string.simps [of n])
next
  case (Suc k)
  have "n div 16 < 16 ^ Suc k"
    using Suc.prems by (simp add: less_mult_imp_div_less)
  then show ?case
    using Suc.IH [of "n div 16"] by (simp add: hex_string.simps [of n])
qed

text \<open>A short hash is always eight characters, so the discriminator of a conflict's id and a
  sentence's key have one length whatever the text.\<close>

theorem shortHash_length: "length (shortHash s) = 8"
proof -
  have "unat (foldl hash_unit 0x811c9dc5 s) < 16 ^ Suc 7"
    using unsigned_less [of "foldl hash_unit 0x811c9dc5 s"] by simp
  then have "length (hex_string (unat (foldl hash_unit 0x811c9dc5 s))) \<le> 8"
    using length_hex_string [of _ 7] by simp
  then show ?thesis
    by (simp add: shortHash_def padStart_def)
qed

subsection \<open>The same conflict is merged once\<close>

lemma sort_group_props [simp]:
  "mset (sort_group g) = mset g" "set (sort_group g) = set g" "sort_group g = [] \<longleftrightarrow> g = []"
  by (auto simp: sort_group_def) (metis mset_sort mset_zero_iff)

lemma mset_merge_group: "g \<noteq> [] \<Longrightarrow> mset (mc_members (merge_group g)) = image_mset ac_conflict (mset g)"
proof -
  assume "g \<noteq> []"
  then have "sort_group g = hd (sort_group g) # tl (sort_group g)" by simp
  then have "mc_members (merge_group g) = map ac_conflict (sort_group g)"
    unfolding merge_group_def Let_def by (metis list.simps(9) merged_conflict.select_convs(4))
  then show ?thesis by (metis mset_map sort_group_props(1))
qed

lemma merge_group_conflict: "g \<noteq> [] \<Longrightarrow> \<exists>e\<in>set g. mc_conflict (merge_group g) = ac_conflict e \<and> mc_area (merge_group g) = ac_area e"
  unfolding merge_group_def Let_def
  by (metis hd_in_set merged_conflict.select_convs(1,3) sort_group_props(2,3))

lemma by_identity_member:
  assumes "(k, g) \<in> set (by_identity entries)"
  shows "g \<noteq> []" and "\<And>e. e \<in> set g \<Longrightarrow> e \<in> set entries \<and> conflictIdentity (ac_conflict e) = k"
  using assms by (auto simp: by_identity_def buckets_member filter_empty_conv)

lemma merged_identities:
  "map (\<lambda>kg. conflictIdentity (mc_conflict (merge_group (snd kg)))) (by_identity entries)
     = map fst (by_identity entries)"
proof (rule map_cong [OF refl])
  fix kg assume kg: "kg \<in> set (by_identity entries)"
  then have "(fst kg, snd kg) \<in> set (by_identity entries)" by simp
  from by_identity_member [OF this] merge_group_conflict
  show "conflictIdentity (mc_conflict (merge_group (snd kg))) = fst kg" by metis
qed

lemma distinct_sort_key_map: "distinct (map f (sort_key g xs)) = distinct (map f xs)"
  by (metis mset_eq_imp_distinct_iff mset_map mset_sort)

lemma mset_concat_cong:
  assumes "mset xs = mset ys"
  shows "mset (concat (map f xs)) = mset (concat (map f ys))"
proof -
  have "sum_mset (mset (map (mset \<circ> f) xs)) = sum_mset (mset (map (mset \<circ> f) ys))"
    unfolding mset_map assms by (rule refl)
  then show ?thesis
    by (simp add: mset_concat sum_mset_sum_list comp_def del: mset_map)
qed

lemma mset_members:
  "\<forall>kg\<in>set b. snd kg \<noteq> [] \<Longrightarrow> mset (concat (map mc_members (map (merge_group \<circ> snd) b)))
     = image_mset ac_conflict (mset (concat (map snd b)))"
  by (induction b) (simp_all add: mset_merge_group)


subsection \<open>What a ruling does\<close>

definition key_of :: "corpus_conflict \<Rightarrow> string" where
  "key_of c = conflictKey (cc_a c) (cc_b c) (cc_sections c)"

definition add_ruling :: "conflict_resolution \<Rightarrow> decisions_like \<Rightarrow> decisions_like" where
  "add_ruling r d = d\<lparr>de_conflictResolutions := Some (resolutions_of d @ [r])\<rparr>"

lemma verdict_key: "resolutionConflictKey (conflictVerdictFor sections a b v) = conflictKey a b sections"
  by (simp add: resolutionConflictKey_def conflictVerdictFor_def conflictKey_def keySides_def
      split: prod.split)

lemma flag_kept [simp]:
  "cc_id (flag_conflict d m) = cc_id (flag_conflict d' m)"
  "key_of (flag_conflict d m) = conflictIdentity (mc_conflict m)"
  by (simp_all add: flag_conflict_def key_of_def conflictIdentity_def Let_def)

lemma flag_resolved:
  "cc_resolved (flag_conflict (add_ruling r d) m) \<longleftrightarrow>
     cc_resolved (flag_conflict d m) \<or> resolutionConflictKey r = conflictIdentity (mc_conflict m)"
  by (auto simp: flag_conflict_def Let_def add_ruling_def matchResolution_def resolutions_of_def
      excluded_doc_def find_append resolutionMatchesConflict_def conflictIdentity_def
      split: option.splits)

text \<open>A ruling settles the conflict it was made on and no other: with the verdict added, the open
  conflicts are those that were open before, in the same order, less the conflict it was made on.\<close>

theorem ruling_settles_its_conflict:
  assumes "c \<in> set (buildCorpusConflicts corpus d)"
  shows "map cc_id (openConflicts corpus (add_ruling (conflictVerdictFor (cc_sections c) (cc_a c) (cc_b c) v) d))
    = map cc_id (filter (\<lambda>c'. key_of c' \<noteq> key_of c) (openConflicts corpus d))"
proof -
  let ?r = "conflictVerdictFor (cc_sections c) (cc_a c) (cc_b c) v"
  have r: "resolutionConflictKey ?r = key_of c"
    by (simp add: verdict_key key_of_def)
  have "map cc_id (filter (\<lambda>c'. \<not> cc_resolved c') (map (flag_conflict (add_ruling ?r d)) ms))
      = map cc_id (filter (\<lambda>c'. key_of c' \<noteq> key_of c) (filter (\<lambda>c'. \<not> cc_resolved c') (map (flag_conflict d) ms)))" for ms
  proof (induction ms)
    case (Cons m ms)
    have "cc_id (flag_conflict (add_ruling ?r d) m) = cc_id (flag_conflict d m)"
      by (rule flag_kept)
    with Cons show ?case
      unfolding list.map filter.simps flag_resolved r flag_kept(2) by auto
  qed simp
  then show ?thesis
    by (simp add: openConflicts_def buildCorpusConflicts_def)
qed

definition demo_conflict :: conflict_like where
  "demo_conflict =
     \<lparr>cf_docs = (''a.md'', ''b.md''), cf_note = None,
      cf_sections = [\<lparr>cs_doc = ''b.md'', cs_quote = Some ''No.'', cs_sentence = ''2''\<rparr>,
                     \<lparr>cs_doc = ''a.md'', cs_quote = Some ''Yes.'', cs_sentence = ''1''\<rparr>],
      cf_areas = None\<rparr>"

definition demo_corpus :: corpus_like where
  "demo_corpus = \<lparr>co_areas = [\<lparr>ar_id = ''auth'', ar_conflicts = [demo_conflict]\<rparr>]\<rparr>"

definition no_decisions :: decisions_like where
  "no_decisions = \<lparr>de_manualExcludes = None, de_conflictResolutions = None\<rparr>"

lemma demo_built:
  "buildCorpusConflicts demo_corpus no_decisions
     = [flag_conflict no_decisions (merge_group [\<lparr>ac_area = ''auth'', ac_conflict = demo_conflict\<rparr>])]"
  by (simp add: buildCorpusConflicts_def corpus_entries_def demo_corpus_def dedupeCrossAreaConflicts_def
      by_identity_def buckets_def bucket_def)

lemma demo_open: "openConflicts demo_corpus no_decisions = buildCorpusConflicts demo_corpus no_decisions"
  unfolding openConflicts_def demo_built
  by (simp add: flag_conflict_def no_decisions_def excluded_doc_def matchResolution_def
      resolutions_of_def Let_def)

theorem ruling_settles_its_conflict_witness:
  "openConflicts demo_corpus no_decisions \<noteq> []
   \<and> openConflicts demo_corpus (add_ruling (conflictVerdictFor (cf_sections demo_conflict) ''a.md'' ''b.md'' VerdictA)
       no_decisions) = []"
proof -
  let ?m = "merge_group [\<lparr>ac_area = ''auth'', ac_conflict = demo_conflict\<rparr>]"
  have c: "cc_sections (flag_conflict no_decisions ?m) = cf_sections demo_conflict"
    "cc_a (flag_conflict no_decisions ?m) = ''a.md''" "cc_b (flag_conflict no_decisions ?m) = ''b.md''"
    by (simp_all add: flag_conflict_def merge_group_def sort_group_def demo_conflict_def Let_def)
  have "flag_conflict no_decisions ?m \<in> set (buildCorpusConflicts demo_corpus no_decisions)"
    by (simp add: demo_built)
  from ruling_settles_its_conflict [OF this, of VerdictA] show ?thesis
    unfolding c demo_open by (simp add: demo_built)
qed

text \<open>The side of a ruling that loses.\<close>

definition losing_side :: "conflict_resolution \<Rightarrow> string \<times> string" where
  "losing_side r = (if cr_verdict r = VerdictA then (cr_docB r, cr_sentenceB r) else (cr_docA r, cr_sentenceA r))"

lemma suppressed_of_loser:
  "suppressed_of c = Some s \<Longrightarrow>
     \<exists>r. cc_resolution c = Some r \<and> cr_verdict r \<noteq> VerdictDismissed \<and> (su_doc s, su_sentence s) = losing_side r
       \<and> su_quote s \<noteq> []"
proof -
  assume s: "suppressed_of c = Some s"
  have q: "trimmed q = Some t \<Longrightarrow> t \<noteq> []" for q t
    by (auto simp: trimmed_def split: option.splits if_splits)
  obtain r where r: "cc_resolution c = Some r" "cr_verdict r \<noteq> VerdictDismissed"
    using s by (auto simp: suppressed_of_def split: option.splits if_splits)
  show ?thesis
    using s r by (cases "cr_verdict r")
      (auto simp: suppressed_of_def losing_side_def Let_def dest: q split: option.splits)
qed

lemma flag_resolution:
  "cc_resolution (flag_conflict d m) = Some r \<Longrightarrow>
     r \<in> set (resolutions_of d) \<and> resolutionConflictKey r = conflictIdentity (mc_conflict m)"
  by (auto simp: flag_conflict_def matchResolution_def Let_def find_Some_iff resolutionMatchesConflict_def
      conflictIdentity_def)

text \<open>Every sentence the corpus suppresses lost a ruling: the ruling is one of the decisions, it was
  not a dismissal, it answers a conflict of the corpus by identity, and the sentence is the side it
  ruled against, with words to show.\<close>

theorem suppressed_lost_a_ruling:
  "list_all (\<lambda>s. \<exists>c r. c \<in> set (buildCorpusConflicts corpus d) \<and> r \<in> set (resolutions_of d)
       \<and> cc_resolution c = Some r \<and> resolutionConflictKey r = key_of c
       \<and> cr_verdict r \<noteq> VerdictDismissed \<and> (su_doc s, su_sentence s) = losing_side r \<and> su_quote s \<noteq> [])
     (suppressedClaims corpus d)"
proof -
  have "\<exists>c r. c \<in> set (buildCorpusConflicts corpus d) \<and> r \<in> set (resolutions_of d)
       \<and> cc_resolution c = Some r \<and> resolutionConflictKey r = key_of c
       \<and> cr_verdict r \<noteq> VerdictDismissed \<and> (su_doc s, su_sentence s) = losing_side r \<and> su_quote s \<noteq> []"
    if "s \<in> set (suppressedClaims corpus d)" for s
  proof -
    have "Some s \<in> suppressed_of ` set (buildCorpusConflicts corpus d)"
      using that unfolding suppressedClaims_def by force
    then obtain c where c: "c \<in> set (buildCorpusConflicts corpus d)" "suppressed_of c = Some s"
      by force
    then obtain m where m: "c = flag_conflict d m"
      by (auto simp: buildCorpusConflicts_def)
    obtain r where r: "cc_resolution c = Some r" "cr_verdict r \<noteq> VerdictDismissed"
        "(su_doc s, su_sentence s) = losing_side r" "su_quote s \<noteq> []"
      using suppressed_of_loser [OF c(2)] by blast
    show ?thesis
      using c(1) r flag_resolution [of d m r] by (intro exI [of _ c] exI [of _ r]) (auto simp: m)
  qed
  then show ?thesis by (simp add: list_all_iff)
qed

end
