(* ===== verification/PrCompare.thy ===== *)
theory PrCompare
  imports Conflicts
begin

text \<open>
  A pull request's run compared with the base's: \<open>packages/core/src/services/pr-check/compare.ts\<close>.

  A run's flow summary is its flows with their status. A document is what the document parser made of
  it, its sentences with their repeat. \<open>String.prototype.localeCompare\<close> is the order of a collation
  key (\<open>loc\<close>), which stands for the language's collation data.
\<close>

datatype plain_status = Failed | Blocked | NeverRun | PartiallySucceeded | Succeeded | NotTestable

datatype delta_kind =
    NewFailure | PreExisting | Fixed | NewlyBlocked | NewlyCovered | Added | Retired | Unchanged

record flow_delta =
  fd_flowId :: string
  fd_kind :: delta_kind
  fd_base :: "plain_status option"
  fd_head :: "plain_status option"

type_synonym flow_summary = "(string \<times> plain_status) list"

definition proven :: "plain_status option \<Rightarrow> bool" where
  "proven s \<longleftrightarrow> s = Some Succeeded \<or> s = Some PartiallySucceeded"

definition deltaKind :: "plain_status option \<Rightarrow> plain_status option \<Rightarrow> delta_kind" where
  "deltaKind base head =
     (if head = None then Retired
      else if head = Some Failed then (if base = Some Failed then PreExisting else NewFailure)
      else if base = None then Added
      else if base = Some Failed then (if proven head then Fixed else Unchanged)
      else if proven base \<and> head = Some Blocked then NewlyBlocked
      else if proven head \<and> (base = Some Blocked \<or> base = Some NeverRun) then NewlyCovered
      else Unchanged)"

definition compareFlows :: "flow_summary \<Rightarrow> flow_summary \<Rightarrow> flow_delta list" where
  "compareFlows base head =
     map (\<lambda>flowId.
            (let before = map_of base flowId; after = map_of head flowId
             in \<lparr>fd_flowId = flowId, fd_kind = deltaKind before after, fd_base = before, fd_head = after\<rparr>))
       (sort (js_set (map fst base @ map fst head)))"

definition conflictsCreated ::
    "corpus_like option \<Rightarrow> corpus_conflict list \<Rightarrow> decisions_like \<Rightarrow> corpus_conflict list" where
  "conflictsCreated defaultCorpus prConflicts decisions =
     (let known = map key_of (case defaultCorpus of None \<Rightarrow> [] | Some c \<Rightarrow> openConflicts c decisions)
      in filter (\<lambda>c. key_of c \<notin> set known) prConflicts)"

record doc_sentence =
  ds_text :: string
  ds_repeat :: nat

definition sentencesByKey :: "doc_sentence list \<Rightarrow> (string \<times> doc_sentence) list" where
  "sentencesByKey tree =
     foldl (\<lambda>m s. AList.update (sentenceKey (ds_text s) (ds_repeat s)) s m) [] tree"

definition sentencesChanged :: "doc_sentence list option \<Rightarrow> doc_sentence list \<Rightarrow> string list" where
  "sentencesChanged before head =
     (let held = (case before of None \<Rightarrow> [] | Some t \<Rightarrow> map fst (sentencesByKey t))
      in filter (\<lambda>key. key \<notin> set held) (map fst (sentencesByKey head)))"

definition onChangedSentence :: "conflict_side list \<Rightarrow> (string \<times> string list) list \<Rightarrow> bool" where
  "onChangedSentence sections changed \<longleftrightarrow>
     (\<exists>side\<in>set sections.
        case map_of changed (cs_doc side) of None \<Rightarrow> False | Some keys \<Rightarrow> cs_sentence side \<in> set keys)"

subsection \<open>The ruling before an edit\<close>

record edited_side =
  es_doc :: string
  es_sentence :: string
  es_edited :: bool

record ruling_like =
  rl_docA :: string
  rl_sentenceA :: string
  rl_docB :: string
  rl_sentenceB :: string
  rl_verdict :: verdict
  rl_resolvedAt :: string

definition covers_side :: "(string \<Rightarrow> string \<Rightarrow> bool) \<Rightarrow> edited_side \<Rightarrow> string \<Rightarrow> string \<Rightarrow> bool" where
  "covers_side held side doc sentence \<longleftrightarrow>
     doc = es_doc side \<and>
     (if es_edited side then sentence \<noteq> es_sentence side \<and> \<not> held doc sentence
      else sentence = es_sentence side)"

definition covers ::
    "(string \<Rightarrow> string \<Rightarrow> bool) \<Rightarrow> edited_side \<Rightarrow> edited_side \<Rightarrow> ruling_like \<Rightarrow> string \<times> string \<Rightarrow> bool" where
  "covers held side0 side1 ruling ab \<longleftrightarrow>
     covers_side held side0 (rl_docA ruling) (fst ab) \<and> covers_side held side1 (rl_docB ruling) (snd ab)"

definition rulingBeforeEdit ::
    "edited_side list \<Rightarrow> ruling_like list \<Rightarrow> (string \<Rightarrow> string \<Rightarrow> bool) \<Rightarrow> ruling_like option" where
  "rulingBeforeEdit sides rulings held =
     (if length sides \<noteq> 2 \<or> \<not> list_ex es_edited sides then None
      else (case find (\<lambda>r. covers held (sides ! 0) (sides ! 1) r (rl_sentenceA r, rl_sentenceB r)) rulings of
              Some r \<Rightarrow> Some r
            | None \<Rightarrow>
                find (\<lambda>r. covers held (sides ! 0) (sides ! 1) (r\<lparr>rl_docA := rl_docB r, rl_docB := rl_docA r\<rparr>)
                            (rl_sentenceB r, rl_sentenceA r)) rulings))"

subsection \<open>The documents a pull request moved\<close>

record flow_binding =
  bi_doc :: string
  bi_sentences :: "string list"

record flow_bindings =
  fb_flowId :: string
  fb_bindings :: "flow_binding list"

record doc_moved =
  dm_doc :: string
  dm_flowIds :: "string list"

definition sentenceSetKey :: "string list \<Rightarrow> string" where
  "sentenceSetKey sentences = js_join NUL (sort sentences)"

text \<open>\<open>Set.add\<close>, and \<open>push\<close> behind \<open>includes\<close>.\<close>

definition add_once :: "'a \<Rightarrow> 'a list \<Rightarrow> 'a list" where
  "add_once x xs = (if x \<in> set xs then xs else xs @ [x])"

definition bound :: "flow_bindings list \<Rightarrow> (string \<times> flow_binding) list" where
  "bound flows = concat (map (\<lambda>f. map (Pair (fb_flowId f)) (fb_bindings f)) flows)"

definition before_step ::
    "(string \<times> string list) list \<Rightarrow> string \<times> flow_binding \<Rightarrow> (string \<times> string list) list" where
  "before_step m fb =
     (let b = snd fb
      in AList.update (bi_doc b)
           (add_once (sentenceSetKey (bi_sentences b))
              (case map_of m (bi_doc b) of None \<Rightarrow> [] | Some was \<Rightarrow> was)) m)"

definition moved_step ::
    "(string \<times> string list) list \<Rightarrow> (string \<times> doc_moved) list \<Rightarrow> string \<times> flow_binding
      \<Rightarrow> (string \<times> doc_moved) list" where
  "moved_step before m fb =
     (let flowId = fst fb; b = snd fb
      in case map_of before (bi_doc b) of
           None \<Rightarrow> m
         | Some was \<Rightarrow>
             if sentenceSetKey (bi_sentences b) \<in> set was then m
             else (let entry = (case map_of m (bi_doc b) of
                                  Some e \<Rightarrow> e | None \<Rightarrow> \<lparr>dm_doc = bi_doc b, dm_flowIds = []\<rparr>)
                   in AList.update (bi_doc b) (entry\<lparr>dm_flowIds := add_once flowId (dm_flowIds entry)\<rparr>) m))"

definition docsMoved ::
    "(string \<Rightarrow> 'k :: linorder) \<Rightarrow> flow_bindings list \<Rightarrow> flow_bindings list \<Rightarrow> doc_moved list" where
  "docsMoved loc base head =
     sort_key (loc \<circ> dm_doc)
       (map snd (foldl (moved_step (foldl before_step [] (bound base))) [] (bound head)))"

definition testsRewritten ::
    "flow_delta list \<Rightarrow> (string \<times> string) list \<Rightarrow> (string \<times> string) list \<Rightarrow> string list" where
  "testsRewritten deltas base head =
     map fd_flowId
       (filter (\<lambda>d. proven (fd_base d) \<and> proven (fd_head d) \<and> map_of base (fd_flowId d) \<noteq> None
                    \<and> map_of head (fd_flowId d) \<noteq> map_of base (fd_flowId d)) deltas)"

subsection \<open>What a comparison says\<close>

lemma compare_ids: "map fd_flowId (compareFlows base head) = sort (js_set (map fst base @ map fst head))"
  by (simp add: compareFlows_def Let_def comp_def)

definition delta_of :: "flow_summary \<Rightarrow> flow_summary \<Rightarrow> string \<Rightarrow> flow_delta" where
  "delta_of base head f =
     \<lparr>fd_flowId = f, fd_kind = deltaKind (map_of base f) (map_of head f), fd_base = map_of base f,
      fd_head = map_of head f\<rparr>"

lemma delta_of_simps [simp]:
  "fd_flowId (delta_of base head f) = f"
  "fd_kind (delta_of base head f) = deltaKind (map_of base f) (map_of head f)"
  by (simp_all add: delta_of_def)

lemma set_compareFlows:
  "set (compareFlows base head) = delta_of base head ` (fst ` set base \<union> fst ` set head)"
  unfolding compareFlows_def Let_def set_map set_sort set_js_set set_append
  by (rule image_cong) (simp_all add: delta_of_def)

lemma flows_of_kind:
  "fd_flowId ` {d \<in> set (compareFlows base head). fd_kind d = k}
     = {f \<in> fst ` set base \<union> fst ` set head. deltaKind (map_of base f) (map_of head f) = k}"
  unfolding set_compareFlows by (force simp: image_iff)

lemma in_a_run: "f \<in> fst ` set base \<union> fst ` set head \<longleftrightarrow> map_of base f \<noteq> None \<or> map_of head f \<noteq> None"
  unfolding map_of_eq_None_iff by blast

lemma deltaKind_blames:
  "deltaKind b h = NewFailure \<longleftrightarrow> h = Some Failed \<and> b \<noteq> Some Failed"
  "deltaKind b h = Fixed \<longleftrightarrow> b = Some Failed \<and> proven h"
  unfolding deltaKind_def proven_def by (simp_all split: if_split)

text \<open>A comparison has each flow of either run exactly once, in order, and blames a pull request only
  for what it broke: the flows it calls new failures are those that fail at the head and did not
  fail at the base, and those it calls fixed failed at the base and are proven at the head.\<close>

theorem comparison_is_fair:
  "sorted (map fd_flowId (compareFlows base head))
   \<and> distinct (map fd_flowId (compareFlows base head))
   \<and> fd_flowId ` set (compareFlows base head) = fst ` set base \<union> fst ` set head
   \<and> fd_flowId ` {d \<in> set (compareFlows base head). fd_kind d = NewFailure}
       = {f. map_of head f = Some Failed \<and> map_of base f \<noteq> Some Failed}
   \<and> fd_flowId ` {d \<in> set (compareFlows base head). fd_kind d = Fixed}
       = {f. map_of base f = Some Failed \<and> proven (map_of head f)}"
proof -
  have "fd_flowId ` set (compareFlows base head) = fst ` set base \<union> fst ` set head"
    unfolding set_compareFlows image_image delta_of_simps by simp
  moreover have "fd_flowId ` {d \<in> set (compareFlows base head). fd_kind d = NewFailure}
       = {f. map_of head f = Some Failed \<and> map_of base f \<noteq> Some Failed}"
    unfolding flows_of_kind in_a_run deltaKind_blames by blast
  moreover have "fd_flowId ` {d \<in> set (compareFlows base head). fd_kind d = Fixed}
       = {f. map_of base f = Some Failed \<and> proven (map_of head f)}"
    unfolding flows_of_kind in_a_run deltaKind_blames by blast
  ultimately show ?thesis
    unfolding compare_ids by simp
qed

text \<open>No conflict a comparison calls created is one the workspace already has open: a pull request
  whose corpus has just the workspace's open conflicts creates none.\<close>

theorem created_is_new:
  "key_of ` set (conflictsCreated (Some corpus) prs decisions)
     \<inter> key_of ` set (openConflicts corpus decisions) = {}
   \<and> conflictsCreated (Some corpus) (openConflicts corpus decisions) decisions = []"
  by (auto simp: conflictsCreated_def Let_def filter_empty_conv)

subsection \<open>A ruling before an edit is one on the same conflict\<close>

definition side_pair :: "edited_side \<Rightarrow> string \<times> string" where
  "side_pair s = (es_doc s, es_sentence s)"

definition ruling_sides :: "ruling_like \<Rightarrow> (string \<times> string) set" where
  "ruling_sides r = {(rl_docA r, rl_sentenceA r), (rl_docB r, rl_sentenceB r)}"

lemma covers_sides:
  assumes "covers held s0 s1 r (a, b)" "s \<in> {s0, s1}"
  shows "\<exists>sentence. (es_doc s, sentence) \<in> {(rl_docA r, a), (rl_docB r, b)}
    \<and> (if es_edited s then sentence \<noteq> es_sentence s \<and> \<not> held (es_doc s) sentence
       else sentence = es_sentence s)"
  using assms by (auto simp: covers_def covers_side_def split: if_splits)

text \<open>A ruling carried over an edit is one of the rulings, and it is about this conflict: it names both
  documents, the very sentence of each side the head left alone, and for each edited side a sentence
  the head no longer holds.\<close>

theorem ruling_before_edit_is_its_own:
  assumes "rulingBeforeEdit sides rulings held = Some r" and "s \<in> set sides"
  shows "r \<in> set rulings \<and> length sides = 2 \<and> list_ex es_edited sides
    \<and> (\<exists>sentence. (es_doc s, sentence) \<in> ruling_sides r
        \<and> (if es_edited s then sentence \<noteq> es_sentence s \<and> \<not> held (es_doc s) sentence
           else sentence = es_sentence s))"
proof -
  have two: "length sides = 2" "list_ex es_edited sides"
    using assms(1) by (auto simp: rulingBeforeEdit_def split: if_splits)
  then have s: "s \<in> {sides ! 0, sides ! 1}"
    using assms(2) by (auto simp: in_set_conv_nth less_2_cases_iff)
  have "find (\<lambda>r. covers held (sides ! 0) (sides ! 1) r (rl_sentenceA r, rl_sentenceB r)) rulings = Some r
      \<or> find (\<lambda>r. covers held (sides ! 0) (sides ! 1) (r\<lparr>rl_docA := rl_docB r, rl_docB := rl_docA r\<rparr>)
                (rl_sentenceB r, rl_sentenceA r)) rulings = Some r"
    using assms(1) two by (auto simp: rulingBeforeEdit_def split: option.splits)
  then have r: "r \<in> set rulings" and "covers held (sides ! 0) (sides ! 1) r (rl_sentenceA r, rl_sentenceB r)
      \<or> covers held (sides ! 0) (sides ! 1) (r\<lparr>rl_docA := rl_docB r, rl_docB := rl_docA r\<rparr>)
          (rl_sentenceB r, rl_sentenceA r)"
    by (auto simp: find_Some_iff)
  from this(2) have "\<exists>sentence. (es_doc s, sentence) \<in> ruling_sides r
        \<and> (if es_edited s then sentence \<noteq> es_sentence s \<and> \<not> held (es_doc s) sentence
           else sentence = es_sentence s)"
    using covers_sides [OF _ s] by (force simp: ruling_sides_def)
  with r two show ?thesis by blast
qed

theorem ruling_before_edit_is_its_own_witness:
  "rulingBeforeEdit
     [\<lparr>es_doc = ''a'', es_sentence = ''new'', es_edited = True\<rparr>,
      \<lparr>es_doc = ''b'', es_sentence = ''kept'', es_edited = False\<rparr>]
     [\<lparr>rl_docA = ''b'', rl_sentenceA = ''kept'', rl_docB = ''a'', rl_sentenceB = ''old'',
       rl_verdict = VerdictA, rl_resolvedAt = ''t''\<rparr>] (\<lambda>d s. s = ''new'')
   = Some \<lparr>rl_docA = ''b'', rl_sentenceA = ''kept'', rl_docB = ''a'', rl_sentenceB = ''old'',
       rl_verdict = VerdictA, rl_resolvedAt = ''t''\<rparr>
   \<and> (''b'', ''kept'') \<in> ruling_sides \<lparr>rl_docA = ''b'', rl_sentenceA = ''kept'', rl_docB = ''a'',
       rl_sentenceB = ''old'', rl_verdict = VerdictA, rl_resolvedAt = ''t''\<rparr>"
proof -
  let ?sides = "[\<lparr>es_doc = ''a'', es_sentence = ''new'', es_edited = True\<rparr>,
      \<lparr>es_doc = ''b'', es_sentence = ''kept'', es_edited = False\<rparr>]"
  let ?r = "\<lparr>rl_docA = ''b'', rl_sentenceA = ''kept'', rl_docB = ''a'', rl_sentenceB = ''old'',
       rl_verdict = VerdictA, rl_resolvedAt = ''t''\<rparr>"
  have found: "rulingBeforeEdit ?sides [?r] (\<lambda>d s. s = ''new'') = Some ?r"
    by (simp add: rulingBeforeEdit_def covers_def covers_side_def)
  from ruling_before_edit_is_its_own [OF this, of "\<lparr>es_doc = ''b'', es_sentence = ''kept'', es_edited = False\<rparr>"]
  show ?thesis
    using found by simp
qed

subsection \<open>The moved documents are the ones whose bound sentences moved\<close>

lemma set_add_once [simp]: "set (add_once x xs) = insert x (set xs)"
  by (auto simp: add_once_def)

definition bound_keys :: "string \<Rightarrow> (string \<times> flow_binding) list \<Rightarrow> string set" where
  "bound_keys doc bs = (\<lambda>fb. sentenceSetKey (bi_sentences (snd fb))) ` {fb \<in> set bs. bi_doc (snd fb) = doc}"

lemma bound_keys_snoc:
  "bound_keys doc (bs @ [fb])
     = (if bi_doc (snd fb) = doc then insert (sentenceSetKey (bi_sentences (snd fb))) (bound_keys doc bs)
        else bound_keys doc bs)"
proof -
  have "{x \<in> set (bs @ [fb]). bi_doc (snd x) = doc}
      = (if bi_doc (snd fb) = doc then insert fb {x \<in> set bs. bi_doc (snd x) = doc} else {x \<in> set bs. bi_doc (snd x) = doc})"
    by auto
  then show ?thesis unfolding bound_keys_def by simp
qed

lemma map_of_before:
  "case map_of (foldl before_step [] bs) doc of
     None \<Rightarrow> bound_keys doc bs = {}
   | Some was \<Rightarrow> set was = bound_keys doc bs \<and> was \<noteq> []"
proof (induction bs rule: rev_induct)
  case Nil
  show ?case by (simp add: bound_keys_def)
next
  case (snoc fb bs)
  let ?old = "map_of (foldl before_step [] bs) doc"
  have step: "map_of (foldl before_step [] (bs @ [fb])) doc
      = (if bi_doc (snd fb) = doc
         then Some (add_once (sentenceSetKey (bi_sentences (snd fb))) (case ?old of None \<Rightarrow> [] | Some w \<Rightarrow> w))
         else ?old)"
    by (simp add: before_step_def Let_def update_conv')
  have nonempty: "add_once x xs \<noteq> []" for x and xs :: "string list"
    by (auto simp: add_once_def)
  show ?case
    using snoc.IH unfolding step bound_keys_snoc by (cases ?old) (simp_all add: nonempty)
qed

text \<open>Whether a binding of the head moves its document.\<close>

definition moves :: "(string \<times> string list) list \<Rightarrow> string \<times> flow_binding \<Rightarrow> bool" where
  "moves before fb \<longleftrightarrow>
     (case map_of before (bi_doc (snd fb)) of
        None \<Rightarrow> False | Some was \<Rightarrow> sentenceSetKey (bi_sentences (snd fb)) \<notin> set was)"

definition movers :: "(string \<times> string list) list \<Rightarrow> string \<Rightarrow> (string \<times> flow_binding) list \<Rightarrow> string set" where
  "movers before doc hs = fst ` {fb \<in> set hs. bi_doc (snd fb) = doc \<and> moves before fb}"

lemma movers_snoc:
  "movers before doc (hs @ [fb])
     = (if bi_doc (snd fb) = doc \<and> moves before fb then insert (fst fb) (movers before doc hs)
        else movers before doc hs)"
proof -
  have "{x \<in> set (hs @ [fb]). bi_doc (snd x) = doc \<and> moves before x}
      = (if bi_doc (snd fb) = doc \<and> moves before fb then insert fb {x \<in> set hs. bi_doc (snd x) = doc \<and> moves before x}
         else {x \<in> set hs. bi_doc (snd x) = doc \<and> moves before x})"
    by auto
  then show ?thesis unfolding movers_def by simp
qed

lemma moved_step_map:
  "map_of (moved_step before m fb) doc
     = (if bi_doc (snd fb) = doc \<and> moves before fb
        then Some (case map_of m doc of
                     Some e \<Rightarrow> e\<lparr>dm_flowIds := add_once (fst fb) (dm_flowIds e)\<rparr>
                   | None \<Rightarrow> \<lparr>dm_doc = doc, dm_flowIds = [fst fb]\<rparr>)
        else map_of m doc)"
  by (simp add: moved_step_def moves_def Let_def update_conv' add_once_def split: option.split)

lemma map_of_moved:
  "case map_of (foldl (moved_step before) [] hs) doc of
     None \<Rightarrow> movers before doc hs = {}
   | Some e \<Rightarrow> dm_doc e = doc \<and> set (dm_flowIds e) = movers before doc hs \<and> dm_flowIds e \<noteq> []"
proof (induction hs rule: rev_induct)
  case Nil
  show ?case by (simp add: movers_def)
next
  case (snoc fb hs)
  have nonempty: "add_once x xs \<noteq> []" for x and xs :: "string list"
    by (auto simp: add_once_def)
  show ?case
    using snoc.IH unfolding foldl_append foldl.simps moved_step_map movers_snoc
    by (cases "map_of (foldl (moved_step before) [] hs) doc") (simp_all add: nonempty)
qed

lemma distinct_moved: "distinct (map fst (foldl (moved_step before) [] hs))"
proof -
  have "distinct (map fst m) \<Longrightarrow> distinct (map fst (foldl (moved_step before) m hs))" for m
    by (induction hs arbitrary: m) (auto simp: moved_step_def Let_def distinct_update split: option.split)
  then show ?thesis by simp
qed

text \<open>The documents a comparison reports as moved are exactly those the base binds too where some head
  flow binds a sentence set the base binds in none of its flows, and the flows reported with a
  document are exactly the flows that do.\<close>

theorem moved_documents_exactly:
  "(\<lambda>e. (dm_doc e, set (dm_flowIds e))) ` set (docsMoved loc base head)
     = {(doc, flows). flows \<noteq> {} \<and> bound_keys doc (bound base) \<noteq> {}
          \<and> flows = fst ` {fb \<in> set (bound head). bi_doc (snd fb) = doc
                \<and> sentenceSetKey (bi_sentences (snd fb)) \<notin> bound_keys doc (bound base)}}"
proof -
  let ?before = "foldl before_step [] (bound base)"
  let ?m = "foldl (moved_step ?before) [] (bound head)"
  have m: "movers ?before doc (bound head)
      = (if bound_keys doc (bound base) = {} then {}
         else fst ` {fb \<in> set (bound head). bi_doc (snd fb) = doc
                \<and> sentenceSetKey (bi_sentences (snd fb)) \<notin> bound_keys doc (bound base)})" for doc
    using map_of_before [where bs = "bound base" and doc = doc]
    by (cases "map_of ?before doc") (auto simp: movers_def moves_def intro!: image_cong)
  have in_m: "(d, e) \<in> set ?m \<longleftrightarrow> map_of ?m d = Some e" for d e
    using distinct_moved by (simp add: map_of_eq_Some_iff)
  have "(doc, flows) \<in> (\<lambda>e. (dm_doc e, set (dm_flowIds e))) ` set (docsMoved loc base head)
      \<longleftrightarrow> flows \<noteq> {} \<and> flows = movers ?before doc (bound head)" for doc flows
  proof -
    have "(doc, flows) \<in> (\<lambda>e. (dm_doc e, set (dm_flowIds e))) ` set (docsMoved loc base head)
        \<longleftrightarrow> (\<exists>d e. map_of ?m d = Some e \<and> doc = dm_doc e \<and> flows = set (dm_flowIds e))"
      unfolding docsMoved_def set_sort set_map in_m [symmetric] by force
    also have "\<dots> \<longleftrightarrow> flows \<noteq> {} \<and> flows = movers ?before doc (bound head)"
      using map_of_moved [where before = ?before and hs = "bound head"] by (force split: option.splits)
    finally show ?thesis .
  qed
  note exact = this [unfolded m]
  show ?thesis
  proof (rule set_eqI)
    fix p :: "string \<times> string set"
    obtain doc flows where p: "p = (doc, flows)" by fastforce
    show "p \<in> (\<lambda>e. (dm_doc e, set (dm_flowIds e))) ` set (docsMoved loc base head)
      \<longleftrightarrow> p \<in> {(doc, flows). flows \<noteq> {} \<and> bound_keys doc (bound base) \<noteq> {}
          \<and> flows = fst ` {fb \<in> set (bound head). bi_doc (snd fb) = doc
                \<and> sentenceSetKey (bi_sentences (snd fb)) \<notin> bound_keys doc (bound base)}}"
      unfolding p exact mem_Collect_eq prod.case by simp
  qed
qed

end
