(* ===== verification/StepStats.thy ===== *)
theory StepStats
  imports Complex_Main Prelude
begin

text \<open>
  What a guard run's steps did, folded, and the judgement that a run did nothing:
  \<open>packages/guard-runner/src/step-stats.ts\<close>.

  The fraction is an exact rational where the program has a double. \<open>fl(n / d) \<ge> 0.9\<close> and
  \<open>n / d \<ge> 9 / 10\<close> agree for every count below \<open>2^50\<close>.
\<close>

record step_observation =
  so_exitCode :: "int option"
  so_stdoutEmpty :: bool
  so_stderrEmpty :: bool
  so_durationMs :: nat

record api_observation =
  ao_status :: "nat option"
  ao_bodyEmpty :: bool
  ao_timedOut :: bool
  ao_requestLine :: string
  ao_durationMs :: nat

definition NO_OP_STEP_THRESHOLD_MS :: nat where
  "NO_OP_STEP_THRESHOLD_MS = 10"

definition ANOMALY_MIN_EXECUTED_STEPS :: nat where
  "ANOMALY_MIN_EXECUTED_STEPS = 20"

definition ANOMALY_NOOP_FRACTION :: rat where
  "ANOMALY_NOOP_FRACTION = 9 / 10"

definition ANOMALY_MIN_DISTINCT_REQUEST_LINES :: nat where
  "ANOMALY_MIN_DISTINCT_REQUEST_LINES = 2"

record cli_stats =
  cl_executedSteps :: nat
  cl_noOpSteps :: nat
  cl_thresholdMs :: nat

record api_stats =
  ap_executedRequests :: nat
  ap_inertRequests :: nat
  ap_statuses :: "nat list"
  ap_requestLines :: "string list"

record step_stats =
  st_cli :: cli_stats
  st_api :: api_stats

definition emptyStepStats :: "nat option \<Rightarrow> step_stats" where
  "emptyStepStats threshold =
     \<lparr>st_cli = \<lparr>cl_executedSteps = 0, cl_noOpSteps = 0,
                cl_thresholdMs = (case threshold of Some t \<Rightarrow> t | None \<Rightarrow> NO_OP_STEP_THRESHOLD_MS)\<rparr>,
      st_api = \<lparr>ap_executedRequests = 0, ap_inertRequests = 0, ap_statuses = [], ap_requestLines = []\<rparr>\<rparr>"

definition foldStepStats :: "step_stats \<Rightarrow> step_stats \<Rightarrow> step_stats" where
  "foldStepStats a b =
     \<lparr>st_cli =
        \<lparr>cl_executedSteps = cl_executedSteps (st_cli a) + cl_executedSteps (st_cli b),
         cl_noOpSteps = cl_noOpSteps (st_cli a) + cl_noOpSteps (st_cli b),
         cl_thresholdMs = (if cl_thresholdMs (st_cli b) \<noteq> 0 then cl_thresholdMs (st_cli b)
                           else cl_thresholdMs (st_cli a))\<rparr>,
      st_api =
        \<lparr>ap_executedRequests = ap_executedRequests (st_api a) + ap_executedRequests (st_api b),
         ap_inertRequests = ap_inertRequests (st_api a) + ap_inertRequests (st_api b),
         ap_statuses = sort (js_set (ap_statuses (st_api a) @ ap_statuses (st_api b))),
         ap_requestLines = sort (js_set (ap_requestLines (st_api a) @ ap_requestLines (st_api b)))\<rparr>\<rparr>"

definition isNoOpStep :: "step_observation \<Rightarrow> nat \<Rightarrow> bool" where
  "isNoOpStep obs thresholdMs \<longleftrightarrow>
     so_exitCode obs = Some 0 \<and> so_stdoutEmpty obs \<and> so_stderrEmpty obs \<and> so_durationMs obs < thresholdMs"

definition isInertRequest :: "api_observation \<Rightarrow> bool" where
  "isInertRequest obs \<longleftrightarrow> \<not> ao_timedOut obs \<and> ao_status obs \<noteq> None \<and> ao_bodyEmpty obs"

subsection \<open>The collector\<close>

text \<open>\<open>co_statuses\<close> and \<open>co_requestLines\<close> are JavaScript sets, in the order of insertion.\<close>

record collector =
  co_cli :: cli_stats
  co_executedRequests :: nat
  co_inertRequests :: nat
  co_statuses :: "nat list"
  co_requestLines :: "string list"

definition set_add :: "'a \<Rightarrow> 'a list \<Rightarrow> 'a list" where
  "set_add x xs = (if x \<in> set xs then xs else xs @ [x])"

definition createStepStatsCollector :: "nat option \<Rightarrow> collector" where
  "createStepStatsCollector threshold =
     \<lparr>co_cli = \<lparr>cl_executedSteps = 0, cl_noOpSteps = 0,
                cl_thresholdMs = (case threshold of Some t \<Rightarrow> t | None \<Rightarrow> NO_OP_STEP_THRESHOLD_MS)\<rparr>,
      co_executedRequests = 0, co_inertRequests = 0, co_statuses = [], co_requestLines = []\<rparr>"

definition onCliStep :: "step_observation \<Rightarrow> collector \<Rightarrow> collector" where
  "onCliStep obs c =
     (let cli = co_cli c
      in c\<lparr>co_cli := cli\<lparr>cl_executedSteps := cl_executedSteps cli + 1,
                         cl_noOpSteps := cl_noOpSteps cli
                           + (if isNoOpStep obs (cl_thresholdMs cli) then 1 else 0)\<rparr>\<rparr>)"

definition onApiStep :: "api_observation \<Rightarrow> collector \<Rightarrow> collector" where
  "onApiStep obs c =
     (let c1 = c\<lparr>co_executedRequests := co_executedRequests c + 1,
                 co_inertRequests := co_inertRequests c + (if isInertRequest obs then 1 else 0)\<rparr>
      in case ao_status obs of
           None \<Rightarrow> c1
         | Some status \<Rightarrow>
             c1\<lparr>co_statuses := set_add status (co_statuses c1),
                co_requestLines := set_add (ao_requestLine obs) (co_requestLines c1)\<rparr>)"

definition snapshot_stats :: "collector \<Rightarrow> step_stats" where
  "snapshot_stats c =
     \<lparr>st_cli = co_cli c,
      st_api = \<lparr>ap_executedRequests = co_executedRequests c, ap_inertRequests = co_inertRequests c,
                ap_statuses = sort (co_statuses c), ap_requestLines = sort (co_requestLines c)\<rparr>\<rparr>"

datatype observation = CliStep step_observation | ApiStep api_observation

fun collect :: "collector \<Rightarrow> observation \<Rightarrow> collector" where
  "collect c (CliStep obs) = onCliStep obs c"
| "collect c (ApiStep obs) = onApiStep obs c"

subsection \<open>The judgement\<close>

datatype anomaly =
    CliAnomaly nat nat rat nat
  | ApiAnomaly nat nat rat nat nat

definition detectNoOpAnomaly :: "step_stats \<Rightarrow> anomaly option" where
  "detectNoOpAnomaly stats =
     (let cli = st_cli stats; api = st_api stats;
          cliFraction = of_nat (cl_noOpSteps cli) / of_nat (cl_executedSteps cli);
          apiFraction = of_nat (ap_inertRequests api) / of_nat (ap_executedRequests api)
      in if ANOMALY_MIN_EXECUTED_STEPS \<le> cl_executedSteps cli \<and> ANOMALY_NOOP_FRACTION \<le> cliFraction
         then Some (CliAnomaly (cl_executedSteps cli) (cl_noOpSteps cli) cliFraction (cl_thresholdMs cli))
         else if ANOMALY_MIN_EXECUTED_STEPS \<le> ap_executedRequests api \<and> length (ap_statuses api) = 1
              \<and> ANOMALY_MIN_DISTINCT_REQUEST_LINES \<le> length (ap_requestLines api)
              \<and> ANOMALY_NOOP_FRACTION \<le> apiFraction
         then Some (ApiAnomaly (ap_executedRequests api) (ap_inertRequests api) apiFraction
                      (hd (ap_statuses api)) (length (ap_requestLines api)))
         else None)"

subsection \<open>Folding partial runs is collecting the whole\<close>

definition stats_of :: "nat option \<Rightarrow> observation list \<Rightarrow> step_stats" where
  "stats_of threshold os = snapshot_stats (foldl collect (createStepStatsCollector threshold) os)"

lemma set_set_add [simp]: "set (set_add x xs) = insert x (set xs)"
  by (auto simp: set_add_def)

lemma distinct_set_add [simp]: "distinct (set_add x xs) = distinct xs"
  by (auto simp: set_add_def)

text \<open>What the collector knows, as functions of the observations alone.\<close>

definition limit :: "nat option \<Rightarrow> nat" where
  "limit threshold = (case threshold of Some t \<Rightarrow> t | None \<Rightarrow> NO_OP_STEP_THRESHOLD_MS)"

definition cli_steps :: "observation list \<Rightarrow> step_observation list" where
  "cli_steps os = concat (map (\<lambda>e. case e of CliStep obs \<Rightarrow> [obs] | ApiStep _ \<Rightarrow> []) os)"

definition api_steps :: "observation list \<Rightarrow> api_observation list" where
  "api_steps os = concat (map (\<lambda>e. case e of ApiStep obs \<Rightarrow> [obs] | CliStep _ \<Rightarrow> []) os)"

definition answered :: "observation list \<Rightarrow> api_observation list" where
  "answered os = filter (\<lambda>obs. ao_status obs \<noteq> None) (api_steps os)"

lemma steps_append [simp]:
  "cli_steps (xs @ ys) = cli_steps xs @ cli_steps ys" "cli_steps [] = []"
  "api_steps (xs @ ys) = api_steps xs @ api_steps ys" "api_steps [] = []"
  "answered (xs @ ys) = answered xs @ answered ys" "answered [] = []"
  by (simp_all add: cli_steps_def api_steps_def answered_def)

lemma steps_single [simp]:
  "cli_steps [CliStep c] = [c]" "cli_steps [ApiStep a] = []"
  "api_steps [CliStep c] = []" "api_steps [ApiStep a] = [a]"
  "answered [CliStep c] = []" "answered [ApiStep a] = (if ao_status a = None then [] else [a])"
  by (simp_all add: cli_steps_def api_steps_def answered_def)

lemma collected:
  fixes os threshold
  defines "c \<equiv> foldl collect (createStepStatsCollector threshold) os"
  shows "co_cli c = \<lparr>cl_executedSteps = length (cli_steps os),
      cl_noOpSteps = length (filter (\<lambda>obs. isNoOpStep obs (limit threshold)) (cli_steps os)),
      cl_thresholdMs = limit threshold\<rparr>"
    and "co_executedRequests c = length (api_steps os)"
    and "co_inertRequests c = length (filter isInertRequest (api_steps os))"
    and "distinct (co_statuses c) \<and> set (co_statuses c) = (the \<circ> ao_status) ` set (answered os)"
    and "distinct (co_requestLines c) \<and> set (co_requestLines c) = ao_requestLine ` set (answered os)"
proof -
  let ?P = "\<lambda>c os. co_cli c = \<lparr>cl_executedSteps = length (cli_steps os),
      cl_noOpSteps = length (filter (\<lambda>obs. isNoOpStep obs (limit threshold)) (cli_steps os)),
      cl_thresholdMs = limit threshold\<rparr>
    \<and> co_executedRequests c = length (api_steps os)
    \<and> co_inertRequests c = length (filter isInertRequest (api_steps os))
    \<and> (distinct (co_statuses c) \<and> set (co_statuses c) = (the \<circ> ao_status) ` set (answered os))
    \<and> (distinct (co_requestLines c) \<and> set (co_requestLines c) = ao_requestLine ` set (answered os))"
  have "?P (foldl collect (createStepStatsCollector threshold) os) os"
  proof (induction os rule: rev_induct)
    case Nil
    show ?case by (simp add: createStepStatsCollector_def limit_def)
  next
    case (snoc e os)
    then show ?case
      by (cases e) (auto simp: onCliStep_def onApiStep_def Let_def split: option.split)
  qed
  then show "co_cli c = \<lparr>cl_executedSteps = length (cli_steps os),
      cl_noOpSteps = length (filter (\<lambda>obs. isNoOpStep obs (limit threshold)) (cli_steps os)),
      cl_thresholdMs = limit threshold\<rparr>"
    "co_executedRequests c = length (api_steps os)"
    "co_inertRequests c = length (filter isInertRequest (api_steps os))"
    "distinct (co_statuses c) \<and> set (co_statuses c) = (the \<circ> ao_status) ` set (answered os)"
    "distinct (co_requestLines c) \<and> set (co_requestLines c) = ao_requestLine ` set (answered os)"
    by (simp_all add: c_def)
qed

lemma sort_set_unique:
  fixes xs ys :: "'a :: linorder list"
  assumes "distinct xs" "distinct ys" "set xs = set ys"
  shows "sort xs = sort ys"
  using assms by (intro sorted_distinct_set_unique) simp_all

text \<open>Folding the statistics of two parts of a run, in either shard's collector, is collecting the
  whole run: the same counts, the same statuses and the same request lines.\<close>

theorem fold_is_collecting_the_whole:
  "foldStepStats (stats_of threshold xs) (stats_of threshold ys) = stats_of threshold (xs @ ys)"
proof -
  have s: "sort (js_set (sort (co_statuses (foldl collect (createStepStatsCollector threshold) xs))
        @ sort (co_statuses (foldl collect (createStepStatsCollector threshold) ys))))
      = sort (co_statuses (foldl collect (createStepStatsCollector threshold) (xs @ ys)))"
    by (rule sort_set_unique) (use collected(4) in \<open>simp_all add: image_Un del: foldl_append\<close>)
  have l: "sort (js_set (sort (co_requestLines (foldl collect (createStepStatsCollector threshold) xs))
        @ sort (co_requestLines (foldl collect (createStepStatsCollector threshold) ys))))
      = sort (co_requestLines (foldl collect (createStepStatsCollector threshold) (xs @ ys)))"
    by (rule sort_set_unique) (use collected(5) in \<open>simp_all add: image_Un del: foldl_append\<close>)
  show ?thesis
    using s l by (simp add: foldStepStats_def stats_of_def snapshot_stats_def collected(1-3) del: foldl_append)
qed

lemma nine_tenths:
  assumes "20 \<le> d" "ANOMALY_NOOP_FRACTION \<le> of_nat n / of_nat d"
  shows "9 * d \<le> 10 * n"
proof -
  have "0 < d" using assms(1) by simp
  then have "(of_nat (9 * d) :: rat) \<le> of_nat (10 * n)"
    using assms(2) by (simp add: ANOMALY_NOOP_FRACTION_def field_simps)
  then show ?thesis by (simp only: of_nat_le_iff)
qed

lemma stats_of_simps:
  "cl_executedSteps (st_cli (stats_of threshold os)) = length (cli_steps os)"
  "cl_noOpSteps (st_cli (stats_of threshold os)) = length (filter (\<lambda>obs. isNoOpStep obs (limit threshold)) (cli_steps os))"
  "ap_executedRequests (st_api (stats_of threshold os)) = length (api_steps os)"
  "ap_inertRequests (st_api (stats_of threshold os)) = length (filter isInertRequest (api_steps os))"
  "set (ap_statuses (st_api (stats_of threshold os))) = (the \<circ> ao_status) ` set (answered os)"
  "set (ap_requestLines (st_api (stats_of threshold os))) = ao_requestLine ` set (answered os)"
  "distinct (ap_requestLines (st_api (stats_of threshold os)))"
  using collected [of threshold os] by (simp_all add: stats_of_def snapshot_stats_def)

text \<open>A run is judged dead only if it is: at least twenty steps of a driver ran and nine in ten of them
  did nothing, and for requests every answer had one status over at least two different routes.\<close>

theorem anomaly_means_dead:
  assumes "detectNoOpAnomaly (stats_of threshold os) = Some a"
  shows "case a of
      CliAnomaly n k f t \<Rightarrow> n = length (cli_steps os) \<and> 20 \<le> n
        \<and> 9 * n \<le> 10 * length (filter (\<lambda>obs. isNoOpStep obs (limit threshold)) (cli_steps os))
    | ApiAnomaly n k f status lines \<Rightarrow> n = length (api_steps os) \<and> 20 \<le> n
        \<and> 9 * n \<le> 10 * length (filter isInertRequest (api_steps os))
        \<and> ao_status ` set (answered os) = {Some status}
        \<and> 2 \<le> card (ao_requestLine ` set (answered os))"
proof (cases a)
  case (CliAnomaly n k f t)
  then show ?thesis
    using assms
    by (auto simp: detectNoOpAnomaly_def Let_def stats_of_simps ANOMALY_MIN_EXECUTED_STEPS_def
        intro: nine_tenths split: if_splits)
next
  case (ApiAnomaly n k f status lines)
  let ?st = "ap_statuses (st_api (stats_of threshold os))"
  have n: "n = length (api_steps os)" "20 \<le> n" "9 * n \<le> 10 * length (filter isInertRequest (api_steps os))"
    and one: "length ?st = 1" "status = hd ?st"
    and lines: "2 \<le> length (ap_requestLines (st_api (stats_of threshold os)))"
    using assms ApiAnomaly
    by (auto simp: detectNoOpAnomaly_def Let_def stats_of_simps ANOMALY_MIN_EXECUTED_STEPS_def
        ANOMALY_MIN_DISTINCT_REQUEST_LINES_def intro: nine_tenths split: if_splits)
  have "?st = [status]"
    using one by (metis One_nat_def length_0_conv length_Suc_conv list.sel(1))
  then have "(the \<circ> ao_status) ` set (answered os) = {status}"
    using stats_of_simps(5) [of threshold os] by simp
  moreover have "ao_status obs = Some (the (ao_status obs))" if "obs \<in> set (answered os)" for obs
    using that by (auto simp: answered_def)
  ultimately have "ao_status ` set (answered os) = {Some status}"
    by (auto simp: image_iff set_eq_iff) metis+
  moreover have "2 \<le> card (ao_requestLine ` set (answered os))"
    using lines distinct_card [OF stats_of_simps(7) [of threshold os]] by (simp add: stats_of_simps)
  ultimately show ?thesis
    using n ApiAnomaly by simp
qed

theorem anomaly_means_dead_witness:
  "\<exists>a. detectNoOpAnomaly (stats_of None (replicate 20 (CliStep
        \<lparr>so_exitCode = Some 0, so_stdoutEmpty = True, so_stderrEmpty = True, so_durationMs = 3\<rparr>))) = Some a
     \<and> a = CliAnomaly 20 20 1 10"
proof -
  let ?o = "\<lparr>so_exitCode = Some 0, so_stdoutEmpty = True, so_stderrEmpty = True, so_durationMs = 3\<rparr>"
  have "detectNoOpAnomaly (stats_of None (replicate 20 (CliStep ?o))) = Some (CliAnomaly 20 20 1 10)"
    by (simp add: detectNoOpAnomaly_def stats_of_def snapshot_stats_def createStepStatsCollector_def
        onCliStep_def isNoOpStep_def NO_OP_STEP_THRESHOLD_MS_def ANOMALY_MIN_EXECUTED_STEPS_def
        ANOMALY_NOOP_FRACTION_def numeral_eq_Suc Let_def)
  with anomaly_means_dead [OF this] show ?thesis by blast
qed

end
