(* ===== verification/GuardTokens.thy ===== *)
theory GuardTokens
  imports JsText
begin

text \<open>
  The tokens an authored scenario string may carry, and how a run resolves them:
  \<open>packages/guard-runner/src/api/vars.ts\<close> (captured values, credentials and fixtures of an API
  step, and the lookup of a JSON path), \<open>captured.ts\<close>, \<open>unique.ts\<close> and \<open>sandbox-token.ts\<close> (the
  tokens of a sandbox scenario), and the references of
  \<open>packages/shared/src/guard/capture.ts\<close>.

  A \<open>ReadonlyMap\<close> that is only asked is a partial map. The field test \<open>in\<close> of the language answers
  yes for the names every object inherits, so the lookups below return a \<open>js_val\<close>, which has those.
\<close>

subsection \<open>Values an object lookup can reach\<close>

datatype js_val = Js json | ObjectPrototype | Builtin string

definition inherited_names :: "string list" where
  "inherited_names =
     [''constructor'', ''__defineGetter__'', ''__defineSetter__'', ''hasOwnProperty'', ''__lookupGetter__'',
      ''__lookupSetter__'', ''isPrototypeOf'', ''propertyIsEnumerable'', ''toString'', ''valueOf'',
      ''toLocaleString'']"

text \<open>\<open>key in object ? object[key] : miss\<close>.\<close>

definition object_get :: "json_object \<Rightarrow> string \<Rightarrow> js_val option" where
  "object_get obj key =
     (case map_of obj key of
        Some v \<Rightarrow> Some (Js v)
      | None \<Rightarrow>
          if key = ''__proto__'' then Some ObjectPrototype
          else if key \<in> set inherited_names then Some (Builtin key)
          else None)"

text \<open>The string form of a value; none for a function, which has no JSON text.\<close>

fun captureValueToString :: "js_val \<Rightarrow> string option" where
  "captureValueToString (Js (JStr s)) = Some s"
| "captureValueToString (Js v) = Some (json_stringify v)"
| "captureValueToString ObjectPrototype = Some ''{}''"
| "captureValueToString (Builtin f) = None"

text \<open>\<open>out += value\<close>: what is not there is spelled out.\<close>

definition appended :: "string option \<Rightarrow> string" where
  "appended v = (case v of Some s \<Rightarrow> s | None \<Rightarrow> ''undefined'')"

subsection \<open>The token readers\<close>

definition ident_char :: "char \<Rightarrow> bool" where
  "ident_char c \<longleftrightarrow>
     (let n = of_char c :: nat in (65 \<le> n \<and> n \<le> 90) \<or> (97 \<le> n \<and> n \<le> 122) \<or> n = 95 \<or> digit c)"

text \<open>An identifier and the brace that closes it: \<open>[A-Za-z_][A-Za-z0-9_]*\}\<close>.\<close>

definition ident_close :: "string \<Rightarrow> string option" where
  "ident_close s =
     (let n = takeWhile ident_char s
      in if n \<noteq> [] \<and> \<not> digit (hd n) \<and> starts_with ''}'' (drop (length n) s) then Some n else None)"

text \<open>\<open>VAR_REFERENCE\<close>: both spellings of a captured value.\<close>

definition captured_at :: "string \<Rightarrow> (string \<times> nat) option" where
  "captured_at s =
     (if starts_with ''${captured:'' s
      then map_option (\<lambda>n. (n, 11 + length n)) (ident_close (drop 11 s))
      else None)"

definition var_at :: "string \<Rightarrow> (string \<times> nat) option" where
  "var_at s =
     (case captured_at s of
        Some r \<Rightarrow> Some r
      | None \<Rightarrow>
          if starts_with ''${'' s
          then map_option (\<lambda>n. (n, 2 + length n)) (ident_close (drop 2 s))
          else None)"

definition no_brace :: "char \<Rightarrow> bool" where
  "no_brace c \<longleftrightarrow> c \<noteq> CHR ''{'' \<and> c \<noteq> CHR ''}''"

datatype placeholder_kind = KCred | KFixture

fun kind_text :: "placeholder_kind \<Rightarrow> string" where
  "kind_text KCred = ''cred:''"
| "kind_text KFixture = ''fixture:''"

text \<open>\<open>\{\{(kinds):([^{}]+)\}\}\<close>.\<close>

definition placeholder_at ::
    "placeholder_kind list \<Rightarrow> string \<Rightarrow> ((placeholder_kind \<times> string) \<times> nat) option" where
  "placeholder_at kinds s =
     (if starts_with ''{{'' s then
        (case filter (\<lambda>k. starts_with (kind_text k) (drop 2 s)) kinds of
           [] \<Rightarrow> None
         | k # _ \<Rightarrow>
             (let rest = drop (2 + length (kind_text k)) s; ident = takeWhile no_brace rest
              in if ident \<noteq> [] \<and> starts_with ''}}'' (drop (length ident) rest)
                 then Some ((k, ident), 3 + length (kind_text k) + length ident) else None))
      else None)"

subsection \<open>Resolving a string\<close>

datatype token_error =
    UnknownVariable string string
  | UnknownCredential string
  | UnknownFixture string string

type_synonym vars = "string \<Rightarrow> string option"
type_synonym fixtures = "string \<Rightarrow> json_object option"

definition interpolate :: "vars \<Rightarrow> string \<Rightarrow> token_error + string" where
  "interpolate vars template =
     weave (\<lambda>name token. case vars name of None \<Rightarrow> Inl (UnknownVariable name token) | Some v \<Rightarrow> Inr v)
       Inr [] (lex var_at template)"

text \<open>\<open>indexOf('.')\<close> of an identifier, and the two halves around it.\<close>

definition name_and_field :: "string \<Rightarrow> (string \<times> string) option" where
  "name_and_field ident =
     (case index_of ''.'' ident of
        None \<Rightarrow> None
      | Some dot \<Rightarrow> Some (take dot ident, drop (Suc dot) ident))"

definition resolveFixture :: "fixtures \<Rightarrow> string \<Rightarrow> token_error + string" where
  "resolveFixture fixtures ident =
     (case name_and_field ident of
        None \<Rightarrow> Inl (UnknownFixture ident ''must name a field: {{fixture:<name>.<field>}}'')
      | Some (name, field) \<Rightarrow>
          (case fixtures name of
             None \<Rightarrow> Inl (UnknownFixture ident ''references a fixture the seed does not provide'')
           | Some rec \<Rightarrow>
               (case object_get rec field of
                  None \<Rightarrow> Inl (UnknownFixture ident
                    (''references field '' @ [CHR 0x22] @ field @ [CHR 0x22]
                      @ '' the seed did not emit for fixture '' @ [CHR 0x22] @ name @ [CHR 0x22]))
                | Some v \<Rightarrow> Inr (appended (captureValueToString v)))))"

definition substitutePlaceholders ::
    "placeholder_kind list \<Rightarrow> (placeholder_kind \<times> string \<Rightarrow> token_error + string)
      \<Rightarrow> (string \<Rightarrow> token_error + string) \<Rightarrow> string \<Rightarrow> token_error + string" where
  "substitutePlaceholders kinds resolveOne literal template =
     (if kinds = [] then literal template
      else weave (\<lambda>p _. resolveOne p) literal [] (lex (placeholder_at kinds) template))"

text \<open>What \<open>resolvePlaceholders\<close> may substitute: a kind whose map is not given stays text.\<close>

record placeholder_maps =
  pm_credentials :: "vars option"
  pm_fixtures :: "fixtures option"

definition resolvePlaceholders :: "vars \<Rightarrow> placeholder_maps \<Rightarrow> string \<Rightarrow> token_error + string" where
  "resolvePlaceholders vars maps template =
     substitutePlaceholders
       ((case pm_credentials maps of None \<Rightarrow> [] | Some _ \<Rightarrow> [KCred]) @
        (case pm_fixtures maps of None \<Rightarrow> [] | Some _ \<Rightarrow> [KFixture]))
       (\<lambda>(kind, ident).
          case kind of
            KCred \<Rightarrow> (case the (pm_credentials maps) ident of
                        None \<Rightarrow> Inl (UnknownCredential ident) | Some secret \<Rightarrow> Inr secret)
          | KFixture \<Rightarrow> resolveFixture (the (pm_fixtures maps)) ident)
       (interpolate vars) template"

definition resolveHeaderValue :: "vars \<Rightarrow> vars \<Rightarrow> fixtures \<Rightarrow> string \<Rightarrow> token_error + string" where
  "resolveHeaderValue vars credentials fixtures template =
     resolvePlaceholders vars \<lparr>pm_credentials = Some credentials, pm_fixtures = Some fixtures\<rparr> template"

definition resolveText :: "vars \<Rightarrow> fixtures \<Rightarrow> string \<Rightarrow> token_error + string" where
  "resolveText vars fixtures template =
     resolvePlaceholders vars \<lparr>pm_credentials = None, pm_fixtures = Some fixtures\<rparr> template"

definition resolveFixtureText ::
    "fixtures \<Rightarrow> (string \<Rightarrow> token_error + string) \<Rightarrow> string \<Rightarrow> token_error + string" where
  "resolveFixtureText fixtures literal template =
     substitutePlaceholders [KFixture] (\<lambda>(_, ident). resolveFixture fixtures ident) literal template"

definition containsFixtureReference :: "string \<Rightarrow> bool" where
  "containsFixtureReference text \<longleftrightarrow> tokens (placeholder_at [KFixture]) text \<noteq> []"

definition placeholderNames :: "string \<Rightarrow> string list \<times> string list" where
  "placeholderNames text =
     (let found = tokens (placeholder_at [KFixture, KCred]) text
      in (js_set (map snd (filter (\<lambda>p. fst p = KFixture) found)),
          js_set (map snd (filter (\<lambda>p. fst p = KCred) found))))"

subsection \<open>Resolving a JSON body\<close>

definition whole_fixture :: "string \<Rightarrow> string option" where
  "whole_fixture s =
     (case placeholder_at [KFixture] s of
        Some ((_, ident), n) \<Rightarrow> if Suc n = length s then Some ident else None
      | None \<Rightarrow> None)"

definition whole_var :: "string \<Rightarrow> string option" where
  "whole_var s =
     (case var_at s of Some (name, n) \<Rightarrow> if Suc n = length s then Some name else None | None \<Rightarrow> None)"

definition nativeFixture :: "fixtures \<Rightarrow> string \<Rightarrow> js_val option" where
  "nativeFixture fixtures ident =
     (case name_and_field ident of
        None \<Rightarrow> None
      | Some (name, field) \<Rightarrow>
          (case fixtures name of None \<Rightarrow> None | Some rec \<Rightarrow> object_get rec field))"

text \<open>What a leaf becomes when it is one placeholder and nothing else, and its value is known.\<close>

definition native_leaf :: "fixtures \<Rightarrow> (string \<Rightarrow> json option) \<Rightarrow> string \<Rightarrow> js_val option" where
  "native_leaf fixtures nativeVars s =
     (case whole_fixture s of
        Some ident \<Rightarrow> nativeFixture fixtures ident
      | None \<Rightarrow>
          (case whole_var s of Some name \<Rightarrow> map_option Js (nativeVars name) | None \<Rightarrow> None))"

text \<open>A value as the JSON text of a body will have it: a function has none. An object leaves such a field
  out, an array writes null in its place.\<close>

definition as_json :: "js_val \<Rightarrow> json option" where
  "as_json v = (case v of Js j \<Rightarrow> Some j | ObjectPrototype \<Rightarrow> Some (JObj []) | Builtin _ \<Rightarrow> None)"

definition array_json :: "json option list \<Rightarrow> json" where
  "array_json vs = JArr (map (\<lambda>v. case v of None \<Rightarrow> JNull | Some j \<Rightarrow> j) vs)"

definition object_json :: "(string \<times> json option) list \<Rightarrow> json" where
  "object_json kvs = JObj (concat (map (\<lambda>(k, v). case v of None \<Rightarrow> [] | Some j \<Rightarrow> [(k, j)]) kvs))"

fun all_right :: "('e + 'a) list \<Rightarrow> 'e + 'a list" where
  "all_right [] = Inr []"
| "all_right (r # rs) =
     (case r of Inl e \<Rightarrow> Inl e | Inr x \<Rightarrow> (case all_right rs of Inl e \<Rightarrow> Inl e | Inr xs \<Rightarrow> Inr (x # xs)))"

lemma all_right_cong [fundef_cong]:
  "xs = ys \<Longrightarrow> (\<And>x. x \<in> set ys \<Longrightarrow> f x = g x) \<Longrightarrow> all_right (map f xs) = all_right (map g ys)"
  by (metis map_cong)

fun interpolateJson ::
    "vars \<Rightarrow> fixtures \<Rightarrow> (string \<Rightarrow> json option) \<Rightarrow> json \<Rightarrow> token_error + json option" where
  "interpolateJson vars fixtures nativeVars (JStr s) =
     (case native_leaf fixtures nativeVars s of
        Some v \<Rightarrow> Inr (as_json v)
      | None \<Rightarrow> map_sum id (Some \<circ> JStr) (resolveText vars fixtures s))"
| "interpolateJson vars fixtures nativeVars (JArr xs) =
     map_sum id (Some \<circ> array_json) (all_right (map (interpolateJson vars fixtures nativeVars) xs))"
| "interpolateJson vars fixtures nativeVars (JObj kvs) =
     map_sum id (Some \<circ> object_json)
       (all_right (map (\<lambda>(k, v). map_sum id (Pair k) (interpolateJson vars fixtures nativeVars v)) kvs))"
| "interpolateJson vars fixtures nativeVars v = Inr (Some v)"

record http_request =
  rq_method :: string
  rq_path :: string
  rq_headers :: "(string \<times> string) list option"
  rq_body :: "string option"
  rq_json :: "json option"

definition traverse_option :: "('a \<Rightarrow> 'e + 'b) \<Rightarrow> 'a option \<Rightarrow> 'e + 'b option" where
  "traverse_option f x = (case x of None \<Rightarrow> Inr None | Some a \<Rightarrow> map_sum id Some (f a))"

definition map_values :: "('a \<Rightarrow> 'e + 'b) \<Rightarrow> (string \<times> 'a) list \<Rightarrow> 'e + (string \<times> 'b) list" where
  "map_values f kvs = all_right (map (\<lambda>(k, v). map_sum id (Pair k) (f v)) kvs)"

definition interpolateRequest ::
    "vars \<Rightarrow> vars \<Rightarrow> fixtures \<Rightarrow> (string \<Rightarrow> json option) \<Rightarrow> http_request \<Rightarrow> token_error + http_request" where
  "interpolateRequest vars credentials fixtures nativeVars req =
     (case resolveText vars fixtures (rq_path req) of Inl e \<Rightarrow> Inl e | Inr path \<Rightarrow>
      (case traverse_option (map_values (resolveHeaderValue vars credentials fixtures)) (rq_headers req) of
         Inl e \<Rightarrow> Inl e | Inr headers \<Rightarrow>
      (case traverse_option (resolveText vars fixtures) (rq_body req) of Inl e \<Rightarrow> Inl e | Inr body \<Rightarrow>
      (case traverse_option (interpolateJson vars fixtures nativeVars) (rq_json req) of Inl e \<Rightarrow> Inl e | Inr js \<Rightarrow>
         Inr (req\<lparr>rq_path := path, rq_headers := headers, rq_body := body,
                   rq_json := (case js of None \<Rightarrow> None | Some j \<Rightarrow> j)\<rparr>)))))"

subsection \<open>The tokens of a sandbox scenario\<close>

definition SANDBOX_TOKEN :: string where
  "SANDBOX_TOKEN = ''${sandbox}''"

definition applyUnique :: "string \<Rightarrow> string \<Rightarrow> string" where
  "applyUnique text unique = replace_all ''${unique}'' unique text"

definition applySandbox :: "string \<Rightarrow> string \<Rightarrow> string" where
  "applySandbox text cwd = replace_all SANDBOX_TOKEN cwd text"

definition capturedTokenRefs :: "string \<Rightarrow> string list" where
  "capturedTokenRefs text = js_set (tokens captured_at text)"

text \<open>Every reference in a value, keys of objects included, in the order they are first seen.\<close>

fun strings_in :: "json \<Rightarrow> string list" where
  "strings_in (JStr s) = [s]"
| "strings_in (JArr xs) = concat (map strings_in xs)"
| "strings_in (JObj kvs) = concat (map (\<lambda>(k, v). k # strings_in v) kvs)"
| "strings_in v = []"

definition capturedNamesIn :: "json \<Rightarrow> string list" where
  "capturedNamesIn v = js_set (concat (map capturedTokenRefs (strings_in v)))"

text \<open>\<open>applyCaptured\<close>, name by name over the text as it stands. On the left, the \<open>CapturedValueError\<close>.\<close>

fun apply_refs :: "vars \<Rightarrow> string list \<Rightarrow> string \<Rightarrow> string + string" where
  "apply_refs values [] out = Inr out"
| "apply_refs values (name # names) out =
     (case values name of
        None \<Rightarrow> Inl name
      | Some v \<Rightarrow> apply_refs values names (replace_all (''${captured:'' @ name @ ''}'') v out))"

definition applyCaptured :: "vars \<Rightarrow> string \<Rightarrow> string + string" where
  "applyCaptured values text =
     (if \<not> js_includes ''${captured:'' text then Inr text
      else apply_refs values (capturedTokenRefs text) text)"

definition applyCapturedEnv :: "vars \<Rightarrow> (string \<times> string) list \<Rightarrow> string + (string \<times> string) list" where
  "applyCapturedEnv values env = map_values (applyCaptured values) env"

subsection \<open>What a string resolves to\<close>

definition missing_ref :: "vars \<Rightarrow> string lexeme \<Rightarrow> bool" where
  "missing_ref vars l \<longleftrightarrow> (case l of Tok n t \<Rightarrow> vars n = None | Lit c \<Rightarrow> False)"

definition filled :: "vars \<Rightarrow> string lexeme \<Rightarrow> string" where
  "filled vars l = (case l of Tok n t \<Rightarrow> the (vars n) | Lit c \<Rightarrow> [c])"

lemma lexeme_fill [simp]:
  "missing_ref vars (Tok n t) \<longleftrightarrow> vars n = None" "\<not> missing_ref vars (Lit c)"
  "filled vars (Tok n t) = the (vars n)" "filled vars (Lit c) = [c]"
  by (simp_all add: missing_ref_def filled_def)

text \<open>A weave whose tokens all fail or succeed by their meaning fails at the first that has no value.\<close>

lemma weave_first_missing:
  "weave (\<lambda>n t. case vars n of None \<Rightarrow> Inl (err n t) | Some v \<Rightarrow> Inr v) Inr seg ls =
     (case find (missing_ref vars) ls of
        None \<Rightarrow> Inr (seg @ concat (map (filled vars) ls))
      | Some l \<Rightarrow> (case l of Tok n t \<Rightarrow> Inl (err n t) | Lit c \<Rightarrow> Inr []))"
proof (induction ls arbitrary: seg)
  case (Cons l ls)
  show ?case
  proof (cases l)
    case (Tok n t)
    show ?thesis
    proof (cases "vars n")
      case (Some v)
      then show ?thesis
        using Cons.IH [of "[]"] by (auto simp: Tok split: option.splits lexeme.splits dest: find_Some_mem)
    qed (simp add: Tok)
  next
    case (Lit c)
    then show ?thesis by (simp add: Cons.IH split: option.split)
  qed
qed simp


subsection \<open>A secret goes where it is named\<close>

lemma placeholder_at_swap: "placeholder_at [KCred, KFixture] = placeholder_at [KFixture, KCred]"
  by (rule ext) (auto simp: placeholder_at_def starts_with_append Let_def)

lemma resolveHeaderValue_named:
  assumes "\<And>n. n \<in> set (snd (placeholderNames template)) \<Longrightarrow> credentials n = credentials' n"
  shows "resolveHeaderValue vars credentials fixtures template
    = resolveHeaderValue vars credentials' fixtures template"
proof -
  have "credentials n = credentials' n"
    if "(KCred, n) \<in> set (meanings (lex (placeholder_at [KCred, KFixture]) template))" for n
  proof (rule assms)
    have "(KCred, n) \<in> set (tokens (placeholder_at [KFixture, KCred]) template)"
      using that by (simp add: tokens_def placeholder_at_swap)
    then show "n \<in> set (snd (placeholderNames template))"
      by (force simp: placeholderNames_def Let_def)
  qed
  then show ?thesis
    by (auto simp: resolveHeaderValue_def resolvePlaceholders_def substitutePlaceholders_def
        intro!: weave_cong split: placeholder_kind.splits)
qed

definition secrets_named :: "http_request \<Rightarrow> string set" where
  "secrets_named req =
     (case rq_headers req of
        None \<Rightarrow> {} | Some hs \<Rightarrow> \<Union> (set (map (\<lambda>h. set (snd (placeholderNames (snd h)))) hs)))"

lemma map_values_cong:
  "(\<And>kv. kv \<in> set kvs \<Longrightarrow> f (snd kv) = g (snd kv)) \<Longrightarrow> map_values f kvs = map_values g kvs"
  unfolding map_values_def by (rule arg_cong [where f = all_right]) (auto intro!: map_cong)

text \<open>C38: A secret reaches only what asks for it by name: the request a scenario sends depends on no
  credential but those its header templates name, whatever the captured values, fixtures and body
  contain; a captured value cannot ask for one.\<close>

theorem secrets_go_where_named:
  assumes "\<And>n. n \<in> secrets_named req \<Longrightarrow> credentials n = credentials' n"
  shows "interpolateRequest vars credentials fixtures nativeVars req
    = interpolateRequest vars credentials' fixtures nativeVars req"
proof -
  have "traverse_option (map_values (resolveHeaderValue vars credentials fixtures)) (rq_headers req)
      = traverse_option (map_values (resolveHeaderValue vars credentials' fixtures)) (rq_headers req)"
  proof (cases "rq_headers req")
    case (Some hs)
    have "map_values (resolveHeaderValue vars credentials fixtures) hs
        = map_values (resolveHeaderValue vars credentials' fixtures) hs"
      by (intro map_values_cong resolveHeaderValue_named assms) (auto simp: secrets_named_def Some)
    then show ?thesis by (simp add: traverse_option_def Some)
  qed (simp add: traverse_option_def)
  then show ?thesis unfolding interpolateRequest_def by (simp cong: sum.case_cong)
qed

definition demo_request :: http_request where
  "demo_request =
     \<lparr>rq_method = ''GET'', rq_path = ''/a/${id}'', rq_headers = Some [(''x-key'', ''k {{cred:key}}'')],
      rq_body = None, rq_json = None\<rparr>"

theorem secrets_go_where_named_witness:
  "interpolateRequest [''id'' \<mapsto> ''{{cred:other}}''] [''key'' \<mapsto> ''s'', ''other'' \<mapsto> ''secret''] Map.empty Map.empty
     demo_request
   = interpolateRequest [''id'' \<mapsto> ''{{cred:other}}''] [''key'' \<mapsto> ''s''] Map.empty Map.empty demo_request"
proof (rule secrets_go_where_named)
  fix n assume "n \<in> secrets_named demo_request"
  moreover have "secrets_named demo_request = {''key''}"
    by (simp add: secrets_named_def demo_request_def placeholderNames_def tokens_def placeholder_at_def
        starts_with_def no_brace_def image_iff Let_def) auto
  ultimately show "[''key'' \<mapsto> ''s'', ''other'' \<mapsto> ''secret''] n = [''key'' \<mapsto> ''s''] n" by simp
qed

subsection \<open>Captured values\<close>

lemma apply_refs_error: "apply_refs vals names out = Inl n \<longleftrightarrow> find (\<lambda>n. vals n = None) names = Some n"
  by (induction vals names out rule: apply_refs.induct) (auto split: option.split)

lemma no_captured_at: "\<not> js_includes ''${captured:'' s \<Longrightarrow> tokens captured_at s = []"
proof (induction s)
  case (Cons c cs)
  then have "\<not> starts_with ''${captured:'' (c # cs)" "\<not> js_includes ''${captured:'' cs"
    by (auto simp: js_includes_def split: if_splits)
  with Cons.IH show ?case by (simp add: tokens_def captured_at_def)
qed (simp add: tokens_def)

lemma applyCaptured_error:
  "applyCaptured vals str = Inl n \<longleftrightarrow> find (\<lambda>n. vals n = None) (capturedTokenRefs str) = Some n"
  using no_captured_at [of str]
  by (auto simp: applyCaptured_def apply_refs_error capturedTokenRefs_def)

lemma applyCaptured_ok:
  assumes "\<And>n. n \<in> set (capturedTokenRefs str) \<Longrightarrow> vals n \<noteq> None"
  shows "\<exists>out. applyCaptured vals str = Inr out"
proof (cases "applyCaptured vals str")
  case (Inl n)
  then have "n \<in> set (capturedTokenRefs str) \<and> vals n = None"
    unfolding applyCaptured_error by (rule find_Some_mem)
  then show ?thesis using assms by blast
qed simp

text \<open>A captured value is scanned again: in a text with two references, a program that prints the
  second reference as the value of the first makes the text expand it.\<close>

theorem captured_value_rescanned:
  "applyCaptured [''a'' \<mapsto> ''${captured:b}'', ''b'' \<mapsto> ''B''] ''${captured:a} ${captured:b}'' = Inr ''B B''"
  by (simp add: applyCaptured_def js_includes_def starts_with_def capturedTokenRefs_def tokens_def captured_at_def
      ident_close_def ident_char_def digit_def replace_all_def js_split.simps Let_def)

end
