(* ===== verification/CaptureRules.thy ===== *)
theory CaptureRules
  imports GuardTokens
begin

text \<open>
  The capture rules of a scenario: \<open>captureDefects\<close> and \<open>guardExecutionSteps\<close> of
  \<open>packages/shared/src/guard/scenario.ts\<close>, the step predicates and capture names of \<open>cli-steps.ts\<close>,
  \<open>api-steps.ts\<close> and \<open>web-steps.ts\<close>, and \<open>crossCheckCaptureRefs\<close> of
  \<open>packages/guard-runner/src/capture-refs.ts\<close>.

  A step is the JSON object the schema admitted. A defect is what its message says; the wording is not
  modelled.
\<close>

subsection \<open>Steps\<close>

type_synonym step = json_object

definition has_key :: "string \<Rightarrow> step \<Rightarrow> bool" where
  "has_key k step \<longleftrightarrow> map_of step k \<noteq> None"

text \<open>\<open>Object.keys(step.field ?? {})\<close>.\<close>

definition field_keys :: "string \<Rightarrow> step \<Rightarrow> string list" where
  "field_keys k step = (case map_of step k of Some (JObj kvs) \<Rightarrow> map fst kvs | _ \<Rightarrow> [])"

definition isWebStep :: "step \<Rightarrow> bool" where
  "isWebStep step \<longleftrightarrow> map_of step ''driver'' = Some (JStr ''web'')"

definition isApiRequestStep :: "step \<Rightarrow> bool" where
  "isApiRequestStep step \<longleftrightarrow> has_key ''request'' step"

definition isApiStep :: "step \<Rightarrow> bool" where
  "isApiStep step \<longleftrightarrow>
     isApiRequestStep step \<or> has_key ''boot'' step \<or> has_key ''signal'' step \<or> has_key ''logs'' step"

definition isProcessStep :: "step \<Rightarrow> bool" where
  "isProcessStep step \<longleftrightarrow> has_key ''run'' step \<or> has_key ''git'' step"

definition webStepCaptureNames :: "step \<Rightarrow> string list" where
  "webStepCaptureNames step = field_keys ''capture'' step"

definition apiStepCaptureNames :: "step \<Rightarrow> string list" where
  "apiStepCaptureNames step =
     (if isApiRequestStep step then field_keys ''capture'' step @ field_keys ''captureHeaders'' step else [])"

definition cliStepCaptureNames :: "step \<Rightarrow> string list" where
  "cliStepCaptureNames step = (if isProcessStep step then field_keys ''capture'' step else [])"

definition stepCaptureNames :: "step \<Rightarrow> string list" where
  "stepCaptureNames step =
     (if isWebStep step then webStepCaptureNames step
      else if isApiStep step then apiStepCaptureNames step
      else cliStepCaptureNames step)"

record guard_scenario =
  gs_steps :: "step list"
  gs_teardown :: "step list option"
  gs_setup :: "json_object option"

definition guardExecutionSteps :: "guard_scenario \<Rightarrow> step list" where
  "guardExecutionSteps s = (case gs_teardown s of Some t \<Rightarrow> gs_steps s @ t | None \<Rightarrow> gs_steps s)"

definition isApiServerScenario :: "guard_scenario \<Rightarrow> bool" where
  "isApiServerScenario s \<longleftrightarrow> list_all isApiStep (guardExecutionSteps s)"

subsection \<open>Defects\<close>

datatype capture_defect =
    SetupReference string
  | SelfReference nat string
  | NoEarlierCapture nat string "string list"
  | CapturedTwice nat string
  | CapturedAgain nat string nat

type_synonym captured = "(string \<times> nat) list"

definition reference_defects :: "nat \<Rightarrow> string list \<Rightarrow> captured \<Rightarrow> string \<Rightarrow> capture_defect list" where
  "reference_defects stepNumber declares captured name =
     (if name \<in> set (map fst captured) then []
      else if name \<in> set declares then [SelfReference stepNumber name]
      else [NoEarlierCapture stepNumber name (map fst captured)])"

definition assign_name ::
    "nat \<Rightarrow> capture_defect list \<times> captured \<Rightarrow> string \<Rightarrow> capture_defect list \<times> captured" where
  "assign_name stepNumber acc name =
     (case acc of (defects, captured) \<Rightarrow>
        (case map_of captured name of
           Some prior \<Rightarrow>
             (defects @ [if prior = stepNumber then CapturedTwice stepNumber name
                         else CapturedAgain stepNumber name prior], captured)
         | None \<Rightarrow> (defects, captured @ [(name, stepNumber)])))"

definition check_step ::
    "capture_defect list \<times> captured \<Rightarrow> nat \<times> step \<Rightarrow> capture_defect list \<times> captured" where
  "check_step acc ns =
     (case (acc, ns) of ((defects, captured), (stepNumber, step)) \<Rightarrow>
        foldl (assign_name stepNumber)
          (defects @ concat (map (reference_defects stepNumber (stepCaptureNames step) captured)
                               (capturedNamesIn (JObj step))), captured)
          (stepCaptureNames step))"

definition captureDefects :: "step list \<Rightarrow> json_object option \<Rightarrow> capture_defect list" where
  "captureDefects steps setup =
     fst (foldl check_step
            (map SetupReference (capturedNamesIn (JObj (case setup of None \<Rightarrow> [] | Some s \<Rightarrow> s))), [])
            (zip [1..<Suc (length steps)] steps))"

text \<open>One load error per defect of each scenario of the corpus.\<close>

definition crossCheckCaptureRefs ::
    "(guard_scenario \<times> string) list \<Rightarrow> (string \<times> capture_defect) list" where
  "crossCheckCaptureRefs scenarios =
     concat (map (\<lambda>(s, file). map (Pair file) (captureDefects (guardExecutionSteps s) (gs_setup s))) scenarios)"

subsection \<open>What a scenario without a defect has\<close>

text \<open>The rules, said at once: nothing in the setup, every reference of a step to a name an earlier step
  captures, every name captured once.\<close>

definition names_before :: "step list \<Rightarrow> nat \<Rightarrow> string list" where
  "names_before steps i = concat (map stepCaptureNames (take i steps))"

definition captures_in_order :: "step list \<Rightarrow> json_object option \<Rightarrow> bool" where
  "captures_in_order steps setup \<longleftrightarrow>
     capturedNamesIn (JObj (case setup of None \<Rightarrow> [] | Some s \<Rightarrow> s)) = [] \<and>
     (\<forall>i<length steps. set (capturedNamesIn (JObj (steps ! i))) \<subseteq> set (names_before steps i)) \<and>
     distinct (names_before steps (length steps))"

lemma reference_defects_none: "reference_defects n ds captured name = [] \<longleftrightarrow> name \<in> set (map fst captured)"
  by (simp add: reference_defects_def)

lemma assign_step:
  "assign_name n (ds, captured) name =
     (if name \<in> set (map fst captured)
      then (ds @ [if map_of captured name = Some n then CapturedTwice n name
                  else CapturedAgain n name (the (map_of captured name))], captured)
      else (ds, captured @ [(name, n)]))"
  by (auto simp: assign_name_def map_of_eq_None_iff split: option.split) (force dest: map_of_SomeD)+

lemma assign_grows: "ds \<noteq> [] \<Longrightarrow> fst (foldl (assign_name n) (ds, captured) names) \<noteq> []"
  by (induction names arbitrary: ds captured) (simp_all add: assign_step)

lemma assign_names:
  "fst (foldl (assign_name n) (ds, captured) names) = [] \<longleftrightarrow>
     ds = [] \<and> distinct names \<and> set names \<inter> set (map fst captured) = {}"
proof (induction names arbitrary: ds captured)
  case (Cons name names)
  show ?case
  proof (cases "name \<in> set (map fst captured)")
    case True
    then show ?thesis by (auto simp: assign_step assign_grows)
  next
    case False
    then show ?thesis using Cons.IH [of ds "captured @ [(name, n)]"] by (auto simp: assign_step)
  qed
qed simp

lemma assigned:
  "distinct names \<Longrightarrow> set names \<inter> set (map fst captured) = {} \<Longrightarrow>
     foldl (assign_name n) (ds, captured) names = (ds, captured @ map (\<lambda>k. (k, n)) names)"
  by (induction names arbitrary: captured) (auto simp: assign_step)

lemma check_step_grows: "ds \<noteq> [] \<Longrightarrow> fst (foldl check_step (ds, c) steps) \<noteq> []"
proof (induction steps arbitrary: ds c)
  case (Cons st steps)
  obtain n s where st: "st = (n, s)" by fastforce
  have "fst (check_step (ds, c) st) \<noteq> []"
    using Cons.prems by (simp add: check_step_def st assign_grows)
  with Cons.IH show ?case by (cases "check_step (ds, c) st") simp
qed simp

lemma check_steps:
  assumes "map fst captured = ns" "distinct ns"
  shows "fst (foldl check_step ([], captured) (zip [k..<k + length steps] steps)) = [] \<longleftrightarrow>
    (\<forall>i<length steps. set (capturedNamesIn (JObj (steps ! i))) \<subseteq> set ns \<union> set (names_before steps i)) \<and>
    distinct (ns @ names_before steps (length steps))"
  using assms
proof (induction steps arbitrary: captured ns k)
  case (Cons st steps)
  let ?names = "stepCaptureNames st"
  let ?refs = "concat (map (reference_defects k ?names captured) (capturedNamesIn (JObj st)))"
  have z: "zip [k..<k + length (st # steps)] (st # steps) = (k, st) # zip [Suc k..<Suc k + length steps] steps"
    by (simp add: upt_conv_Cons del: upt_Suc)
  have refs: "?refs = [] \<longleftrightarrow> set (capturedNamesIn (JObj st)) \<subseteq> set ns"
    using Cons.prems(1) by (auto simp: reference_defects_none)
  have split_i: "(\<forall>i<length (st # steps). Q i) \<longleftrightarrow> Q 0 \<and> (\<forall>i<length steps. Q (Suc i))" for Q
    by (auto simp: less_Suc_eq_0_disj)
  show ?case
  proof (cases "?refs = [] \<and> distinct (ns @ ?names)")
    case True
    then have "?refs = []" "distinct ?names" "set ?names \<inter> set (map fst captured) = {}"
      using Cons.prems by auto
    then have "check_step ([], captured) (k, st) = ([], captured @ map (\<lambda>x. (x, k)) ?names)"
      unfolding check_step_def prod.case append_Nil by (simp only: assigned)
    moreover have "map fst (captured @ map (\<lambda>x. (x, k)) ?names) = ns @ ?names"
      using Cons.prems(1) by (simp add: comp_def)
    ultimately show ?thesis
      using Cons.IH [of "captured @ map (\<lambda>x. (x, k)) ?names" "ns @ ?names" "Suc k"] True refs
      unfolding z split_i by (simp add: names_before_def Un_assoc)
  next
    case False
    then have "fst (check_step ([], captured) (k, st)) \<noteq> []"
      using Cons.prems by (auto simp: check_step_def assign_names)
    then have "fst (foldl check_step ([], captured) (zip [k..<k + length (st # steps)] (st # steps))) \<noteq> []"
      unfolding z using check_step_grows by (cases "check_step ([], captured) (k, st)") simp
    moreover have "\<not> (set (capturedNamesIn (JObj st)) \<subseteq> set ns \<and> distinct (ns @ ?names))"
      using False refs by blast
    ultimately show ?thesis
      unfolding split_i by (auto simp: names_before_def)
  qed
qed (simp add: names_before_def)

lemma captureDefects_iff: "captureDefects steps setup = [] \<longleftrightarrow> captures_in_order steps setup"
proof (cases "capturedNamesIn (JObj (case setup of None \<Rightarrow> [] | Some s \<Rightarrow> s))")
  case Nil
  have "zip [1..<Suc (length steps)] steps = zip [1..<1 + length steps] steps"
    by simp
  then show ?thesis
    using check_steps [of "[]" "[]" 1 steps] Nil
    by (simp add: captureDefects_def captures_in_order_def)
next
  case (Cons n ns)
  then show ?thesis
    using check_step_grows by (simp add: captureDefects_def captures_in_order_def)
qed

text \<open>The load check finds a defect exactly when a rule is broken: no defect is reported if and only
  if the setup refers to no captured value, every step refers only to names that steps before it
  capture, and no name is captured twice.\<close>

theorem capture_check_exact:
  "captureDefects steps setup = [] \<longleftrightarrow>
     capturedNamesIn (JObj (case setup of None \<Rightarrow> [] | Some s \<Rightarrow> s)) = [] \<and>
     list_all (\<lambda>i. set (capturedNamesIn (JObj (steps ! i))) \<subseteq> set (names_before steps i)) [0..<length steps] \<and>
     distinct (names_before steps (length steps))"
  unfolding captureDefects_iff captures_in_order_def by (simp add: list_all_iff Ball_def)

subsection \<open>No reference is left open in a run\<close>

lemma refs_of_string:
  "str \<in> set (strings_in v) \<Longrightarrow> n \<in> set (capturedTokenRefs str) \<Longrightarrow> n \<in> set (capturedNamesIn v)"
  by (auto simp: capturedNamesIn_def)

text \<open>C40: What the load check admits runs: in a scenario without a defect, a step whose predecessors have
  published what they capture resolves every string it carries; no captured reference is left open.\<close>

theorem checked_references_resolve:
  assumes "captureDefects steps setup = []" and "i < length steps"
    and "set (names_before steps i) \<subseteq> dom vals" and "str \<in> set (strings_in (JObj (steps ! i)))"
  shows "\<exists>out. applyCaptured vals str = Inr out"
proof (rule applyCaptured_ok)
  fix n assume "n \<in> set (capturedTokenRefs str)"
  with assms(4) have "n \<in> set (capturedNamesIn (JObj (steps ! i)))"
    by (rule refs_of_string)
  moreover have "captures_in_order steps setup"
    using assms(1) by (simp add: captureDefects_iff)
  ultimately show "vals n \<noteq> None"
    using assms(2,3) unfolding captures_in_order_def by blast
qed

text \<open>A command prints an id, the next one takes it.\<close>

definition demo_steps :: "step list" where
  "demo_steps =
     [[(''run'', JArr [JStr ''make'']), (''capture'', JObj [(''id'', JStr ''p'')])],
      [(''run'', JArr [JStr ''show'', JStr ''${captured:id}''])]]"

lemma demo_refs:
  "capturedTokenRefs ''${captured:id}'' = [''id'']" "capturedTokenRefs ''run'' = []"
  "capturedTokenRefs ''make'' = []" "capturedTokenRefs ''show'' = []" "capturedTokenRefs ''capture'' = []"
  "capturedTokenRefs ''id'' = []" "capturedTokenRefs ''p'' = []"
  by (simp_all add: capturedTokenRefs_def tokens_def captured_at_def starts_with_def ident_close_def
      ident_char_def digit_def Let_def)

theorem checked_references_resolve_witness:
  "captureDefects demo_steps None = []
   \<and> (\<exists>out. applyCaptured [''id'' \<mapsto> ''7''] ''${captured:id}'' = Inr out)"
proof -
  have names: "map stepCaptureNames demo_steps = [[''id''], []]"
    by (simp add: demo_steps_def stepCaptureNames_def isWebStep_def isApiStep_def isApiRequestStep_def has_key_def
        cliStepCaptureNames_def isProcessStep_def field_keys_def)
  have refs: "map (\<lambda>s. capturedNamesIn (JObj s)) demo_steps = [[], [''id'']]"
    by (simp add: demo_steps_def capturedNamesIn_def demo_refs)
  have len: "length demo_steps = 2"
    by (simp add: demo_steps_def)
  have "names_before demo_steps i = concat (take i [[''id''], []])" for i
    by (simp only: names_before_def take_map [symmetric] names)
  moreover have "capturedNamesIn (JObj (demo_steps ! i)) = [[], [''id'']] ! i" if "i < 2" for i
    using that len nth_map [of i demo_steps "\<lambda>s. capturedNamesIn (JObj s)"] unfolding refs by simp
  ultimately have ok: "captureDefects demo_steps None = []"
    unfolding captureDefects_iff captures_in_order_def len
    by (auto simp: capturedNamesIn_def less_2_cases_iff)
  have "set (names_before demo_steps 1) \<subseteq> dom [''id'' \<mapsto> ''7'']"
    using names by (simp add: names_before_def demo_steps_def)
  moreover have "''${captured:id}'' \<in> set (strings_in (JObj (demo_steps ! 1)))"
    by (simp add: demo_steps_def)
  ultimately show ?thesis
    using ok checked_references_resolve [OF ok, of 1 "[''id'' \<mapsto> ''7'']" "''${captured:id}''"] len by auto
qed

end
