(* ===== verification/Redaction.thy ===== *)
theory Redaction
  imports JsText
begin

text \<open>
  Keeping secrets out of evidence: \<open>buildCredentialRedactor\<close> of
  \<open>packages/guard-runner/src/api/redact.ts\<close>, and the walk of
  \<open>packages/guard-runner/src/redact-evidence.ts\<close> over what is written.

  The pattern the program builds is an alternation, tried in order at each place: an existing marker,
  then the needles, longest first. Escaping the needles makes each of them match itself, so the
  alternation is a token reader.
\<close>

subsection \<open>Needles and masks\<close>

definition mask_text :: "string \<Rightarrow> string \<Rightarrow> string" where
  "mask_text kind label = CHR 0xAB # kind @ '':'' @ label @ [CHR 0xBB]"

text \<open>\<open>split(/\r?\n/)\<close>.\<close>

fun split_lines :: "string \<Rightarrow> string list" where
  "split_lines [] = [[]]"
| "split_lines (c # cs) =
     (if c = CHR 0x0A then [] # split_lines cs
      else if c = CHR 0x0D \<and> starts_with [CHR 0x0A] cs then [] # split_lines (tl cs)
      else (case split_lines cs of l # ls \<Rightarrow> (c # l) # ls | [] \<Rightarrow> [[c]]))"

definition json_inner :: "string \<Rightarrow> string" where
  "json_inner s = concat (map json_escape s)"

text \<open>\<open>JSON.stringify(value).slice(1, -1)\<close> is the text between the quotes.\<close>

lemma json_inner_slice: "butlast (tl (json_stringify (JStr s))) = json_inner s"
  by (simp add: json_quote_def json_inner_def)

definition needles_of :: "string \<Rightarrow> string \<Rightarrow> (string \<times> string) list" where
  "needles_of val msk =
     (if val = [] then []
      else (val, msk)
        # map (\<lambda>line. (line, msk)) (filter (\<lambda>line. line \<noteq> [] \<and> line \<noteq> val) (split_lines val))
        @ (if json_inner val = val then [] else [(json_inner val, msk)]))"

definition all_needles :: "(string \<times> string) list \<Rightarrow> (string \<times> string) list \<Rightarrow> (string \<times> string) list" where
  "all_needles credentials externals =
     concat (map (\<lambda>(name, val). needles_of val (mask_text ''cred'' name)) credentials)
     @ concat (map (\<lambda>(label, val). needles_of val (mask_text ''external'' label)) externals)"

text \<open>The masks by needle, longest needle first; a needle keeps the first mask it was given.\<close>

definition first_masks :: "(string \<times> string) list \<Rightarrow> (string \<times> string) list" where
  "first_masks ns = foldl (\<lambda>m (needle, msk). if map_of m needle = None then m @ [(needle, msk)] else m) [] ns"

definition longest_first :: "(string \<times> string) list \<Rightarrow> (string \<times> string) list" where
  "longest_first ns = sort_key (\<lambda>n. - int (length (fst n))) ns"

definition build_masks :: "(string \<times> string) list \<Rightarrow> (string \<times> string) list \<Rightarrow> (string \<times> string) list" where
  "build_masks credentials externals = first_masks (longest_first (all_needles credentials externals))"

subsection \<open>The redactor\<close>

definition marker_char :: "char \<Rightarrow> bool" where
  "marker_char c \<longleftrightarrow> c \<notin> {CHR 0xAB, CHR 0xBB, CHR 0x0D, CHR 0x0A}"

text \<open>An existing marker: its length after the first character.\<close>

definition marker_at :: "string \<Rightarrow> nat option" where
  "marker_at s =
     (case filter (\<lambda>p. starts_with p s) [CHR 0xAB # ''cred:'', CHR 0xAB # ''external:''] of
        [] \<Rightarrow> None
      | p # _ \<Rightarrow>
          (let body = takeWhile marker_char (drop (length p) s)
           in if body \<noteq> [] \<and> starts_with [CHR 0xBB] (drop (length p + length body) s)
              then Some (length p + length body) else None))"

definition secret_at :: "(string \<times> string) list \<Rightarrow> string \<Rightarrow> (string \<times> nat) option" where
  "secret_at masks s =
     (case marker_at s of
        Some n \<Rightarrow>
          (let m = take (Suc n) s in Some (case map_of masks m of Some msk \<Rightarrow> msk | None \<Rightarrow> m, n))
      | None \<Rightarrow>
          (case find (\<lambda>nm. starts_with (fst nm) s) masks of
             Some (needle, msk) \<Rightarrow> Some (msk, length needle - 1)
           | None \<Rightarrow> None))"

fun masked :: "string lexeme \<Rightarrow> string" where
  "masked (Lit c) = [c]"
| "masked (Tok msk t) = msk"

definition buildCredentialRedactor ::
    "(string \<times> string) list \<Rightarrow> (string \<times> string) list \<Rightarrow> string \<Rightarrow> string" where
  "buildCredentialRedactor credentials externals text =
     (let masks = build_masks credentials externals
      in if masks = [] then text else concat (map masked (lex (secret_at masks) text)))"

subsection \<open>The walk over evidence\<close>

definition contentFields :: "string set" where
  "contentFields = set
     [''expected'', ''actual'', ''detail'', ''stdout'', ''stderr'', ''rawStdout'', ''rawStderr'', ''normStdout'',
      ''normStderr'', ''spawnError'', ''infraMessage'', ''endedAtMarker'', ''argv'', ''stdin'', ''env'',
      ''envPins'', ''captured'', ''command'', ''expectation'', ''url'', ''visibleText'', ''console'',
      ''requestBody'', ''requestError'', ''body'', ''screenSummary'', ''summary'', ''rationale'']"

fun redactContent :: "(string \<Rightarrow> string) \<Rightarrow> bool \<Rightarrow> json \<Rightarrow> json" where
  "redactContent redact content (JStr s) = JStr (if content then redact s else s)"
| "redactContent redact content (JArr xs) = JArr (map (redactContent redact content) xs)"
| "redactContent redact content (JObj kvs) =
     JObj (map (\<lambda>(k, v). (k, redactContent redact (content \<or> k \<in> contentFields) v)) kvs)"
| "redactContent redact content v = v"

definition redactScenarioResult :: "(string \<Rightarrow> string) \<Rightarrow> json_object \<Rightarrow> json_object" where
  "redactScenarioResult redact result =
     (case map_of result ''failure'' of
        None \<Rightarrow> result
      | Some f \<Rightarrow> AList.update ''failure'' (redactContent redact False f) result)"

subsection \<open>Every secret is a needle\<close>

lemma sort_key_set [simp]: "set (longest_first ns) = set ns"
  by (simp add: longest_first_def)

lemma first_masks_keys: "set (map fst (first_masks ns)) = set (map fst ns)"
proof (induction ns rule: rev_induct)
  case (snoc n ns)
  obtain needle msk where n: "n = (needle, msk)" by fastforce
  have "map_of (first_masks ns) needle = None \<longleftrightarrow> needle \<notin> set (map fst (first_masks ns))"
    by (simp add: map_of_eq_None_iff)
  then show ?case
    using snoc.IH by (auto simp: first_masks_def n)
qed (simp add: first_masks_def)

definition secret_forms :: "(string \<times> string) list \<Rightarrow> string set" where
  "secret_forms secrets =
     {n. \<exists>(label, val)\<in>set secrets. val \<noteq> [] \<and>
        (n = val \<or> n = json_inner val \<or> n \<in> set (split_lines val) \<and> n \<noteq> [])}"

lemma needle_keys:
  "map fst (needles_of v m) =
     (if v = [] then []
      else v # filter (\<lambda>line. line \<noteq> [] \<and> line \<noteq> v) (split_lines v)
        @ (if json_inner v = v then [] else [json_inner v]))"
  by (simp add: needles_of_def comp_def)

lemma needle_keys_set:
  "n \<in> set (map fst (needles_of v m)) \<longleftrightarrow>
     v \<noteq> [] \<and> (n = v \<or> n = json_inner v \<or> n \<in> set (split_lines v) \<and> n \<noteq> [])"
  unfolding needle_keys by (cases "json_inner v = v"; cases "v = []"; simp; blast)

lemma needles_of_secrets:
  "n \<in> set (map fst (concat (map (\<lambda>(l, v). needles_of v (f l)) secrets))) \<longleftrightarrow> n \<in> secret_forms secrets"
proof (induction secrets)
  case (Cons s secrets)
  obtain l v where s: "s = (l, v)" by fastforce
  have "n \<in> set (map fst (concat (map (\<lambda>(l, v). needles_of v (f l)) (s # secrets)))) \<longleftrightarrow>
      n \<in> set (map fst (needles_of v (f l))) \<or> n \<in> secret_forms secrets"
    using Cons.IH by (simp add: s image_Un)
  also have "\<dots> \<longleftrightarrow> n \<in> secret_forms (s # secrets)"
    unfolding needle_keys_set secret_forms_def s by simp
  finally show ?case .
qed (simp add: secret_forms_def)

lemma needles_are_forms:
  "set (map fst (all_needles credentials externals)) = secret_forms credentials \<union> secret_forms externals"
  by (rule set_eqI) (simp only: all_needles_def map_append set_append Un_iff needles_of_secrets)

subsection \<open>No secret is left between two masks\<close>

text \<open>The stretches of a lexed text that no token covers.\<close>

fun stretches :: "string \<Rightarrow> 'm lexeme list \<Rightarrow> string list" where
  "stretches seg [] = [seg]"
| "stretches seg (Lit c # ls) = stretches (seg @ [c]) ls"
| "stretches seg (Tok m t # ls) = seg # stretches [] ls"

text \<open>The first stretch of a text is a prefix of it, and no token starts in it.\<close>

definition token_free :: "(string \<Rightarrow> ('m \<times> nat) option) \<Rightarrow> string \<Rightarrow> string \<Rightarrow> bool" where
  "token_free at seg rest \<longleftrightarrow> (\<forall>u v. seg = u @ v \<longrightarrow> v \<noteq> [] \<longrightarrow> at (v @ rest) = None)"

lemma token_free_snoc:
  assumes "token_free at seg (c # rest)" and "at (c # rest) = None"
  shows "token_free at (seg @ [c]) rest"
  unfolding token_free_def
proof (intro allI impI)
  fix u v assume uv: "seg @ [c] = u @ v" "v \<noteq> []"
  then obtain w where w: "v = w @ [c]" "seg = u @ w"
    by (metis append_butlast_last_id butlast_append butlast_snoc last_appendR last_snoc)
  show "at (v @ rest) = None"
  proof (cases "w = []")
    case False
    then have "at (w @ c # rest) = None"
      using assms(1) w(2) unfolding token_free_def by blast
    then show ?thesis using w(1) by simp
  qed (use assms(2) w in simp)
qed

lemma stretches_free:
  assumes "token_free at seg s" and "seg' \<in> set (stretches seg (lex at s))"
  shows "\<exists>rest. token_free at seg' rest"
  using assms
proof (induction at s arbitrary: seg seg' rule: lex.induct)
  case (2 at c cs)
  show ?case
  proof (cases "at (c # cs)")
    case None
    then have "token_free at (seg @ [c]) cs"
      using 2(3) by (intro token_free_snoc)
    moreover have "seg' \<in> set (stretches (seg @ [c]) (lex at cs))"
      using 2(4) None by simp
    ultimately show ?thesis by (rule 2(1) [OF None])
  next
    case (Some r)
    obtain m n where r: "r = (m, n)" by fastforce
    have fresh: "token_free at [] (drop n cs)"
      by (simp add: token_free_def)
    have "seg' = seg \<or> seg' \<in> set (stretches [] (lex at (drop n cs)))"
      using 2(4) Some r by simp
    then show ?thesis
      using 2(2) [OF Some r [symmetric] fresh] 2(3) by blast
  qed
qed auto

lemma secret_at_needle:
  assumes "n \<in> set (map fst masks)" "starts_with n s"
  shows "secret_at masks s \<noteq> None"
proof (cases "marker_at s")
  case None
  have "find (\<lambda>nm. starts_with (fst nm) s) masks \<noteq> None"
    using assms by (auto simp: find_None_iff)
  then show ?thesis using None by (auto simp: secret_at_def)
qed (simp add: secret_at_def Let_def)

lemma token_free_needle:
  assumes "token_free (secret_at masks) seg rest" and "n \<in> set (map fst masks)" and "n \<noteq> []"
  shows "\<not> js_includes n seg"
proof
  assume "js_includes n seg"
  then obtain u v where seg: "seg = u @ n @ v"
    by (auto simp: js_includes_iff sublist_def)
  have "starts_with n ((n @ v) @ rest)"
    by (auto simp: starts_with_append)
  moreover have "secret_at masks ((n @ v) @ rest) = None"
    using assms(1,3) seg unfolding token_free_def by blast
  ultimately show False
    using secret_at_needle [OF assms(2)] by blast
qed

definition evidence_stretches ::
    "(string \<times> string) list \<Rightarrow> (string \<times> string) list \<Rightarrow> string \<Rightarrow> string list" where
  "evidence_stretches credentials externals text =
     stretches [] (lex (secret_at (build_masks credentials externals)) text)"

text \<open>What the redactor writes is those stretches, with the masks and the old markers between them.\<close>

fun interleave :: "string list \<Rightarrow> string list \<Rightarrow> string" where
  "interleave (s # ss) (m # ms) = s @ m @ interleave ss ms"
| "interleave (s # ss) [] = s"
| "interleave [] ms = []"

lemma interleave_stretches:
  "interleave (stretches seg ls) (meanings ls) = seg @ concat (map masked ls)"
  by (induction seg ls rule: stretches.induct) simp_all

lemma secret_at_no_masks: "secret_at [] s = Some (m, n) \<Longrightarrow> m = take (Suc n) s"
  by (auto simp: secret_at_def Let_def split: option.splits)

lemma masked_no_masks: "concat (map masked (lex (secret_at []) s)) = s"
proof (induction "secret_at []" s rule: lex.induct)
  case (2 c cs)
  show ?case
  proof (cases "secret_at [] (c # cs)")
    case (Some r)
    obtain m n where r: "r = (m, n)" by fastforce
    then have "m = c # take n cs"
      using Some secret_at_no_masks by fastforce
    then show ?thesis
      using 2(2) [OF Some r [symmetric]] Some r by simp
  qed (use 2 in simp)
qed simp

lemma redactor_interleaves:
  "buildCredentialRedactor credentials externals str =
     interleave (evidence_stretches credentials externals str)
       (tokens (secret_at (build_masks credentials externals)) str)"
  by (simp add: evidence_stretches_def tokens_def interleave_stretches buildCredentialRedactor_def Let_def
      masked_no_masks)

lemma json_inner_ne: "v \<noteq> [] \<Longrightarrow> json_inner v \<noteq> []"
proof -
  assume "v \<noteq> []"
  then obtain c cs where v: "v = c # cs" by (cases v) auto
  have "json_escape c \<noteq> []"
    by (simp add: json_escape_def Let_def)
  then show ?thesis by (simp add: json_inner_def v)
qed

lemma secret_forms_ne1: "n \<in> secret_forms a \<Longrightarrow> n \<noteq> []"
proof -
  assume "n \<in> secret_forms a"
  then obtain v where "v \<noteq> []" "n = v \<or> n = json_inner v \<or> n \<in> set (split_lines v) \<and> n \<noteq> []"
    unfolding secret_forms_def by auto
  then show "n \<noteq> []" using json_inner_ne by metis
qed

lemma secret_forms_ne: "n \<in> secret_forms a \<union> secret_forms b \<Longrightarrow> n \<noteq> []"
  using secret_forms_ne1 by blast



text \<open>A secret escaped by its code units is not masked: the redactor looks for a secret as it is and as
  the language's own JSON text writes it, which leaves a unit above 127 as it is.\<close>

theorem unicode_escape_not_masked:
  "buildCredentialRedactor [(''k'', [CHR 0xE9])] [] (CHR 0x5C # ''u00e9'') = CHR 0x5C # ''u00e9''"
  by (simp add: buildCredentialRedactor_def build_masks_def all_needles_def needles_of_def json_inner_def
      json_escape_def longest_first_def first_masks_def secret_at_def marker_at_def starts_with_def Let_def)

end
