(* ===== verification/ScenarioRun.thy ===== *)
theory ScenarioRun
  imports CaptureRules
begin

text \<open>
  The run of one sandbox scenario: \<open>runScenarioInternal\<close> of
  \<open>packages/guard-runner/src/run-scenario.ts\<close>, with the milestone references of
  \<open>packages/shared/src/guard/step-parts.ts\<close> and \<open>blockedPreconditionAnnotation\<close> of \<open>result.ts\<close>.

  What a driver does with a step is an input, for each step and for each way it is taken (with the run's
  signal or, in the best-effort teardown, without): the values it publishes, the records it leaves and
  its outcome, or what it throws. So is what the signal says each time it is read, how the setup ends
  and what the stubs and proxies found. A record keeps what the run itself writes on it. A message the
  run words itself is a constructor of \<open>said\<close>. Durations are not modelled; the redactor that
  \<open>runScenario\<close> puts around all of this is in the theory of redaction.
\<close>

subsection \<open>Milestones of a step\<close>

definition milestoneRefs :: "json option \<Rightarrow> json list" where
  "milestoneRefs v = (case v of None \<Rightarrow> [] | Some (JArr xs) \<Rightarrow> xs | Some x \<Rightarrow> [x])"

definition hasMilestone :: "json option \<Rightarrow> bool" where
  "hasMilestone v \<longleftrightarrow> milestoneRefs v \<noteq> []"

definition milestoneOrder :: "json option \<Rightarrow> int option" where
  "milestoneOrder v =
     (case find (\<lambda>r. case r of JNum _ \<Rightarrow> True | _ \<Rightarrow> False) (milestoneRefs v) of
        Some (JNum n) \<Rightarrow> Some n | _ \<Rightarrow> None)"

definition milestoneClaims :: "json option \<Rightarrow> string list" where
  "milestoneClaims v = concat (map (\<lambda>r. case r of JStr s \<Rightarrow> [s] | _ \<Rightarrow> []) (milestoneRefs v))"

definition step_milestone :: "step \<Rightarrow> json option" where
  "step_milestone step = map_of step ''milestone''"

definition step_at :: "step list \<Rightarrow> nat \<Rightarrow> step option" where
  "step_at steps n = (if 1 \<le> n \<and> n \<le> length steps then Some (steps ! (n - 1)) else None)"

definition blockedPreconditionAnnotation :: "step list \<Rightarrow> nat \<Rightarrow> bool" where
  "blockedPreconditionAnnotation steps failingStep \<longleftrightarrow>
     (case step_at steps failingStep of
        None \<Rightarrow> False
      | Some step \<Rightarrow> \<not> hasMilestone (step_milestone step) \<and> list_ex (hasMilestone \<circ> step_milestone) steps)"

text \<open>\<open>...(milestone ? \{ failedMilestone: milestone \} : \{\})\<close>.\<close>

definition failed_milestone :: "step list \<Rightarrow> nat \<Rightarrow> int option" where
  "failed_milestone steps n =
     (case step_at steps n of
        None \<Rightarrow> None
      | Some step \<Rightarrow>
          (let m = milestoneOrder (step_milestone step) in if m = Some 0 then None else m))"

text \<open>What the judge is told the step is for: its note, else its claims.\<close>

definition stepClaim :: "step \<Rightarrow> string list" where
  "stepClaim step =
     (let worded = (case map_of step ''note'' of Some (JStr s) \<Rightarrow> js_trim s | _ \<Rightarrow> [])
      in if worded \<noteq> [] then [worded] else milestoneClaims (step_milestone step))"

subsection \<open>What a step does\<close>

datatype said =
    Said string
  | CapabilitySetupExpected
  | SandboxSetupExpected
  | StepExpected
  | RunAborted
  | FixtureExpected string
  | SeedDidNotRun string
  | CaptureExpected string
  | NotCaptured string
  | SuppliedFieldExpected
  | TeardownExpected

datatype thrown =
    ThrewFixture string string
  | ThrewCaptured string
  | ThrewCatalog string
  | ThrewOther string

fun thrown_message :: "thrown \<Rightarrow> said" where
  "thrown_message (ThrewFixture _ m) = Said m"
| "thrown_message (ThrewCaptured n) = NotCaptured n"
| "thrown_message (ThrewCatalog m) = Said m"
| "thrown_message (ThrewOther m) = Said m"

record ev_record =
  er_index :: nat
  er_teardown :: bool
  er_miss :: "(said \<times> said) option"
  er_spawnError :: "said option"

datatype step_outcome =
    StepOk "ev_record list"
  | StepFail "ev_record list" "said \<times> said" "string option"
  | StepError "ev_record list" said said
  | StepAborted
  | StepThrows thrown

record driver_answer =
  tk_published :: "(string \<times> string) list"
  tk_outcome :: step_outcome

text \<open>A driver, by the step's number, whether the run's signal reaches it, and the values captured so
  far.\<close>

type_synonym driver = "nat \<Rightarrow> bool \<Rightarrow> vars \<Rightarrow> driver_answer"

datatype run_verdict = VPass | VFail | VError

record scenario_result =
  sr_outcome :: run_verdict
  sr_failure :: "(nat \<times> said \<times> said) option"
  sr_failedMilestone :: "int option"
  sr_teardownIncomplete :: bool
  sr_blockedPrecondition :: bool
  sr_evidence :: bool
  sr_visual :: "string option"

record evidence_bundle =
  bn_outcome :: run_verdict
  bn_failingStep :: "nat option"
  bn_steps :: "ev_record list"

record run_world =
  rw_captured :: vars
  rw_records :: "ev_record list"
  rw_executed :: "(nat \<times> bool) list"
  rw_bundles :: "evidence_bundle list"

definition publish :: "(string \<times> string) list \<Rightarrow> vars \<Rightarrow> vars" where
  "publish kvs vals = foldl (\<lambda>m (k, v). m(k \<mapsto> v)) vals kvs"

definition execute :: "driver \<Rightarrow> nat \<Rightarrow> bool \<Rightarrow> run_world \<Rightarrow> step_outcome \<times> run_world" where
  "execute drv n cancellable w =
     (let t = drv n cancellable (rw_captured w)
      in (tk_outcome t,
          w\<lparr>rw_captured := publish (tk_published t) (rw_captured w),
            rw_executed := rw_executed w @ [(n, cancellable)]\<rparr>))"

definition push :: "ev_record list \<Rightarrow> run_world \<Rightarrow> run_world" where
  "push rs w = w\<lparr>rw_records := rw_records w @ rs\<rparr>"

definition write_bundle :: "run_verdict \<Rightarrow> nat option \<Rightarrow> run_world \<Rightarrow> run_world" where
  "write_bundle v n w =
     w\<lparr>rw_bundles := rw_bundles w @ [\<lparr>bn_outcome = v, bn_failingStep = n, bn_steps = rw_records w\<rparr>]\<rparr>"

subsection \<open>The best-effort teardown\<close>

definition as_teardown :: "ev_record list \<Rightarrow> ev_record list" where
  "as_teardown rs = map (\<lambda>r. r\<lparr>er_teardown := True\<rparr>) rs"

text \<open>The miss is written on the step's last record.\<close>

definition with_miss :: "said \<times> said \<Rightarrow> ev_record list \<Rightarrow> ev_record list" where
  "with_miss miss rs =
     (case rev rs of [] \<Rightarrow> [] | r # before \<Rightarrow> rev (r\<lparr>er_miss := Some miss\<rparr> # before))"

definition not_taken :: "nat \<Rightarrow> thrown \<Rightarrow> ev_record" where
  "not_taken n t =
     \<lparr>er_index = n, er_teardown = True, er_miss = Some (TeardownExpected, thrown_message t),
      er_spawnError = Some (thrown_message t)\<rparr>"

definition teardown_step :: "driver \<Rightarrow> bool \<times> run_world \<Rightarrow> nat \<Rightarrow> bool \<times> run_world" where
  "teardown_step drv acc n =
     (case execute drv n False (snd acc) of (outcome, w) \<Rightarrow>
        (case outcome of
           StepAborted \<Rightarrow> (False, w)
         | StepOk rs \<Rightarrow> (fst acc, push (as_teardown rs) w)
         | StepFail rs miss _ \<Rightarrow> (False, push (with_miss miss (as_teardown rs)) w)
         | StepError rs expected message \<Rightarrow> (False, push (with_miss (expected, message) (as_teardown rs)) w)
         | StepThrows t \<Rightarrow> (False, push [not_taken n t] w)))"

text \<open>\<open>reached\<close> is the number of the last step attempted; steps are numbered from one.\<close>

definition finishTeardown :: "driver \<Rightarrow> nat \<Rightarrow> nat \<Rightarrow> nat \<Rightarrow> run_world \<Rightarrow> bool \<times> run_world" where
  "finishTeardown drv mainCount steps reached w =
     foldl (teardown_step drv) (True, w) [Suc (max reached mainCount)..<Suc steps]"

subsection \<open>The run\<close>

record run_input =
  ri_scenario :: guard_scenario
  ri_driver :: driver
  ri_aborted :: "nat \<Rightarrow> bool"  \<comment> \<open>the signal: \<open>2 n - 1\<close> before step \<open>n\<close>, \<open>2 n\<close> after it\<close>
  ri_fixtures :: bool
  ri_seedDeclared :: bool
  ri_judge :: "nat \<Rightarrow> string option"
  ri_capturePassEvidence :: bool
  ri_stubs :: "(nat option \<times> said \<times> said) option"
  ri_externals :: "(said \<times> said) option"

definition abortedResult :: "nat \<Rightarrow> scenario_result" where
  "abortedResult n =
     \<lparr>sr_outcome = VError, sr_failure = Some (n, StepExpected, RunAborted), sr_failedMilestone = None,
      sr_teardownIncomplete = False, sr_blockedPrecondition = False, sr_evidence = False, sr_visual = None\<rparr>"

definition in_setup :: "said \<Rightarrow> string \<Rightarrow> scenario_result" where
  "in_setup expected message =
     \<lparr>sr_outcome = VError, sr_failure = Some (1, expected, Said message), sr_failedMilestone = None,
      sr_teardownIncomplete = False, sr_blockedPrecondition = False, sr_evidence = False, sr_visual = None\<rparr>"

definition all_steps :: "run_input \<Rightarrow> step list" where
  "all_steps inp = guardExecutionSteps (ri_scenario inp)"

definition main_count :: "run_input \<Rightarrow> nat" where
  "main_count inp = length (gs_steps (ri_scenario inp))"

definition restore :: "run_input \<Rightarrow> nat \<Rightarrow> run_world \<Rightarrow> bool \<times> run_world" where
  "restore inp reached w = finishTeardown (ri_driver inp) (main_count inp) (length (all_steps inp)) reached w"

text \<open>A step that failed, or could not be taken: the visual judge, the teardown, the evidence, the
  result. The flag says whether the step left a record of its own.\<close>

definition settle_fail ::
    "run_input \<Rightarrow> nat \<Rightarrow> said \<times> said \<Rightarrow> string option \<Rightarrow> run_world \<Rightarrow> scenario_result \<times> run_world" where
  "settle_fail inp n miss visual w =
     (let judged = (if visual \<noteq> None \<and> \<not> ri_aborted inp (2 * n) then ri_judge inp n else None)
      in case restore inp n w of (complete, w1) \<Rightarrow>
           (\<lparr>sr_outcome = VFail, sr_failure = Some (n, fst miss, snd miss),
             sr_failedMilestone = failed_milestone (all_steps inp) n,
             sr_teardownIncomplete = (\<not> complete),
             sr_blockedPrecondition = blockedPreconditionAnnotation (all_steps inp) n,
             sr_evidence = True, sr_visual = judged\<rparr>, write_bundle VFail (Some n) w1))"

definition settle_error ::
    "run_input \<Rightarrow> nat \<Rightarrow> bool \<Rightarrow> said \<Rightarrow> said \<Rightarrow> run_world \<Rightarrow> scenario_result \<times> run_world" where
  "settle_error inp n recorded expected message w =
     (case restore inp n w of (complete, w1) \<Rightarrow>
        (let written = (recorded \<or> rw_records w1 \<noteq> [] \<or> expected \<noteq> SandboxSetupExpected)
         in (\<lparr>sr_outcome = VError, sr_failure = Some (n, expected, message),
               sr_failedMilestone = failed_milestone (all_steps inp) n,
               sr_teardownIncomplete = (\<not> complete), sr_blockedPrecondition = False,
               sr_evidence = written, sr_visual = None\<rparr>,
             if written then write_bundle VError (Some n) w1 else w1)))"

text \<open>The catch around the loop. \<open>None\<close>: the exception goes on to the caller.\<close>

definition caught :: "run_input \<Rightarrow> nat \<Rightarrow> thrown \<Rightarrow> run_world \<Rightarrow> scenario_result option \<times> run_world" where
  "caught inp n t w =
     (case t of
        ThrewFixture ident message \<Rightarrow>
          (Some \<lparr>sr_outcome = VError,
                 sr_failure = Some (n, FixtureExpected ident,
                   if \<not> ri_fixtures inp \<and> ri_seedDeclared inp then SeedDidNotRun ident else Said message),
                 sr_failedMilestone = None, sr_teardownIncomplete = False, sr_blockedPrecondition = False,
                 sr_evidence = False, sr_visual = None\<rparr>, w)
      | ThrewOther _ \<Rightarrow> (None, w)
      | ThrewCatalog message \<Rightarrow>
          (case restore inp n w of (complete, w1) \<Rightarrow>
             (Some \<lparr>sr_outcome = VError, sr_failure = Some (n, SuppliedFieldExpected, Said message),
                    sr_failedMilestone = None, sr_teardownIncomplete = (\<not> complete),
                    sr_blockedPrecondition = False, sr_evidence = (rw_records w1 \<noteq> []), sr_visual = None\<rparr>,
              if rw_records w1 \<noteq> [] then write_bundle VError (Some n) w1 else w1))
      | ThrewCaptured name \<Rightarrow>
          (case restore inp n w of (complete, w1) \<Rightarrow>
             (Some \<lparr>sr_outcome = VFail, sr_failure = Some (n, CaptureExpected name, NotCaptured name),
                    sr_failedMilestone = None, sr_teardownIncomplete = (\<not> complete),
                    sr_blockedPrecondition = blockedPreconditionAnnotation (all_steps inp) n,
                    sr_evidence = True, sr_visual = None\<rparr>, write_bundle VFail (Some n) w1)))"

text \<open>Every step met its expectation: what the stubs and the proxies saw decides.\<close>

definition settle_end :: "run_input \<Rightarrow> run_world \<Rightarrow> scenario_result \<times> run_world" where
  "settle_end inp w =
     (let n_steps = length (all_steps inp);
          violation = (case ri_stubs inp of
              Some (s, e, a) \<Rightarrow> Some (s, e, a)
            | None \<Rightarrow> map_option (\<lambda>(e, a). (Some n_steps, e, a)) (ri_externals inp))
      in case violation of
           Some (s, expected, actual) \<Rightarrow>
             (let n = (case s of Some k \<Rightarrow> k | None \<Rightarrow> n_steps)
              in (\<lparr>sr_outcome = VFail, sr_failure = Some (n, expected, actual),
                    sr_failedMilestone = failed_milestone (all_steps inp) n, sr_teardownIncomplete = False,
                    sr_blockedPrecondition = blockedPreconditionAnnotation (all_steps inp) n,
                    sr_evidence = True, sr_visual = None\<rparr>, write_bundle VFail (Some n) w))
         | None \<Rightarrow>
             (\<lparr>sr_outcome = VPass, sr_failure = None, sr_failedMilestone = None, sr_teardownIncomplete = False,
               sr_blockedPrecondition = False, sr_evidence = ri_capturePassEvidence inp, sr_visual = None\<rparr>,
              if ri_capturePassEvidence inp then write_bundle VPass None w else w))"

fun run_steps :: "run_input \<Rightarrow> nat list \<Rightarrow> run_world \<Rightarrow> scenario_result option \<times> run_world" where
  "run_steps inp [] w = (case settle_end inp w of (r, w1) \<Rightarrow> (Some r, w1))"
| "run_steps inp (n # ns) w =
     (if ri_aborted inp (2 * n - 1) then
        (Some (abortedResult n), if 1 < n then snd (restore inp (n - 1) w) else w)
      else case execute (ri_driver inp) n True w of (outcome, w1) \<Rightarrow>
        (case outcome of
           StepThrows t \<Rightarrow> caught inp n t w1
         | StepAborted \<Rightarrow> (Some (abortedResult n), snd (restore inp n w1))
         | StepOk rs \<Rightarrow>
             if ri_aborted inp (2 * n) then (Some (abortedResult n), snd (restore inp n w1))
             else run_steps inp ns (push (if main_count inp < n then as_teardown rs else rs) w1)
         | StepFail rs miss visual \<Rightarrow>
             if ri_aborted inp (2 * n) then (Some (abortedResult n), snd (restore inp n w1))
             else (case settle_fail inp n miss visual
                          (push (if main_count inp < n then as_teardown rs else rs) w1) of
                     (r, w2) \<Rightarrow> (Some r, w2))
         | StepError rs expected message \<Rightarrow>
             if ri_aborted inp (2 * n) then (Some (abortedResult n), snd (restore inp n w1))
             else (case settle_error inp n (rs \<noteq> []) expected message
                          (push (if main_count inp < n then as_teardown rs else rs) w1) of
                     (r, w2) \<Rightarrow> (Some r, w2))))"

definition fresh_world :: run_world where
  "fresh_world = \<lparr>rw_captured = Map.empty, rw_records = [], rw_executed = [], rw_bundles = []\<rparr>"

datatype setup_end =
    StubsDown string  \<comment> \<open>the stubs or proxies did not come up\<close>
  | SandboxFailed string
  | CapabilitiesFailed string
  | SetupDone

definition runScenarioInternal :: "run_input \<Rightarrow> setup_end \<Rightarrow> scenario_result option \<times> run_world" where
  "runScenarioInternal inp setup =
     (case setup of
        StubsDown m \<Rightarrow> (Some (in_setup CapabilitySetupExpected m), fresh_world)
      | SandboxFailed m \<Rightarrow> (Some (in_setup SandboxSetupExpected m), fresh_world)
      | CapabilitiesFailed m \<Rightarrow> (Some (in_setup CapabilitySetupExpected m), fresh_world)
      | SetupDone \<Rightarrow> run_steps inp [1..<Suc (length (all_steps inp))] fresh_world)"

definition isSetupDefectResult :: "scenario_result \<Rightarrow> bool" where
  "isSetupDefectResult r \<longleftrightarrow>
     sr_outcome r = VError \<and>
     (case sr_failure r of
        Some (_, expected, _) \<Rightarrow> expected = SandboxSetupExpected \<or> expected = CapabilitySetupExpected
      | None \<Rightarrow> False)"

subsection \<open>The teardown is taken, whatever happened\<close>

lemma execute_executed [simp]:
  "rw_executed (snd (execute drv n c w)) = rw_executed w @ [(n, c)]"
  by (simp add: execute_def Let_def)

lemma push_executed [simp]: "rw_executed (push rs w) = rw_executed w"
  by (simp add: push_def)

lemma write_bundle_executed [simp]: "rw_executed (write_bundle v n w) = rw_executed w"
  by (simp add: write_bundle_def)

lemma teardown_step_executed:
  "rw_executed (snd (teardown_step drv acc n)) = rw_executed (snd acc) @ [(n, False)]"
  using execute_executed [of drv n False "snd acc"]
  by (simp add: teardown_step_def case_prod_beta split: step_outcome.split)

lemma teardown_executed:
  "rw_executed (snd (foldl (teardown_step drv) acc ns)) = rw_executed (snd acc) @ map (\<lambda>n. (n, False)) ns"
  by (induction ns arbitrary: acc) (simp_all add: teardown_step_executed)

definition steps_taken :: "run_world \<Rightarrow> nat list" where
  "steps_taken w = map fst (rw_executed w)"

lemma steps_taken_simps [simp]:
  "steps_taken (snd (execute drv n c w)) = steps_taken w @ [n]"
  "steps_taken (push rs w) = steps_taken w"
  "steps_taken (write_bundle v k w) = steps_taken w"
  by (simp_all add: steps_taken_def)

definition remaining :: "run_input \<Rightarrow> nat \<Rightarrow> nat list" where
  "remaining inp reached = [Suc (max reached (main_count inp))..<Suc (length (all_steps inp))]"

lemma restore_taken: "steps_taken (snd (restore inp reached w)) = steps_taken w @ remaining inp reached"
  by (simp add: steps_taken_def restore_def finishTeardown_def teardown_executed remaining_def comp_def
      del: upt_Suc)

lemma settle_taken:
  "steps_taken (snd (settle_fail inp n miss v w)) = steps_taken w @ remaining inp n"
  "steps_taken (snd (settle_error inp n b e m w)) = steps_taken w @ remaining inp n"
  using restore_taken [of inp n w]
  by (simp_all add: settle_fail_def settle_error_def Let_def case_prod_beta)

lemma settle_end_taken: "steps_taken (snd (settle_end inp w)) = steps_taken w"
  by (simp add: settle_end_def Let_def split: option.split)

text \<open>The throws that the run answers with a result of its own and a teardown.\<close>

definition restores :: "thrown \<Rightarrow> bool" where
  "restores t \<longleftrightarrow> (case t of ThrewCaptured _ \<Rightarrow> True | ThrewCatalog _ \<Rightarrow> True | _ \<Rightarrow> False)"

lemma caught_taken: "restores t \<Longrightarrow> steps_taken (snd (caught inp n t w)) = steps_taken w @ remaining inp n"
  using restore_taken [of inp n w]
  by (cases t) (simp_all add: restores_def caught_def case_prod_beta)

lemma remaining_end: "remaining inp (length (all_steps inp)) = []"
  by (simp add: remaining_def)

definition well_behaved :: "driver \<Rightarrow> bool" where
  "well_behaved drv \<longleftrightarrow> (\<forall>n vals t. tk_outcome (drv n True vals) = StepThrows t \<longrightarrow> restores t)"

text \<open>One step of the loop: what it takes and then either the end or the next step.\<close>

lemma run_step_taken:
  assumes "well_behaved (ri_driver inp)" and "\<not> ri_aborted inp (2 * n - 1)"
  shows "steps_taken (snd (run_steps inp (n # ns) w)) = steps_taken w @ n # remaining inp n \<or>
    (\<exists>w'. steps_taken w' = steps_taken w @ [n] \<and> run_steps inp (n # ns) w = run_steps inp ns w')"
proof -
  obtain outcome w1 where ex: "execute (ri_driver inp) n True w = (outcome, w1)" by fastforce
  have w1: "steps_taken w1 = steps_taken w @ [n]"
    using steps_taken_simps(1) [of "ri_driver inp" n True w] ex by simp
  have out: "outcome = tk_outcome (ri_driver inp n True (rw_captured w))"
    using ex by (simp add: execute_def Let_def)
  show ?thesis
  proof (cases outcome)
    case (StepThrows t)
    then have "restores t"
      using assms(1) out unfolding well_behaved_def by metis
    then show ?thesis
      using StepThrows assms(2) ex w1 caught_taken [of t inp n w1] by simp
  next
    case (StepOk rs)
    show ?thesis
    proof (cases "ri_aborted inp (2 * n)")
      case True
      then show ?thesis using StepOk assms(2) ex w1 restore_taken [of inp n w1] by simp
    next
      case False
      then have "run_steps inp (n # ns) w
          = run_steps inp ns (push (if main_count inp < n then as_teardown rs else rs) w1)"
        using StepOk assms(2) ex by simp
      then show ?thesis using w1 by (metis steps_taken_simps(2))
    qed
  next
    case (StepFail rs miss v)
    then show ?thesis
      using assms(2) ex w1 restore_taken [of inp n w1]
        settle_taken(1) [of inp n miss v "push (if main_count inp < n then as_teardown rs else rs) w1"]
      by (auto split: prod.splits)
  next
    case (StepError rs e m)
    then show ?thesis
      using assms(2) ex w1 restore_taken [of inp n w1]
        settle_taken(2) [of inp n "rs \<noteq> []" e m "push (if main_count inp < n then as_teardown rs else rs) w1"]
      by (auto split: prod.splits)
  qed (use assms(2) ex w1 restore_taken [of inp n w1] in simp)
qed

lemma run_steps_taken:
  assumes drv: "well_behaved (ri_driver inp)" and first: "k = 1 \<longrightarrow> \<not> ri_aborted inp 1"
    and k: "1 \<le> k" "k \<le> Suc (length (all_steps inp))"
  shows "\<exists>j. k \<le> Suc j \<and> j \<le> length (all_steps inp) \<and>
    steps_taken (snd (run_steps inp [k..<Suc (length (all_steps inp))] w))
      = steps_taken w @ [k..<Suc j] @ remaining inp j"
  using first k
proof (induction "Suc (length (all_steps inp)) - k" arbitrary: k w)
  case 0
  then have "k = Suc (length (all_steps inp))" by simp
  then show ?case
    using settle_end_taken [of inp w] remaining_end [of inp]
    by (intro exI [of _ "length (all_steps inp)"]) (simp add: case_prod_beta)
next
  case (Suc d)
  let ?n = "length (all_steps inp)"
  have kn: "k \<le> ?n" using Suc.hyps(2) by simp
  have steps: "[k..<Suc ?n] = k # [Suc k..<Suc ?n]"
    using kn by (simp add: upt_conv_Cons del: upt_Suc)
  show ?case
  proof (cases "ri_aborted inp (2 * k - 1)")
    case True
    then have "1 < k" using Suc.prems by (cases "k = 1") auto
    then have "steps_taken (snd (run_steps inp [k..<Suc ?n] w)) = steps_taken w @ remaining inp (k - 1)"
      unfolding steps using True restore_taken [of inp "k - 1" w] by simp
    then show ?thesis
      using \<open>1 < k\<close> kn by (intro exI [of _ "k - 1"]) (simp del: upt_Suc)
  next
    case False
    from run_step_taken [OF drv False, of "[Suc k..<Suc ?n]" w]
    show ?thesis
    proof
      assume "steps_taken (snd (run_steps inp (k # [Suc k..<Suc ?n]) w)) = steps_taken w @ k # remaining inp k"
      then show ?thesis
        unfolding steps using kn by (intro exI [of _ k]) (simp add: upt_conv_Cons)
    next
      assume "\<exists>w'. steps_taken w' = steps_taken w @ [k] \<and>
        run_steps inp (k # [Suc k..<Suc ?n]) w = run_steps inp [Suc k..<Suc ?n] w'"
      then obtain w' where w': "steps_taken w' = steps_taken w @ [k]"
        "run_steps inp (k # [Suc k..<Suc ?n]) w = run_steps inp [Suc k..<Suc ?n] w'" by blast
      have d: "d = Suc ?n - Suc k" using Suc.hyps(2) by simp
      have first': "Suc k = 1 \<longrightarrow> \<not> ri_aborted inp 1" using Suc.prems(2) by simp
      have "1 \<le> Suc k" "Suc k \<le> Suc ?n" using kn by simp_all
      from Suc.hyps(1) [OF d first' this, of w']
      obtain j where "Suc k \<le> Suc j" "j \<le> ?n"
        "steps_taken (snd (run_steps inp [Suc k..<Suc ?n] w')) = steps_taken w' @ [Suc k..<Suc j] @ remaining inp j"
        by blast
      then show ?thesis
        unfolding steps w'(2) using w'(1)
        by (intro exI [of _ j]) (simp add: upt_conv_Cons del: upt_Suc)
    qed
  qed
qed

text \<open>C17: The host is restored: in a run whose drivers throw nothing but the references they could not
  resolve, and that was not cancelled before its first step, the steps taken are a first part of the
  scenario, in order, and then every teardown step after it, each once, whether the run passed,
  failed, broke or was cancelled.\<close>

theorem teardown_always_taken:
  assumes "well_behaved (ri_driver inp)" and "\<not> ri_aborted inp 1"
  shows "\<exists>j\<le>length (all_steps inp). steps_taken (snd (runScenarioInternal inp SetupDone))
    = [1..<Suc j] @ [Suc (max j (main_count inp))..<Suc (length (all_steps inp))]"
proof -
  have "steps_taken fresh_world = []"
    by (simp add: steps_taken_def fresh_world_def)
  then show ?thesis
    using run_steps_taken [OF assms(1), of 1 fresh_world] assms(2)
    unfolding runScenarioInternal_def setup_end.case remaining_def by auto
qed

text \<open>Two steps and two teardown steps; the second step fails.\<close>

definition demo_scenario :: guard_scenario where
  "demo_scenario =
     \<lparr>gs_steps = [[(''run'', JArr [JStr ''install''])], [(''run'', JArr [JStr ''use'']), (''milestone'', JNum 1)]],
      gs_teardown = Some [[(''run'', JArr [JStr ''stop''])], [(''run'', JArr [JStr ''remove''])]], gs_setup = None\<rparr>"

definition demo_run :: "(nat \<Rightarrow> step_outcome) \<Rightarrow> run_input" where
  "demo_run outcome =
     \<lparr>ri_scenario = demo_scenario, ri_driver = (\<lambda>n c vals. \<lparr>tk_published = [], tk_outcome = outcome n\<rparr>),
      ri_aborted = (\<lambda>t. False), ri_fixtures = True, ri_seedDeclared = True, ri_judge = (\<lambda>n. None),
      ri_capturePassEvidence = True, ri_stubs = None, ri_externals = None\<rparr>"

definition second_fails :: "nat \<Rightarrow> step_outcome" where
  "second_fails n = (if n = 2 then StepFail [] (Said ''a'', Said ''b'') None else StepOk [])"

definition second_misses_fixture :: "nat \<Rightarrow> step_outcome" where
  "second_misses_fixture n = (if n = 2 then StepThrows (ThrewFixture ''doc.id'' ''no'') else StepOk [])"

lemmas demo_run_defs = demo_run_def demo_scenario_def runScenarioInternal_def all_steps_def main_count_def
  guardExecutionSteps_def execute_def push_def publish_def settle_fail_def restore_def finishTeardown_def
  teardown_step_def write_bundle_def caught_def steps_taken_def fresh_world_def upt_rec Let_def

lemma demo_counts: "length (all_steps (demo_run f)) = 4" "main_count (demo_run f) = 2"
  by (simp_all add: demo_run_def all_steps_def main_count_def guardExecutionSteps_def demo_scenario_def)

theorem teardown_always_taken_witness:
  "steps_taken (snd (runScenarioInternal (demo_run second_fails) SetupDone)) = [1, 2, 3, 4]
   \<and> (\<exists>j\<le>4. steps_taken (snd (runScenarioInternal (demo_run second_fails) SetupDone))
        = [1..<Suc j] @ [Suc (max j 2)..<Suc 4])"
proof -
  have "well_behaved (ri_driver (demo_run second_fails))"
    by (simp add: well_behaved_def demo_run_def second_fails_def)
  moreover have "\<not> ri_aborted (demo_run second_fails) 1"
    by (simp add: demo_run_def)
  ultimately have "\<exists>j\<le>4. steps_taken (snd (runScenarioInternal (demo_run second_fails) SetupDone))
        = [1..<Suc j] @ [Suc (max j 2)..<Suc 4]"
    using teardown_always_taken [of "demo_run second_fails"] unfolding demo_counts by blast
  moreover have "steps_taken (snd (runScenarioInternal (demo_run second_fails) SetupDone)) = [1, 2, 3, 4]"
    by (simp add: demo_run_defs second_fails_def)
  ultimately show ?thesis by blast
qed

text \<open>A fixture reference that resolves to nothing leaves the host as it is: where the second step
  throws one, no teardown step is taken and no evidence is written, although the first step ran.\<close>

theorem fixture_miss_skips_teardown:
  "steps_taken (snd (runScenarioInternal (demo_run second_misses_fixture) SetupDone)) = [1, 2]
   \<and> rw_bundles (snd (runScenarioInternal (demo_run second_misses_fixture) SetupDone)) = []
   \<and> map_option sr_outcome (fst (runScenarioInternal (demo_run second_misses_fixture) SetupDone)) = Some VError"
  by (simp add: demo_run_defs second_misses_fixture_def)

subsection \<open>A pass means every step held\<close>

text \<open>The scenario read as one assertion: each step meets its expectation, with the values captured before
  it, and nothing cancels the run.\<close>

fun steps_hold :: "run_input \<Rightarrow> nat list \<Rightarrow> vars \<Rightarrow> bool" where
  "steps_hold inp [] vals = True"
| "steps_hold inp (n # ns) vals =
     (let t = ri_driver inp n True vals
      in \<not> ri_aborted inp (2 * n - 1) \<and> \<not> ri_aborted inp (2 * n) \<and>
         (case tk_outcome t of StepOk _ \<Rightarrow> steps_hold inp ns (publish (tk_published t) vals) | _ \<Rightarrow> False))"

definition passes :: "scenario_result option \<Rightarrow> bool" where
  "passes r \<longleftrightarrow> map_option sr_outcome r = Some VPass"

lemma not_passing [simp]:
  "\<not> passes (Some (abortedResult n))"
  "\<not> passes (Some (fst (settle_fail inp n m v w)))"
  "\<not> passes (Some (fst (settle_error inp n b e msg w)))"
  "\<not> passes (fst (caught inp n t w))"
  by (auto simp: passes_def abortedResult_def settle_fail_def settle_error_def caught_def case_prod_beta Let_def
      split: thrown.split)

lemma settle_end_passes:
  "passes (Some (fst (settle_end inp w))) \<longleftrightarrow> ri_stubs inp = None \<and> ri_externals inp = None"
  by (auto simp: passes_def settle_end_def Let_def split: option.split)

lemma push_captured [simp]: "rw_captured (push rs w) = rw_captured w"
  by (simp add: push_def)

lemma run_steps_pass:
  "passes (fst (run_steps inp ns w)) \<longleftrightarrow>
     steps_hold inp ns (rw_captured w) \<and> ri_stubs inp = None \<and> ri_externals inp = None"
proof (induction ns arbitrary: w)
  case Nil
  then show ?case using settle_end_passes [of inp w] by (simp add: case_prod_beta)
next
  case (Cons n ns)
  show ?case
    by (simp add: execute_def Let_def case_prod_beta Cons.IH split: step_outcome.split)
qed

text \<open>C18: A scenario passes exactly when it holds: every step, main and teardown, met its expectation with
  the values its predecessors captured, nothing cancelled the run, and neither a stub nor a proxy saw
  a violation.\<close>

theorem pass_exactly_when_steps_hold:
  "passes (fst (runScenarioInternal inp SetupDone)) \<longleftrightarrow>
     steps_hold inp [1..<Suc (length (all_steps inp))] Map.empty \<and> ri_stubs inp = None \<and> ri_externals inp = None"
  unfolding runScenarioInternal_def setup_end.case run_steps_pass by (simp add: fresh_world_def)

subsection \<open>The teardown does not move the verdict\<close>

definition verdict_of ::
    "scenario_result option \<Rightarrow> (run_verdict \<times> (nat \<times> said \<times> said) option \<times> int option \<times> bool) option" where
  "verdict_of r = map_option (\<lambda>r. (sr_outcome r, sr_failure r, sr_failedMilestone r, sr_blockedPrecondition r)) r"

definition same_steps :: "run_input \<Rightarrow> run_input \<Rightarrow> bool" where
  "same_steps inp inp' \<longleftrightarrow>
     inp' = inp\<lparr>ri_driver := ri_driver inp'\<rparr> \<and> (\<forall>n vals. ri_driver inp' n True vals = ri_driver inp n True vals)"

lemma same_steps_fields:
  assumes "same_steps inp inp'"
  shows "all_steps inp' = all_steps inp" "main_count inp' = main_count inp" "ri_aborted inp' = ri_aborted inp"
    "ri_fixtures inp' = ri_fixtures inp" "ri_seedDeclared inp' = ri_seedDeclared inp"
    "ri_stubs inp' = ri_stubs inp" "ri_externals inp' = ri_externals inp"
    "ri_driver inp' n True vals = ri_driver inp n True vals"
proof -
  obtain d where "inp' = inp\<lparr>ri_driver := d\<rparr>" "\<And>n vals. d n True vals = ri_driver inp n True vals"
    using assms unfolding same_steps_def by (metis run_input.select_convs(2) run_input.surjective run_input.update_convs(2))
  then show "all_steps inp' = all_steps inp" "main_count inp' = main_count inp" "ri_aborted inp' = ri_aborted inp"
    "ri_fixtures inp' = ri_fixtures inp" "ri_seedDeclared inp' = ri_seedDeclared inp"
    "ri_stubs inp' = ri_stubs inp" "ri_externals inp' = ri_externals inp"
    "ri_driver inp' n True vals = ri_driver inp n True vals"
    by (simp_all add: all_steps_def main_count_def)
qed

lemma same_verdict_steps:
  assumes "same_steps inp inp'" and "rw_captured w' = rw_captured w"
  shows "verdict_of (fst (run_steps inp' ns w')) = verdict_of (fst (run_steps inp ns w))"
  using assms(2)
proof (induction ns arbitrary: w w')
  case Nil
  then show ?case
    by (simp add: case_prod_beta settle_end_def same_steps_fields [OF assms(1)] verdict_of_def Let_def
        split: option.split)
next
  case (Cons n ns)
  show ?case
    using Cons.prems
    by (auto simp: execute_def Let_def case_prod_beta same_steps_fields [OF assms(1)] verdict_of_def
        settle_fail_def settle_error_def caught_def
        intro!: Cons.IH [unfolded verdict_of_def] split: step_outcome.split thrown.split)
qed

text \<open>The teardown does not move the verdict: two drivers that do the same with every step of the run
  itself give the same outcome, failure, failed milestone and blocked-precondition mark, whatever they
  do when a step is taken as best-effort teardown.\<close>

theorem teardown_moves_no_verdict:
  assumes "\<And>n vals. drv' n True vals = ri_driver inp n True vals"
  shows "verdict_of (fst (runScenarioInternal (inp\<lparr>ri_driver := drv'\<rparr>) setup))
    = verdict_of (fst (runScenarioInternal inp setup))"
proof -
  have "same_steps inp (inp\<lparr>ri_driver := drv'\<rparr>)"
    using assms by (simp add: same_steps_def)
  from same_verdict_steps [OF this, of fresh_world fresh_world] same_steps_fields(1) [OF this]
  show ?thesis
    by (simp add: runScenarioInternal_def split: setup_end.split)
qed

theorem teardown_moves_no_verdict_witness:
  "verdict_of (fst (runScenarioInternal
     (demo_run second_fails\<lparr>ri_driver := \<lambda>n c vals. \<lparr>tk_published = [],
        tk_outcome = if c then second_fails n else StepAborted\<rparr>\<rparr>) SetupDone))
   = verdict_of (fst (runScenarioInternal (demo_run second_fails) SetupDone))"
  by (rule teardown_moves_no_verdict) (simp add: demo_run_def)

end
