(* ===== verification/JsNumber.thy ===== *)
theory JsNumber
  imports JsText Complex_Main
begin

text \<open>
  The numbers of the language: what \<open>Number(text)\<close> reads and what a sum rounds to. A finite number is the
  rational it stands for; \<open>to_double\<close> is the nearest double, ties to the even one, with 53 bits of
  precision, the gradual underflow of the format, and infinity beyond it. The sign of a zero is not
  kept.
\<close>

datatype js_num = Fin rat | Infinite bool

fun bits :: "nat \<Rightarrow> nat" where
  "bits n = (if n = 0 then 0 else Suc (bits (n div 2)))"

declare bits.simps [simp del]

definition pow2 :: "int \<Rightarrow> rat" where
  "pow2 e = (if 0 \<le> e then 2 ^ nat e else 1 / 2 ^ nat (- e))"

text \<open>The exponent of the binade a positive number lies in.\<close>

definition binade :: "rat \<Rightarrow> int" where
  "binade x =
     (let (p, q) = quotient_of x; e = int (bits (nat p)) - int (bits (nat q))
      in if pow2 e \<le> x then e else e - 1)"

definition round_half_even :: "rat \<Rightarrow> int" where
  "round_half_even x =
     (let f = \<lfloor>x\<rfloor>; d = x - of_int f
      in if d < 1 / 2 \<or> d = 1 / 2 \<and> even f then f else f + 1)"

definition to_double :: "rat \<Rightarrow> js_num" where
  "to_double x =
     (if x = 0 then Fin 0
      else let k = max (binade \<bar>x\<bar> - 52) (- 1074); y = of_int (round_half_even (\<bar>x\<bar> / pow2 k)) * pow2 k
           in if pow2 1024 \<le> y then Infinite (0 < x) else Fin (sgn x * y))"

definition js_sum :: "rat \<Rightarrow> rat \<Rightarrow> js_num" where
  "js_sum x y = to_double (x + y)"

fun js_le :: "rat \<Rightarrow> js_num \<Rightarrow> bool" where
  "js_le x (Fin y) \<longleftrightarrow> x \<le> y"
| "js_le x (Infinite positive) \<longleftrightarrow> positive"

fun js_ge :: "rat \<Rightarrow> js_num \<Rightarrow> bool" where
  "js_ge x (Fin y) \<longleftrightarrow> y \<le> x"
| "js_ge x (Infinite positive) \<longleftrightarrow> \<not> positive"

text \<open>\<open>Number(text)\<close>; none for \<open>NaN\<close>.\<close>

definition digits_value :: "string \<Rightarrow> nat" where
  "digits_value s = foldl (\<lambda>n c. 10 * n + (of_char c - 48)) 0 s"

definition radix_digit :: "char \<Rightarrow> nat" where
  "radix_digit c =
     (let n = of_char (js_lower c) :: nat
      in if digit c then n - 48 else if 97 \<le> n \<and> n \<le> 102 then n - 87 else 16)"

definition radix_value :: "nat \<Rightarrow> string \<Rightarrow> nat option" where
  "radix_value b s =
     (if s \<noteq> [] \<and> list_all (\<lambda>c. radix_digit c < b) s then Some (foldl (\<lambda>n c. b * n + radix_digit c) 0 s)
      else None)"

definition exponent :: "string \<Rightarrow> int option" where
  "exponent s =
     (case s of
        [] \<Rightarrow> Some 0
      | c # rest \<Rightarrow>
          if c = CHR ''e'' \<or> c = CHR ''E'' then
            (let neg = starts_with ''-'' rest;
                 ds = (if neg \<or> starts_with ''+'' rest then tl rest else rest)
             in if ds \<noteq> [] \<and> list_all digit ds
                then Some (if neg then - int (digits_value ds) else int (digits_value ds)) else None)
          else None)"

definition decimal_literal :: "string \<Rightarrow> rat option" where
  "decimal_literal s =
     (let whole = takeWhile digit s; rest = dropWhile digit s; dotted = starts_with ''.'' rest;
          frac = (if dotted then takeWhile digit (tl rest) else []);
          rest' = (if dotted then dropWhile digit (tl rest) else rest)
      in if whole = [] \<and> frac = [] then None
         else map_option
           (\<lambda>e. let shift = e - int (length frac); n = of_nat (digits_value (whole @ frac))
                in if 0 \<le> shift then n * 10 ^ nat shift else n / 10 ^ nat (- shift))
           (exponent rest'))"

definition js_number :: "string \<Rightarrow> js_num option" where
  "js_number str =
     (let s = js_trim str; pre = map js_lower (take 2 s); neg = starts_with ''-'' s;
          body = (if neg \<or> starts_with ''+'' s then tl s else s)
      in if s = [] then Some (Fin 0)
         else if pre = ''0x'' then map_option (to_double \<circ> of_nat) (radix_value 16 (drop 2 s))
         else if pre = ''0o'' then map_option (to_double \<circ> of_nat) (radix_value 8 (drop 2 s))
         else if pre = ''0b'' then map_option (to_double \<circ> of_nat) (radix_value 2 (drop 2 s))
         else if body = ''Infinity'' then Some (Infinite (\<not> neg))
         else map_option (\<lambda>x. to_double (if neg then - x else x)) (decimal_literal body))"

text \<open>Where \<open>Number.isFinite\<close> holds.\<close>

definition finite_number :: "string \<Rightarrow> rat option" where
  "finite_number s = (case js_number s of Some (Fin x) \<Rightarrow> Some x | _ \<Rightarrow> None)"

text \<open>Small whole numbers are doubles.\<close>

lemma round_half_even_int [simp]: "round_half_even (of_int n) = n"
  by (simp add: round_half_even_def)

lemma bits_less: "n < 2 ^ bits n"
proof (induction n rule: bits.induct)
  case (1 n)
  then show ?case by (cases "n = 0") (simp_all add: bits.simps [of n])
qed

lemma bits_le: "0 < n \<Longrightarrow> 2 ^ (bits n - 1) \<le> n"
proof (induction n rule: bits.induct)
  case (1 n)
  show ?case
  proof (cases "n div 2 = 0")
    case True
    then show ?thesis using "1.prems" by (simp add: bits.simps [of n] bits.simps [of 0])
  next
    case False
    then have "2 ^ (bits (n div 2) - 1) \<le> n div 2" using "1.IH" "1.prems" by simp
    moreover have "bits (n div 2) = Suc (bits (n div 2) - 1)" using False by (simp add: bits.simps [of "n div 2"])
    ultimately have "2 ^ bits (n div 2) \<le> n"
      by (metis (no_types) div_times_less_eq_dividend mult.commute mult_le_mono2 order_trans power_Suc)
    then show ?thesis using "1.prems" by (simp add: bits.simps [of n])
  qed
qed

lemma binade_nat: "0 < n \<Longrightarrow> binade (of_nat n) = int (bits n) - 1"
proof -
  assume "0 < n"
  then have "(2::rat) ^ (bits n - 1) \<le> of_nat n"
    using bits_le [of n] by (metis of_nat_le_iff of_nat_numeral of_nat_power)
  moreover have "quotient_of (of_nat n) = (int n, 1)"
    by simp
  moreover have "bits (Suc 0) = Suc 0" by (simp add: bits.simps [of "Suc 0"] bits.simps [of 0])
  moreover have "1 \<le> bits n" using \<open>0 < n\<close> by (simp add: bits.simps [of n])
  ultimately show ?thesis
    by (simp add: binade_def pow2_def nat_diff_distrib)
qed

lemma to_double_nat: "n < 2 ^ 53 \<Longrightarrow> to_double (of_nat n) = Fin (of_nat n)"
proof (cases "n = 0")
  case False
  assume less: "n < 2 ^ 53"
  have "bits n \<le> 53"
  proof (rule ccontr)
    assume "\<not> bits n \<le> 53"
    then have "(2::nat) ^ 53 \<le> 2 ^ (bits n - 1)" by (intro power_increasing) auto
    with bits_le [of n] False less show False by linarith
  qed
  define j where "j = nat (52 - (int (bits n) - 1))"
  have k: "max (binade (of_nat n) - 52) (- 1074) = - int j"
    using False \<open>bits n \<le> 53\<close> by (simp add: binade_nat j_def)
  have scale: "(of_nat n :: rat) / pow2 (- int j) = of_int (int n * 2 ^ j)"
    by (simp add: pow2_def)
  have "(of_nat n :: rat) < 2 ^ 53"
    using less by (metis of_nat_less_iff of_nat_numeral of_nat_power)
  also have "(2::rat) ^ 53 \<le> 2 ^ 1024" by (rule power_increasing) simp_all
  finally have "\<not> pow2 1024 \<le> (of_nat n :: rat)" by (simp add: pow2_def)
  moreover have undo: "of_int (int n * 2 ^ j) * pow2 (- int j) = (of_nat n :: rat)"
    by (simp add: pow2_def)
  ultimately show ?thesis
    using False unfolding to_double_def k Let_def abs_of_nat scale round_half_even_int undo by simp
qed (simp add: to_double_def)

end
