(* ===== verification/SchemaCheck.thy ===== *)
theory SchemaCheck
  imports GuardTokens
begin

text \<open>
  Conformance of a response body to a declared schema:
  \<open>packages/shared/src/openapi/validate.ts\<close>, with the equality of JSON values that it shares with
  \<open>jsonEquals\<close> of \<open>packages/guard-runner/src/api/expect.ts\<close>.

  A schema and a body are JSON documents, an object the list of its properties in the order of
  \<open>Object.keys\<close>. A property is looked up as the language does, so a name that every object inherits is
  found; what is found there is a \<open>js_val\<close>. A path is the list of its segments, \<open>path_text\<close> its text. A
  violation names the constraint and what was found as constructors, not the worded messages.
\<close>

subsection \<open>Objects\<close>

definition js_get :: "js_val \<Rightarrow> string \<Rightarrow> js_val option" where
  "js_get v key =
     (case v of
        Js (JObj kvs) \<Rightarrow> object_get kvs key
      | ObjectPrototype \<Rightarrow>
          if key = ''__proto__'' then Some (Js JNull)
          else if key \<in> set inherited_names then Some (Builtin key) else None
      | _ \<Rightarrow> None)"

definition isObject :: "js_val \<Rightarrow> bool" where
  "isObject v \<longleftrightarrow> (case v of Js (JObj _) \<Rightarrow> True | ObjectPrototype \<Rightarrow> True | _ \<Rightarrow> False)"

definition own_keys :: "js_val \<Rightarrow> string list" where
  "own_keys v = (case v of Js (JObj kvs) \<Rightarrow> map fst kvs | _ \<Rightarrow> [])"

lemma member_size: "x \<in> set xs \<Longrightarrow> size x < size (JArr xs)"
  by (induction xs) auto

lemma entry_size: "(k, x) \<in> set kvs \<Longrightarrow> size x < size (JObj kvs)"
  by (induction kvs) auto

text \<open>Structural equality of a JSON value with what a lookup reached: a key of the first object is read in
  the second, where an inherited name answers too.\<close>

function (sequential) jsonEquals :: "json \<Rightarrow> js_val \<Rightarrow> bool" where
  "jsonEquals (JArr xs) b =
     (case b of
        Js (JArr ys) \<Rightarrow> length xs = length ys \<and> list_all (\<lambda>(x, y). jsonEquals x (Js y)) (zip xs ys)
      | _ \<Rightarrow> False)"
| "jsonEquals (JObj kvs) b =
     (isObject b \<and> length kvs = length (own_keys b) \<and>
      list_all (\<lambda>(k, x). case js_get b k of Some y \<Rightarrow> jsonEquals x y | None \<Rightarrow> False) kvs)"
| "jsonEquals a b = (b = Js a)"
  by pat_completeness auto

termination
  by (relation "measure (size \<circ> fst)") (auto dest!: set_zip_leftD member_size entry_size)

definition deepEqual :: "json \<Rightarrow> js_val \<Rightarrow> bool" where
  "deepEqual a b = jsonEquals a b"

subsection \<open>Paths and violations\<close>

datatype seg = PKey string | PIdx nat

type_synonym path = "seg list"

definition childPath :: "path \<Rightarrow> string \<Rightarrow> path" where
  "childPath base key = base @ [PKey key]"

definition indexPath :: "path \<Rightarrow> nat \<Rightarrow> path" where
  "indexPath base i = base @ [PIdx i]"

text \<open>A path as the code writes it.\<close>

fun seg_text :: "string \<Rightarrow> seg \<Rightarrow> string" where
  "seg_text base (PKey key) = (if base \<noteq> [] then base @ ''.'' @ key else key)"
| "seg_text base (PIdx i) = base @ ''['' @ decimal i @ '']''"

definition path_text :: "path \<Rightarrow> string" where
  "path_text p = foldl seg_text [] p"

definition labelPath :: "string \<Rightarrow> string" where
  "labelPath p = (if p = [] then ''(root)'' else p)"

datatype constraint =
    OneOfEnum "json list"
  | MatchesBranch string
  | HasType "string list"
  | Required string
  | NoUndocumented

datatype found = Described js_val | Missing | Unexpected string

record violation =
  vi_path :: path
  vi_expected :: constraint
  vi_actual :: found

subsection \<open>The checks\<close>

text \<open>The list of subschemas under a keyword that holds an array.\<close>

definition branches :: "json_object \<Rightarrow> string \<Rightarrow> json list option" where
  "branches s key = (case map_of s key of Some (JArr xs) \<Rightarrow> Some xs | _ \<Rightarrow> None)"

definition strings_of :: "json list \<Rightarrow> string list" where
  "strings_of xs = concat (map (\<lambda>x. case x of JStr t \<Rightarrow> [t] | _ \<Rightarrow> []) xs)"

definition declaredTypes :: "json_object \<Rightarrow> string list option" where
  "declaredTypes s =
     (case map_of s ''type'' of
        Some (JStr t) \<Rightarrow> Some [t]
      | Some (JArr ts) \<Rightarrow> Some (strings_of ts)
      | _ \<Rightarrow> None)"

definition matchesType :: "js_val \<Rightarrow> string \<Rightarrow> bool" where
  "matchesType v type =
     (if type = ''object'' then isObject v
      else if type = ''array'' then (case v of Js (JArr _) \<Rightarrow> True | _ \<Rightarrow> False)
      else if type = ''string'' then (case v of Js (JStr _) \<Rightarrow> True | _ \<Rightarrow> False)
      else if type = ''number'' \<or> type = ''integer'' then (case v of Js (JNum _) \<Rightarrow> True | _ \<Rightarrow> False)
      else if type = ''boolean'' then (case v of Js (JBool _) \<Rightarrow> True | _ \<Rightarrow> False)
      else if type = ''null'' then v = Js JNull
      else True)"

text \<open>The check that comes first and finds something is the one reported.\<close>

definition or_else :: "'a option \<Rightarrow> 'a option \<Rightarrow> 'a option" where
  "or_else a b = (case a of Some x \<Rightarrow> Some x | None \<Rightarrow> b)"

lemma or_else_simps [simp]:
  "or_else None b = b" "or_else (Some x) b = Some x"
  "or_else a b = None \<longleftrightarrow> a = None \<and> b = None"
  by (auto simp: or_else_def split: option.splits)

lemma or_else_SomeD: "or_else a b = Some x \<Longrightarrow> a = Some x \<or> a = None \<and> b = Some x"
  by (cases a) auto

definition first_some :: "('a \<Rightarrow> 'b option) \<Rightarrow> 'a list \<Rightarrow> 'b option" where
  "first_some f xs = (case find (\<lambda>x. f x \<noteq> None) xs of None \<Rightarrow> None | Some x \<Rightarrow> f x)"

lemma first_some_simps [simp]:
  "first_some f [] = None"
  "first_some f (x # xs) = (case f x of Some y \<Rightarrow> Some y | None \<Rightarrow> first_some f xs)"
  by (auto simp: first_some_def)

lemma first_some_cong [fundef_cong]:
  "xs = ys \<Longrightarrow> (\<And>x. x \<in> set ys \<Longrightarrow> f x = g x) \<Longrightarrow> first_some f xs = first_some g ys"
  by (induction ys arbitrary: xs) (auto split: option.splits)

lemma first_some_None [simp]: "first_some f xs = None \<longleftrightarrow> (\<forall>x\<in>set xs. f x = None)"
  by (induction xs) (auto split: option.splits)

lemma first_some_SomeD: "first_some f xs = Some y \<Longrightarrow> \<exists>x\<in>set xs. f x = Some y"
  by (induction xs) (auto split: option.splits)

lemma map_of_size: "map_of s k = Some v \<Longrightarrow> size v < size (JObj s)"
  by (auto dest!: map_of_SomeD entry_size)

lemma branches_size: "branches s k = Some xs \<Longrightarrow> x \<in> set xs \<Longrightarrow> size x < size (JObj s)"
  using map_of_size [of s k "JArr xs"] member_size [of x xs]
  by (auto simp: branches_def split: option.splits json.splits)

definition enum_check :: "js_val \<Rightarrow> json_object \<Rightarrow> path \<Rightarrow> violation option" where
  "enum_check v s path =
     (case branches s ''enum'' of
        None \<Rightarrow> None
      | Some es \<Rightarrow>
          if list_ex (\<lambda>e. deepEqual e v) es then None
          else Some \<lparr>vi_path = path, vi_expected = OneOfEnum es, vi_actual = Described v\<rparr>)"

text \<open>The branches of \<open>anyOf\<close>, or where there is none those of \<open>oneOf\<close>.\<close>

definition union_branches :: "json_object \<Rightarrow> (string \<times> json list) option" where
  "union_branches s =
     (case branches s ''anyOf'' of
        Some xs \<Rightarrow> Some (''anyOf'', xs)
      | None \<Rightarrow> map_option (Pair ''oneOf'') (branches s ''oneOf''))"

definition nullable :: "json_object \<Rightarrow> bool" where
  "nullable s \<longleftrightarrow> map_of s ''nullable'' = Some (JBool True) \<or>
     (case declaredTypes s of Some ts \<Rightarrow> ''null'' \<in> set ts | None \<Rightarrow> False)"

definition required_names :: "json_object \<Rightarrow> string list" where
  "required_names s = (case branches s ''required'' of Some xs \<Rightarrow> strings_of xs | None \<Rightarrow> [])"

definition declared_props :: "json_object \<Rightarrow> json_object" where
  "declared_props s = (case map_of s ''properties'' of Some (JObj ps) \<Rightarrow> ps | _ \<Rightarrow> [])"

definition missing_check :: "js_val \<Rightarrow> json_object \<Rightarrow> path \<Rightarrow> violation option" where
  "missing_check obj s path =
     (case find (\<lambda>key. js_get obj key = None) (required_names s) of
        None \<Rightarrow> None
      | Some key \<Rightarrow> Some \<lparr>vi_path = childPath path key, vi_expected = Required key, vi_actual = Missing\<rparr>)"

definition extra_check :: "js_val \<Rightarrow> json_object \<Rightarrow> path \<Rightarrow> violation option" where
  "extra_check obj s path =
     (if map_of s ''additionalProperties'' = Some (JBool False) then
        (case find (\<lambda>key. object_get (declared_props s) key = None) (own_keys obj) of
           None \<Rightarrow> None
         | Some key \<Rightarrow>
             Some \<lparr>vi_path = childPath path key, vi_expected = NoUndocumented, vi_actual = Unexpected key\<rparr>)
      else None)"

text \<open>How the value is looked into once the first checks have passed.\<close>

datatype shape = AsObject | AsArray "json list" | Leaf | WrongType "string list"

definition shape_of :: "js_val \<Rightarrow> json_object \<Rightarrow> shape" where
  "shape_of v s =
     (if v = Js JNull then
        (case declaredTypes s of
           None \<Rightarrow> Leaf
         | Some ts \<Rightarrow> if nullable s then Leaf else WrongType ts)
      else case declaredTypes s of
        None \<Rightarrow>
          if isObject v \<and> (map_of s ''properties'' \<noteq> None \<or> map_of s ''required'' \<noteq> None
               \<or> map_of s ''additionalProperties'' \<noteq> None) then AsObject
          else (case v of Js (JArr xs) \<Rightarrow> if map_of s ''items'' \<noteq> None then AsArray xs else Leaf | _ \<Rightarrow> Leaf)
      | Some ts \<Rightarrow>
          (let nonNull = filter (\<lambda>t. t \<noteq> ''null'') ts
           in case find (matchesType v) nonNull of
                None \<Rightarrow> WrongType nonNull
              | Some t \<Rightarrow>
                  if t = ''object'' then AsObject
                  else if t = ''array'' then (case v of Js (JArr xs) \<Rightarrow> AsArray xs | _ \<Rightarrow> Leaf)
                  else Leaf))"

lemma union_size: "union_branches s = Some (kind, xs) \<Longrightarrow> x \<in> set xs \<Longrightarrow> size x < size (JObj s)"
  by (auto simp: union_branches_def split: option.splits dest: branches_size)

lemma declared_props_size: "(key, sub) \<in> set (declared_props s) \<Longrightarrow> size sub < size (JObj s)"
proof -
  assume mem: "(key, sub) \<in> set (declared_props s)"
  then obtain ps where ps: "map_of s ''properties'' = Some (JObj ps)" "(key, sub) \<in> set ps"
    by (cases "map_of s ''properties''") (auto simp: declared_props_def split: json.splits)
  have "size sub < size (JObj ps)"
    using ps(2) by (rule entry_size)
  with map_of_size [OF ps(1)] show ?thesis by simp
qed

function (sequential) validateNode :: "js_val \<Rightarrow> json \<Rightarrow> path \<Rightarrow> violation option"
  and validateObject :: "js_val \<Rightarrow> json_object \<Rightarrow> path \<Rightarrow> violation option"
  and validateArray :: "json list \<Rightarrow> json_object \<Rightarrow> path \<Rightarrow> violation option" where
  "validateNode v (JObj s) path =
     or_else (enum_check v s path)
      (or_else
        (case branches s ''allOf'' of
           None \<Rightarrow> None
         | Some subs \<Rightarrow> first_some (\<lambda>sub. validateNode v sub path) subs)
        (or_else
          (case union_branches s of
             None \<Rightarrow> None
           | Some (kind, subs) \<Rightarrow>
               if list_ex (\<lambda>sub. validateNode v sub path = None) subs then None
               else Some \<lparr>vi_path = path, vi_expected = MatchesBranch kind, vi_actual = Described v\<rparr>)
          (case shape_of v s of
             Leaf \<Rightarrow> None
           | WrongType ts \<Rightarrow> Some \<lparr>vi_path = path, vi_expected = HasType ts, vi_actual = Described v\<rparr>
           | AsObject \<Rightarrow> validateObject v s path
           | AsArray xs \<Rightarrow> validateArray xs s path)))"
| "validateNode v schema path = None"
| "validateObject obj s path =
     or_else (missing_check obj s path)
      (or_else (extra_check obj s path)
        (first_some
          (\<lambda>(key, sub). case js_get obj key of
             None \<Rightarrow> None | Some v \<Rightarrow> validateNode v sub (childPath path key))
          (declared_props s)))"
| "validateArray xs s path =
     (case map_of s ''items'' of
        None \<Rightarrow> None
      | Some items \<Rightarrow>
          first_some (\<lambda>(i, x). validateNode (Js x) items (indexPath path i)) (enumerate 0 xs))"
  by pat_completeness auto

termination
proof (relation "measure (\<lambda>x. case x of Inl (v, schema, p) \<Rightarrow> Suc (2 * size schema)
    | Inr (Inl (obj, s, p)) \<Rightarrow> 2 * size (JObj s) | Inr (Inr (xs, s, p)) \<Rightarrow> 2 * size (JObj s))", goal_cases)
qed (auto dest: branches_size union_size declared_props_size map_of_size)

definition validateAgainstSchema :: "js_val \<Rightarrow> json \<Rightarrow> violation option" where
  "validateAgainstSchema v schema = validateNode v schema []"

text \<open>\<open>responses[status] ?? responses['NXX'] ?? responses.default\<close>, and the JSON media type of it.\<close>

definition ends_with :: "string \<Rightarrow> string \<Rightarrow> bool" where
  "ends_with p s \<longleftrightarrow> starts_with (rev p) (rev s)"

definition present :: "json_object \<Rightarrow> string \<Rightarrow> json option" where
  "present obj key = (case map_of obj key of Some JNull \<Rightarrow> None | r \<Rightarrow> r)"

definition as_object :: "json option \<Rightarrow> json_object option" where
  "as_object v = (case v of Some (JObj kvs) \<Rightarrow> Some kvs | _ \<Rightarrow> None)"

definition json_media :: "string \<Rightarrow> bool" where
  "json_media k \<longleftrightarrow> ends_with ''/json'' (map js_lower k) \<or> ends_with ''+json'' (map js_lower k)"

definition responseJsonSchema :: "json \<Rightarrow> nat \<Rightarrow> json option" where
  "responseJsonSchema operation status =
     (case as_object (Some operation) of None \<Rightarrow> None | Some op \<Rightarrow>
      (case as_object (map_of op ''responses'') of None \<Rightarrow> None | Some responses \<Rightarrow>
       (case as_object (or_else (present responses (decimal status))
               (or_else (present responses (decimal (status div 100) @ ''XX'')) (map_of responses ''default''))) of
          None \<Rightarrow> None | Some response \<Rightarrow>
        (case as_object (map_of response ''content'') of None \<Rightarrow> None | Some content \<Rightarrow>
         (case as_object (case map_of content ''application/json'' of
                 Some media \<Rightarrow> Some media
               | None \<Rightarrow> map_option snd (find (json_media \<circ> fst) content)) of
            None \<Rightarrow> None
          | Some media \<Rightarrow> map_of media ''schema'')))))"

subsection \<open>A violation points at what it names\<close>

fun reach :: "js_val \<Rightarrow> path \<Rightarrow> js_val option" where
  "reach v [] = Some v"
| "reach v (PKey key # p) = (case js_get v key of None \<Rightarrow> None | Some w \<Rightarrow> reach w p)"
| "reach v (PIdx i # p) =
     (case v of Js (JArr xs) \<Rightarrow> if i < length xs then reach (Js (xs ! i)) p else None | _ \<Rightarrow> None)"

lemma reach_append: "reach v (p @ q) = (case reach v p of None \<Rightarrow> None | Some w \<Rightarrow> reach w q)"
  by (induction v p rule: reach.induct) (auto split: option.splits js_val.splits json.splits)

definition points_at :: "js_val \<Rightarrow> violation \<Rightarrow> bool" where
  "points_at root e \<longleftrightarrow>
     (case vi_actual e of
        Described w \<Rightarrow> reach root (vi_path e) = Some w
      | Missing \<Rightarrow>
          (\<exists>base key obj. vi_path e = base @ [PKey key] \<and> reach root base = Some obj \<and> isObject obj
             \<and> js_get obj key = None)
      | Unexpected key \<Rightarrow>
          (\<exists>base obj. vi_path e = base @ [PKey key] \<and> reach root base = Some obj \<and> key \<in> set (own_keys obj)))"

lemma shape_AsArray: "shape_of v s = AsArray xs \<Longrightarrow> v = Js (JArr xs)"
  by (auto simp: shape_of_def Let_def split: if_splits option.splits js_val.splits json.splits)

lemma shape_AsObject: "shape_of v s = AsObject \<Longrightarrow> isObject v"
  by (auto simp: shape_of_def matchesType_def find_Some_iff Let_def
      split: if_splits option.splits js_val.splits json.splits)

lemma enum_check_points: "enum_check v s path = Some e \<Longrightarrow> reach root path = Some v \<Longrightarrow> points_at root e"
  by (auto simp: enum_check_def points_at_def split: option.splits if_splits)

lemma missing_check_points:
  "missing_check v s path = Some e \<Longrightarrow> reach root path = Some v \<Longrightarrow> isObject v \<Longrightarrow> points_at root e"
  by (auto simp: missing_check_def points_at_def childPath_def dest!: find_Some_mem split: option.splits)

lemma extra_check_points: "extra_check v s path = Some e \<Longrightarrow> reach root path = Some v \<Longrightarrow> points_at root e"
  by (auto simp: extra_check_def points_at_def childPath_def dest!: find_Some_mem split: option.splits if_splits)

lemma validateNode_Some:
  assumes "validateNode v (JObj s) path = Some e"
  obtains (enum) "enum_check v s path = Some e"
  | (all) sub subs where "branches s ''allOf'' = Some subs" "sub \<in> set subs" "validateNode v sub path = Some e"
  | (at_path) "vi_path e = path" "vi_actual e = Described v"
  | (obj) "shape_of v s = AsObject" "validateObject v s path = Some e"
  | (arr) xs where "shape_of v s = AsArray xs" "validateArray xs s path = Some e"
  using assms
  by (auto simp del: validateObject.simps validateArray.simps dest!: or_else_SomeD first_some_SomeD
      split: option.splits prod.splits if_splits shape.splits)

lemma validateObject_Some:
  assumes "validateObject obj s path = Some e"
  obtains (missing) "missing_check obj s path = Some e"
  | (extra) "extra_check obj s path = Some e"
  | (declared) key sub w where "(key, sub) \<in> set (declared_props s)" "js_get obj key = Some w"
      "validateNode w sub (childPath path key) = Some e"
  using assms by (auto dest!: or_else_SomeD first_some_SomeD split: option.splits)

lemma validateArray_Some:
  assumes "validateArray xs s path = Some e"
  obtains i items where "map_of s ''items'' = Some items" "i < length xs"
    "validateNode (Js (xs ! i)) items (indexPath path i) = Some e"
  using assms by (auto dest!: first_some_SomeD simp: in_set_enumerate_eq split: option.splits)

lemma validate_points:
  "validateNode v schema path = Some e \<Longrightarrow> reach root path = Some v \<Longrightarrow> points_at root e"
  and "validateObject v s path = Some e \<Longrightarrow> reach root path = Some v \<Longrightarrow> isObject v \<Longrightarrow> points_at root e"
  and "validateArray xs s path = Some e \<Longrightarrow> reach root path = Some (Js (JArr xs)) \<Longrightarrow> points_at root e"
proof (induction v schema path and v s path and xs s path arbitrary: e and e and e
    rule: validateNode_validateObject_validateArray.induct)
  case (1 v s path)
  from "1.prems"(1) show ?case
  proof (cases rule: validateNode_Some)
    case enum
    then show ?thesis using "1.prems"(2) by (rule enum_check_points)
  next
    case (all sub subs)
    then show ?thesis using 1 by blast
  next
    case at_path
    then show ?thesis using "1.prems"(2) by (simp add: points_at_def)
  next
    case obj
    then show ?thesis using 1 shape_AsObject [of v s] by blast
  next
    case (arr xs)
    then show ?thesis using 1 shape_AsArray [of v s xs] by blast
  qed
next
  case (3 obj s path)
  from "3.prems"(1) show ?case
  proof (cases rule: validateObject_Some)
    case missing
    then show ?thesis using "3.prems"(2,3) by (rule missing_check_points)
  next
    case extra
    then show ?thesis using "3.prems"(2) by (rule extra_check_points)
  next
    case (declared key sub w)
    then have "reach root (childPath path key) = Some w"
      using "3.prems"(2) by (simp add: childPath_def reach_append)
    then show ?thesis using declared "3.IH" [of "(key, sub)" key sub w] by simp
  qed
next
  case (4 xs s path)
  from "4.prems"(1) show ?case
  proof (cases rule: validateArray_Some)
    case (1 i items)
    then have "reach root (indexPath path i) = Some (Js (xs ! i))"
      using "4.prems"(2) by (simp add: indexPath_def reach_append)
    then show ?thesis
      using 1 "4.IH" [of items "(i, xs ! i)" i "xs ! i"] by (simp add: in_set_enumerate_eq)
  qed
qed simp_all

text \<open>A violation points at what it names: the path of the violation reported leads, in the body that
  was checked, to the value it describes; for a missing property to an object that has no such property,
  not even an inherited one; for an undocumented property to one of an object's own.\<close>

theorem violation_points_at:
  "pred_option (points_at v) (validateAgainstSchema v schema)"
  by (cases "validateAgainstSchema v schema") (auto simp: validateAgainstSchema_def intro: validate_points(1))

subsection \<open>Conformance is compositional\<close>

lemma path_irrelevant:
  "validateNode v schema p = None \<longleftrightarrow> validateNode v schema q = None"
  and "validateObject v s p = None \<longleftrightarrow> validateObject v s q = None"
  and "validateArray xs s p = None \<longleftrightarrow> validateArray xs s q = None"
proof (induction v schema p and v s p and xs s p arbitrary: q and q and q
    rule: validateNode_validateObject_validateArray.induct)
  case (1 v s path)
  have "enum_check v s path = None \<longleftrightarrow> enum_check v s q = None"
    by (simp add: enum_check_def split: option.split)
  moreover have "branches s ''allOf'' = Some subs \<Longrightarrow> sub \<in> set subs \<Longrightarrow>
      validateNode v sub path = None \<longleftrightarrow> validateNode v sub q = None" for sub subs
    using "1.IH"(1) by blast
  moreover have "union_branches s = Some (kind, subs) \<Longrightarrow> sub \<in> set subs \<Longrightarrow>
      validateNode v sub path = None \<longleftrightarrow> validateNode v sub q = None" for kind sub subs
    using "1.IH"(2) by blast
  moreover have "shape_of v s = AsObject \<Longrightarrow> validateObject v s path = None \<longleftrightarrow> validateObject v s q = None"
    using "1.IH"(3) by blast
  moreover have "shape_of v s = AsArray xs \<Longrightarrow> validateArray xs s path = None \<longleftrightarrow> validateArray xs s q = None" for xs
    using "1.IH"(4) by blast
  ultimately show ?case
    by (auto simp: list_ex_iff split: option.splits shape.splits)
next
  case (3 obj s path)
  have "missing_check obj s path = None \<longleftrightarrow> missing_check obj s q = None"
    by (simp add: missing_check_def split: option.split)
  moreover have "extra_check obj s path = None \<longleftrightarrow> extra_check obj s q = None"
    by (simp add: extra_check_def split: option.split)
  moreover have "(key, sub) \<in> set (declared_props s) \<Longrightarrow> js_get obj key = Some w \<Longrightarrow>
      validateNode w sub (childPath path key) = None \<longleftrightarrow> validateNode w sub (childPath q key) = None" for key sub w
    using "3.IH" by blast
  ultimately show ?case
    by (fastforce split: option.splits)
next
  case (4 xs s path)
  have "map_of s ''items'' = Some items \<Longrightarrow> i < length xs \<Longrightarrow>
      validateNode (Js (xs ! i)) items (indexPath path i) = None
      \<longleftrightarrow> validateNode (Js (xs ! i)) items (indexPath q i) = None" for i items
    using "4.IH" [of items "(i, xs ! i)" i "xs ! i"] by (simp add: in_set_enumerate_eq)
  then show ?case
    by (auto simp: in_set_enumerate_eq split: option.splits)
qed simp_all

definition conforms :: "js_val \<Rightarrow> json \<Rightarrow> bool" where
  "conforms v schema \<longleftrightarrow> validateAgainstSchema v schema = None"

lemma validateNode_conforms: "validateNode v schema p = None \<longleftrightarrow> conforms v schema"
  using path_irrelevant(1) by (simp add: conforms_def validateAgainstSchema_def)

lemma find_None_list_all: "find P xs = None \<longleftrightarrow> list_all (\<lambda>x. \<not> P x) xs"
  by (auto simp: find_None_iff list_all_iff)

lemma find_Some_list_all: "find P xs = Some x \<Longrightarrow> \<not> list_all (\<lambda>x. \<not> P x) xs"
  by (metis find_None_list_all option.distinct(1))

lemma first_some_None_list_all: "first_some f xs = None \<longleftrightarrow> list_all (\<lambda>x. f x = None) xs"
  by (simp add: list_all_iff)

lemma enum_check_None: "enum_check v s p = None \<longleftrightarrow> pred_option (list_ex (\<lambda>e. deepEqual e v)) (branches s ''enum'')"
  by (simp add: enum_check_def split: option.split)

lemma missing_check_None:
  "missing_check v s p = None \<longleftrightarrow> list_all (\<lambda>key. js_get v key \<noteq> None) (required_names s)"
  using find_None_list_all [of "\<lambda>key. js_get v key = None" "required_names s"]
  by (auto simp: missing_check_def split: option.splits)

lemma extra_check_None:
  "extra_check v s p = None \<longleftrightarrow> map_of s ''additionalProperties'' \<noteq> Some (JBool False)
     \<or> list_all (\<lambda>key. object_get (declared_props s) key \<noteq> None) (own_keys v)"
  using find_None_list_all [of "\<lambda>key. object_get (declared_props s) key = None" "own_keys v"]
  by (auto simp: extra_check_def split: option.splits)

lemma declared_None:
  "first_some (\<lambda>(key, sub). case js_get v key of None \<Rightarrow> None | Some w \<Rightarrow> validateNode w sub (childPath p key)) ps = None
     \<longleftrightarrow> list_all (\<lambda>(key, sub). pred_option (\<lambda>w. conforms w sub) (js_get v key)) ps"
  unfolding first_some_None_list_all
  by (rule list_all_cong) (auto simp: validateNode_conforms split: option.splits)

lemma items_None:
  "first_some (\<lambda>(i, x). validateNode (Js x) items (indexPath p i)) (enumerate n xs) = None
     \<longleftrightarrow> list_all (\<lambda>x. conforms (Js x) items) xs"
proof -
  have "first_some (\<lambda>(i, x). validateNode (Js x) items (indexPath p i)) (enumerate n xs) = None
      \<longleftrightarrow> list_all (\<lambda>(i, x). conforms (Js x) items) (enumerate n xs)"
    unfolding first_some_None_list_all
    by (rule list_all_cong) (auto simp: validateNode_conforms)
  also have "\<dots> \<longleftrightarrow> list_all (\<lambda>x. conforms (Js x) items) xs"
    by (induction xs arbitrary: n) auto
  finally show ?thesis .
qed

text \<open>Conformance is what the schema says, part by part: a value conforms to a schema exactly when it is
  in its enumeration, conforms to every branch of \<open>allOf\<close> and to one of \<open>anyOf\<close> (of \<open>oneOf\<close> where there is
  no \<open>anyOf\<close>), has a declared type, and, looked into as an object, has every required property, no
  undocumented one where those are forbidden, and a conforming value in each declared property it has;
  looked into as an array, only conforming items. Neither the order of the checks nor the place in the
  document matters.\<close>

theorem conformance_is_compositional:
  "conforms v (JObj s) \<longleftrightarrow>
     pred_option (list_ex (\<lambda>e. deepEqual e v)) (branches s ''enum'') \<and>
     pred_option (list_all (conforms v)) (branches s ''allOf'') \<and>
     pred_option (\<lambda>(kind, subs). list_ex (conforms v) subs) (union_branches s) \<and>
     (case shape_of v s of
        Leaf \<Rightarrow> True
      | WrongType ts \<Rightarrow> False
      | AsObject \<Rightarrow>
          list_all (\<lambda>key. js_get v key \<noteq> None) (required_names s) \<and>
          (if map_of s ''additionalProperties'' = Some (JBool False)
           then list_all (\<lambda>key. object_get (declared_props s) key \<noteq> None) (own_keys v) else True) \<and>
          list_all (\<lambda>(key, sub). pred_option (\<lambda>w. conforms w sub) (js_get v key)) (declared_props s)
      | AsArray xs \<Rightarrow> pred_option (\<lambda>items. list_all (\<lambda>x. conforms (Js x) items) xs) (map_of s ''items''))"
proof -
  have all: "(case branches s ''allOf'' of None \<Rightarrow> None | Some subs \<Rightarrow> first_some (\<lambda>sub. validateNode v sub []) subs) = None
      \<longleftrightarrow> pred_option (list_all (conforms v)) (branches s ''allOf'')"
    by (simp add: first_some_None_list_all validateNode_conforms del: first_some_None split: option.split)
  have union: "(case union_branches s of None \<Rightarrow> None
      | Some (kind, subs) \<Rightarrow>
          if list_ex (\<lambda>sub. validateNode v sub [] = None) subs then None
          else Some \<lparr>vi_path = [], vi_expected = MatchesBranch kind, vi_actual = Described v\<rparr>) = None
      \<longleftrightarrow> pred_option (\<lambda>(kind, subs). list_ex (conforms v) subs) (union_branches s)"
    by (simp add: validateNode_conforms split: option.split)
  show ?thesis
    unfolding conforms_def [of v "JObj s"] validateAgainstSchema_def validateNode.simps or_else_simps
      enum_check_None all union
    by (cases "shape_of v s")
      (simp_all add: missing_check_None extra_check_None declared_None items_None del: first_some_None
        split: option.split)
qed

subsection \<open>Equality of JSON values\<close>

text \<open>No object of the value has a key called \<open>__proto__\<close>, and none has a key twice.\<close>

fun plain_keys :: "json \<Rightarrow> bool" where
  "plain_keys (JArr xs) \<longleftrightarrow> list_all plain_keys xs"
| "plain_keys (JObj kvs) \<longleftrightarrow>
     distinct (map fst kvs) \<and> list_all (\<lambda>(k, v). k \<noteq> ''__proto__'' \<and> plain_keys v) kvs"
| "plain_keys v \<longleftrightarrow> True"

fun same_json :: "json \<Rightarrow> json \<Rightarrow> bool" where
  "same_json (JArr xs) (JArr ys) \<longleftrightarrow> list_all2 same_json xs ys"
| "same_json (JObj kvs) (JObj lvs) \<longleftrightarrow>
     set (map fst kvs) = set (map fst lvs) \<and> list_all (\<lambda>(k, v). pred_option (same_json v) (map_of lvs k)) kvs"
| "same_json a b \<longleftrightarrow> a = b"

lemma jsonEquals_Builtin [simp]: "\<not> jsonEquals v (Builtin f)"
  by (cases v) (simp_all add: isObject_def)

lemma jsonEquals_field:
  "k \<noteq> ''__proto__'' \<Longrightarrow>
     (case js_get (Js (JObj lvs)) k of Some y \<Rightarrow> jsonEquals x y | None \<Rightarrow> False)
     \<longleftrightarrow> (case map_of lvs k of Some y \<Rightarrow> jsonEquals x (Js y) | None \<Rightarrow> False)"
  by (simp add: js_get_def object_get_def split: option.split)

lemma plain_keys_member: "plain_keys (JObj kvs) \<Longrightarrow> map_of kvs k = Some v \<Longrightarrow> plain_keys v"
  by (auto dest!: map_of_SomeD simp: list_all_iff)

lemma keys_of_fields:
  assumes "distinct (map fst kvs)" and "distinct (map fst lvs)"
    and "length kvs = length lvs" and "set (map fst kvs) \<subseteq> set (map fst lvs)"
  shows "set (map fst kvs) = set (map fst lvs)"
  using assms by (metis card_subset_eq distinct_card length_map List.finite_set)

lemma jsonEquals_same: "plain_keys a \<Longrightarrow> plain_keys b \<Longrightarrow> jsonEquals a (Js b) \<longleftrightarrow> same_json a b"
proof (induction a b rule: same_json.induct)
  case (1 xs ys)
  have "(x, y) \<in> set (zip xs ys) \<Longrightarrow> jsonEquals x (Js y) \<longleftrightarrow> same_json x y" for x y
    using 1 by (metis list_all_iff plain_keys.simps(1) set_zip_leftD set_zip_rightD)
  then show ?case
    by (auto simp: list_all2_iff list_all_iff)
next
  case (2 kvs lvs)
  have keys: "distinct (map fst kvs)" "distinct (map fst lvs)"
    using "2.prems" by simp_all
  have field: "(case js_get (Js (JObj lvs)) k of Some y \<Rightarrow> jsonEquals x y | None \<Rightarrow> False)
      \<longleftrightarrow> k \<in> set (map fst lvs) \<and> pred_option (same_json x) (map_of lvs k)" if "(k, x) \<in> set kvs" for k x
  proof -
    have "k \<noteq> ''__proto__''" "plain_keys x"
      using that "2.prems"(1) by (auto simp: list_all_iff)
    moreover have "map_of lvs k = Some y \<Longrightarrow> jsonEquals x (Js y) \<longleftrightarrow> same_json x y" for y
      using "2.IH" [OF that refl] plain_keys_member [OF "2.prems"(2)] \<open>plain_keys x\<close> by simp
    moreover have "k \<in> set (map fst lvs) \<longleftrightarrow> map_of lvs k \<noteq> None"
      by (simp add: map_of_eq_None_iff)
    ultimately show ?thesis
      unfolding jsonEquals_field [OF \<open>k \<noteq> ''__proto__''\<close>]
      by (cases "map_of lvs k") simp_all
  qed
  have "jsonEquals (JObj kvs) (Js (JObj lvs)) \<longleftrightarrow> length kvs = length lvs \<and> set (map fst kvs) \<subseteq> set (map fst lvs)
      \<and> list_all (\<lambda>(k, v). pred_option (same_json v) (map_of lvs k)) kvs"
  proof -
    have "list_all (\<lambda>(k, x). case js_get (Js (JObj lvs)) k of Some y \<Rightarrow> jsonEquals x y | None \<Rightarrow> False) kvs
        \<longleftrightarrow> list_all (\<lambda>(k, x). k \<in> set (map fst lvs) \<and> pred_option (same_json x) (map_of lvs k)) kvs"
      using field by (intro list_all_cong) auto
    moreover have "list_all (\<lambda>(k, x). k \<in> K \<and> P k x) ps \<longleftrightarrow> set (map fst ps) \<subseteq> K \<and> list_all (\<lambda>(k, x). P k x) ps"
      for K :: "string set" and P and ps :: json_object
      by (induction ps) auto
    ultimately show ?thesis by (simp add: isObject_def own_keys_def)
  qed
  also have "\<dots> \<longleftrightarrow> same_json (JObj kvs) (JObj lvs)"
    using keys_of_fields [OF keys] distinct_card [OF keys(1)] distinct_card [OF keys(2)] by auto
  finally show ?case .
qed (auto simp: isObject_def elim: jsonEquals.elims)

text \<open>The equality of JSON values is structural: for two values with no key \<open>__proto__\<close> and no key twice,
  \<open>jsonEquals\<close> holds exactly when they are the same but for the order of the keys, at every depth.\<close>

theorem json_equality_is_structural:
  assumes "plain_keys a" and "plain_keys b"
  shows "jsonEquals a (Js b) \<longleftrightarrow> same_json a b"
  using assms by (rule jsonEquals_same)

theorem json_equality_is_structural_witness:
  "jsonEquals (JObj [(''x'', JNum 1), (''y'', JNull)]) (Js (JObj [(''y'', JNull), (''x'', JNum 1)]))
   \<longleftrightarrow> same_json (JObj [(''x'', JNum 1), (''y'', JNull)]) (JObj [(''y'', JNull), (''x'', JNum 1)])"
  by (rule json_equality_is_structural) simp_all

text \<open>With a key \<open>__proto__\<close> of its own, a value that holds an empty object there equals any object with one
  property, because the second object's prototype answers for that key.\<close>

lemma proto_key_equals_any:
  "jsonEquals (JObj [(''__proto__'', JObj [])]) (Js (JObj [(''id'', JNum 7)]))"
  by (simp add: isObject_def own_keys_def js_get_def object_get_def)

end
