(* ===== verification/Expectations.thy ===== *)
theory Expectations
  imports SchemaCheck JsNumber
begin

text \<open>
  What a step asserts, and how the runner judges it: \<open>packages/guard-runner/src/expect.ts\<close> (the matchers
  of a command's streams and files), \<open>api/expect.ts\<close> (the members of an API expectation), the JSON path
  lookup and the interpolation of an expectation of \<open>api/vars.ts\<close>, and the traversal of an expectation
  that the token passes share, of \<open>sandbox-token.ts\<close>.

  The regular expression engine is an input: whether a source with its flags is found in a text (none: it
  does not compile), and the first group of a search. So are the JSON reading of a response body and the
  normalisers of the scenario. A mismatch carries its subject and, instead of the worded messages,
  a reason with everything the words are made of. A number is a double (theory \<open>JsNumber\<close>), but a JSON
  number is a whole one.
\<close>

subsection \<open>Matchers\<close>

datatype comparand = NumberOperand rat | TextOperand string

record comparison =
  cp_number :: "string option"
  cp_equals :: "comparand option"
  cp_atMost :: "comparand option"
  cp_atLeast :: "comparand option"
  cp_offset :: "rat option"

record text_matcher =
  tm_equals :: "string option"
  tm_contains :: "string option"
  tm_matches :: "string option"
  tm_flags :: "string option"
  tm_compare :: "comparison option"

record file_matcher =
  fm_exists :: "bool option"
  fm_absent :: "bool option"
  fm_equals :: "string option"
  fm_contains :: "string option"

record guard_expect =
  ex_exit :: "int option"
  ex_stdout :: "text_matcher option"
  ex_stderr :: "text_matcher option"
  ex_output :: "text_matcher option"
  ex_files :: "(string \<times> file_matcher) list option"

record regexps =
  rx_test :: "string \<Rightarrow> string \<Rightarrow> string \<Rightarrow> bool option"
  rx_group :: "string \<Rightarrow> string \<Rightarrow> string option option"

datatype subject =
    SExit | SStdout | SStderr | SOutput | SFiles | SStub | SExternal | SPrompt | SCapture
  | SHidden | SCount | SInputValue | STarget | SText | SUrl | SState | SAttribute | SClass
  | SStatus | SHeaders | SBody | SSchema | SJson | SProcess

datatype operator = OEquals | OContains | OMatches | OCompare

datatype comparator = CEquals | CAtMost | CAtLeast

datatype file_state = NotThere | IsDirectory | HasContent string

datatype phrase = ToExist | ToBeAbsent | ToExistForCheck

datatype reason =
    ExitWas int "int option"
  | NotEqual string string string bool
  | NotContaining string string string bool
  | NotMatching string string string bool string bool
  | NoNumberFound string string bool string
  | NotANumber string bool string string
  | OperandNotANumber string bool comparator string string
  | ComparisonFails string bool comparator comparand "rat option" string
  | FileIs string phrase file_state
  | FileNotEqual string string string
  | FileNotContaining string string string
  | StatusWas int "int option"
  | HeaderMissing string
  | BodyUnparseable string
  | BodyViolates violation
  | JsonIs string phrase "js_val option"
  | JsonNotEqual string json js_val

record mismatch =
  mm_subject :: subject
  mm_operator :: "operator option"
  mm_reason :: reason

subsection \<open>Text\<close>

definition flags_of :: "string option \<Rightarrow> string" where
  "flags_of f = (case f of None \<Rightarrow> [] | Some s \<Rightarrow> s)"

definition equals_miss :: "string \<Rightarrow> string option \<Rightarrow> string \<Rightarrow> reason option" where
  "equals_miss label wanted val =
     (case wanted of
        None \<Rightarrow> None
      | Some w \<Rightarrow>
          if val = w then None else Some (NotEqual label w val (map js_lower val = map js_lower w)))"

definition contains_miss :: "string \<Rightarrow> string option \<Rightarrow> string \<Rightarrow> reason option" where
  "contains_miss label wanted val =
     (case wanted of
        None \<Rightarrow> None
      | Some w \<Rightarrow>
          if js_includes w val then None
          else Some (NotContaining label w val (js_includes (map js_lower w) (map js_lower val))))"

definition matches_miss ::
    "regexps \<Rightarrow> string \<Rightarrow> string option \<Rightarrow> string option \<Rightarrow> string \<Rightarrow> reason option" where
  "matches_miss rx label wanted flags val =
     (case wanted of
        None \<Rightarrow> None
      | Some w \<Rightarrow>
          (case rx_test rx w (flags_of flags) val of
             Some True \<Rightarrow> None
           | found \<Rightarrow>
               Some (NotMatching label w (flags_of flags) (found \<noteq> None) val
                 (found \<noteq> None \<and> CHR ''i'' \<notin> set (flags_of flags)
                    \<and> rx_test rx w (flags_of flags @ ''i'') val = Some True))))"

text \<open>A finite number read out of a comparand or of the text.\<close>

definition toNumber :: "string \<Rightarrow> rat option" where
  "toNumber raw = (if js_trim raw = [] then None else finite_number (js_trim raw))"

text \<open>A number operand is written out with \<open>String\<close>, and \<open>Number\<close> reads that back as the same number.\<close>

definition comparand_number :: "comparand \<Rightarrow> rat option" where
  "comparand_number c = (case c of NumberOperand x \<Rightarrow> Some x | TextOperand s \<Rightarrow> toNumber s)"

fun holds :: "comparator \<Rightarrow> rat \<Rightarrow> js_num \<Rightarrow> bool" where
  "holds CEquals a b \<longleftrightarrow> b = Fin a"
| "holds CAtMost a b \<longleftrightarrow> js_le a b"
| "holds CAtLeast a b \<longleftrightarrow> js_ge a b"

text \<open>The operators, in the order they are checked.\<close>

definition operands :: "comparison \<Rightarrow> (comparator \<times> comparand) list" where
  "operands c =
     concat (map (\<lambda>(k, operand). case operand of Some x \<Rightarrow> [(k, x)] | None \<Rightarrow> [])
       [(CEquals, cp_equals c), (CAtMost, cp_atMost c), (CAtLeast, cp_atLeast c)])"

definition shifted :: "comparison \<Rightarrow> rat \<Rightarrow> js_num" where
  "shifted c x = js_sum x (case cp_offset c of Some d \<Rightarrow> d | None \<Rightarrow> 0)"

definition operand_miss ::
    "string \<Rightarrow> comparison \<Rightarrow> string \<Rightarrow> rat \<Rightarrow> comparator \<times> comparand \<Rightarrow> reason option" where
  "operand_miss label c raw actual kx =
     (case comparand_number (snd kx) of
        None \<Rightarrow>
          Some (OperandNotANumber label (cp_number c \<noteq> None) (fst kx)
            (case snd kx of TextOperand s \<Rightarrow> s | NumberOperand x \<Rightarrow> []) raw)
      | Some x \<Rightarrow>
          if holds (fst kx) actual (shifted c x) then None
          else Some (ComparisonFails label (cp_number c \<noteq> None) (fst kx) (snd kx) (cp_offset c) raw))"

text \<open>The text the number is read from.\<close>

definition located :: "regexps \<Rightarrow> comparison \<Rightarrow> string \<Rightarrow> string option" where
  "located rx c str =
     (case cp_number c of
        None \<Rightarrow> Some str
      | Some src \<Rightarrow> (case rx_group rx src str of Some g \<Rightarrow> g | None \<Rightarrow> None))"

definition matchComparison :: "regexps \<Rightarrow> string \<Rightarrow> comparison \<Rightarrow> string \<Rightarrow> reason option" where
  "matchComparison rx label c str =
     (case located rx c str of
        None \<Rightarrow>
          (let src = flags_of (cp_number c)
           in Some (NoNumberFound label src (rx_group rx src str \<noteq> None) str))
      | Some raw \<Rightarrow>
          (case toNumber raw of
             None \<Rightarrow> Some (NotANumber label (cp_number c \<noteq> None) raw str)
           | Some actual \<Rightarrow> first_some (operand_miss label c raw actual) (operands c)))"

definition compare_miss :: "regexps \<Rightarrow> string \<Rightarrow> comparison option \<Rightarrow> string \<Rightarrow> reason option" where
  "compare_miss rx label c str = (case c of None \<Rightarrow> None | Some c \<Rightarrow> matchComparison rx label c str)"

definition named :: "operator \<Rightarrow> reason option \<Rightarrow> (operator \<times> reason) option" where
  "named op r = map_option (Pair op) r"

text \<open>The first operator of a text matcher that misses.\<close>

definition text_miss :: "regexps \<Rightarrow> string \<Rightarrow> text_matcher \<Rightarrow> string \<Rightarrow> (operator \<times> reason) option" where
  "text_miss rx label m val =
     or_else (named OEquals (equals_miss label (tm_equals m) val))
      (or_else (named OContains (contains_miss label (tm_contains m) val))
        (or_else (named OMatches (matches_miss rx label (tm_matches m) (tm_flags m) val))
          (named OCompare (compare_miss rx label (tm_compare m) val))))"

definition matchTextMatcher ::
    "regexps \<Rightarrow> subject \<Rightarrow> string \<Rightarrow> text_matcher \<Rightarrow> string \<Rightarrow> mismatch option" where
  "matchTextMatcher rx sbj label m val =
     map_option
       (\<lambda>(op, r). \<lparr>mm_subject = sbj, mm_operator = (if sbj = SText then Some op else None), mm_reason = r\<rparr>)
       (text_miss rx label m val)"

fun stream_label :: "subject \<Rightarrow> string" where
  "stream_label SStdout = ''stdout''"
| "stream_label SStderr = ''stderr''"
| "stream_label s = ''output''"

definition matchStream :: "regexps \<Rightarrow> subject \<Rightarrow> text_matcher \<Rightarrow> string \<Rightarrow> mismatch option" where
  "matchStream rx sbj m val = matchTextMatcher rx sbj (stream_label sbj) m val"

subsection \<open>Files and commands\<close>

definition files_miss :: "reason \<Rightarrow> mismatch" where
  "files_miss r = \<lparr>mm_subject = SFiles, mm_operator = None, mm_reason = r\<rparr>"

definition fileMiss :: "string \<Rightarrow> phrase \<Rightarrow> file_state \<Rightarrow> mismatch" where
  "fileMiss rel phrase actual = files_miss (FileIs rel phrase actual)"

definition matchFile ::
    "(string \<Rightarrow> file_state) \<Rightarrow> (string \<Rightarrow> string) \<Rightarrow> string \<Rightarrow> file_matcher \<Rightarrow> mismatch option" where
  "matchFile fs normalizeText rel m =
     (let st = fs rel; there = (st \<noteq> NotThere)
      in if (fm_exists m = Some True \<or> fm_absent m = Some False) \<and> \<not> there then Some (fileMiss rel ToExist st)
         else if (fm_absent m = Some True \<or> fm_exists m = Some False) \<and> there then Some (fileMiss rel ToBeAbsent st)
         else if fm_equals m = None \<and> fm_contains m = None then None
         else (case st of
             HasContent c \<Rightarrow>
               (let content = normalizeText c
                in or_else
                    (case fm_equals m of Some w \<Rightarrow>
                       if content = w then None else Some (files_miss (FileNotEqual rel w content)) | None \<Rightarrow> None)
                    (case fm_contains m of Some w \<Rightarrow>
                       if js_includes w content then None
                       else Some (files_miss (FileNotContaining rel w content)) | None \<Rightarrow> None))
           | _ \<Rightarrow> Some (fileMiss rel ToExistForCheck st)))"

record command_result =
  cr_exit :: "int option"
  cr_stdout :: string
  cr_stderr :: string
  cr_files :: "string \<Rightarrow> file_state"
  cr_normalize :: "string \<Rightarrow> string"

definition exit_miss :: "guard_expect \<Rightarrow> command_result \<Rightarrow> mismatch option" where
  "exit_miss e r =
     (case ex_exit e of
        None \<Rightarrow> None
      | Some code \<Rightarrow>
          if cr_exit r = Some code then None
          else Some \<lparr>mm_subject = SExit, mm_operator = None, mm_reason = ExitWas code (cr_exit r)\<rparr>)"

definition stream_miss :: "regexps \<Rightarrow> subject \<Rightarrow> text_matcher option \<Rightarrow> string \<Rightarrow> mismatch option" where
  "stream_miss rx sbj m val = (case m of None \<Rightarrow> None | Some m \<Rightarrow> matchStream rx sbj m val)"

definition evaluateExpect :: "regexps \<Rightarrow> guard_expect \<Rightarrow> command_result \<Rightarrow> mismatch option" where
  "evaluateExpect rx e r =
     or_else (exit_miss e r)
      (or_else (stream_miss rx SStdout (ex_stdout e) (cr_stdout r))
        (or_else (stream_miss rx SStderr (ex_stderr e) (cr_stderr r))
          (or_else (stream_miss rx SOutput (ex_output e) (cr_stdout r @ cr_stderr r))
            (case ex_files e of
               None \<Rightarrow> None
             | Some fs \<Rightarrow> first_some (\<lambda>(rel, m). matchFile (cr_files r) (cr_normalize r) rel m) fs))))"

subsection \<open>The value at a JSON path\<close>

datatype path_seg = SName string | SIndex nat

text \<open>\<open>((?:\[\d+\])*)$\<close>: the indices after a name.\<close>

fun index_groups :: "nat \<Rightarrow> string \<Rightarrow> path_seg list option" where
  "index_groups 0 s = None"
| "index_groups (Suc fuel) s =
     (if s = [] then Some []
      else let ds = takeWhile digit (tl s); rest = dropWhile digit (tl s)
           in if hd s = CHR ''['' \<and> ds \<noteq> [] \<and> starts_with '']'' rest
              then map_option ((#) (SIndex (digits_value ds))) (index_groups fuel (tl rest))
              else None)"

definition path_part :: "string \<Rightarrow> path_seg list option" where
  "path_part part =
     (let plain = (\<lambda>c. c \<noteq> CHR ''['' \<and> c \<noteq> CHR '']''); name = takeWhile plain part; rest = dropWhile plain part
      in if name = [] \<and> rest = [] then None
         else map_option ((@) (if name = [] then [] else [SName name])) (index_groups (Suc (length rest)) rest))"

fun path_segments :: "string list \<Rightarrow> path_seg list option" where
  "path_segments [] = Some []"
| "path_segments (p # ps) =
     (case path_part p of
        None \<Rightarrow> None
      | Some segs \<Rightarrow> map_option ((@) segs) (path_segments ps))"

fun walk :: "js_val \<Rightarrow> path_seg list \<Rightarrow> js_val option" where
  "walk v [] = Some v"
| "walk v (SIndex i # segs) =
     (case v of Js (JArr xs) \<Rightarrow> if i < length xs then walk (Js (xs ! i)) segs else None | _ \<Rightarrow> None)"
| "walk v (SName k # segs) = (case js_get v k of None \<Rightarrow> None | Some w \<Rightarrow> walk w segs)"

text \<open>None is \<open>JSON_PATH_MISS\<close>.\<close>

definition lookupJsonPath :: "json \<Rightarrow> string \<Rightarrow> js_val option" where
  "lookupJsonPath doc path =
     (if path = [] then Some (Js doc)
      else case path_segments (js_split ''.'' path) of None \<Rightarrow> None | Some segs \<Rightarrow> walk (Js doc) segs)"

subsection \<open>API expectations\<close>

record json_matcher =
  jm_equals :: "json option"
  jm_contains :: "string option"
  jm_matches :: "string option"
  jm_flags :: "string option"
  jm_exists :: "bool option"
  jm_absent :: "bool option"
  jm_compare :: "comparison option"

record api_expect =
  ae_status :: "int option"
  ae_headers :: "(string \<times> text_matcher) list option"
  ae_body :: "text_matcher option"
  ae_json :: "(string \<times> json_matcher) list option"
  ae_schema :: "bool option"

record api_response =
  rp_status :: "int option"
  rp_headers :: "(string \<times> string) list"  \<comment> \<open>lower-cased names\<close>
  rp_bodyText :: string
  rp_parsed :: "string + json"  \<comment> \<open>\<open>parseJsonBody\<close>\<close>
  rp_normalize :: "string \<Rightarrow> string"
  rp_responseSchema :: "json option"

datatype seen =
    SawStatus "int option" | SawMissing | SawText string | SawUnparseable string
  | SawViolation violation | SawConforming | SawValue js_val

record api_check =
  ac_subject :: subject
  ac_seen :: seen
  ac_ok :: bool

text \<open>A function has no text: reading one is left open.\<close>

datatype open_end = ReadsFunction string

definition plain_miss :: "subject \<Rightarrow> reason \<Rightarrow> mismatch" where
  "plain_miss sbj r = \<lparr>mm_subject = sbj, mm_operator = None, mm_reason = r\<rparr>"

text \<open>The same matchers as on a stream, without the note on letter case.\<close>

fun no_case_note :: "reason \<Rightarrow> reason" where
  "no_case_note (NotEqual l w v c) = NotEqual l w v False"
| "no_case_note (NotContaining l w v c) = NotContaining l w v False"
| "no_case_note (NotMatching l w f ok v c) = NotMatching l w f ok v False"
| "no_case_note r = r"

definition matchText :: "regexps \<Rightarrow> string \<Rightarrow> text_matcher \<Rightarrow> string \<Rightarrow> reason option" where
  "matchText rx label m val = map_option (no_case_note \<circ> snd) (text_miss rx label m val)"

definition jsonLabel :: "string \<Rightarrow> string" where
  "jsonLabel path = (if path = [] then ''json root'' else ''json '' @ path)"

definition json_text :: "js_val \<Rightarrow> open_end + string" where
  "json_text v = (case captureValueToString v of Some s \<Rightarrow> Inr s
     | None \<Rightarrow> Inl (ReadsFunction (case v of Builtin f \<Rightarrow> f | _ \<Rightarrow> [])))"

definition value_asked :: "json_matcher \<Rightarrow> bool" where
  "value_asked m \<longleftrightarrow> jm_equals m \<noteq> None \<or> jm_contains m \<noteq> None \<or> jm_matches m \<noteq> None \<or> jm_compare m \<noteq> None"

definition json_value_miss ::
    "regexps \<Rightarrow> (string \<Rightarrow> string) \<Rightarrow> string \<Rightarrow> json_matcher \<Rightarrow> js_val \<Rightarrow> string \<Rightarrow> reason option" where
  "json_value_miss rx normalizeText label m v str =
     or_else
       (case jm_equals m of Some w \<Rightarrow>
          if (case v of
                Js j \<Rightarrow> jsonEquals j (Js w)
              | ObjectPrototype \<Rightarrow> (case w of JObj [] \<Rightarrow> True | _ \<Rightarrow> False)
              | Builtin _ \<Rightarrow> False)
          then None else Some (JsonNotEqual label w v) | None \<Rightarrow> None)
       (or_else
         (matchText rx label
            \<lparr>tm_equals = None, tm_contains = jm_contains m, tm_matches = jm_matches m, tm_flags = jm_flags m,
             tm_compare = None\<rparr> (normalizeText str))
         (compare_miss rx label (jm_compare m) (normalizeText str)))"

definition matchJsonPath ::
    "regexps \<Rightarrow> (string \<Rightarrow> string) \<Rightarrow> json \<Rightarrow> string \<Rightarrow> json_matcher \<Rightarrow> open_end + mismatch option" where
  "matchJsonPath rx normalizeText doc path m =
     (let label = jsonLabel path; found = lookupJsonPath doc path;
          miss = (\<lambda>r. Some (plain_miss SJson r))
      in if (jm_exists m = Some True \<or> jm_absent m = Some False) \<and> found = None
         then Inr (miss (JsonIs label ToExist None))
         else if (jm_absent m = Some True \<or> jm_exists m = Some False) \<and> found \<noteq> None
         then map_sum id (\<lambda>_. miss (JsonIs label ToBeAbsent found)) (json_text (the found))
         else if \<not> value_asked m then Inr None
         else (case found of
             None \<Rightarrow> Inr (miss (JsonIs label ToExistForCheck None))
           | Some v \<Rightarrow>
               map_sum id (\<lambda>str. map_option (plain_miss SJson) (json_value_miss rx normalizeText label m v str))
                 (json_text v)))"

text \<open>One row per member: what the response answered, and the miss if there is one.\<close>

type_synonym row = "seen \<times> mismatch option"

definition status_rows :: "api_expect \<Rightarrow> api_response \<Rightarrow> (open_end + row) list" where
  "status_rows e r =
     (case ae_status e of
        None \<Rightarrow> []
      | Some s \<Rightarrow>
          [Inr (SawStatus (rp_status r),
             if rp_status r = Some s then None else Some (plain_miss SStatus (StatusWas s (rp_status r))))])"

definition header_row :: "regexps \<Rightarrow> api_response \<Rightarrow> string \<times> text_matcher \<Rightarrow> open_end + row" where
  "header_row rx r nm =
     (case map_of (rp_headers r) (map js_lower (fst nm)) of
        None \<Rightarrow> Inr (SawMissing, Some (plain_miss SHeaders (HeaderMissing (fst nm))))
      | Some v \<Rightarrow>
          Inr (SawText v, map_option (plain_miss SHeaders) (matchText rx (''header '' @ fst nm) (snd nm) v)))"

definition body_rows :: "regexps \<Rightarrow> api_expect \<Rightarrow> api_response \<Rightarrow> (open_end + row) list" where
  "body_rows rx e r =
     (case ae_body e of
        None \<Rightarrow> []
      | Some m \<Rightarrow>
          [Inr (SawText (rp_bodyText r), map_option (plain_miss SBody) (matchText rx ''body'' m (rp_bodyText r)))])"

definition schema_rows :: "api_expect \<Rightarrow> api_response \<Rightarrow> (open_end + row) list" where
  "schema_rows e r =
     (case (ae_schema e, rp_responseSchema r) of
        (Some True, Some schema) \<Rightarrow>
          (case rp_parsed r of
             Inl err \<Rightarrow> [Inr (SawUnparseable err, Some (plain_miss SSchema (BodyUnparseable err)))]
           | Inr v \<Rightarrow>
               (case validateAgainstSchema (Js v) schema of
                  None \<Rightarrow> [Inr (SawConforming, None)]
                | Some x \<Rightarrow> [Inr (SawViolation x, Some (plain_miss SSchema (BodyViolates x)))]))
      | _ \<Rightarrow> [])"

definition json_row :: "regexps \<Rightarrow> api_response \<Rightarrow> string \<times> json_matcher \<Rightarrow> open_end + row" where
  "json_row rx r pm =
     (case rp_parsed r of
        Inl err \<Rightarrow> Inr (SawUnparseable err, Some (plain_miss SJson (BodyUnparseable err)))
      | Inr doc \<Rightarrow>
          map_sum id
            (Pair (case lookupJsonPath doc (fst pm) of None \<Rightarrow> SawMissing | Some v \<Rightarrow> SawValue v))
            (matchJsonPath rx (rp_normalize r) doc (fst pm) (snd pm)))"

definition opt_list :: "'a list option \<Rightarrow> 'a list" where
  "opt_list xs = (case xs of None \<Rightarrow> [] | Some ys \<Rightarrow> ys)"

definition api_rows :: "regexps \<Rightarrow> api_expect \<Rightarrow> api_response \<Rightarrow> (subject \<times> (open_end + row)) list" where
  "api_rows rx e r =
     map (Pair SStatus) (status_rows e r)
     @ map (\<lambda>nm. (SHeaders, header_row rx r nm)) (opt_list (ae_headers e))
     @ map (Pair SBody) (body_rows rx e r)
     @ map (Pair SSchema) (schema_rows e r)
     @ map (\<lambda>pm. (SJson, json_row rx r pm)) (opt_list (ae_json e))"

definition check_of :: "subject \<Rightarrow> row \<Rightarrow> api_check" where
  "check_of sbj row = \<lparr>ac_subject = sbj, ac_seen = fst row, ac_ok = (snd row = None)\<rparr>"

definition observeApiExpect ::
    "regexps \<Rightarrow> api_expect \<Rightarrow> api_response \<Rightarrow> open_end + (api_check list \<times> mismatch option)" where
  "observeApiExpect rx e r =
     map_sum id
       (\<lambda>rows. (map (\<lambda>(s, row). check_of s row) rows, first_some (snd \<circ> snd) rows))
       (all_right (map (\<lambda>(s, x). map_sum id (Pair s) x) (api_rows rx e r)))"

definition evaluateApiExpect :: "regexps \<Rightarrow> api_expect \<Rightarrow> api_response \<Rightarrow> open_end + mismatch option" where
  "evaluateApiExpect rx e r = map_sum id snd (observeApiExpect rx e r)"

subsection \<open>Interpolating an expectation\<close>

text \<open>The strings of a comparison, and of the expectation of a command or of files, rewritten: the first
  rewriting that throws ends it.\<close>

definition operand_text :: "(string \<Rightarrow> 'e + string) \<Rightarrow> comparand option \<Rightarrow> 'e + comparand option" where
  "operand_text s c =
     (case c of Some (TextOperand t) \<Rightarrow> map_sum id (Some \<circ> TextOperand) (s t) | _ \<Rightarrow> Inr c)"

definition mapComparisonStrings :: "(string \<Rightarrow> 'e + string) \<Rightarrow> comparison \<Rightarrow> 'e + comparison" where
  "mapComparisonStrings s c =
     (case operand_text s (cp_equals c) of Inl e \<Rightarrow> Inl e | Inr x \<Rightarrow>
      (case operand_text s (cp_atMost c) of Inl e \<Rightarrow> Inl e | Inr y \<Rightarrow>
      (case operand_text s (cp_atLeast c) of Inl e \<Rightarrow> Inl e | Inr z \<Rightarrow>
         Inr (c\<lparr>cp_equals := x, cp_atMost := y, cp_atLeast := z\<rparr>))))"

definition map_text_matcher :: "(string \<Rightarrow> 'e + string) \<Rightarrow> text_matcher \<Rightarrow> 'e + text_matcher" where
  "map_text_matcher s m =
     (case traverse_option s (tm_equals m) of Inl e \<Rightarrow> Inl e | Inr a \<Rightarrow>
      (case traverse_option s (tm_contains m) of Inl e \<Rightarrow> Inl e | Inr b \<Rightarrow>
      (case traverse_option s (tm_matches m) of Inl e \<Rightarrow> Inl e | Inr c \<Rightarrow>
      (case traverse_option (mapComparisonStrings s) (tm_compare m) of Inl e \<Rightarrow> Inl e | Inr d \<Rightarrow>
         Inr (m\<lparr>tm_equals := a, tm_contains := b, tm_matches := c, tm_compare := d\<rparr>)))))"

definition map_file_matcher :: "(string \<Rightarrow> 'e + string) \<Rightarrow> file_matcher \<Rightarrow> 'e + file_matcher" where
  "map_file_matcher s m =
     (case traverse_option s (fm_equals m) of Inl e \<Rightarrow> Inl e | Inr a \<Rightarrow>
      (case traverse_option s (fm_contains m) of Inl e \<Rightarrow> Inl e | Inr b \<Rightarrow>
         Inr (m\<lparr>fm_equals := a, fm_contains := b\<rparr>)))"

text \<open>\<open>Object.fromEntries\<close>: a key that comes again keeps its place and takes the later value.\<close>

definition from_entries :: "(string \<times> 'a) list \<Rightarrow> (string \<times> 'a) list" where
  "from_entries kvs = foldl (\<lambda>m (k, v). AList.update k v m) [] kvs"

definition map_files ::
    "(string \<Rightarrow> 'e + string) \<Rightarrow> (string \<times> file_matcher) list \<Rightarrow> 'e + (string \<times> file_matcher) list" where
  "map_files s fs =
     map_sum id from_entries
       (all_right (map (\<lambda>(k, m). case s k of Inl e \<Rightarrow> Inl e | Inr k' \<Rightarrow> map_sum id (Pair k') (map_file_matcher s m)) fs))"

definition mapExpectStrings :: "(string \<Rightarrow> 'e + string) \<Rightarrow> guard_expect \<Rightarrow> 'e + guard_expect" where
  "mapExpectStrings s x =
     (case traverse_option (map_text_matcher s) (ex_stdout x) of Inl e \<Rightarrow> Inl e | Inr a \<Rightarrow>
      (case traverse_option (map_text_matcher s) (ex_stderr x) of Inl e \<Rightarrow> Inl e | Inr b \<Rightarrow>
      (case traverse_option (map_text_matcher s) (ex_output x) of Inl e \<Rightarrow> Inl e | Inr c \<Rightarrow>
      (case traverse_option (map_files s) (ex_files x) of Inl e \<Rightarrow> Inl e | Inr d \<Rightarrow>
         Inr (x\<lparr>ex_stdout := a, ex_stderr := b, ex_output := c, ex_files := d\<rparr>)))))"

definition applySandboxExpect :: "string \<Rightarrow> guard_expect \<Rightarrow> string + guard_expect" where
  "applySandboxExpect cwd x = mapExpectStrings (\<lambda>t. Inr (applySandbox t cwd)) x"

definition map_json_matcher ::
    "vars \<Rightarrow> fixtures \<Rightarrow> (string \<Rightarrow> json option) \<Rightarrow> json_matcher \<Rightarrow> token_error + json_matcher" where
  "map_json_matcher vars fixtures nativeVars m =
     (let one = resolveText vars fixtures
      in case traverse_option (mapComparisonStrings one) (jm_compare m) of Inl e \<Rightarrow> Inl e | Inr d \<Rightarrow>
        (case traverse_option (interpolateJson vars fixtures nativeVars) (jm_equals m) of Inl e \<Rightarrow> Inl e | Inr a \<Rightarrow>
        (case traverse_option one (jm_contains m) of Inl e \<Rightarrow> Inl e | Inr b \<Rightarrow>
        (case traverse_option one (jm_matches m) of Inl e \<Rightarrow> Inl e | Inr c \<Rightarrow>
           Inr (m\<lparr>jm_compare := d, jm_equals := (case a of Some j \<Rightarrow> j | None \<Rightarrow> None), jm_contains := b,
                  jm_matches := c\<rparr>)))))"

definition interpolateApiExpect ::
    "vars \<Rightarrow> fixtures \<Rightarrow> (string \<Rightarrow> json option) \<Rightarrow> api_expect \<Rightarrow> token_error + api_expect" where
  "interpolateApiExpect vars fixtures nativeVars x =
     (let stream = map_text_matcher (resolveText vars fixtures)
      in case traverse_option (map_values stream) (ae_headers x) of Inl e \<Rightarrow> Inl e | Inr hs \<Rightarrow>
        (case traverse_option stream (ae_body x) of Inl e \<Rightarrow> Inl e | Inr b \<Rightarrow>
        (case traverse_option (map_values (map_json_matcher vars fixtures nativeVars)) (ae_json x) of
           Inl e \<Rightarrow> Inl e | Inr js \<Rightarrow>
           Inr (x\<lparr>ae_headers := hs, ae_body := b, ae_json := js\<rparr>))))"

subsection \<open>What an expectation asks\<close>

definition comparison_holds :: "regexps \<Rightarrow> comparison \<Rightarrow> string \<Rightarrow> bool" where
  "comparison_holds rx c str \<longleftrightarrow>
     (case Option.bind (located rx c str) toNumber of
        None \<Rightarrow> False
      | Some a \<Rightarrow>
          list_all (\<lambda>(k, x). case comparand_number x of None \<Rightarrow> False | Some y \<Rightarrow> holds k a (shifted c y)) (operands c))"

definition text_holds :: "regexps \<Rightarrow> text_matcher \<Rightarrow> string \<Rightarrow> bool" where
  "text_holds rx m v \<longleftrightarrow>
     pred_option (\<lambda>w. v = w) (tm_equals m) \<and> pred_option (\<lambda>w. sublist w v) (tm_contains m) \<and>
     pred_option (\<lambda>w. rx_test rx w (flags_of (tm_flags m)) v = Some True) (tm_matches m) \<and>
     pred_option (\<lambda>c. comparison_holds rx c v) (tm_compare m)"

definition wants_there :: "bool option \<Rightarrow> bool option \<Rightarrow> bool" where
  "wants_there ex absent \<longleftrightarrow> ex = Some True \<or> absent = Some False"

definition wants_absent :: "bool option \<Rightarrow> bool option \<Rightarrow> bool" where
  "wants_absent ex absent \<longleftrightarrow> absent = Some True \<or> ex = Some False"

definition file_holds :: "(string \<Rightarrow> string) \<Rightarrow> file_matcher \<Rightarrow> file_state \<Rightarrow> bool" where
  "file_holds normalizeText m st \<longleftrightarrow>
     (wants_there (fm_exists m) (fm_absent m) \<longrightarrow> st \<noteq> NotThere) \<and>
     (wants_absent (fm_exists m) (fm_absent m) \<longrightarrow> st = NotThere) \<and>
     (fm_equals m \<noteq> None \<or> fm_contains m \<noteq> None \<longrightarrow>
        (case st of
           HasContent c \<Rightarrow> pred_option (\<lambda>w. normalizeText c = w) (fm_equals m)
             \<and> pred_option (\<lambda>w. sublist w (normalizeText c)) (fm_contains m)
         | _ \<Rightarrow> False))"

definition expect_holds :: "regexps \<Rightarrow> guard_expect \<Rightarrow> command_result \<Rightarrow> bool" where
  "expect_holds rx e r \<longleftrightarrow>
     pred_option (\<lambda>code. cr_exit r = Some code) (ex_exit e) \<and>
     pred_option (\<lambda>m. text_holds rx m (cr_stdout r)) (ex_stdout e) \<and>
     pred_option (\<lambda>m. text_holds rx m (cr_stderr r)) (ex_stderr e) \<and>
     pred_option (\<lambda>m. text_holds rx m (cr_stdout r @ cr_stderr r)) (ex_output e) \<and>
     pred_option (list_all (\<lambda>(rel, m). file_holds (cr_normalize r) m (cr_files r rel))) (ex_files e)"

lemma matchComparison_None: "matchComparison rx label c str = None \<longleftrightarrow> comparison_holds rx c str"
proof (cases "Option.bind (located rx c str) toNumber")
  case None
  then show ?thesis
    by (auto simp: matchComparison_def comparison_holds_def Let_def split: option.splits Option.bind_splits)
next
  case (Some a)
  then obtain raw where raw: "located rx c str = Some raw" "toNumber raw = Some a"
    by (auto split: Option.bind_splits)
  have "operand_miss label c raw a kx = None \<longleftrightarrow>
      (case comparand_number (snd kx) of None \<Rightarrow> False | Some y \<Rightarrow> holds (fst kx) a (shifted c y))" for kx
    by (auto simp: operand_miss_def split: option.split)
  then show ?thesis
    unfolding matchComparison_def comparison_holds_def
    by (simp add: raw first_some_None_list_all case_prod_unfold del: first_some_None)
qed

lemma text_miss_None: "text_miss rx label m v = None \<longleftrightarrow> text_holds rx m v"
  by (auto simp: text_miss_def text_holds_def named_def equals_miss_def contains_miss_def matches_miss_def
      compare_miss_def matchComparison_None js_includes_iff split: option.split bool.split)

lemma matchText_None: "matchText rx label m v = None \<longleftrightarrow> text_holds rx m v"
  by (simp add: matchText_def text_miss_None)

lemma matchTextMatcher_None: "matchTextMatcher rx sbj label m v = None \<longleftrightarrow> text_holds rx m v"
  by (simp add: matchTextMatcher_def text_miss_None)

lemma stream_miss_None: "stream_miss rx sbj m v = None \<longleftrightarrow> pred_option (\<lambda>m. text_holds rx m v) m"
  by (simp add: stream_miss_def matchStream_def matchTextMatcher_None split: option.split)

lemma matchFile_None: "matchFile fs nrm rel m = None \<longleftrightarrow> file_holds nrm m (fs rel)"
  by (auto simp: matchFile_def file_holds_def wants_there_def wants_absent_def js_includes_iff Let_def
      split: file_state.split option.splits)

text \<open>A command step is judged by what it asserts and by nothing else: no mismatch is reported exactly
  when the exit code is the one asked for, the three streams satisfy every operator declared on them,
  and every file is there, absent or of the content asked for. No declared half is skipped because
  another holds.\<close>

theorem command_judged_exactly:
  "evaluateExpect rx e r = None \<longleftrightarrow> expect_holds rx e r"
proof -
  have "exit_miss e r = None \<longleftrightarrow> pred_option (\<lambda>code. cr_exit r = Some code) (ex_exit e)"
    by (simp add: exit_miss_def split: option.split)
  moreover have "first_some (\<lambda>(rel, m). matchFile (cr_files r) (cr_normalize r) rel m) fs = None
      \<longleftrightarrow> list_all (\<lambda>(rel, m). file_holds (cr_normalize r) m (cr_files r rel)) fs" for fs
    unfolding first_some_None_list_all by (rule list_all_cong) (auto simp: matchFile_None)
  ultimately show ?thesis
    by (simp add: evaluateExpect_def expect_holds_def stream_miss_None del: first_some_None split: option.split)
qed

definition json_holds :: "regexps \<Rightarrow> (string \<Rightarrow> string) \<Rightarrow> json_matcher \<Rightarrow> js_val option \<Rightarrow> bool" where
  "json_holds rx normalizeText m found \<longleftrightarrow>
     (wants_there (jm_exists m) (jm_absent m) \<longrightarrow> found \<noteq> None) \<and>
     (wants_absent (jm_exists m) (jm_absent m) \<longrightarrow> found = None) \<and>
     (value_asked m \<longrightarrow>
        (case found of
           None \<Rightarrow> False
         | Some v \<Rightarrow>
             (case captureValueToString v of
                None \<Rightarrow> False
              | Some str \<Rightarrow>
                  pred_option (\<lambda>w. case v of Js j \<Rightarrow> jsonEquals j (Js w) | _ \<Rightarrow> w = JObj []) (jm_equals m) \<and>
                  pred_option (\<lambda>w. sublist w (normalizeText str)) (jm_contains m) \<and>
                  pred_option (\<lambda>w. rx_test rx w (flags_of (jm_flags m)) (normalizeText str) = Some True) (jm_matches m) \<and>
                  pred_option (\<lambda>c. comparison_holds rx c (normalizeText str)) (jm_compare m))))"

definition api_holds :: "regexps \<Rightarrow> api_expect \<Rightarrow> api_response \<Rightarrow> bool" where
  "api_holds rx e r \<longleftrightarrow>
     pred_option (\<lambda>s. rp_status r = Some s) (ae_status e) \<and>
     list_all (\<lambda>(name, m). case map_of (rp_headers r) (map js_lower name) of
                 None \<Rightarrow> False | Some v \<Rightarrow> text_holds rx m v) (opt_list (ae_headers e)) \<and>
     pred_option (\<lambda>m. text_holds rx m (rp_bodyText r)) (ae_body e) \<and>
     (ae_schema e = Some True \<longrightarrow>
        pred_option (\<lambda>schema. case rp_parsed r of Inl _ \<Rightarrow> False | Inr v \<Rightarrow> conforms (Js v) schema) (rp_responseSchema r)) \<and>
     list_all (\<lambda>(path, m). case rp_parsed r of
                 Inl _ \<Rightarrow> False | Inr doc \<Rightarrow> json_holds rx (rp_normalize r) m (lookupJsonPath doc path))
       (opt_list (ae_json e))"

lemma json_value_miss_None:
  "json_value_miss rx nrm label m v str = None \<longleftrightarrow>
     pred_option (\<lambda>w. case v of Js j \<Rightarrow> jsonEquals j (Js w) | ObjectPrototype \<Rightarrow> w = JObj [] | Builtin _ \<Rightarrow> False)
       (jm_equals m) \<and>
     pred_option (\<lambda>w. sublist w (nrm str)) (jm_contains m) \<and>
     pred_option (\<lambda>w. rx_test rx w (flags_of (jm_flags m)) (nrm str) = Some True) (jm_matches m) \<and>
     pred_option (\<lambda>c. comparison_holds rx c (nrm str)) (jm_compare m)"
proof -
  have "(case jm_equals m of Some w \<Rightarrow>
          if (case v of
                Js j \<Rightarrow> jsonEquals j (Js w)
              | ObjectPrototype \<Rightarrow> (case w of JObj [] \<Rightarrow> True | _ \<Rightarrow> False)
              | Builtin _ \<Rightarrow> False)
          then None else Some (JsonNotEqual label w v) | None \<Rightarrow> None) = None
      \<longleftrightarrow> pred_option (\<lambda>w. case v of Js j \<Rightarrow> jsonEquals j (Js w) | ObjectPrototype \<Rightarrow> w = JObj [] | Builtin _ \<Rightarrow> False)
            (jm_equals m)"
    by (auto split: option.split js_val.split json.split list.split)
  then show ?thesis
    by (simp add: json_value_miss_def matchText_None text_holds_def compare_miss_def matchComparison_None
        split: option.split)
qed

lemma json_text_simps:
  "json_text v = Inr str \<longleftrightarrow> captureValueToString v = Some str"
  by (auto simp: json_text_def split: option.split)

lemma matchJsonPath_holds:
  "matchJsonPath rx nrm doc path m = Inr None \<longleftrightarrow> json_holds rx nrm m (lookupJsonPath doc path)"
proof (cases "lookupJsonPath doc path")
  case None
  then show ?thesis
    by (auto simp: matchJsonPath_def json_holds_def wants_there_def wants_absent_def Let_def)
next
  case (Some v)
  have "map_sum id (\<lambda>str. map_option (plain_miss SJson) (json_value_miss rx nrm (jsonLabel path) m v str)) (json_text v)
       = Inr None
     \<longleftrightarrow> (case captureValueToString v of None \<Rightarrow> False
           | Some str \<Rightarrow> json_value_miss rx nrm (jsonLabel path) m v str = None)"
    by (auto simp: json_text_def split: option.split)
  moreover have "map_sum id (\<lambda>_. Some x) y \<noteq> Inr None" for x :: mismatch and y :: "open_end + string"
    by (cases y) simp_all
  moreover have "captureValueToString v = Some str \<Longrightarrow>
      (case v of Js j \<Rightarrow> jsonEquals j (Js w) | ObjectPrototype \<Rightarrow> w = JObj [] | Builtin _ \<Rightarrow> False)
      \<longleftrightarrow> (case v of Js j \<Rightarrow> jsonEquals j (Js w) | _ \<Rightarrow> w = JObj [])" for str w
    by (cases v) simp_all
  ultimately show ?thesis
    using Some
    by (auto simp: matchJsonPath_def json_holds_def wants_there_def wants_absent_def Let_def json_value_miss_None
        cong: option.pred_cong split: option.split)
qed

lemma all_right_map_Inr [simp]: "all_right (map Inr xs) = Inr xs"
  by (induction xs) simp_all

lemma all_right_Inr: "all_right rs = Inr xs \<longleftrightarrow> rs = map Inr xs"
proof
  show "all_right rs = Inr xs \<Longrightarrow> rs = map Inr xs"
    by (induction rs arbitrary: xs) (auto split: sum.splits)
qed simp

definition row_holds :: "open_end + row \<Rightarrow> bool" where
  "row_holds x \<longleftrightarrow> (case x of Inr (_, None) \<Rightarrow> True | _ \<Rightarrow> False)"

lemma row_holds_simps [simp]:
  "row_holds (Inl x) = False"
  "row_holds (Inr row) \<longleftrightarrow> snd row = None"
  by (auto simp: row_holds_def split: prod.split option.split)

definition tagged :: "subject \<times> (open_end + row) \<Rightarrow> open_end + subject \<times> row" where
  "tagged sx = map_sum id (Pair (fst sx)) (snd sx)"

lemma tagged_simps [simp]: "tagged (s, Inl e) = Inl e" "tagged (s, Inr row) = Inr (s, row)"
  by (simp_all add: tagged_def)

lemma tagged_rows: "map (\<lambda>(s, x). map_sum id (Pair s) x) rs = map tagged rs"
  by (simp add: tagged_def case_prod_unfold)

lemma rows_hold:
  "(\<exists>rows. map tagged rs = map Inr rows \<and> list_all (\<lambda>row. snd (snd row) = None) rows)
     \<longleftrightarrow> list_all (row_holds \<circ> snd) rs"
proof (induction rs)
  case (Cons sx rs)
  obtain s x where sx: "sx = (s, x)" by fastforce
  show ?case
    using Cons.IH by (cases x) (auto simp: sx Cons_eq_map_conv)
qed simp

lemma evaluate_rows:
  "evaluateApiExpect rx e r = Inr None \<longleftrightarrow> list_all (row_holds \<circ> snd) (api_rows rx e r)"
proof -
  have "map_sum id snd (map_sum id (\<lambda>rows. (map (\<lambda>(s, row). check_of s row) rows, first_some (snd \<circ> snd) rows)) z) = Inr None
      \<longleftrightarrow> (\<exists>rows. z = Inr rows \<and> list_all (\<lambda>row. snd (snd row) = None) rows)" for z :: "open_end + (subject \<times> row) list"
    by (cases z) (simp_all add: first_some_None_list_all del: first_some_None)
  then show ?thesis
    by (simp add: evaluateApiExpect_def observeApiExpect_def tagged_rows all_right_Inr rows_hold)
qed

lemma api_judged_holds: "evaluateApiExpect rx e r = Inr None \<longleftrightarrow> api_holds rx e r"
proof -
  have "list_all (row_holds \<circ> snd) (map (Pair SStatus) (status_rows e r))
      \<longleftrightarrow> pred_option (\<lambda>s. rp_status r = Some s) (ae_status e)"
    by (simp add: status_rows_def split: option.split)
  moreover have "list_all (row_holds \<circ> snd) (map (\<lambda>nm. (SHeaders, header_row rx r nm)) hs)
      \<longleftrightarrow> list_all (\<lambda>(name, m). case map_of (rp_headers r) (map js_lower name) of
            None \<Rightarrow> False | Some v \<Rightarrow> text_holds rx m v) hs" for hs
    unfolding list.pred_map
    by (rule list_all_cong)
      (auto simp: header_row_def matchText_None split: option.splits)
  moreover have "list_all (row_holds \<circ> snd) (map (Pair SBody) (body_rows rx e r))
      \<longleftrightarrow> pred_option (\<lambda>m. text_holds rx m (rp_bodyText r)) (ae_body e)"
    by (auto simp: body_rows_def matchText_None split: option.split)
  moreover have "list_all (row_holds \<circ> snd) (map (Pair SSchema) (schema_rows e r))
      \<longleftrightarrow> (ae_schema e = Some True \<longrightarrow>
        pred_option (\<lambda>schema. case rp_parsed r of Inl _ \<Rightarrow> False | Inr v \<Rightarrow> conforms (Js v) schema) (rp_responseSchema r))"
    by (auto simp: schema_rows_def conforms_def split: option.split bool.split sum.split)
  moreover have "list_all (row_holds \<circ> snd) (map (\<lambda>pm. (SJson, json_row rx r pm)) js)
      \<longleftrightarrow> list_all (\<lambda>(path, m). case rp_parsed r of
            Inl _ \<Rightarrow> False | Inr doc \<Rightarrow> json_holds rx (rp_normalize r) m (lookupJsonPath doc path)) js" for js
  proof (cases "rp_parsed r")
    case (Inr doc)
    have "row_holds (map_sum id (Pair a) x) \<longleftrightarrow> x = Inr None" for a :: seen and x :: "open_end + mismatch option"
      by (cases x) auto
    then show ?thesis
      unfolding list.pred_map by (intro list_all_cong) (auto simp: json_row_def Inr matchJsonPath_holds)
  qed (simp add: list.pred_map json_row_def comp_def case_prod_unfold)
  ultimately show ?thesis
    unfolding evaluate_rows api_rows_def api_holds_def list_all_append by blast
qed


definition observation_honest :: "api_expect \<Rightarrow> api_response \<Rightarrow> api_check list \<times> mismatch option \<Rightarrow> bool" where
  "observation_honest e r obs \<longleftrightarrow>
     map ac_subject (fst obs) =
       concat [map (\<lambda>_. SStatus) (case ae_status e of None \<Rightarrow> [] | Some s \<Rightarrow> [s]),
               map (\<lambda>_. SHeaders) (opt_list (ae_headers e)),
               map (\<lambda>_. SBody) (case ae_body e of None \<Rightarrow> [] | Some m \<Rightarrow> [m]),
               (if ae_schema e = Some True \<and> rp_responseSchema r \<noteq> None then [SSchema] else []),
               map (\<lambda>_. SJson) (opt_list (ae_json e))] \<and>
     map_option mm_subject (snd obs) = map_option ac_subject (find (\<lambda>c. \<not> ac_ok c) (fst obs))"

lemma map_sum_Inr: "map_sum id f x = Inr y \<longleftrightarrow> (\<exists>z. x = Inr z \<and> f z = y)"
  by (cases x) auto

lemma matchJsonPath_subject: "matchJsonPath rx nrm doc p m = Inr (Some mm) \<Longrightarrow> mm_subject mm = SJson"
  by (auto simp: matchJsonPath_def plain_miss_def map_sum_Inr Let_def split: if_splits option.splits)

lemma schema_rows_subject: "Inr (sn, Some mm) \<in> set (schema_rows e r) \<Longrightarrow> mm_subject mm = SSchema"
  by (cases "rp_parsed r") (auto simp: schema_rows_def plain_miss_def split: option.splits bool.splits)

lemma json_row_subject: "json_row rx r pm = Inr (sn, Some mm) \<Longrightarrow> mm_subject mm = SJson"
  by (auto simp: json_row_def plain_miss_def map_sum_Inr dest: matchJsonPath_subject split: sum.splits)

lemma row_subjects:
  assumes "(s, Inr (sn, Some mm)) \<in> set (api_rows rx e r)"
  shows "mm_subject mm = s"
proof -
  have "Inr (sn, Some mm) \<in> set (status_rows e r) \<Longrightarrow> mm_subject mm = SStatus"
    by (auto simp: status_rows_def plain_miss_def split: option.splits if_splits)
  moreover have "header_row rx r nm = Inr (sn, Some mm) \<Longrightarrow> mm_subject mm = SHeaders" for nm
    by (auto simp: header_row_def plain_miss_def split: option.splits)
  moreover have "Inr (sn, Some mm) \<in> set (body_rows rx e r) \<Longrightarrow> mm_subject mm = SBody"
    by (cases "ae_body e") (auto simp: body_rows_def plain_miss_def dest!: sym [of "Some mm"])
  ultimately show ?thesis
    using assms schema_rows_subject [of sn mm e r] json_row_subject [of rx r _ sn mm]
    by (auto simp: api_rows_def)
qed

lemma first_miss_of_rows:
  "list_all (\<lambda>row. pred_option (\<lambda>mm. mm_subject mm = fst row) (snd (snd row))) rows \<Longrightarrow>
     map_option mm_subject (first_some (snd \<circ> snd) rows)
     = map_option ac_subject (find (\<lambda>c. \<not> ac_ok c) (map (\<lambda>(s, row). check_of s row) rows))"
proof (induction rows)
  case (Cons x rows)
  show ?case
    using Cons by (cases "snd (snd x)") (simp_all add: check_of_def case_prod_unfold)
qed simp

lemma row_list_subjects: "map fst (api_rows rx e r) =
       concat [map (\<lambda>_. SStatus) (case ae_status e of None \<Rightarrow> [] | Some s \<Rightarrow> [s]),
               map (\<lambda>_. SHeaders) (opt_list (ae_headers e)),
               map (\<lambda>_. SBody) (case ae_body e of None \<Rightarrow> [] | Some m \<Rightarrow> [m]),
               (if ae_schema e = Some True \<and> rp_responseSchema r \<noteq> None then [SSchema] else []),
               map (\<lambda>_. SJson) (opt_list (ae_json e))]"
proof -
  have "map (\<lambda>_. SStatus) (status_rows e r) = map (\<lambda>_. SStatus) (case ae_status e of None \<Rightarrow> [] | Some s \<Rightarrow> [s])"
    by (cases "ae_status e") (simp_all add: status_rows_def)
  moreover have "map (\<lambda>_. SBody) (body_rows rx e r) = map (\<lambda>_. SBody) (case ae_body e of None \<Rightarrow> [] | Some m \<Rightarrow> [m])"
    by (cases "ae_body e") (simp_all add: body_rows_def)
  moreover have "map (\<lambda>_. SSchema) (schema_rows e r)
      = (if ae_schema e = Some True \<and> rp_responseSchema r \<noteq> None then [SSchema] else [])"
    by (cases "rp_parsed r") (auto simp: schema_rows_def split: option.split bool.split)
  ultimately show ?thesis
    by (simp add: api_rows_def comp_def)
qed

text \<open>What an API step shows is what it was judged by: in every observation that is made, there is one check
  per member the expectation declares, in the fixed order of the members, and the failure is that of
  the first check that is not green, so there is one exactly when some check is not green.\<close>

theorem observation_is_honest:
  "pred_sum (\<lambda>_. True) (observation_honest e r) (observeApiExpect rx e r)"
proof (cases "all_right (map (\<lambda>(s, x). map_sum id (Pair s) x) (api_rows rx e r))")
  case (Inr rows)
  then have rows: "map tagged (api_rows rx e r) = map Inr rows"
    by (simp add: all_right_Inr tagged_rows)
  have "map tagged ps = map Inr qs \<Longrightarrow> map fst ps = map fst qs" for ps qs
  proof (induction ps arbitrary: qs)
    case (Cons sx ps)
    then show ?case by (cases sx; cases "snd sx") (auto simp: Cons_eq_map_conv)
  qed simp
  then have "map fst (api_rows rx e r) = map fst rows" using rows by blast
  have subjects: "mm_subject mm = s" if "(s, sn, Some mm) \<in> set rows" for s sn mm
  proof -
    have "Inr (s, sn, Some mm) \<in> set (map tagged (api_rows rx e r))"
      unfolding rows using that by simp
    then obtain s' x where "(s', x) \<in> set (api_rows rx e r)" "tagged (s', x) = Inr (s, sn, Some mm)"
      by auto
    then show ?thesis by (cases x) (auto dest: row_subjects)
  qed
  then have "list_all (\<lambda>row. pred_option (\<lambda>mm. mm_subject mm = fst row) (snd (snd row))) rows"
    using subjects by (auto simp: list_all_iff split_paired_all option.pred_set)
  from first_miss_of_rows [OF this] \<open>map fst (api_rows rx e r) = map fst rows\<close> show ?thesis
    using Inr
    by (simp add: observeApiExpect_def observation_honest_def row_list_subjects check_of_def case_prod_unfold comp_def)
qed (simp add: observeApiExpect_def)

text \<open>A path that names what every object inherits exists in any object.\<close>

lemma inherited_name_exists:
  "matchJsonPath rx nrm (JObj []) ''constructor''
     \<lparr>jm_equals = None, jm_contains = None, jm_matches = None, jm_flags = None, jm_exists = Some True,
      jm_absent = None, jm_compare = None\<rparr> = Inr None"
proof -
  have "lookupJsonPath (JObj []) ''constructor'' = Some (Builtin ''constructor'')"
    by (simp add: lookupJsonPath_def path_part_def js_split.simps starts_with_def js_get_def object_get_def
        inherited_names_def)
  then show ?thesis by (simp add: matchJsonPath_def value_asked_def Let_def)
qed

end
