(* ===== verification/Cookies.thy ===== *)
theory Cookies
  imports JsNumber GuardTokens
begin

text \<open>
  The cookie jar of an API scenario: \<open>packages/guard-runner/src/api/cookies.ts\<close>.

  Times are numbers of milliseconds. \<open>Date.parse\<close> is an input. A \<open>Max-Age\<close> of any finite number is
  kept; the sum with the clock is exact, where the language rounds it to a double.
\<close>

record stored_cookie =
  ck_name :: string
  ck_value :: string
  ck_path :: string
  ck_expiresAt :: "rat option"

type_synonym jar = "(string \<times> stored_cookie) list"

definition cookieKey :: "string \<Rightarrow> string \<Rightarrow> string" where
  "cookieKey name path = name @ CHR 0x00 # path"

definition bare_path :: "string \<Rightarrow> string" where
  "bare_path p = hd (js_split ''#'' (hd (js_split ''?'' p)))"

definition last_index :: "char \<Rightarrow> string \<Rightarrow> nat" where
  "last_index c s = length s - Suc (length (takeWhile (\<lambda>x. x \<noteq> c) (rev s)))"

definition defaultCookiePath :: "string \<Rightarrow> string" where
  "defaultCookiePath requestPath =
     (let p = bare_path requestPath
      in if \<not> starts_with ''/'' p then ''/''
         else if last_index CHR ''/'' p = 0 then ''/''
         else take (last_index CHR ''/'' p) p)"

definition cookiePathMatches :: "string \<Rightarrow> string \<Rightarrow> bool" where
  "cookiePathMatches cookiePath requestPath =
     (let p = (if bare_path requestPath = [] then ''/'' else bare_path requestPath)
      in if p = cookiePath then True
         else if \<not> starts_with cookiePath p then False
         else if starts_with ''/'' (rev cookiePath) then True
         else starts_with ''/'' (drop (length cookiePath) p))"

record cookie_attrs =
  at_path :: "string option"
  at_maxAge :: "rat option"
  at_expires :: "rat option"

definition fold_attr :: "(string \<Rightarrow> rat option) \<Rightarrow> cookie_attrs \<Rightarrow> string \<Rightarrow> cookie_attrs" where
  "fold_attr date_parse a attr =
     (let idx = index_of ''='' attr;
          key = map js_lower (js_trim (case idx of None \<Rightarrow> attr | Some i \<Rightarrow> take i attr));
          v = (case idx of None \<Rightarrow> [] | Some i \<Rightarrow> js_trim (drop (Suc i) attr))
      in if key = ''path'' \<and> starts_with ''/'' v then a\<lparr>at_path := Some v\<rparr>
         else if key = ''max-age'' then
           (case finite_number v of Some n \<Rightarrow> a\<lparr>at_maxAge := Some n\<rparr> | None \<Rightarrow> a)
         else if key = ''expires'' then
           (case date_parse v of Some t \<Rightarrow> a\<lparr>at_expires := Some t\<rparr> | None \<Rightarrow> a)
         else a)"

definition parseSetCookie :: "(string \<Rightarrow> rat option) \<Rightarrow> string \<Rightarrow> string \<Rightarrow> rat \<Rightarrow> stored_cookie option" where
  "parseSetCookie date_parse line requestPath now =
     (let parts = js_split '';'' line; pair = hd parts
      in case index_of ''='' pair of
           None \<Rightarrow> None
         | Some eq \<Rightarrow>
             if eq = 0 then None
             else let name = js_trim (take eq pair); v = js_trim (drop (Suc eq) pair);
                      a = foldl (fold_attr date_parse) \<lparr>at_path = None, at_maxAge = None, at_expires = None\<rparr> (tl parts)
                  in if name = [] then None
                     else Some
                       \<lparr>ck_name = name, ck_value = v,
                        ck_path = (case at_path a of Some p \<Rightarrow> p | None \<Rightarrow> defaultCookiePath requestPath),
                        ck_expiresAt = (case at_maxAge a of Some n \<Rightarrow> Some (now + n * 1000) | None \<Rightarrow> at_expires a)\<rparr>)"

definition expired :: "rat \<Rightarrow> stored_cookie \<Rightarrow> bool" where
  "expired now c \<longleftrightarrow> (case ck_expiresAt c of Some t \<Rightarrow> t \<le> now | None \<Rightarrow> False)"

definition store_one :: "(string \<Rightarrow> rat option) \<Rightarrow> string \<Rightarrow> rat \<Rightarrow> jar \<Rightarrow> string \<Rightarrow> jar" where
  "store_one date_parse requestPath now jar line =
     (case parseSetCookie date_parse line requestPath now of
        None \<Rightarrow> jar
      | Some c \<Rightarrow>
          (let key = cookieKey (ck_name c) (ck_path c)
           in if expired now c then AList.delete key jar else AList.update key c jar))"

definition store :: "(string \<Rightarrow> rat option) \<Rightarrow> string list \<Rightarrow> string \<Rightarrow> rat \<Rightarrow> jar \<Rightarrow> jar" where
  "store date_parse setCookieLines requestPath now jar = foldl (store_one date_parse requestPath now) jar setCookieLines"

text \<open>The cookies to send, longest path first, and the jar without those that have expired.\<close>

definition live :: "rat \<Rightarrow> jar \<Rightarrow> jar" where
  "live now jar = filter (\<lambda>(k, c). \<not> expired now c) jar"

definition matching :: "string \<Rightarrow> rat \<Rightarrow> jar \<Rightarrow> stored_cookie list" where
  "matching requestPath now jar =
     rev (sort_key (\<lambda>c. length (ck_path c))
       (rev (filter (\<lambda>c. cookiePathMatches (ck_path c) requestPath) (map snd (live now jar)))))"

definition cookie_header :: "string \<Rightarrow> rat \<Rightarrow> jar \<Rightarrow> string option \<times> jar" where
  "cookie_header requestPath now jar =
     (let cs = matching requestPath now jar
      in (if cs = [] then None else Some (js_join ''; '' (map (\<lambda>c. ck_name c @ ''='' @ ck_value c) cs)),
          live now jar))"

subsection \<open>The jar\<close>

text \<open>Every cookie is filed under its own key, once, with a name, and a path that starts at the root.\<close>

definition jar_ok :: "jar \<Rightarrow> bool" where
  "jar_ok jar \<longleftrightarrow>
     distinct (map fst jar) \<and>
     list_all (\<lambda>(k, c). k = cookieKey (ck_name c) (ck_path c) \<and> ck_name c \<noteq> [] \<and> starts_with ''/'' (ck_path c)) jar"

lemma parse_ok:
  assumes "parseSetCookie date_parse line requestPath now = Some c"
  shows "ck_name c \<noteq> [] \<and> starts_with ''/'' (ck_path c)"
proof -
  have path: "pred_option (starts_with ''/'') (at_path (foldl (fold_attr date_parse) a attrs))"
    if "pred_option (starts_with ''/'') (at_path a)" for a attrs
    using that by (induction attrs arbitrary: a) (auto simp: fold_attr_def Let_def split: option.splits)
  have "starts_with ''/'' (defaultCookiePath requestPath)"
    by (auto simp: defaultCookiePath_def starts_with_def Let_def)
  then show ?thesis
    using assms path [of "\<lparr>at_path = None, at_maxAge = None, at_expires = None\<rparr>" "tl (js_split '';'' line)"]
    by (auto simp: parseSetCookie_def Let_def split: option.splits if_splits)
qed

lemma set_update_subset: "set (AList.update k v al) \<subseteq> insert (k, v) (set al)"
  by (induction al) auto

lemma jar_ok_delete: "jar_ok jar \<Longrightarrow> jar_ok (AList.delete key jar)"
  unfolding jar_ok_def using distinct_delete [of jar key] by (auto simp: list_all_iff AList.delete_eq)

lemma jar_ok_update:
  assumes "jar_ok jar" and "ck_name c \<noteq> []" and "starts_with ''/'' (ck_path c)"
  shows "jar_ok (AList.update (cookieKey (ck_name c) (ck_path c)) c jar)"
  using assms set_update_subset [of "cookieKey (ck_name c) (ck_path c)" c jar]
  by (fastforce simp: jar_ok_def distinct_update list_all_iff)

lemma jar_ok_store_one: "jar_ok jar \<Longrightarrow> jar_ok (store_one date_parse requestPath now jar line)"
  by (auto simp: store_one_def Let_def jar_ok_delete jar_ok_update dest: parse_ok split: option.split)

lemma jar_ok_live: "jar_ok jar \<Longrightarrow> jar_ok (live now jar)"
  by (auto simp: jar_ok_def live_def list_all_iff distinct_map inj_on_def)

lemma jar_ok_store: "jar_ok jar \<Longrightarrow> jar_ok (store date_parse lines requestPath now jar)"
  unfolding store_def by (induction lines arbitrary: jar) (auto intro: jar_ok_store_one)

text \<open>The operations of a run on its jar.\<close>

datatype jar_op = Store "string list" string rat | Header string rat

definition jar_step :: "(string \<Rightarrow> rat option) \<Rightarrow> jar \<Rightarrow> jar_op \<Rightarrow> jar" where
  "jar_step date_parse jar op =
     (case op of
        Store lines requestPath now \<Rightarrow> store date_parse lines requestPath now jar
      | Header requestPath now \<Rightarrow> snd (cookie_header requestPath now jar))"

text \<open>A jar stays well formed under everything a run does with it: every cookie has a name and a path from
  the root, is filed under the key of that name and path, and no key is used twice.\<close>

theorem jar_well_formed:
  "jar_ok (foldl (jar_step date_parse) [] ops)"
proof -
  have "jar_ok jar \<Longrightarrow> jar_ok (foldl (jar_step date_parse) jar ops)" for jar
    by (induction ops arbitrary: jar)
      (auto simp: jar_step_def cookie_header_def Let_def jar_ok_store jar_ok_live split: jar_op.split)
  then show ?thesis by (simp add: jar_ok_def)
qed

subsection \<open>Paths\<close>

lemma last_index_prop:
  assumes "c \<in> set s"
  shows "last_index c s < length s" "s ! last_index c s = c" "c \<notin> set (drop (Suc (last_index c s)) s)"
proof -
  obtain u v where s: "s = u @ c # v" "c \<notin> set v"
    using split_list_last [OF assms] by blast
  have "takeWhile (\<lambda>x. x \<noteq> c) (rev s) = rev v"
    using s(2) by (auto simp: s(1) takeWhile_append)
  then have "last_index c s = length u"
    by (simp add: last_index_def s(1))
  then show "last_index c s < length s" "s ! last_index c s = c" "c \<notin> set (drop (Suc (last_index c s)) s)"
    using s(2) by (simp_all add: s(1))
qed

lemma default_path_matches:
  assumes "starts_with ''/'' (bare_path requestPath)"
  shows "cookiePathMatches (defaultCookiePath requestPath) requestPath"
proof -
  define p where "p = bare_path requestPath"
  obtain q where q: "p = CHR ''/'' # q"
    using assms by (auto simp: p_def starts_with_append)
  show ?thesis
  proof (cases "last_index CHR ''/'' p = 0")
    case True
    then show ?thesis
      using q by (simp add: defaultCookiePath_def cookiePathMatches_def p_def [symmetric] starts_with_def Let_def)
  next
    case False
    define i where "i = last_index CHR ''/'' p"
    have i: "i < length p" "p ! i = CHR ''/''"
      using last_index_prop [of "CHR ''/''" p] q by (simp_all add: i_def)
    then have next_slash: "starts_with ''/'' (drop i p)"
      by (simp add: starts_with_def Cons_nth_drop_Suc [symmetric])
    have "defaultCookiePath requestPath = take i p"
      using assms False by (simp add: defaultCookiePath_def p_def i_def Let_def)
    moreover have "starts_with (take i p) p" "p \<noteq> []"
      using i(1) by (auto simp: starts_with_def)
    ultimately show ?thesis
      using next_slash i(1) by (simp add: cookiePathMatches_def p_def [symmetric] Let_def)
  qed
qed

text \<open>A session survives: a cookie without an expiry that a response sets on its own default path is among
  the cookies of every later request to the same path, whatever the jar held before.\<close>

theorem session_cookie_returns:
  assumes "parseSetCookie date_parse line requestPath now = Some c"
    and "ck_expiresAt c = None" and "ck_path c = defaultCookiePath requestPath"
    and "starts_with ''/'' (bare_path requestPath)"
  shows "c \<in> set (matching requestPath later (store date_parse [line] requestPath now jar))"
proof -
  have "store date_parse [line] requestPath now jar = AList.update (cookieKey (ck_name c) (ck_path c)) c jar"
    using assms(1,2) by (simp add: store_def store_one_def expired_def Let_def)
  moreover have "map_of (AList.update (cookieKey (ck_name c) (ck_path c)) c jar) (cookieKey (ck_name c) (ck_path c)) = Some c"
    by (simp add: update_conv')
  ultimately have "(cookieKey (ck_name c) (ck_path c), c) \<in> set (live later (store date_parse [line] requestPath now jar))"
    using assms(2) by (auto simp: live_def expired_def dest: map_of_SomeD)
  then show ?thesis
    using default_path_matches [OF assms(4)] assms(3) by (force simp: matching_def)
qed

definition sid_line :: string where "sid_line = ''sid=42; HttpOnly''"

lemma sid_parses:
  "parseSetCookie (\<lambda>_. None) sid_line ''/login?next=1'' 0
     = Some \<lparr>ck_name = ''sid'', ck_value = ''42'', ck_path = ''/'', ck_expiresAt = None\<rparr>"
  by code_simp

theorem session_cookie_returns_witness:
  "\<lparr>ck_name = ''sid'', ck_value = ''42'', ck_path = ''/'', ck_expiresAt = None\<rparr>
     \<in> set (matching ''/login?next=1'' 5000 (store (\<lambda>_. None) [sid_line] ''/login?next=1'' 0 []))"
  by (rule session_cookie_returns [OF sid_parses]) code_simp+

text \<open>A request carries the cookies that are alive and on its path, each as often as the jar has it, and
  no other, the longest path first; the jar keeps what is alive.\<close>

theorem header_sends_live_matching:
  "mset (matching requestPath now jar)
     = {# c \<in># image_mset snd (mset jar). \<not> expired now c \<and> cookiePathMatches (ck_path c) requestPath #}
   \<and> sorted_wrt (\<lambda>a b. length (ck_path b) \<le> length (ck_path a)) (matching requestPath now jar)
   \<and> snd (cookie_header requestPath now jar) = live now jar"
proof -
  have "mset (map snd (live now jar)) = {# c \<in># image_mset snd (mset jar). \<not> expired now c #}"
    by (induction jar) (auto simp: live_def)
  then have "mset (matching requestPath now jar)
     = {# c \<in># image_mset snd (mset jar). \<not> expired now c \<and> cookiePathMatches (ck_path c) requestPath #}"
    by (simp add: matching_def filter_filter_mset conj_commute mset_map [symmetric] del: mset_map)
  moreover have "sorted_wrt (\<lambda>a b. length (ck_path b) \<le> length (ck_path a)) (matching requestPath now jar)"
    unfolding matching_def sorted_wrt_rev
    using sorted_sort_key [of "\<lambda>c. length (ck_path c)"] by (simp add: sorted_wrt_map)
  ultimately show ?thesis by (simp add: cookie_header_def Let_def)
qed

text \<open>A name has no zero unit (no header line has), so the key of a cookie is its name and its path.\<close>

lemma cookieKey_inject:
  assumes "CHR 0x00 \<notin> set a" and "CHR 0x00 \<notin> set b"
  shows "cookieKey a p = cookieKey b q \<longleftrightarrow> a = b \<and> p = q"
proof
  assume eq: "cookieKey a p = cookieKey b q"
  have "takeWhile (\<lambda>c. c \<noteq> CHR 0x00) (cookieKey n r) = n" if "CHR 0x00 \<notin> set n" for n r
    using that by (induction n) (auto simp: cookieKey_def)
  then have "a = b" using assms eq by metis
  then show "a = b \<and> p = q" using eq by (simp add: cookieKey_def)
qed simp

end
