(* ===== verification/ApiRun.thy ===== *)
theory ApiRun
  imports Expectations Cookies ScenarioRun Redaction
begin

text \<open>
  The run of one API scenario: \<open>runApiScenario\<close> of
  \<open>packages/guard-runner/src/api/run-api-scenario.ts\<close>, and the request it sends,
  \<open>executeApiRequest\<close> of \<open>api/executor.ts\<close>.

  The server process, the network, the clock and the signal are inputs, indexed by the number of the
  step (zero: before the first) and where it matters by the iteration and the try: what a boot ends in,
  how a process exits, what it has written at each reading, what a request is answered, how many
  re-issues or log polls the clock leaves time for, and what the signal says. So are the regular
  expression engine, the JSON reading of a body, \<open>Date.parse\<close>, the substitution of stub origins, what
  the stubs and proxies found and which server serves a path. The state is the run's: the server handle,
  the output of retired servers, the captured values, the cookie jar, the records, and the events of the
  run in order (the requests sent and the observations judged), which the code does not keep. Messages
  are constructors of \<open>api_reason\<close>; durations are not modelled.
\<close>

subsection \<open>Steps\<close>

record request_step =
  rs_request :: http_request
  rs_capture :: "(string \<times> string) list option"
  rs_captureHeaders :: "(string \<times> string) list option"
  rs_repeat :: "nat option"
  rs_expect :: api_expect

record boot_expect =
  bx_ready :: bool
  bx_exitCode :: "int option"
  bx_stderrContains :: "string list option"

datatype log_stream = Stdout | Stderr

datatype log_match = LineContains string | LineMatches string "string option"

record logs_step =
  lg_stream :: log_stream
  lg_match :: log_match
  lg_sinceLastStep :: bool
  lg_count :: "nat option"

datatype api_action =
    Request request_step
  | Boot "(string \<times> string) list option" "boot_expect option"
  | Signal "int option option"  \<comment> \<open>the expectation, and in it the exit code\<close>
  | Logs logs_step

record api_step =
  st_action :: api_action
  st_milestone :: "json option"

definition isApiBoot :: "api_step \<Rightarrow> bool" where
  "isApiBoot s = (case st_action s of Boot _ _ \<Rightarrow> True | _ \<Rightarrow> False)"

subsection \<open>Server output\<close>

record server_logs =
  sl_stdout :: string
  sl_stderr :: string

definition no_logs :: server_logs where "no_logs = \<lparr>sl_stdout = [], sl_stderr = []\<rparr>"

definition add_logs :: "server_logs \<Rightarrow> server_logs \<Rightarrow> server_logs" where
  "add_logs a b = \<lparr>sl_stdout = sl_stdout a @ sl_stdout b, sl_stderr = sl_stderr a @ sl_stderr b\<rparr>"

fun stream_of :: "log_stream \<Rightarrow> server_logs \<Rightarrow> string" where
  "stream_of Stdout l = sl_stdout l"
| "stream_of Stderr l = sl_stderr l"

definition STEP_OUTPUT_LIMIT :: nat where "STEP_OUTPUT_LIMIT = 1200"

text \<open>\<open>slice(-n)\<close>.\<close>

definition slice_last :: "nat \<Rightarrow> string \<Rightarrow> string" where
  "slice_last n s = drop (length s - n) s"

text \<open>The lines of a window that match; none where the pattern is no regular expression.\<close>

definition matchingLogLines :: "regexps \<Rightarrow> string \<Rightarrow> log_match \<Rightarrow> string list option" where
  "matchingLogLines rx window m =
     (let ls = filter (\<lambda>l. l \<noteq> []) (js_split [CHR 0x0A] window)
      in case m of
           LineContains needle \<Rightarrow> Some (filter (js_includes needle) ls)
         | LineMatches src flags \<Rightarrow>
             if rx_test rx src (flags_of flags) [] = None then None
             else Some (filter (\<lambda>l. rx_test rx src (flags_of flags) l = Some True) ls))"

subsection \<open>The request sent\<close>

record wire_request =
  wq_method :: string
  wq_path :: string
  wq_headers :: "(string \<times> string) list"
  wq_body :: "string option"

record api_capture =
  cp_status :: "int option"
  cp_headers :: "(string \<times> string) list"
  cp_bodyText :: string
  cp_timedOut :: bool
  cp_requestError :: "string option"

datatype wire_answer =
    Answered int "(string \<times> string) list" "string list" string  \<comment> \<open>status, headers, set-cookie lines, body\<close>
  | TimedOut
  | Refused string

definition has_header :: "string \<Rightarrow> (string \<times> string) list \<Rightarrow> bool" where
  "has_header name hs \<longleftrightarrow> list_ex (\<lambda>(k, v). map js_lower k = name) hs"

text \<open>The request on the wire, and the jar after its header was read.\<close>

definition wire_request_of ::
    "string option \<Rightarrow> rat \<Rightarrow> jar \<Rightarrow> http_request \<Rightarrow> wire_request \<times> jar" where
  "wire_request_of origin now jar req =
     (let h0 = (case rq_headers req of None \<Rightarrow> [] | Some hs \<Rightarrow> hs);
          body = (case rq_json req of Some j \<Rightarrow> Some (json_stringify j) | None \<Rightarrow> rq_body req);
          h1 = (if rq_json req \<noteq> None \<and> \<not> has_header ''content-type'' h0
                then AList.update ''content-type'' ''application/json'' h0 else h0);
          asked = \<not> has_header ''cookie'' h1;
          ck = cookie_header (rq_path req) now jar;
          h2 = (if asked then (case fst ck of Some v \<Rightarrow> AList.update ''cookie'' v h1 | None \<Rightarrow> h1) else h1);
          h3 = (if has_header ''origin'' h2 then h2
                else (case origin of Some v \<Rightarrow> AList.update ''origin'' v h2 | None \<Rightarrow> h2))
      in (\<lparr>wq_method = rq_method req, wq_path = rq_path req, wq_headers = h3, wq_body = body\<rparr>,
          if asked then snd ck else jar))"

definition lower_names :: "(string \<times> string) list \<Rightarrow> (string \<times> string) list" where
  "lower_names hs = foldl (\<lambda>m (k, v). AList.update (map js_lower k) v m) [] hs"

definition executeApiRequest ::
    "(string \<Rightarrow> rat option) \<Rightarrow> string option \<Rightarrow> rat \<Rightarrow> rat \<Rightarrow> (wire_request \<Rightarrow> wire_answer) \<Rightarrow> jar \<Rightarrow> http_request
      \<Rightarrow> wire_request \<times> api_capture \<times> jar" where
  "executeApiRequest date_parse origin now later fetch jar req =
     (case wire_request_of origin now jar req of (wire, jar1) \<Rightarrow>
        (wire,
         (case fetch wire of
            Answered status headers cookies body \<Rightarrow>
              (\<lparr>cp_status = Some status, cp_headers = lower_names headers, cp_bodyText = body,
                cp_timedOut = False, cp_requestError = None\<rparr>,
               store date_parse cookies (rq_path req) later jar1)
          | TimedOut \<Rightarrow>
              (\<lparr>cp_status = None, cp_headers = [], cp_bodyText = [], cp_timedOut = True, cp_requestError = None\<rparr>, jar1)
          | Refused m \<Rightarrow>
              (\<lparr>cp_status = None, cp_headers = [], cp_bodyText = [], cp_timedOut = False, cp_requestError = Some m\<rparr>,
               jar1))))"

subsection \<open>Results\<close>

datatype api_reason =
    CapabilitySetup string
  | SandboxSetup string
  | ServerBoot string nat  \<comment> \<open>the reason and the attempts\<close>
  | BecomeHealthy string
  | ExitInTime
  | ExitWith int "int option"
  | StderrNeedle string
  | ServerToSignal
  | ExitAfterSignal
  | ExitAfterSignalWith int "int option"
  | ServerToRead
  | LogLines nat "nat option"
  | ServerToRequest
  | VariableMissing string
  | CredentialMissing string "string list option"
  | FixtureMissing string
  | RequestToComplete "string option"  \<comment> \<open>none: timed out\<close>
  | SchemaToResolve
  | Unmet mismatch
  | ServedBy "string option"
  | HeaderToCapture string string
  | PathToCapture string string
  | StubViolation
  | ExternalViolation
  | StepToRun

record api_result =
  ar_outcome :: run_verdict
  ar_failure :: "(nat \<times> api_reason) option"
  ar_bootAttempts :: "nat option"
  ar_failedMilestone :: "int option"
  ar_blockedPrecondition :: bool
  ar_unservedRoute :: bool
  ar_stdout :: "string option"
  ar_stderr :: "string option"
  ar_evidence :: bool

text \<open>A run ends with a result, or it throws, or it goes where the model does not follow it (the text of a
  function of the language).\<close>

datatype api_end = Settled api_result | Throws | Unfollowed

datatype api_event =
    Sent nat nat wire_request
  | Judged nat nat api_expect api_response "mismatch option"

record api_record =
  rc_index :: nat
  rc_status :: "int option"
  rc_captured :: "(string \<times> string) list"

record api_state =
  as_server :: bool
  as_retired :: server_logs
  as_everBooted :: bool
  as_mark :: "nat \<times> nat"
  as_vars :: vars
  as_native :: "string \<Rightarrow> json option"
  as_jar :: jar
  as_bootAttempts :: "nat option"
  as_records :: "api_record list"
  as_events :: "api_event list"

subsection \<open>What the run is given\<close>

datatype boot_result =
    BootOk
  | BootFailed bool bool string server_logs  \<comment> \<open>timed out, not spawned, the reason, the output\<close>

record exit_state =
  xs_exited :: bool
  xs_code :: "int option"

record api_input =
  ai_steps :: "api_step list"
  ai_unique :: string
  ai_credentials :: vars
  ai_foreign :: "string \<Rightarrow> string list option"
  ai_fixtures :: fixtures
  ai_rx :: regexps
  ai_parse :: "string \<Rightarrow> string + json"
  ai_normalize :: "string \<Rightarrow> string"
  ai_date_parse :: "string \<Rightarrow> rat option"
  ai_redact :: "string \<Rightarrow> string"
  ai_origin :: "string option"
  ai_responseSchemas :: "(string \<times> string \<times> (int \<Rightarrow> json option)) option"
  ai_servesPath :: "string \<Rightarrow> string option option"  \<comment> \<open>the verdict \<open>no\<close>, and the app that serves it\<close>
  ai_boot :: "nat \<Rightarrow> nat \<Rightarrow> boot_result"
  ai_overlay :: "nat \<Rightarrow> string option"
  ai_exit :: "nat \<Rightarrow> exit_state"
  ai_spawnError :: "nat \<Rightarrow> bool"
  ai_gone :: "nat \<Rightarrow> bool"
  ai_live :: "nat \<Rightarrow> nat \<Rightarrow> server_logs"
  ai_now :: "nat \<Rightarrow> nat \<Rightarrow> nat \<Rightarrow> rat"
  ai_fetch :: "nat \<Rightarrow> nat \<Rightarrow> nat \<Rightarrow> wire_request \<Rightarrow> wire_answer"
  ai_reissues :: "nat \<Rightarrow> nat \<Rightarrow> nat"
  ai_waits :: "nat \<Rightarrow> nat"
  ai_aborted :: "nat \<Rightarrow> nat \<Rightarrow> nat \<Rightarrow> bool"
  ai_stubs :: "nat option option"
  ai_externals :: bool
  ai_capturePassEvidence :: bool

definition live_logs :: "api_input \<Rightarrow> nat \<Rightarrow> nat \<Rightarrow> api_state \<Rightarrow> server_logs" where
  "live_logs inp n k st = (if as_server st then ai_live inp n k else no_logs)"

text \<open>\<open>serverLogs()\<close>, at the \<open>k\<close>-th reading of step \<open>n\<close>.\<close>

definition serverLogs :: "api_input \<Rightarrow> nat \<Rightarrow> nat \<Rightarrow> api_state \<Rightarrow> server_logs" where
  "serverLogs inp n k st = add_logs (as_retired st) (live_logs inp n k st)"

definition retireServer :: "api_input \<Rightarrow> nat \<Rightarrow> nat \<Rightarrow> api_state \<Rightarrow> api_state" where
  "retireServer inp n k st =
     (if as_server st then st\<lparr>as_retired := add_logs (as_retired st) (ai_live inp n k), as_server := False\<rparr> else st)"

text \<open>The boot is tried again, once, where the first try missed its deadline.\<close>

definition bootWithRetry :: "api_input \<Rightarrow> nat \<Rightarrow> boot_result \<times> nat" where
  "bootWithRetry inp n =
     (case ai_boot inp n 0 of
        BootFailed True spawnFailed reason out \<Rightarrow>
          if ai_aborted inp n 0 1 then (BootFailed True spawnFailed reason out, 1) else (ai_boot inp n 1, 2)
      | r \<Rightarrow> (r, 1))"

definition milestone_step :: "api_step \<Rightarrow> step" where
  "milestone_step s = (case st_milestone s of None \<Rightarrow> [] | Some m \<Rightarrow> [(''milestone'', m)])"

definition milestone_steps :: "api_input \<Rightarrow> step list" where
  "milestone_steps inp = map milestone_step (ai_steps inp)"

definition plain_result :: "run_verdict \<Rightarrow> (nat \<times> api_reason) option \<Rightarrow> api_result" where
  "plain_result v f =
     \<lparr>ar_outcome = v, ar_failure = f, ar_bootAttempts = None, ar_failedMilestone = None,
      ar_blockedPrecondition = False, ar_unservedRoute = False, ar_stdout = None, ar_stderr = None,
      ar_evidence = False\<rparr>"

definition aborted_result :: "nat \<Rightarrow> api_end" where
  "aborted_result n = Settled (plain_result VError (Some (n, StepToRun)))"

definition errorAt :: "api_input \<Rightarrow> nat \<Rightarrow> api_reason \<Rightarrow> api_state \<Rightarrow> api_end" where
  "errorAt inp n reason st =
     Settled ((plain_result VError (Some (n, reason)))
       \<lparr>ar_bootAttempts := as_bootAttempts st, ar_failedMilestone := failed_milestone (milestone_steps inp) n\<rparr>)"

definition apiExcerpts ::
    "(string \<Rightarrow> string) \<Rightarrow> api_capture option \<Rightarrow> server_logs \<Rightarrow> string option \<times> string option" where
  "apiExcerpts redact capture logs =
     ((case capture of
         None \<Rightarrow> None
       | Some c \<Rightarrow> if cp_bodyText c = [] then None else Some (redact (take STEP_OUTPUT_LIMIT (cp_bodyText c)))),
      if sl_stderr logs = [] then None else Some (redact (slice_last STEP_OUTPUT_LIMIT (sl_stderr logs))))"

definition with_excerpts :: "api_input \<Rightarrow> nat \<Rightarrow> api_capture option \<Rightarrow> api_state \<Rightarrow> api_result \<Rightarrow> api_result" where
  "with_excerpts inp n capture st r =
     (let x = apiExcerpts (ai_redact inp) capture (serverLogs inp n 1 st)
      in r\<lparr>ar_stdout := fst x, ar_stderr := snd x\<rparr>)"

definition failResult :: "api_input \<Rightarrow> nat \<Rightarrow> api_reason \<Rightarrow> api_capture option \<Rightarrow> api_state \<Rightarrow> api_end" where
  "failResult inp n reason capture st =
     Settled (with_excerpts inp n capture st
       ((plain_result VFail (Some (n, reason)))
         \<lparr>ar_bootAttempts := as_bootAttempts st,
          ar_failedMilestone := failed_milestone (milestone_steps inp) n,
          ar_blockedPrecondition := blockedPreconditionAnnotation (milestone_steps inp) n,
          ar_evidence := True\<rparr>))"

definition errorResult :: "api_input \<Rightarrow> nat \<Rightarrow> api_reason \<Rightarrow> bool \<Rightarrow> api_capture \<Rightarrow> api_state \<Rightarrow> api_end" where
  "errorResult inp n reason unserved capture st =
     Settled (with_excerpts inp n (Some capture) st
       ((plain_result VError (Some (n, reason)))
         \<lparr>ar_bootAttempts := as_bootAttempts st,
          ar_failedMilestone := failed_milestone (milestone_steps inp) n,
          ar_unservedRoute := unserved, ar_evidence := True\<rparr>))"

definition log_record :: "nat \<Rightarrow> int option \<Rightarrow> (string \<times> string) list \<Rightarrow> api_state \<Rightarrow> api_state" where
  "log_record n status captured st =
     st\<lparr>as_records := as_records st @ [\<lparr>rc_index = n, rc_status = status, rc_captured = captured\<rparr>]\<rparr>"

text \<open>A lifecycle step that misses its expectation leaves its record.\<close>

definition lifecycle_fail :: "api_input \<Rightarrow> nat \<Rightarrow> api_reason \<Rightarrow> api_state \<Rightarrow> api_end \<times> api_state" where
  "lifecycle_fail inp n reason st = (failResult inp n reason None (log_record n None [] st), log_record n None [] st)"

subsection \<open>The schema a step is checked against\<close>

definition wrapped_in :: "char \<Rightarrow> char \<Rightarrow> string \<Rightarrow> bool" where
  "wrapped_in a b s \<longleftrightarrow>
     2 \<le> length s \<and> hd s = a \<and> last s = b \<and> CHR 0x0A \<notin> set s \<and> CHR 0x0D \<notin> set s"

text \<open>\<open>\$\{[^}]*\}\<close>, anywhere.\<close>

definition has_reference :: "string \<Rightarrow> bool" where
  "has_reference s \<longleftrightarrow>
     (case index_of ''${'' s of None \<Rightarrow> False | Some i \<Rightarrow> CHR ''}'' \<in> set (drop (i + 2) s))"

definition fold_segment :: "string \<Rightarrow> string" where
  "fold_segment seg =
     (if wrapped_in CHR ''{'' CHR ''}'' seg \<or> starts_with '':'' seg \<or> wrapped_in CHR ''<'' CHR ''>'' seg
         \<or> seg \<noteq> [] \<and> list_all digit seg \<or> seg = ''*'' \<or> has_reference seg
      then ''*'' else seg)"

definition foldPathSegments :: "string \<Rightarrow> string list" where
  "foldPathSegments p = map fold_segment (filter (\<lambda>s. s \<noteq> []) (js_split ''/'' (hd (js_split ''?'' p))))"

definition sameEndpoint :: "string \<Rightarrow> string \<Rightarrow> string \<Rightarrow> string \<Rightarrow> bool" where
  "sameEndpoint methodA pathA methodB pathB =
     (let a = foldPathSegments pathA; b = foldPathSegments pathB
      in map js_upper methodA = map js_upper methodB \<and> length a = length b
         \<and> list_all (\<lambda>(s, t). s = t \<or> s = ''*'' \<or> t = ''*'') (zip a b))"

definition resolveStepSchema :: "request_step \<Rightarrow> (string \<times> string \<times> (int \<Rightarrow> json option)) option \<Rightarrow> json option" where
  "resolveStepSchema step schemas =
     (case schemas of
        None \<Rightarrow> None
      | Some (op_method, path, byStatus) \<Rightarrow>
          (case ae_status (rs_expect step) of
             None \<Rightarrow> None
           | Some status \<Rightarrow>
               if sameEndpoint (rq_method (rs_request step)) (rq_path (rs_request step)) op_method path
               then byStatus status else None))"

subsection \<open>Lifecycle steps\<close>

type_synonym step_end = "api_end option \<times> api_state"

definition ends :: "api_end \<Rightarrow> api_state \<Rightarrow> step_end" where
  "ends e st = (Some e, st)"

text \<open>The step is over: its record, and the mark the next step's log window starts from.\<close>

definition step_done :: "nat \<Rightarrow> nat \<times> nat \<Rightarrow> api_state \<Rightarrow> step_end" where
  "step_done n mark st = (None, (log_record n None [] st)\<lparr>as_mark := mark\<rparr>)"

definition fails :: "api_input \<Rightarrow> nat \<Rightarrow> api_reason \<Rightarrow> api_state \<Rightarrow> step_end" where
  "fails inp n reason st = (case lifecycle_fail inp n reason st of (e, st') \<Rightarrow> (Some e, st'))"

definition boot_ready :: "api_input \<Rightarrow> nat \<Rightarrow> nat \<times> nat \<Rightarrow> api_state \<Rightarrow> step_end" where
  "boot_ready inp n mark st =
     (case bootWithRetry inp n of (boot, attempts) \<Rightarrow>
        if ai_aborted inp n 0 2 then ends (aborted_result n) st
        else let st1 = st\<lparr>as_everBooted := True,
                          as_bootAttempts := (if 1 < attempts then Some attempts else as_bootAttempts st)\<rparr>
             in case boot of
                  BootOk \<Rightarrow> step_done n mark (st1\<lparr>as_server := True\<rparr>)
                | BootFailed _ spawnFailed reason out \<Rightarrow>
                    (let st2 = st1\<lparr>as_retired := add_logs (as_retired st1) out\<rparr>
                     in if spawnFailed then ends (errorAt inp n (ServerBoot reason 1) st2) st2
                        else fails inp n (BecomeHealthy reason) st2))"

definition boot_exit :: "api_input \<Rightarrow> nat \<Rightarrow> nat \<times> nat \<Rightarrow> boot_expect \<Rightarrow> api_state \<Rightarrow> step_end" where
  "boot_exit inp n mark x st =
     (let st1 = retireServer inp n 2 (st\<lparr>as_everBooted := True, as_server := True\<rparr>);
          out = sl_stderr (ai_live inp n 2); ex = ai_exit inp n;
          unwritten = find (\<lambda>needle. \<not> js_includes needle out)
            (case bx_stderrContains x of None \<Rightarrow> [] | Some ns \<Rightarrow> ns)
      in if ai_aborted inp n 0 2 then ends (aborted_result n) st1
         else if ai_spawnError inp n then ends (errorAt inp n (ServerBoot [] 1) st1) st1
         else if \<not> xs_exited ex then fails inp n ExitInTime st1
         else if bx_exitCode x \<noteq> None \<and> xs_code ex \<noteq> bx_exitCode x
         then fails inp n (ExitWith (the (bx_exitCode x)) (xs_code ex)) st1
         else case unwritten of
                Some needle \<Rightarrow> fails inp n (StderrNeedle needle) st1
              | None \<Rightarrow> step_done n mark st1)"

definition boot_step :: "api_input \<Rightarrow> nat \<Rightarrow> nat \<times> nat \<Rightarrow> (string \<times> string) list option \<Rightarrow> boot_expect option
    \<Rightarrow> api_state \<Rightarrow> step_end" where
  "boot_step inp n mark env x st =
     (let st1 = retireServer inp n 1 st
      in case (if env = None then None else ai_overlay inp n) of
           Some m \<Rightarrow> ends (errorAt inp n (CapabilitySetup m) st1) st1
         | None \<Rightarrow>
             (case x of
                Some x' \<Rightarrow> if bx_ready x' then boot_ready inp n mark st1 else boot_exit inp n mark x' st1
              | None \<Rightarrow> boot_ready inp n mark st1))"

definition signal_step :: "api_input \<Rightarrow> nat \<Rightarrow> nat \<times> nat \<Rightarrow> int option option \<Rightarrow> api_state \<Rightarrow> step_end" where
  "signal_step inp n mark expectation st =
     (if \<not> as_server st then ends (errorAt inp n ServerToSignal st) st
      else let ex = ai_exit inp n;
               over = step_done n mark (if ai_gone inp n then retireServer inp n 1 st else st)
           in case expectation of
                None \<Rightarrow> over
              | Some code \<Rightarrow>
                  if ai_aborted inp n 0 2 then ends (aborted_result n) st
                  else if \<not> xs_exited ex then fails inp n ExitAfterSignal (retireServer inp n 1 st)
                  else if code \<noteq> None \<and> xs_code ex \<noteq> code
                  then fails inp n (ExitAfterSignalWith (the code) (xs_code ex)) (retireServer inp n 1 st)
                  else over)"

text \<open>The lines that match, waited for: the \<open>k\<close>-th reading, with the polls the clock leaves.\<close>

datatype waited = Lines "string list" | WaitAborted | BadPattern

fun wait_lines :: "api_input \<Rightarrow> nat \<Rightarrow> logs_step \<Rightarrow> nat \<Rightarrow> api_state \<Rightarrow> nat \<Rightarrow> nat \<Rightarrow> waited" where
  "wait_lines inp n lg from st k polls =
     (case matchingLogLines (ai_rx inp) (drop from (stream_of (lg_stream lg) (serverLogs inp n k st))) (lg_match lg) of
        None \<Rightarrow> BadPattern
      | Some ls \<Rightarrow>
          if length ls < (case lg_count lg of Some c \<Rightarrow> c | None \<Rightarrow> 1) \<and> 0 < polls then
            if ai_aborted inp n 0 (2 + k) then WaitAborted
            else wait_lines inp n lg from st (Suc k) (polls - 1)
          else Lines ls)"

declare wait_lines.simps [simp del]

fun mark_of :: "log_stream \<Rightarrow> nat \<times> nat \<Rightarrow> nat" where
  "mark_of Stdout m = fst m"
| "mark_of Stderr m = snd m"

definition run_logs_step :: "api_input \<Rightarrow> nat \<Rightarrow> nat \<times> nat \<Rightarrow> logs_step \<Rightarrow> api_state \<Rightarrow> step_end" where
  "run_logs_step inp n mark lg st =
     (if \<not> as_everBooted st then ends (errorAt inp n ServerToRead st) st
      else case wait_lines inp n lg (if lg_sinceLastStep lg then mark_of (lg_stream lg) (as_mark st) else 0) st 1
             (ai_waits inp n) of
          BadPattern \<Rightarrow> ends Throws st
        | WaitAborted \<Rightarrow> ends (aborted_result n) st
        | Lines ls \<Rightarrow>
            if (case lg_count lg of None \<Rightarrow> ls \<noteq> [] | Some c \<Rightarrow> length ls = c) then step_done n mark st
            else fails inp n (LogLines (length ls) (lg_count lg)) st)"

subsection \<open>Request steps\<close>

definition response_of :: "api_input \<Rightarrow> json option \<Rightarrow> api_capture \<Rightarrow> api_response" where
  "response_of inp schema c =
     \<lparr>rp_status = cp_status c, rp_headers = cp_headers c, rp_bodyText = ai_normalize inp (cp_bodyText c),
      rp_parsed = ai_parse inp (cp_bodyText c), rp_normalize = ai_normalize inp, rp_responseSchema = schema\<rparr>"

definition judge :: "api_input \<Rightarrow> api_expect \<Rightarrow> json option \<Rightarrow> api_capture \<Rightarrow> open_end + mismatch option" where
  "judge inp e schema c = evaluateApiExpect (ai_rx inp) e (response_of inp schema c)"

text \<open>One request on the wire: the try \<open>k\<close> of an iteration.\<close>

definition send :: "api_input \<Rightarrow> nat \<Rightarrow> nat \<Rightarrow> nat \<Rightarrow> http_request \<Rightarrow> api_state \<Rightarrow> api_capture \<times> api_state" where
  "send inp n it k req st =
     (case executeApiRequest (ai_date_parse inp) (ai_origin inp) (ai_now inp n it (2 * k)) (ai_now inp n it (2 * k + 1))
             (ai_fetch inp n it k) (as_jar st) req of
        (wire, capture, jar) \<Rightarrow> (capture, st\<lparr>as_jar := jar, as_events := as_events st @ [Sent n it wire]\<rparr>))"

definition unanswered :: "api_capture \<Rightarrow> bool" where
  "unanswered c \<longleftrightarrow> cp_requestError c \<noteq> None \<or> cp_timedOut c"

definition judged :: "nat \<Rightarrow> nat \<Rightarrow> api_expect \<Rightarrow> api_response \<Rightarrow> mismatch option \<Rightarrow> api_state \<Rightarrow> api_state" where
  "judged n it e r mm st = st\<lparr>as_events := as_events st @ [Judged n it e r mm]\<rparr>"

text \<open>An idempotent read is issued again while its expectation does not hold. None: a judgement the model
  does not follow.\<close>

fun reissue ::
    "api_input \<Rightarrow> nat \<Rightarrow> nat \<Rightarrow> http_request \<Rightarrow> api_expect \<Rightarrow> json option \<Rightarrow> nat \<Rightarrow> nat \<Rightarrow> api_capture \<Rightarrow> mismatch option
      \<Rightarrow> api_state \<Rightarrow> (api_capture \<times> mismatch option) option \<times> api_state" where
  "reissue inp n it req e schema k left c mm st =
     (if mm = None \<or> left = 0 \<or> ai_aborted inp n it (3 + k) then (Some (c, mm), st)
      else case send inp n it k req st of (again, st1) \<Rightarrow>
        if unanswered again then (Some (c, mm), st1)
        else case judge inp e schema again of
          Inl _ \<Rightarrow> (None, st1)
        | Inr mm' \<Rightarrow>
            reissue inp n it req e schema (Suc k) (left - 1) again mm' (judged n it e (response_of inp schema again) mm' st1))"

declare reissue.simps [simp del]

definition idempotent :: "http_request \<Rightarrow> bool" where
  "idempotent req \<longleftrightarrow> rq_method req = ''GET'' \<or> rq_method req = ''HEAD''"

text \<open>The captures of a step: the header ones, then those of the body, until one finds nothing.\<close>

datatype captured = Took "(string \<times> string) list" "(string \<times> json) list" | Nothing "(string \<times> string) list" api_reason | NoText

text \<open>A capture that finds nothing leaves the record with those taken before it.\<close>

definition after_taking :: "(string \<times> string) list \<Rightarrow> (string \<times> json) list \<Rightarrow> captured \<Rightarrow> captured" where
  "after_taking vs ns c =
     (case c of Took ws ms \<Rightarrow> Took (vs @ ws) (ns @ ms) | Nothing ws r \<Rightarrow> Nothing (vs @ ws) r | NoText \<Rightarrow> NoText)"

fun take_headers :: "api_capture \<Rightarrow> (string \<times> string) list \<Rightarrow> captured" where
  "take_headers c [] = Took [] []"
| "take_headers c ((name, header) # rest) =
     (case map_of (cp_headers c) (map js_lower header) of
        None \<Rightarrow> Nothing [] (HeaderToCapture name header)
      | Some v \<Rightarrow> after_taking [(name, v)] [(name, JStr v)] (take_headers c rest))"

fun take_paths :: "string + json \<Rightarrow> (string \<times> string) list \<Rightarrow> captured" where
  "take_paths parsed [] = Took [] []"
| "take_paths parsed ((name, path) # rest) =
     (case (case parsed of Inl _ \<Rightarrow> None | Inr doc \<Rightarrow> lookupJsonPath doc path) of
        None \<Rightarrow> Nothing [] (PathToCapture name path)
      | Some v \<Rightarrow>
          (case (captureValueToString v, as_json v) of
             (Some str, Some j) \<Rightarrow> after_taking [(name, str)] [(name, j)] (take_paths parsed rest)
           | _ \<Rightarrow> NoText))"

definition publish_captures :: "(string \<times> string) list \<Rightarrow> (string \<times> json) list \<Rightarrow> api_state \<Rightarrow> api_state" where
  "publish_captures vs ns st =
     st\<lparr>as_vars := publish vs (as_vars st), as_native := foldl (\<lambda>m (k, v). m(k \<mapsto> v)) (as_native st) ns\<rparr>"

definition take_captures :: "api_input \<Rightarrow> request_step \<Rightarrow> api_capture \<Rightarrow> captured" where
  "take_captures inp rs c =
     (case take_headers c (case rs_captureHeaders rs of None \<Rightarrow> [] | Some hs \<Rightarrow> hs) of
        Took vs ns \<Rightarrow>
          after_taking vs ns
            (take_paths (ai_parse inp (cp_bodyText c)) (case rs_capture rs of None \<Rightarrow> [] | Some ps \<Rightarrow> ps))
      | other \<Rightarrow> other)"

text \<open>A reference that does not resolve.\<close>

definition unresolved :: "api_input \<Rightarrow> nat \<Rightarrow> token_error \<Rightarrow> api_state \<Rightarrow> step_end" where
  "unresolved inp n e st =
     (case e of
        UnknownVariable name token \<Rightarrow>
          (let st1 = log_record n None [] st in ends (failResult inp n (VariableMissing name) None st1) st1)
      | UnknownCredential name \<Rightarrow> ends (errorAt inp n (CredentialMissing name (ai_foreign inp name)) st) st
      | UnknownFixture ident m \<Rightarrow> ends (errorAt inp n (FixtureMissing ident) st) st)"

definition settle_mismatch ::
    "api_input \<Rightarrow> nat \<Rightarrow> http_request \<Rightarrow> api_expect \<Rightarrow> api_capture \<Rightarrow> mismatch \<Rightarrow> api_state \<Rightarrow> step_end" where
  "settle_mismatch inp n req e c mm st =
     (let st1 = log_record n (cp_status c) [] st;
          elsewhere = (if mm_subject mm = SStatus \<and> cp_status c = Some 404 \<and> ae_status e \<noteq> Some 404
            then ai_servesPath inp (rq_path req) else None)
      in case elsewhere of
           Some app \<Rightarrow> ends (errorResult inp n (ServedBy app) True c st1) st1
         | None \<Rightarrow> ends (failResult inp n (Unmet mm) (Some c) st1) st1)"

definition settle_held :: "api_input \<Rightarrow> nat \<Rightarrow> nat \<Rightarrow> request_step \<Rightarrow> api_capture \<Rightarrow> api_state \<Rightarrow> step_end" where
  "settle_held inp n it rs c st =
     (case take_captures inp rs c of
        NoText \<Rightarrow> ends Unfollowed st
      | Nothing vs reason \<Rightarrow>
          (let st1 = log_record n (cp_status c) vs st in ends (failResult inp n reason (Some c) st1) st1)
      | Took vs ns \<Rightarrow>
          (let st1 = publish_captures vs ns st
           in (None, if it = (case rs_repeat rs of None \<Rightarrow> 1 | Some r \<Rightarrow> r) then log_record n (cp_status c) vs st1 else st1)))"

definition after_answer ::
    "api_input \<Rightarrow> nat \<Rightarrow> nat \<Rightarrow> request_step \<Rightarrow> http_request \<Rightarrow> api_expect \<Rightarrow> json option \<Rightarrow> api_capture \<Rightarrow> api_state \<Rightarrow> step_end" where
  "after_answer inp n it rs req e schema c st =
     (case judge inp e schema c of
        Inl _ \<Rightarrow> ends Unfollowed st
      | Inr mm \<Rightarrow>
          (let st1 = judged n it e (response_of inp schema c) mm st
           in if mm \<noteq> None \<and> idempotent req then
                (case reissue inp n it req e schema 1 (ai_reissues inp n it) c mm st1 of
                   (None, st2) \<Rightarrow> ends Unfollowed st2
                 | (Some (c', mm'), st2) \<Rightarrow>
                     if ai_aborted inp n it 2 then ends (aborted_result n) st2
                     else (case mm' of
                         Some m \<Rightarrow> settle_mismatch inp n req e c' m st2
                       | None \<Rightarrow> settle_held inp n it rs c' st2))
              else (case mm of
                  Some m \<Rightarrow> settle_mismatch inp n req e c m st1
                | None \<Rightarrow> settle_held inp n it rs c st1)))"

definition iteration :: "api_input \<Rightarrow> nat \<Rightarrow> nat \<Rightarrow> request_step \<Rightarrow> api_state \<Rightarrow> step_end" where
  "iteration inp n it rs st =
     (if ai_aborted inp n it 0 then ends (aborted_result n) st
      else case interpolateRequest (as_vars st) (ai_credentials inp) (ai_fixtures inp) (as_native st) (rs_request rs) of
        Inl err \<Rightarrow> unresolved inp n err st
      | Inr req \<Rightarrow>
          (case interpolateApiExpect (as_vars st) (ai_fixtures inp) (as_native st) (rs_expect rs) of
             Inl err \<Rightarrow> unresolved inp n err st
           | Inr e \<Rightarrow>
               (case send inp n it 0 req st of (c, st1) \<Rightarrow>
                  if ai_aborted inp n it 1 then ends (aborted_result n) st1
                  else if unanswered c then
                    (let st2 = log_record n (cp_status c) [] st1
                     in ends (errorResult inp n (RequestToComplete (if cp_timedOut c then None else cp_requestError c))
                                False c st2) st2)
                  else if ae_schema e = Some True then
                    (case resolveStepSchema rs (ai_responseSchemas inp) of
                       None \<Rightarrow> ends (errorAt inp n SchemaToResolve st1) st1
                     | Some schema \<Rightarrow> after_answer inp n it rs req e (Some schema) c st1)
                  else after_answer inp n it rs req e None c st1)))"

fun iterations :: "api_input \<Rightarrow> nat \<Rightarrow> request_step \<Rightarrow> nat list \<Rightarrow> api_state \<Rightarrow> step_end" where
  "iterations inp n rs [] st = (None, st)"
| "iterations inp n rs (it # its) st =
     (case iteration inp n it rs st of
        (Some e, st1) \<Rightarrow> (Some e, st1)
      | (None, st1) \<Rightarrow> iterations inp n rs its st1)"

definition run_request_step :: "api_input \<Rightarrow> nat \<Rightarrow> nat \<times> nat \<Rightarrow> request_step \<Rightarrow> api_state \<Rightarrow> step_end" where
  "run_request_step inp n mark rs st =
     (if \<not> as_server st then ends (errorAt inp n ServerToRequest st) st
      else case iterations inp n rs [1..<Suc (case rs_repeat rs of None \<Rightarrow> 1 | Some r \<Rightarrow> r)] st of
        (Some e, st1) \<Rightarrow> (Some e, st1)
      | (None, st1) \<Rightarrow> (None, st1\<lparr>as_mark := mark\<rparr>))"

subsection \<open>The run\<close>

definition run_step :: "api_input \<Rightarrow> nat \<Rightarrow> api_step \<Rightarrow> api_state \<Rightarrow> step_end" where
  "run_step inp n s st =
     (let logs = serverLogs inp n 0 st; mark = (length (sl_stdout logs), length (sl_stderr logs))
      in case st_action s of
           Request rs \<Rightarrow> run_request_step inp n mark rs st
         | other \<Rightarrow>
             if ai_aborted inp n 0 0 then ends (aborted_result n) st
             else (case other of
                 Boot env x \<Rightarrow> boot_step inp n mark env x st
               | Signal x \<Rightarrow> signal_step inp n mark x st
               | Logs lg \<Rightarrow> run_logs_step inp n mark lg st))"

fun api_steps :: "api_input \<Rightarrow> (nat \<times> api_step) list \<Rightarrow> api_state \<Rightarrow> step_end" where
  "api_steps inp [] st = (None, st)"
| "api_steps inp ((n, s) # rest) st =
     (case run_step inp n s st of
        (Some e, st1) \<Rightarrow> (Some e, st1)
      | (None, st1) \<Rightarrow> api_steps inp rest st1)"

definition finish :: "api_input \<Rightarrow> api_state \<Rightarrow> api_end" where
  "finish inp st =
     (let n_steps = length (ai_steps inp)
      in case ai_stubs inp of
           Some s \<Rightarrow> failResult inp (case s of Some k \<Rightarrow> k | None \<Rightarrow> n_steps) StubViolation None st
         | None \<Rightarrow>
             if ai_externals inp then failResult inp n_steps ExternalViolation None st
             else Settled ((plain_result VPass None)
               \<lparr>ar_bootAttempts := as_bootAttempts st, ar_evidence := ai_capturePassEvidence inp\<rparr>))"

definition fresh_state :: "api_input \<Rightarrow> bool \<Rightarrow> nat option \<Rightarrow> api_state" where
  "fresh_state inp booted attempts =
     \<lparr>as_server = booted, as_retired = no_logs, as_everBooted = booted, as_mark = (0, 0),
      as_vars = [''unique'' \<mapsto> ai_unique inp], as_native = Map.empty, as_jar = [], as_bootAttempts = attempts,
      as_records = [], as_events = []\<rparr>"

definition run_all :: "api_input \<Rightarrow> api_state \<Rightarrow> step_end" where
  "run_all inp st =
     (case api_steps inp (enumerate 1 (ai_steps inp)) st of
        (Some e, st1) \<Rightarrow> (Some e, st1)
      | (None, st1) \<Rightarrow> (Some (finish inp st1), st1))"

definition runApiScenario :: "api_input \<Rightarrow> setup_end \<Rightarrow> step_end" where
  "runApiScenario inp setup =
     (let start = fresh_state inp False None
      in case setup of
           StubsDown m \<Rightarrow> ends (Settled (plain_result VError (Some (1, CapabilitySetup m)))) start
         | SandboxFailed m \<Rightarrow> ends (Settled (plain_result VError (Some (1, SandboxSetup m)))) start
         | CapabilitiesFailed m \<Rightarrow> ends (Settled (plain_result VError (Some (1, CapabilitySetup m)))) start
         | SetupDone \<Rightarrow>
             if list_ex isApiBoot (ai_steps inp) then run_all inp start
             else (case bootWithRetry inp 0 of (boot, attempts) \<Rightarrow>
                 if ai_aborted inp 0 0 2 then ends (aborted_result 1) start
                 else let tries = (if 1 < attempts then Some attempts else None)
                      in case boot of
                           BootOk \<Rightarrow> run_all inp (fresh_state inp True tries)
                         | BootFailed _ _ reason out \<Rightarrow>
                             ends (Settled ((plain_result VError (Some (1, ServerBoot reason attempts)))
                               \<lparr>ar_bootAttempts := tries,
                                ar_stdout := (if sl_stdout out = [] then None
                                  else Some (ai_redact inp (slice_last STEP_OUTPUT_LIMIT (sl_stdout out)))),
                                ar_stderr := (if sl_stderr out = [] then None
                                  else Some (ai_redact inp (slice_last STEP_OUTPUT_LIMIT (sl_stderr out))))\<rparr>)) start))"

subsection \<open>What a run did\<close>

fun ev_key :: "api_event \<Rightarrow> nat \<times> nat" where
  "ev_key (Sent n it _) = (n, it)"
| "ev_key (Judged n it _ _ _) = (n, it)"

fun mutating :: "api_event \<Rightarrow> bool" where
  "mutating (Sent n it w) \<longleftrightarrow> wq_method w \<noteq> ''GET'' \<and> wq_method w \<noteq> ''HEAD''"
| "mutating (Judged n it _ _ _) \<longleftrightarrow> False"

text \<open>The events a step of the run adds.\<close>

definition adds :: "(api_event list \<Rightarrow> bool) \<Rightarrow> api_state \<Rightarrow> api_state \<Rightarrow> bool" where
  "adds P st st' \<longleftrightarrow> (\<exists>es. as_events st' = as_events st @ es \<and> P es)"

lemma adds_same: "as_events st' = as_events st \<Longrightarrow> P [] \<Longrightarrow> adds P st st'"
  by (auto simp: adds_def)

lemma events_kept [simp]:
  "as_events (log_record n s c st) = as_events st"
  "as_events (publish_captures vs ns st) = as_events st"
  "as_events (retireServer inp n k st) = as_events st"
  "as_events (judged n it e r mm st) = as_events st @ [Judged n it e r mm]"
  by (simp_all add: log_record_def publish_captures_def retireServer_def judged_def)

lemma ends_events [simp]: "as_events (snd (ends e st)) = as_events st" "fst (ends e st) = Some e"
  by (simp_all add: ends_def)

lemma settle_events [simp]:
  "as_events (snd (unresolved inp n err st)) = as_events st"
  "as_events (snd (settle_mismatch inp n req e c mm st)) = as_events st"
  "as_events (snd (settle_held inp n it rs c st)) = as_events st"
  by (auto simp: unresolved_def settle_mismatch_def settle_held_def Let_def split: token_error.split option.split captured.split)

lemma send_events:
  "as_events (snd (send inp n it k req st))
     = as_events st @ [Sent n it (fst (wire_request_of (ai_origin inp) (ai_now inp n it (2 * k)) (as_jar st) req))]"
  by (simp add: send_def executeApiRequest_def case_prod_beta)

lemma wire_method: "wq_method (fst (wire_request_of origin now jar req)) = rq_method req"
  by (simp add: wire_request_of_def Let_def)

text \<open>All of one iteration, and none that changes something.\<close>

definition reads_at :: "nat \<times> nat \<Rightarrow> api_event list \<Rightarrow> bool" where
  "reads_at key es \<longleftrightarrow> list_all (\<lambda>ev. ev_key ev = key \<and> \<not> mutating ev) es"

definition once_at :: "nat \<times> nat \<Rightarrow> api_event list \<Rightarrow> bool" where
  "once_at key es \<longleftrightarrow> list_all (\<lambda>ev. ev_key ev = key) es \<and> length (filter mutating es) \<le> 1"

lemma reads_at_append: "reads_at key (es @ fs) \<longleftrightarrow> reads_at key es \<and> reads_at key fs"
  by (auto simp: reads_at_def)

lemma once_at_reads: "once_at key es \<Longrightarrow> reads_at key fs \<Longrightarrow> once_at key (es @ fs)"
  by (auto simp: once_at_def reads_at_def list_all_iff filter_empty_conv)

lemma adds_trans:
  "adds P st st1 \<Longrightarrow> adds Q st1 st2 \<Longrightarrow> (\<And>es fs. P es \<Longrightarrow> Q fs \<Longrightarrow> R (es @ fs)) \<Longrightarrow> adds R st st2"
  by (fastforce simp: adds_def)

lemma adds_reads: "adds (reads_at key) st st1 \<Longrightarrow> adds (reads_at key) st1 st2 \<Longrightarrow> adds (reads_at key) st st2"
  by (erule (1) adds_trans) (simp add: reads_at_append)

lemma reissue_reads:
  assumes "idempotent req"
  shows "adds (reads_at (n, it)) st (snd (reissue inp n it req e schema k left c mm st))"
  using assms
proof (induction inp n it req e schema k left c mm st rule: reissue.induct)
  case (1 inp n it req e schema k left c mm st)
  obtain again st1 where send: "send inp n it k req st = (again, st1)" by fastforce
  have sent: "adds (reads_at (n, it)) st st1"
    using send_events [of inp n it k req st] "1.prems" send
    by (auto simp: adds_def reads_at_def wire_method idempotent_def)
  show ?case
  proof (cases "mm = None \<or> left = 0 \<or> ai_aborted inp n it (3 + k) \<or> unanswered again")
    case True
    then show ?thesis
      using sent by (subst reissue.simps) (auto simp: send intro: adds_same simp: reads_at_def)
  next
    case False
    show ?thesis
    proof (cases "judge inp e schema again")
      case (Inl a)
      then show ?thesis using False sent by (subst reissue.simps) (auto simp: send)
    next
      case (Inr mm')
      let ?st2 = "judged n it e (response_of inp schema again) mm' st1"
      have "adds (reads_at (n, it)) st1 ?st2"
        by (simp add: adds_def reads_at_def)
      moreover have "adds (reads_at (n, it)) ?st2
          (snd (reissue inp n it req e schema (Suc k) (left - 1) again mm' ?st2))"
        using False Inr send "1.IH" "1.prems" by auto
      ultimately have "adds (reads_at (n, it)) st
          (snd (reissue inp n it req e schema (Suc k) (left - 1) again mm' ?st2))"
        using sent adds_reads by blast
      then show ?thesis using False Inr by (subst reissue.simps) (auto simp: send)
    qed
  qed
qed

lemma after_answer_reads:
  "idempotent req \<or> \<not> idempotent req \<and> True \<Longrightarrow>
   adds (reads_at (n, it)) st (snd (after_answer inp n it rs req e schema c st))"
proof (cases "judge inp e schema c")
  case (Inr mm)
  let ?st1 = "judged n it e (response_of inp schema c) mm st"
  have one: "adds (reads_at (n, it)) st ?st1" by (simp add: adds_def reads_at_def)
  show ?thesis
  proof (cases "mm \<noteq> None \<and> idempotent req")
    case True
    obtain r st2 where re: "reissue inp n it req e schema 1 (ai_reissues inp n it) c mm ?st1 = (r, st2)" by fastforce
    have "adds (reads_at (n, it)) ?st1 st2"
      using reissue_reads [of req n it ?st1 inp e schema 1 "ai_reissues inp n it" c mm] True re by simp
    with one have two: "adds (reads_at (n, it)) st st2" by (rule adds_reads)
    have "as_events (snd (after_answer inp n it rs req e schema c st)) = as_events st2"
      using True Inr re by (auto simp: after_answer_def Let_def split: option.split)
    then show ?thesis using two by (simp add: adds_def)
  next
    case False
    then have "as_events (snd (after_answer inp n it rs req e schema c st)) = as_events ?st1"
      using Inr by (auto simp: after_answer_def Let_def simp del: events_kept split: option.split)
    then show ?thesis using one by (simp only: adds_def)
  qed
qed (auto simp: after_answer_def intro: adds_same simp: reads_at_def)

lemma iteration_once: "adds (once_at (n, it)) st (snd (iteration inp n it rs st))"
proof -
  have none: "as_events st' = as_events st \<Longrightarrow> adds (once_at (n, it)) st st'" for st'
    by (rule adds_same) (simp_all add: once_at_def)
  show ?thesis
  proof (cases "ai_aborted inp n it 0
      \<or> isl (interpolateRequest (as_vars st) (ai_credentials inp) (ai_fixtures inp) (as_native st) (rs_request rs))
      \<or> isl (interpolateApiExpect (as_vars st) (ai_fixtures inp) (as_native st) (rs_expect rs))")
    case True
    then have "as_events (snd (iteration inp n it rs st)) = as_events st"
      by (auto simp: iteration_def split: sum.split)
    then show ?thesis by (rule none)
  next
    case False
    then obtain req e where
      req: "interpolateRequest (as_vars st) (ai_credentials inp) (ai_fixtures inp) (as_native st) (rs_request rs) = Inr req"
      and e: "interpolateApiExpect (as_vars st) (ai_fixtures inp) (as_native st) (rs_expect rs) = Inr e"
      by (auto simp: isl_def split: sum.splits) (metis sum.exhaust)
    obtain c st1 where send: "send inp n it 0 req st = (c, st1)" by fastforce
    have sent: "adds (once_at (n, it)) st st1"
      using send_events [of inp n it 0 req st] send by (auto simp: adds_def once_at_def)
    have "adds (reads_at (n, it)) st1 (snd (iteration inp n it rs st))"
      using False req e send after_answer_reads [of req n it st1 inp rs e _ c]
      by (auto simp: iteration_def Let_def intro: adds_same simp: reads_at_def split: option.split)
    with sent show ?thesis by (rule adds_trans) (rule once_at_reads)
  qed
qed

text \<open>Over the iterations of a step and the steps of a run.\<close>

definition once_each :: "(nat \<times> nat) set \<Rightarrow> api_event list \<Rightarrow> bool" where
  "once_each keys es \<longleftrightarrow> ev_key ` set es \<subseteq> keys \<and> distinct (map ev_key (filter mutating es))"

lemma once_at_each: "once_at key es \<Longrightarrow> once_each {key} es"
  by (cases "filter mutating es") (auto simp: once_at_def once_each_def list_all_iff)

lemma once_each_append:
  assumes "once_each A es" and "once_each B fs" and "A \<inter> B = {}"
  shows "once_each (A \<union> B) (es @ fs)"
proof -
  have "ev_key ` set (filter mutating es) \<subseteq> A" "ev_key ` set (filter mutating fs) \<subseteq> B"
    using assms(1,2) by (auto simp: once_each_def)
  then have "ev_key ` set (filter mutating es) \<inter> ev_key ` set (filter mutating fs) = {}"
    using assms(3) by blast
  then show ?thesis
    using assms(1,2) by (simp add: once_each_def le_supI1 le_supI2 image_Un)
qed

lemma once_each_mono: "once_each A es \<Longrightarrow> A \<subseteq> B \<Longrightarrow> once_each B es"
  by (auto simp: once_each_def)

lemma adds_mono: "adds P st st' \<Longrightarrow> (\<And>es. P es \<Longrightarrow> Q es) \<Longrightarrow> adds Q st st'"
  by (auto simp: adds_def)

lemma iterations_once:
  "distinct its \<Longrightarrow> adds (once_each ({n} \<times> set its)) st (snd (iterations inp n rs its st))"
proof (induction its arbitrary: st)
  case (Cons it its)
  obtain r st1 where it: "iteration inp n it rs st = (r, st1)" by fastforce
  have one: "adds (once_each {(n, it)}) st st1"
    using iteration_once [of n it st inp rs] it by (auto intro: adds_mono once_at_each)
  show ?case
  proof (cases r)
    case None
    have "adds (once_each ({n} \<times> set its)) st1 (snd (iterations inp n rs its st1))"
      using Cons by simp
    with one have "adds (once_each ({(n, it)} \<union> {n} \<times> set its)) st (snd (iterations inp n rs its st1))"
      by (rule adds_trans) (rule once_each_append, assumption, assumption, use Cons.prems in auto)
    moreover have "{(n, it)} \<union> {n} \<times> set its = {n} \<times> set (it # its)" by auto
    ultimately show ?thesis using it None by simp
  next
    case (Some e)
    then show ?thesis using it one by (auto intro: adds_mono once_each_mono)
  qed
qed (auto intro: adds_same simp: once_each_def)

lemma lifecycle_events:
  "as_events (snd (boot_step inp n mark env x st)) = as_events st"
  "as_events (snd (signal_step inp n mark y st)) = as_events st"
  "as_events (snd (run_logs_step inp n mark lg st)) = as_events st"
  by (auto simp: boot_step_def boot_ready_def boot_exit_def signal_step_def run_logs_step_def step_done_def fails_def
      lifecycle_fail_def case_prod_beta Let_def split: option.split boot_result.split waited.split)

lemma run_step_once: "adds (once_each ({n} \<times> UNIV)) st (snd (run_step inp n s st))"
proof (cases "st_action s")
  case (Request rs)
  let ?its = "[1..<Suc (case rs_repeat rs of None \<Rightarrow> 1 | Some r \<Rightarrow> r)]"
  have "adds (once_each ({n} \<times> UNIV)) st (snd (iterations inp n rs ?its st))"
    by (rule adds_mono [OF iterations_once [OF distinct_upt]]) (erule once_each_mono, auto)
  then have "adds (once_each ({n} \<times> UNIV)) st (snd (run_request_step inp n mark rs st))" for mark
    by (auto simp: run_request_step_def case_prod_beta adds_def once_each_def simp del: upt_Suc split: option.split)
  then show ?thesis
    using Request by (simp add: run_step_def Let_def)
qed (auto simp: run_step_def Let_def lifecycle_events intro: adds_same simp: once_each_def)

lemma api_steps_once:
  "distinct (map fst ss) \<Longrightarrow> adds (once_each (set (map fst ss) \<times> UNIV)) st (snd (api_steps inp ss st))"
proof (induction ss arbitrary: st)
  case (Cons ns ss)
  obtain n s where ns: "ns = (n, s)" by fastforce
  obtain r st1 where step: "run_step inp n s st = (r, st1)" by fastforce
  have one: "adds (once_each ({n} \<times> UNIV)) st st1"
    using run_step_once [of n st inp s] step by simp
  show ?case
  proof (cases r)
    case None
    have "adds (once_each (set (map fst ss) \<times> UNIV)) st1 (snd (api_steps inp ss st1))"
      using Cons by simp
    with one have "adds (once_each ({n} \<times> UNIV \<union> set (map fst ss) \<times> UNIV)) st (snd (api_steps inp ss st1))"
      by (rule adds_trans) (rule once_each_append, assumption, assumption, use Cons.prems ns in auto)
    moreover have keys: "set (map fst (ns # ss)) \<times> UNIV = {n} \<times> UNIV \<union> set (map fst ss) \<times> UNIV" by (auto simp: ns)
    ultimately show ?thesis unfolding keys using step None ns by simp
  next
    case (Some e)
    then show ?thesis using step one ns by (auto intro: adds_mono once_each_mono)
  qed
qed (auto intro: adds_same simp: once_each_def)

text \<open>C15: What changes something is sent once: in a run, no two requests of a method other than GET and HEAD
  belong to the same iteration of the same step, whatever the server answers and however often a read
  is issued again.\<close>

theorem mutating_sent_once:
  "distinct (map ev_key (filter mutating (as_events (snd (runApiScenario inp setup)))))"
proof -
  have "once_each UNIV (as_events (snd (run_all inp (fresh_state inp b t))))" for b t
  proof -
    have "adds (once_each (set (map fst (enumerate 1 (ai_steps inp))) \<times> UNIV)) (fresh_state inp b t)
        (snd (api_steps inp (enumerate 1 (ai_steps inp)) (fresh_state inp b t)))"
      by (rule api_steps_once) simp
    then show ?thesis
      by (auto simp: run_all_def adds_def fresh_state_def once_each_def case_prod_beta split: option.split)
  qed
  then show ?thesis
    by (auto simp: runApiScenario_def Let_def case_prod_beta once_each_def fresh_state_def
        split: setup_end.split boot_result.split)
qed

subsection \<open>A pass means every expectation held\<close>

definition shown :: "api_input \<Rightarrow> nat \<Rightarrow> nat \<Rightarrow> api_expect \<Rightarrow> api_event list \<Rightarrow> bool" where
  "shown inp n it e evs \<longleftrightarrow> (\<exists>r. Judged n it e r None \<in> set evs \<and> api_holds (ai_rx inp) e r)"

definition held :: "api_input \<Rightarrow> nat \<Rightarrow> request_step \<Rightarrow> api_event list \<Rightarrow> nat \<Rightarrow> bool" where
  "held inp n rs evs it \<longleftrightarrow>
     (\<exists>e vars native. interpolateApiExpect vars (ai_fixtures inp) native (rs_expect rs) = Inr e \<and> shown inp n it e evs)"

definition iterations_of :: "request_step \<Rightarrow> nat list" where
  "iterations_of rs = [1..<Suc (case rs_repeat rs of None \<Rightarrow> 1 | Some r \<Rightarrow> r)]"

definition step_held :: "api_input \<Rightarrow> api_event list \<Rightarrow> nat \<times> api_step \<Rightarrow> bool" where
  "step_held inp evs ns \<longleftrightarrow>
     (case st_action (snd ns) of Request rs \<Rightarrow> list_all (held inp (fst ns) rs evs) (iterations_of rs) | _ \<Rightarrow> True)"

lemma judged_shown: "judge inp e schema c = Inr None \<Longrightarrow> shown inp n it e (as_events (judged n it e (response_of inp schema c) None st))"
  by (auto simp: shown_def judge_def api_judged_holds)

lemma reissue_shown:
  assumes "mm = None \<longrightarrow> shown inp n it e (as_events st)"
    and "fst (reissue inp n it req e schema k left c mm st) = Some (c', None)"
  shows "shown inp n it e (as_events (snd (reissue inp n it req e schema k left c mm st)))"
  using assms
proof (induction inp n it req e schema k left c mm st rule: reissue.induct)
  case (1 inp n it req e schema k left c mm st)
  obtain again st1 where send: "send inp n it k req st = (again, st1)" by fastforce
  show ?case
  proof (cases "mm = None \<or> left = 0 \<or> ai_aborted inp n it (3 + k) \<or> unanswered again \<or> isl (judge inp e schema again)")
    case True
    then show ?thesis
      using "1.prems" by (subst reissue.simps) (auto simp: send reissue.simps [of inp n it req e schema k left c mm st] split: if_splits sum.splits)
  next
    case False
    then obtain mm' where mm': "judge inp e schema again = Inr mm'" by (cases "judge inp e schema again") auto
    let ?st2 = "judged n it e (response_of inp schema again) mm' st1"
    have step: "reissue inp n it req e schema k left c mm st
        = reissue inp n it req e schema (Suc k) (left - 1) again mm' ?st2"
      using False mm' by (subst reissue.simps) (auto simp: send)
    have "mm' = None \<longrightarrow> shown inp n it e (as_events ?st2)"
      using mm' judged_shown by blast
    then show ?thesis
      using "1.IH" [OF _ send [symmetric] _ mm'] False "1.prems"(2) unfolding step by auto
  qed
qed

lemma after_answer_shown:
  assumes "fst (after_answer inp n it rs req e schema c st) = None"
  shows "shown inp n it e (as_events (snd (after_answer inp n it rs req e schema c st)))"
proof (cases "judge inp e schema c")
  case (Inr mm)
  let ?st1 = "judged n it e (response_of inp schema c) mm st"
  have first: "mm = None \<longrightarrow> shown inp n it e (as_events ?st1)"
    using Inr judged_shown by blast
  have kept: "fst (settle_held inp n it rs c' st') = None \<Longrightarrow>
      as_events (snd (settle_held inp n it rs c' st')) = as_events st'" for c' st' by simp
  show ?thesis
  proof (cases "mm \<noteq> None \<and> idempotent req")
    case True
    obtain r st2 where re: "reissue inp n it req e schema 1 (ai_reissues inp n it) c mm ?st1 = (r, st2)" by fastforce
    obtain c' where r: "r = Some (c', None)"
      using assms True Inr re by (auto simp: after_answer_def settle_mismatch_def Let_def split: option.splits if_splits)
    have "shown inp n it e (as_events st2)"
      using reissue_shown [OF first, of req schema 1 "ai_reissues inp n it" c c'] re r by simp
    then show ?thesis
      using True Inr re r assms by (auto simp: after_answer_def Let_def split: if_splits)
  next
    case False
    then have "mm = None"
      using assms Inr by (auto simp: after_answer_def settle_mismatch_def Let_def split: option.splits)
    then show ?thesis using first Inr by (simp add: after_answer_def Let_def del: events_kept)
  qed
qed (use assms in \<open>simp add: after_answer_def\<close>)

lemma iteration_held:
  assumes "fst (iteration inp n it rs st) = None"
  shows "held inp n rs (as_events (snd (iteration inp n it rs st))) it"
proof -
  obtain req e where
    req: "interpolateRequest (as_vars st) (ai_credentials inp) (ai_fixtures inp) (as_native st) (rs_request rs) = Inr req"
    and e: "interpolateApiExpect (as_vars st) (ai_fixtures inp) (as_native st) (rs_expect rs) = Inr e"
    using assms by (auto simp: iteration_def unresolved_def Let_def split: if_splits sum.splits token_error.splits)
  obtain c st1 where send: "send inp n it 0 req st = (c, st1)" by fastforce
  have "\<exists>schema. iteration inp n it rs st = after_answer inp n it rs req e schema c st1"
    using assms req e send by (auto simp: iteration_def Let_def split: if_splits option.splits)
  then obtain schema where it: "iteration inp n it rs st = after_answer inp n it rs req e schema c st1" ..
  then show ?thesis
    using after_answer_shown assms e unfolding held_def by metis
qed

lemma shown_mono: "shown inp n it e evs \<Longrightarrow> set evs \<subseteq> set evs' \<Longrightarrow> shown inp n it e evs'"
  by (auto simp: shown_def)

lemma held_mono: "held inp n rs evs it \<Longrightarrow> set evs \<subseteq> set evs' \<Longrightarrow> held inp n rs evs' it"
  by (auto simp: held_def intro: shown_mono)

lemma adds_subset: "adds P st st' \<Longrightarrow> set (as_events st) \<subseteq> set (as_events st')"
  by (auto simp: adds_def)

lemma iterations_held:
  assumes "distinct its" and "fst (iterations inp n rs its st) = None"
  shows "list_all (held inp n rs (as_events (snd (iterations inp n rs its st)))) its"
  using assms
proof (induction its arbitrary: st)
  case (Cons it its)
  obtain st1 where it: "iteration inp n it rs st = (None, st1)"
    using Cons.prems(2) by (cases "iteration inp n it rs st") (auto split: option.splits)
  have "held inp n rs (as_events st1) it"
    using iteration_held [of inp n it rs st] it by simp
  moreover have "set (as_events st1) \<subseteq> set (as_events (snd (iterations inp n rs its st1)))"
    using Cons.prems(1) iterations_once [of its n st1 inp rs] by (auto dest: adds_subset)
  ultimately show ?case
    using Cons it by (auto intro: held_mono)
qed simp

lemma run_step_held:
  assumes "fst (run_step inp n s st) = None"
  shows "step_held inp (as_events (snd (run_step inp n s st))) (n, s)"
proof (cases "st_action s")
  case (Request rs)
  let ?mark = "(length (sl_stdout (serverLogs inp n 0 st)), length (sl_stderr (serverLogs inp n 0 st)))"
  have run: "run_step inp n s st = run_request_step inp n ?mark rs st"
    using Request by (simp add: run_step_def Let_def)
  obtain st1 where it: "iterations inp n rs (iterations_of rs) st = (None, st1)"
    using assms unfolding run run_request_step_def iterations_of_def
    by (auto simp: case_prod_beta prod_eq_iff simp del: upt_Suc split: if_splits option.splits)
  then have "as_events (snd (run_step inp n s st)) = as_events st1"
    using assms unfolding run run_request_step_def iterations_of_def by (auto simp del: upt_Suc split: if_splits)
  then show ?thesis
    using iterations_held [of "iterations_of rs" inp n rs st] it Request
    by (simp add: step_held_def iterations_of_def del: upt_Suc)
qed (simp_all add: step_held_def)

lemma step_held_mono: "step_held inp evs ns \<Longrightarrow> set evs \<subseteq> set evs' \<Longrightarrow> step_held inp evs' ns"
  by (auto simp: step_held_def list_all_iff intro: held_mono split: api_action.splits)

lemma api_steps_held:
  assumes "distinct (map fst ss)" and "fst (api_steps inp ss st) = None"
  shows "list_all (step_held inp (as_events (snd (api_steps inp ss st)))) ss"
  using assms
proof (induction ss arbitrary: st)
  case (Cons ns ss)
  obtain n s where ns: "ns = (n, s)" by fastforce
  obtain st1 where step: "run_step inp n s st = (None, st1)"
    using Cons.prems(2) ns by (cases "run_step inp n s st") (auto split: option.splits)
  have "step_held inp (as_events st1) ns"
    using run_step_held [of inp n s st] step ns by simp
  moreover have "set (as_events st1) \<subseteq> set (as_events (snd (api_steps inp ss st1)))"
    using Cons.prems(1) api_steps_once [of ss st1 inp] by (auto dest: adds_subset)
  ultimately show ?case
    using Cons step ns by (auto intro: step_held_mono)
qed simp

text \<open>No step settles the run as passed.\<close>

definition not_passed :: "step_end \<Rightarrow> bool" where
  "not_passed r \<longleftrightarrow> (case fst r of Some (Settled x) \<Rightarrow> ar_outcome x \<noteq> VPass | _ \<Rightarrow> True)"

lemma results_not_passed [simp]:
  "not_passed (ends (aborted_result n) st)"
  "not_passed (ends (errorAt inp n reason st) st')"
  "not_passed (ends (failResult inp n reason c st) st')"
  "not_passed (ends (errorResult inp n reason b cap st) st')"
  "not_passed (ends Throws st)" "not_passed (ends Unfollowed st)"
  "not_passed (fails inp n reason st)" "not_passed (step_done n mark st)" "not_passed (None, st)"
  by (simp_all add: not_passed_def ends_def aborted_result_def errorAt_def failResult_def errorResult_def
      with_excerpts_def plain_result_def fails_def lifecycle_fail_def step_done_def Let_def)

lemma after_answer_not_passed: "not_passed (after_answer inp n it rs req e schema c st)"
  by (auto simp: after_answer_def settle_mismatch_def settle_held_def Let_def
      split: sum.split option.split captured.split prod.split)

lemma iteration_not_passed: "not_passed (iteration inp n it rs st)"
  by (auto simp: iteration_def unresolved_def after_answer_not_passed Let_def
      split: sum.split option.split prod.split token_error.split)

lemma iterations_not_passed: "not_passed (iterations inp n rs its st)"
proof (induction its arbitrary: st)
  case (Cons it its)
  obtain r st1 where it: "iteration inp n it rs st = (r, st1)" by fastforce
  then show ?case
    using Cons.IH iteration_not_passed [of inp n it rs st] by (cases r) auto
qed simp

lemma run_step_not_passed: "not_passed (run_step inp n s st)"
proof (cases "st_action s")
  case (Request rs)
  have "not_passed (run_request_step inp n mark rs st)" for mark
    using iterations_not_passed [of inp n rs "iterations_of rs" st]
    unfolding run_request_step_def iterations_of_def
    by (auto simp del: upt_Suc split: prod.split option.split)
  then show ?thesis using Request by (simp add: run_step_def Let_def)
qed (auto simp: run_step_def boot_step_def boot_ready_def boot_exit_def signal_step_def run_logs_step_def Let_def
    split: option.split boot_result.split waited.split prod.split)

lemma api_steps_not_passed: "not_passed (api_steps inp ss st)"
proof (induction ss arbitrary: st)
  case (Cons ns ss)
  obtain n s where ns: "ns = (n, s)" by fastforce
  obtain r st1 where step: "run_step inp n s st = (r, st1)" by fastforce
  then show ?case
    using Cons.IH run_step_not_passed [of inp n s st] ns by (cases r) auto
qed simp

lemma run_all_passed:
  assumes "fst (run_all inp st) = Some (Settled r)" and "ar_outcome r = VPass"
  shows "fst (api_steps inp (enumerate 1 (ai_steps inp)) st) = None"
    "snd (run_all inp st) = snd (api_steps inp (enumerate 1 (ai_steps inp)) st)"
    "ai_stubs inp = None" "\<not> ai_externals inp"
  using assms api_steps_not_passed [of inp "enumerate 1 (ai_steps inp)" st]
  by (auto simp: run_all_def not_passed_def finish_def failResult_def with_excerpts_def plain_result_def Let_def
      split: prod.splits option.splits if_splits)

lemma passed_run:
  assumes "fst (runApiScenario inp setup) = Some (Settled r)" and "ar_outcome r = VPass"
  obtains b t where "runApiScenario inp setup = run_all inp (fresh_state inp b t)"
  using assms
  by (auto simp: runApiScenario_def ends_def aborted_result_def plain_result_def Let_def
      split: setup_end.splits if_splits prod.splits boot_result.splits)

lemma passed_without_violation:
  assumes "fst (runApiScenario inp setup) = Some (Settled r)" and "ar_outcome r = VPass"
  shows "ai_stubs inp = None" "\<not> ai_externals inp"
proof -
  obtain b t where run: "runApiScenario inp setup = run_all inp (fresh_state inp b t)"
    using assms by (rule passed_run)
  show "ai_stubs inp = None" "\<not> ai_externals inp"
    using run_all_passed [OF assms [unfolded run]] by blast+
qed

text \<open>C13: A pass is earned: where a run passes, every iteration of every request step was answered by a
  response that holds everything the step's expectation asks, as resolved when it ran, and neither a
  stub nor a proxy saw a violation. No expectation is skipped, and none is taken as held unjudged.\<close>

theorem pass_is_earned:
  assumes "fst (runApiScenario inp setup) = Some (Settled r)" and "ar_outcome r = VPass"
  shows "list_all (step_held inp (as_events (snd (runApiScenario inp setup)))) (enumerate 1 (ai_steps inp))
    \<and> ai_stubs inp = None \<and> \<not> ai_externals inp"
proof -
  obtain b t where run: "runApiScenario inp setup = run_all inp (fresh_state inp b t)"
    using assms by (rule passed_run)
  have dist: "distinct (map fst (enumerate 1 (ai_steps inp)))" by simp
  show ?thesis
    using run_all_passed [OF assms [unfolded run]] api_steps_held [OF dist, of inp "fresh_state inp b t"]
    unfolding run by simp
qed

text \<open>A run that passes: one request, answered with the status asked.\<close>

definition demo_request :: request_step where
  "demo_request =
     \<lparr>rs_request = \<lparr>rq_method = ''GET'', rq_path = ''/x'', rq_headers = None, rq_body = None, rq_json = None\<rparr>,
      rs_capture = None, rs_captureHeaders = None, rs_repeat = None,
      rs_expect = \<lparr>ae_status = Some 200, ae_headers = None, ae_body = None, ae_json = None, ae_schema = None\<rparr>\<rparr>"

definition demo_api_run :: api_input where
  "demo_api_run =
     \<lparr>ai_steps = [\<lparr>st_action = Request demo_request, st_milestone = None\<rparr>], ai_unique = ''u'',
      ai_credentials = Map.empty, ai_foreign = Map.empty, ai_fixtures = Map.empty,
      ai_rx = \<lparr>rx_test = (\<lambda>_ _ _. Some True), rx_group = (\<lambda>_ _. None)\<rparr>,
      ai_parse = (\<lambda>s. Inl s), ai_normalize = id, ai_date_parse = (\<lambda>_. None), ai_redact = id, ai_origin = None,
      ai_responseSchemas = None, ai_servesPath = (\<lambda>_. None), ai_boot = (\<lambda>_ _. BootOk), ai_overlay = (\<lambda>_. None),
      ai_exit = (\<lambda>_. \<lparr>xs_exited = False, xs_code = None\<rparr>), ai_spawnError = (\<lambda>_. False), ai_gone = (\<lambda>_. False),
      ai_live = (\<lambda>_ _. no_logs), ai_now = (\<lambda>_ _ _. 0), ai_fetch = (\<lambda>_ _ _ _. Answered 200 [] [] []),
      ai_reissues = (\<lambda>_ _. 0), ai_waits = (\<lambda>_. 0), ai_aborted = (\<lambda>_ _ _. False), ai_stubs = None,
      ai_externals = False, ai_capturePassEvidence = False\<rparr>"

definition demo_end :: step_end where
  "demo_end = runApiScenario demo_api_run SetupDone"

theorem pass_is_earned_witness:
  "fst demo_end = Some (Settled (plain_result VPass None)) \<and>
   list_all (step_held demo_api_run (as_events (snd demo_end))) (enumerate 1 (ai_steps demo_api_run))"
proof -
  have passes: "fst (runApiScenario demo_api_run SetupDone) = Some (Settled (plain_result VPass None))"
    by code_simp
  have "ar_outcome (plain_result VPass None) = VPass"
    by (simp add: plain_result_def)
  from pass_is_earned [OF passes this] passes show ?thesis
    unfolding demo_end_def by simp
qed

subsection \<open>What the excerpt of a failure shows\<close>

definition demo_secret :: string where
  "demo_secret = ''s3cr3t-token''"

definition long_answer :: api_capture where
  "long_answer =
     \<lparr>cp_status = Some 500, cp_headers = [], cp_bodyText = replicate 1189 CHR ''.'' @ demo_secret,
      cp_timedOut = False, cp_requestError = None\<rparr>"

lemma lex_replicate:
  assumes "\<And>t. tok (c # t) = None"
  shows "lex tok (replicate n c @ s) = replicate n (Lit c) @ lex tok s"
  using assms by (induction n) simp_all

lemma demo_masks: "build_masks [(''key'', demo_secret)] [] = [(demo_secret, mask_text ''cred'' ''key'')]"
  by (simp add: build_masks_def all_needles_def needles_of_def demo_secret_def json_inner_def json_escape_def
      longest_first_def first_masks_def starts_with_def Let_def)

lemma dot_is_plain: "secret_at [(demo_secret, m)] (CHR ''.'' # t) = None"
  by (simp add: secret_at_def marker_at_def demo_secret_def starts_with_def)

lemma masked_dots: "concat (map masked (replicate n (Lit c))) = replicate n c"
  by (induction n) simp_all

lemma redacted_after_dots:
  "buildCredentialRedactor [(''key'', demo_secret)] [] (replicate n CHR ''.'' @ s)
     = replicate n CHR ''.'' @ buildCredentialRedactor [(''key'', demo_secret)] [] s"
  by (simp add: buildCredentialRedactor_def demo_masks lex_replicate [where tok = "secret_at [(demo_secret, mask_text ''cred'' ''key'')]", OF dot_is_plain]
      masked_dots)

text \<open>The excerpt of a failure is cut before it is redacted. Where the cut falls inside a secret, what is
  left of it is no needle, and the excerpt shows it: here all of a token but its last character. The
  redactor masks the same token in the whole body.\<close>

theorem excerpt_cut_reveals:
  "fst (apiExcerpts (buildCredentialRedactor [(''key'', demo_secret)] []) (Some long_answer) no_logs)
     = Some (replicate 1189 CHR ''.'' @ butlast demo_secret)
   \<and> buildCredentialRedactor [(''key'', demo_secret)] [] (cp_bodyText long_answer)
     = replicate 1189 CHR ''.'' @ mask_text ''cred'' ''key''"
proof -
  have cut: "take STEP_OUTPUT_LIMIT (replicate 1189 CHR ''.'' @ demo_secret) = replicate 1189 CHR ''.'' @ butlast demo_secret"
    by (simp add: STEP_OUTPUT_LIMIT_def demo_secret_def)
  have short: "buildCredentialRedactor [(''key'', demo_secret)] [] (butlast demo_secret) = butlast demo_secret"
    unfolding buildCredentialRedactor_def demo_masks
    by (simp add: demo_secret_def secret_at_def marker_at_def starts_with_def Let_def)
  have whole: "buildCredentialRedactor [(''key'', demo_secret)] [] demo_secret = mask_text ''cred'' ''key''"
    unfolding buildCredentialRedactor_def demo_masks
    by (simp add: demo_secret_def secret_at_def marker_at_def starts_with_def Let_def)
  have body: "cp_bodyText long_answer = replicate 1189 CHR ''.'' @ demo_secret"
    by (simp add: long_answer_def)
  moreover have "replicate 1189 CHR ''.'' @ demo_secret \<noteq> []" by (simp add: demo_secret_def)
  ultimately show ?thesis
    unfolding apiExcerpts_def by (simp only: body cut redacted_after_dots short whole fst_conv option.case if_False)
qed

end
