(* ===== verification/Capabilities.thy ===== *)
theory Capabilities
  imports Expectations
begin

text \<open>
  The scripted counterparties of a scenario: the stub servers of
  \<open>packages/guard-runner/src/capabilities/http.ts\<close>, the proxies in front of provided services of
  \<open>external-proxy.ts\<close>, and the scripted answer of \<open>scripted-response.ts\<close>.

  A server is a function on what it has counted, recorded and found: one request in, the answer out. The
  sockets, the delays and the real services are inputs or answers by name. So is the reading of a URL (its
  path name and its query, or that it is no URL) and of a JSON body. The wording of a violation is its
  constructors.
\<close>

subsection \<open>What a route asserts of a request\<close>

record stub_expect =
  se_bodyContains :: "string list option"
  se_query :: "(string \<times> string) list option"
  se_jsonPath :: "(string \<times> json) list option"
  se_headers :: "(string \<times> string) list option"

record received =
  rv_method :: string
  rv_query :: "(string \<times> string) list"
  rv_headers :: "(string \<times> string) list"
  rv_body :: string

datatype request_miss =
    BodyLacks string
  | QueryIs string string "string option"
  | HeaderIs string string "string option"
  | BodyNotJson string
  | JsonAbsent string json
  | JsonOther string json js_val

text \<open>\<open>jsonEquals\<close> of what a path reached and a value.\<close>

definition reached_equals :: "js_val \<Rightarrow> json \<Rightarrow> bool" where
  "reached_equals v w \<longleftrightarrow>
     (case v of
        Js j \<Rightarrow> jsonEquals j (Js w)
      | ObjectPrototype \<Rightarrow> (case w of JObj [] \<Rightarrow> True | _ \<Rightarrow> False)
      | Builtin _ \<Rightarrow> False)"

definition body_lacks :: "string \<Rightarrow> string \<Rightarrow> request_miss option" where
  "body_lacks body needle = (if js_includes needle body then None else Some (BodyLacks needle))"

definition query_miss :: "received \<Rightarrow> string \<times> string \<Rightarrow> request_miss option" where
  "query_miss r = (\<lambda>(name, val).
     let actual = map_of (rv_query r) name in if actual = Some val then None else Some (QueryIs name val actual))"

definition header_miss :: "received \<Rightarrow> string \<times> string \<Rightarrow> request_miss option" where
  "header_miss r = (\<lambda>(name, val).
     let actual = map_of (rv_headers r) (map js_lower name)
     in if actual = Some val then None else Some (HeaderIs name val actual))"

definition json_path_miss :: "json \<Rightarrow> string \<times> json \<Rightarrow> request_miss option" where
  "json_path_miss doc = (\<lambda>(path, w).
     case lookupJsonPath doc path of
       None \<Rightarrow> Some (JsonAbsent path w)
     | Some v \<Rightarrow> if reached_equals v w then None else Some (JsonOther path w v))"

definition json_body_miss :: "(string \<Rightarrow> string + json) \<Rightarrow> string \<Rightarrow> (string \<times> json) list \<Rightarrow> request_miss option" where
  "json_body_miss parse body paths =
     (if paths = [] then None
      else case parse body of
             Inl m \<Rightarrow> Some (BodyNotJson m)
           | Inr doc \<Rightarrow> first_some (json_path_miss doc) paths)"

definition evaluateStubExpect ::
    "(string \<Rightarrow> string + json) \<Rightarrow> stub_expect \<Rightarrow> received \<Rightarrow> request_miss option" where
  "evaluateStubExpect parse x r =
     or_else (first_some (body_lacks (rv_body r)) (opt_list (se_bodyContains x)))
      (or_else (first_some (query_miss r) (opt_list (se_query x)))
       (or_else (first_some (header_miss r) (opt_list (se_headers x)))
         (json_body_miss parse (rv_body r) (opt_list (se_jsonPath x)))))"

definition pathMatches :: "string \<Rightarrow> string \<Rightarrow> bool" where
  "pathMatches pattern pathname \<longleftrightarrow>
     (if \<not> ends_with ''/*'' pattern then pattern = pathname
      else let prefix = butlast pattern in starts_with prefix pathname \<and> length prefix < length pathname)"

subsection \<open>The scripted answer\<close>

record scripted =
  sc_status :: "nat option"
  sc_headers :: "(string \<times> string) list option"
  sc_body :: "string option"
  sc_json :: "json option"
  sc_bodyDelayed :: bool
  sc_refuse :: bool

datatype reply =
    NoReply                              \<comment> \<open>the client or the server was gone before the answer\<close>
  | Destroyed
  | HeadOnly nat "(string \<times> string) list"  \<comment> \<open>gone between the headers and the body\<close>
  | Replied nat "(string \<times> string) list" string
  | Crashed                               \<comment> \<open>the handler threw: the URL is none\<close>

definition scripted_headers :: "scripted \<Rightarrow> (string \<times> string) list" where
  "scripted_headers s =
     foldl (\<lambda>m (k, v). AList.update k v m)
       (if sc_json s = None then [] else [(''content-type'', ''application/json'')]) (opt_list (sc_headers s))"

text \<open>Whether the waits before the answer and before its body came to their end is an input.\<close>

definition sendScriptedResponse :: "bool \<Rightarrow> bool \<Rightarrow> scripted \<Rightarrow> reply" where
  "sendScriptedResponse ready bodyReady s =
     (if \<not> ready then NoReply
      else if sc_refuse s then Destroyed
      else let payload = (case sc_json s of Some j \<Rightarrow> json_stringify j
               | None \<Rightarrow> (case sc_body s of Some b \<Rightarrow> b | None \<Rightarrow> []));
             status = (case sc_status s of Some n \<Rightarrow> n | None \<Rightarrow> 200)
           in if sc_bodyDelayed s \<and> \<not> bodyReady then HeadOnly status (scripted_headers s)
              else Replied status (scripted_headers s) payload)"

subsection \<open>Stub servers\<close>

record stub_route =
  sr_method :: string
  sr_path :: string
  sr_answer :: scripted
  sr_expect :: "stub_expect option"
  sr_once :: bool
  sr_calls :: "nat option"

datatype unmatched_policy = UnmatchedError | Unmatched404

record stub_decl =
  sd_routes :: "stub_route list"
  sd_unmatched :: "unmatched_policy option"

datatype header_value = One string | Many "string list"

text \<open>A request as the server receives it: the chunks of its body decoded, and whether the server or the
  client was gone at its end.\<close>

record incoming =
  iq_method :: string
  iq_url :: string
  iq_headers :: "(string \<times> header_value) list"
  iq_chunks :: "string list"
  iq_gone :: bool
  iq_ready :: bool
  iq_bodyReady :: bool

record request_record =
  rr_method :: string
  rr_url :: string
  rr_headers :: "(string \<times> string) list"
  rr_body :: string
  rr_routeIndex :: "nat option"

datatype stub_finding =
    UnscriptedCall
  | CallMissed nat request_miss
  | CallCount nat nat nat  \<comment> \<open>the route, the calls asked and the calls counted\<close>

record stub_violation =
  sv_stub :: string
  sv_kind :: stub_finding
  sv_step :: "nat option"

record stub_state =
  ss_records :: "request_record list"
  ss_counts :: "nat list"

record http_stubs =
  hs_stubs :: "(string \<times> stub_state) list"
  hs_violations :: "stub_violation list"
  hs_step :: "nat option"

definition STUB_EXCERPT_LIMIT :: nat where "STUB_EXCERPT_LIMIT = 1200"

definition MAX_RECORDED_REQUESTS :: nat where "MAX_RECORDED_REQUESTS = 200"

text \<open>What the platform reads out of texts.\<close>

record readers =
  rd_url :: "string \<Rightarrow> (string \<times> (string \<times> string) list) option"
  rd_json :: "string \<Rightarrow> string + json"

definition fresh_stub :: "stub_decl \<Rightarrow> stub_state" where
  "fresh_stub d = \<lparr>ss_records = [], ss_counts = map (\<lambda>_. 0) (sd_routes d)\<rparr>"

definition startHttpStubs :: "(string \<times> stub_decl) list \<Rightarrow> http_stubs option" where
  "startHttpStubs stubs =
     (if stubs = [] then None
      else Some \<lparr>hs_stubs = map (\<lambda>(name, d). (name, fresh_stub d)) stubs, hs_violations = [], hs_step = None\<rparr>)"

text \<open>The body is read while it is shorter than four excerpts.\<close>

definition read_body :: "string list \<Rightarrow> string" where
  "read_body chunks = foldl (\<lambda>b c. if length b < STUB_EXCERPT_LIMIT * 4 then b @ c else b) [] chunks"

definition header_text :: "header_value \<Rightarrow> string" where
  "header_text v = (case v of One s \<Rightarrow> s | Many ss \<Rightarrow> js_join '', '' ss)"

definition lower_headers :: "(string \<times> header_value) list \<Rightarrow> (string \<times> string) list" where
  "lower_headers hs = foldl (\<lambda>m (k, v). AList.update (map js_lower k) (header_text v) m) [] hs"

text \<open>The first route that takes the request, by how often each has been called.\<close>

definition route_for :: "stub_route list \<Rightarrow> (nat \<Rightarrow> nat) \<Rightarrow> string \<Rightarrow> string \<Rightarrow> nat option" where
  "route_for routes calls verb pathname =
     find_index (\<lambda>(i, r). \<not> (sr_once r \<and> 0 < calls i) \<and> sr_method r = verb \<and> pathMatches (sr_path r) pathname)
       (enumerate 0 routes)"

definition note_violation :: "string \<Rightarrow> stub_finding \<Rightarrow> http_stubs \<Rightarrow> http_stubs" where
  "note_violation name k hs =
     hs\<lparr>hs_violations := hs_violations hs @ [\<lparr>sv_stub = name, sv_kind = k, sv_step = hs_step hs\<rparr>]\<rparr>"

definition put_stub :: "string \<Rightarrow> stub_state \<Rightarrow> http_stubs \<Rightarrow> http_stubs" where
  "put_stub name s hs = hs\<lparr>hs_stubs := AList.update name s (hs_stubs hs)\<rparr>"

definition record_request :: "request_record \<Rightarrow> stub_state \<Rightarrow> stub_state" where
  "record_request r s =
     (if length (ss_records s) < MAX_RECORDED_REQUESTS then s\<lparr>ss_records := ss_records s @ [r]\<rparr> else s)"

definition handleStubRequest ::
    "readers \<Rightarrow> string \<Rightarrow> stub_decl \<Rightarrow> stub_state \<Rightarrow> incoming \<Rightarrow> http_stubs \<Rightarrow> reply \<times> http_stubs" where
  "handleStubRequest rd name d s q hs =
     (if iq_gone q then (NoReply, hs)
      else case rd_url rd (iq_url q) of
        None \<Rightarrow> (Crashed, hs)
      | Some (pathname, query) \<Rightarrow>
          (let verb = map js_upper (iq_method q); body = read_body (iq_chunks q); headers = lower_headers (iq_headers q);
               routeIndex = route_for (sd_routes d) (\<lambda>i. ss_counts s ! i) verb pathname;
               s1 = record_request \<lparr>rr_method = verb, rr_url = iq_url q, rr_headers = headers,
                 rr_body = take STUB_EXCERPT_LIMIT body, rr_routeIndex = routeIndex\<rparr> s
           in case routeIndex of
                None \<Rightarrow>
                  (Replied 404 [(''content-type'', ''application/json'')]
                     (json_stringify (JObj [(''error'', JStr ''no stub route matched'')])),
                   (if sd_unmatched d = Some Unmatched404 then put_stub name s1 hs
                    else note_violation name UnscriptedCall (put_stub name s1 hs)))
              | Some i \<Rightarrow>
                  (let route = sd_routes d ! i; s2 = s1\<lparr>ss_counts := (ss_counts s1)[i := Suc (ss_counts s1 ! i)]\<rparr>;
                       failure = (case sr_expect route of None \<Rightarrow> None | Some x \<Rightarrow>
                         evaluateStubExpect (rd_json rd) x
                           \<lparr>rv_method = verb, rv_query = query, rv_headers = headers, rv_body = body\<rparr>)
                   in (sendScriptedResponse (iq_ready q) (iq_bodyReady q) (sr_answer route),
                       (case failure of
                          None \<Rightarrow> put_stub name s2 hs
                        | Some m \<Rightarrow> note_violation name (CallMissed i m) (put_stub name s2 hs))))))"

text \<open>The counts a stub was to be called.\<close>

definition count_violation :: "string \<Rightarrow> stub_decl \<Rightarrow> stub_state \<Rightarrow> stub_violation option" where
  "count_violation name d s =
     first_some (\<lambda>(i, r). case sr_calls r of
         None \<Rightarrow> None
       | Some n \<Rightarrow> if n = ss_counts s ! i then None
           else Some \<lparr>sv_stub = name, sv_kind = CallCount i n (ss_counts s ! i), sv_step = None\<rparr>)
       (enumerate 0 (sd_routes d))"

definition settleStubs :: "(string \<times> stub_decl) list \<Rightarrow> http_stubs \<Rightarrow> stub_violation option" where
  "settleStubs stubs hs =
     (case hs_violations hs of
        v # _ \<Rightarrow> Some v
      | [] \<Rightarrow> first_some (\<lambda>(name, s). case map_of stubs name of
                 None \<Rightarrow> None | Some d \<Rightarrow> count_violation name d s) (hs_stubs hs))"

datatype stub_event = MarkStep nat | Arrives string incoming

definition stub_step :: "readers \<Rightarrow> (string \<times> stub_decl) list \<Rightarrow> http_stubs \<Rightarrow> stub_event \<Rightarrow> http_stubs" where
  "stub_step rd stubs hs ev =
     (case ev of
        MarkStep n \<Rightarrow> hs\<lparr>hs_step := Some n\<rparr>
      | Arrives name q \<Rightarrow>
          (case (map_of stubs name, map_of (hs_stubs hs) name) of
             (Some d, Some s) \<Rightarrow> snd (handleStubRequest rd name d s q hs)
           | _ \<Rightarrow> hs))"

subsection \<open>What the stubs were promised\<close>

text \<open>The requests a stub really took, in order, and the route each of them found: the first that takes it,
  given how often the routes had been called before.\<close>

definition taken :: "readers \<Rightarrow> incoming \<Rightarrow> bool" where
  "taken rd q \<longleftrightarrow> \<not> iq_gone q \<and> rd_url rd (iq_url q) \<noteq> None"

fun to_stub :: "readers \<Rightarrow> string \<Rightarrow> stub_event list \<Rightarrow> incoming list" where
  "to_stub rd name [] = []"
| "to_stub rd name (MarkStep n # es) = to_stub rd name es"
| "to_stub rd name (Arrives m q # es) = (if m = name \<and> taken rd q then [q] else []) @ to_stub rd name es"

definition served :: "(incoming \<times> nat option) list \<Rightarrow> nat \<Rightarrow> nat" where
  "served os i = length (filter (\<lambda>(q, j). j = Some i) os)"

definition outcome_of :: "readers \<Rightarrow> stub_decl \<Rightarrow> (incoming \<times> nat option) list \<Rightarrow> incoming \<Rightarrow> nat option" where
  "outcome_of rd d os q =
     route_for (sd_routes d) (served os) (map js_upper (iq_method q)) (fst (the (rd_url rd (iq_url q))))"

definition outcomes :: "readers \<Rightarrow> stub_decl \<Rightarrow> incoming list \<Rightarrow> (incoming \<times> nat option) list" where
  "outcomes rd d qs = foldl (\<lambda>os q. os @ [(q, outcome_of rd d os q)]) [] qs"

definition request_ok :: "readers \<Rightarrow> stub_decl \<Rightarrow> incoming \<times> nat option \<Rightarrow> bool" where
  "request_ok rd d = (\<lambda>(q, j). case j of
       None \<Rightarrow> sd_unmatched d = Some Unmatched404
     | Some i \<Rightarrow> pred_option (\<lambda>x. evaluateStubExpect (rd_json rd) x
           \<lparr>rv_method = map js_upper (iq_method q), rv_query = snd (the (rd_url rd (iq_url q))),
            rv_headers = lower_headers (iq_headers q), rv_body = read_body (iq_chunks q)\<rparr> = None)
         (sr_expect (sd_routes d ! i)))"

definition calls_ok :: "stub_decl \<Rightarrow> (incoming \<times> nat option) list \<Rightarrow> bool" where
  "calls_ok d os \<longleftrightarrow>
     list_all (\<lambda>(i, r). pred_option (\<lambda>n. served os i = n) (sr_calls r)) (enumerate 0 (sd_routes d))"

definition as_scripted :: "readers \<Rightarrow> stub_decl \<Rightarrow> incoming list \<Rightarrow> bool" where
  "as_scripted rd d qs \<longleftrightarrow> list_all (request_ok rd d) (outcomes rd d qs) \<and> calls_ok d (outcomes rd d qs)"

lemma outcomes_snoc: "outcomes rd d (qs @ [q]) = outcomes rd d qs @ [(q, outcome_of rd d (outcomes rd d qs) q)]"
  by (simp add: outcomes_def)

lemma served_snoc: "served (os @ [(q, j)]) i = served os i + (if j = Some i then 1 else 0)"
  by (simp add: served_def)

lemma to_stub_append [simp]: "to_stub rd name (es @ fs) = to_stub rd name es @ to_stub rd name fs"
  by (induction rd name es rule: to_stub.induct) simp_all

lemma find_index_cong: "(\<And>x. x \<in> set xs \<Longrightarrow> P x = Q x) \<Longrightarrow> find_index P xs = find_index Q xs"
  by (induction xs) auto

lemma route_for_cong:
  assumes "\<And>i. i < length routes \<Longrightarrow> f i = g i"
  shows "route_for routes f verb p = route_for routes g verb p"
  unfolding route_for_def using assms by (intro find_index_cong) (auto simp: in_set_enumerate_eq)

lemma route_for_Some:
  assumes "route_for routes f verb p = Some i"
  shows "i < length routes" "sr_once (routes ! i) \<longrightarrow> f i = 0"
  using find_index_SomeD [OF assms [unfolded route_for_def]] by (auto simp: nth_enumerate_eq)

text \<open>What the state of the stubs is after some events.\<close>

definition counts_kept :: "readers \<Rightarrow> (string \<times> stub_decl) list \<Rightarrow> stub_event list \<Rightarrow> http_stubs \<Rightarrow> bool" where
  "counts_kept rd stubs es hs \<longleftrightarrow>
     map fst (hs_stubs hs) = map fst stubs \<and>
     (\<forall>(name, d)\<in>set stubs. \<exists>s. map_of (hs_stubs hs) name = Some s \<and>
        ss_counts s = map (served (outcomes rd d (to_stub rd name es))) [0..<length (sd_routes d)])"

definition requests_ok :: "readers \<Rightarrow> (string \<times> stub_decl) list \<Rightarrow> stub_event list \<Rightarrow> bool" where
  "requests_ok rd stubs es \<longleftrightarrow>
     (\<forall>(name, d)\<in>set stubs. list_all (request_ok rd d) (outcomes rd d (to_stub rd name es)))"

lemma handle_untaken: "\<not> taken rd q \<Longrightarrow> snd (handleStubRequest rd name d s q hs) = hs"
  by (cases "rd_url rd (iq_url q)") (auto simp: handleStubRequest_def taken_def)

lemma count_served:
  assumes "i < n" and "cs = map (served os) [0..<n]"
  shows "cs[i := Suc (cs ! i)] = map (served (os @ [(q, Some i)])) [0..<n]"
  using assms by (intro nth_equalityI) (auto simp: served_snoc nth_list_update)

lemma handle_taken:
  assumes "taken rd q" and counts: "ss_counts s = map (served os) [0..<length (sd_routes d)]"
  shows "\<exists>s'. hs_stubs (snd (handleStubRequest rd name d s q hs)) = AList.update name s' (hs_stubs hs)
    \<and> ss_counts s' = map (served (os @ [(q, outcome_of rd d os q)])) [0..<length (sd_routes d)]
    \<and> (hs_violations (snd (handleStubRequest rd name d s q hs)) = []
        \<longleftrightarrow> hs_violations hs = [] \<and> request_ok rd d (q, outcome_of rd d os q))"
proof -
  obtain pathname query where url: "rd_url rd (iq_url q) = Some (pathname, query)"
    using assms(1) by (auto simp: taken_def)
  have here: "\<not> iq_gone q"
    using assms(1) by (simp add: taken_def)
  have route: "route_for (sd_routes d) (\<lambda>i. ss_counts s ! i) (map js_upper (iq_method q)) pathname = outcome_of rd d os q"
    unfolding outcome_of_def url by (simp, intro route_for_cong) (simp add: counts)
  note handle = handleStubRequest_def here url route Let_def
  have recorded: "ss_counts (record_request r s) = ss_counts s" for r
    by (simp add: record_request_def)
  have unrouted: "ss_counts s = map (served (os @ [(q, None)])) [0..<length (sd_routes d)]"
    by (simp add: counts served_snoc)
  show ?thesis
  proof (cases "outcome_of rd d os q")
    case None
    have "\<exists>r. hs_stubs (snd (handleStubRequest rd name d s q hs)) = AList.update name (record_request r s) (hs_stubs hs)
        \<and> (hs_violations (snd (handleStubRequest rd name d s q hs)) = []
          \<longleftrightarrow> hs_violations hs = [] \<and> sd_unmatched d = Some Unmatched404)"
      by (simp add: handle None put_stub_def note_violation_def) blast
    then obtain r where "hs_stubs (snd (handleStubRequest rd name d s q hs)) = AList.update name (record_request r s) (hs_stubs hs)"
        "hs_violations (snd (handleStubRequest rd name d s q hs)) = []
          \<longleftrightarrow> hs_violations hs = [] \<and> sd_unmatched d = Some Unmatched404"
      by blast
    then show ?thesis
      using recorded [of r] unrouted None by (intro exI [of _ "record_request r s"]) (simp add: request_ok_def)
  next
    case (Some i)
    have "i < length (sd_routes d)"
      using Some unfolding outcome_of_def by (rule route_for_Some)
    then have counted: "(ss_counts s)[i := Suc (ss_counts s ! i)] = map (served (os @ [(q, Some i)])) [0..<length (sd_routes d)]"
      by (rule count_served) (rule counts)
    have "\<exists>s'. ss_counts s' = (ss_counts s)[i := Suc (ss_counts s ! i)]
        \<and> hs_stubs (snd (handleStubRequest rd name d s q hs)) = AList.update name s' (hs_stubs hs)
        \<and> (hs_violations (snd (handleStubRequest rd name d s q hs)) = []
          \<longleftrightarrow> hs_violations hs = [] \<and> request_ok rd d (q, Some i))"
      by (auto simp: handle Some recorded put_stub_def note_violation_def request_ok_def url split: option.splits
          intro!: exI [of _ "(record_request _ s)\<lparr>ss_counts := (ss_counts s)[i := Suc (ss_counts s ! i)]\<rparr>"])
    then show ?thesis unfolding Some counted by blast
  qed
qed

lemma update_keys: "k \<in> set (map fst kvs) \<Longrightarrow> map fst (AList.update k v kvs) = map fst kvs"
  by (induction kvs) auto

lemma distinct_entry: "distinct (map fst kvs) \<Longrightarrow> (k, v) \<in> set kvs \<Longrightarrow> (k, w) \<in> set kvs \<Longrightarrow> v = w"
  by (rule eq_key_imp_eq_value)

lemma requests_ok_taken:
  assumes "distinct (map fst stubs)" and mem: "(name, d) \<in> set stubs" and "taken rd q"
  shows "requests_ok rd stubs (es @ [Arrives name q]) \<longleftrightarrow>
    requests_ok rd stubs es \<and> request_ok rd d (q, outcome_of rd d (outcomes rd d (to_stub rd name es)) q)"
proof -
  have "list_all (request_ok rd e) (outcomes rd e (to_stub rd m (es @ [Arrives name q]))) \<longleftrightarrow>
      list_all (request_ok rd e) (outcomes rd e (to_stub rd m es))
      \<and> (m = name \<longrightarrow> request_ok rd d (q, outcome_of rd d (outcomes rd d (to_stub rd name es)) q))"
    if "(m, e) \<in> set stubs" for m e
    using distinct_entry [OF assms(1) mem, of e] that assms(3) by (cases "m = name") (auto simp: outcomes_snoc)
  then show ?thesis
    unfolding requests_ok_def using mem by blast
qed

lemma counts_kept_taken:
  assumes "distinct (map fst stubs)" and mem: "(name, d) \<in> set stubs" and kept: "counts_kept rd stubs es hs"
    and upd: "hs_stubs hs' = AList.update name s' (hs_stubs hs)"
    and counts: "ss_counts s' = map (served (outcomes rd d (to_stub rd name (es @ [Arrives name q])))) [0..<length (sd_routes d)]"
  shows "counts_kept rd stubs (es @ [Arrives name q]) hs'"
proof -
  have "map fst (hs_stubs hs') = map fst stubs"
    using kept mem unfolding upd counts_kept_def by (subst update_keys) force+
  moreover have "\<exists>r. map_of (hs_stubs hs') m = Some r \<and>
      ss_counts r = map (served (outcomes rd e (to_stub rd m (es @ [Arrives name q])))) [0..<length (sd_routes e)]"
    if e: "(m, e) \<in> set stubs" for m e
  proof (cases "m = name")
    case True
    then show ?thesis
      using upd counts distinct_entry [OF assms(1) mem, of e] e by (simp add: update_conv')
  next
    case False
    then have "to_stub rd m (es @ [Arrives name q]) = to_stub rd m es" by simp
    then show ?thesis
      using kept e False unfolding upd counts_kept_def by (fastforce simp: update_conv')
  qed
  ultimately show ?thesis unfolding counts_kept_def by blast
qed

lemma stub_step_kept:
  assumes dist: "distinct (map fst stubs)" and kept: "counts_kept rd stubs es hs"
    and ok: "hs_violations hs = [] \<longleftrightarrow> requests_ok rd stubs es"
  shows "counts_kept rd stubs (es @ [ev]) (stub_step rd stubs hs ev)
    \<and> (hs_violations (stub_step rd stubs hs ev) = [] \<longleftrightarrow> requests_ok rd stubs (es @ [ev]))"
proof -
  have idle: ?thesis if "stub_step rd stubs hs ev = hs" and "\<And>m d. (m, d) \<in> set stubs \<Longrightarrow> to_stub rd m [ev] = []"
    using kept ok that by (auto simp: counts_kept_def requests_ok_def)
  show ?thesis
  proof (cases ev)
    case (MarkStep n)
    then show ?thesis
      using kept ok by (simp add: stub_step_def counts_kept_def requests_ok_def)
  next
    case (Arrives name q)
    show ?thesis
    proof (cases "map_of stubs name")
      case None
      then have "name \<notin> fst ` set stubs" by (simp add: map_of_eq_None_iff)
      then show ?thesis using Arrives None by (intro idle) (force simp: stub_step_def)+
    next
      case (Some d)
      then have mem: "(name, d) \<in> set stubs" by (rule map_of_SomeD)
      obtain s where s: "map_of (hs_stubs hs) name = Some s"
          "ss_counts s = map (served (outcomes rd d (to_stub rd name es))) [0..<length (sd_routes d)]"
        using kept mem unfolding counts_kept_def by blast
      have step: "stub_step rd stubs hs ev = snd (handleStubRequest rd name d s q hs)"
        by (simp add: stub_step_def Arrives Some s(1))
      show ?thesis
      proof (cases "taken rd q")
        case True
        then show ?thesis
          using handle_taken [OF True s(2), of name hs] ok requests_ok_taken [OF dist mem True, of es]
            counts_kept_taken [OF dist mem kept, of "stub_step rd stubs hs ev" _ q]
          unfolding step by (auto simp: Arrives outcomes_snoc)
      next
        case False
        show ?thesis
        proof (rule idle)
          show "stub_step rd stubs hs ev = hs" unfolding step by (rule handle_untaken [OF False])
        qed (simp add: Arrives False)
      qed
    qed
  qed
qed

lemma served_Nil: "map (served []) [0..<n] = replicate n 0"
  by (induction n) (simp_all add: served_def replicate_append_same)

lemma stubs_run_kept:
  assumes "distinct (map fst stubs)" and "startHttpStubs stubs = Some hs"
  shows "counts_kept rd stubs es (foldl (stub_step rd stubs) hs es)
    \<and> (hs_violations (foldl (stub_step rd stubs) hs es) = [] \<longleftrightarrow> requests_ok rd stubs es)"
proof (induction es rule: rev_induct)
  case Nil
  have hs: "hs = \<lparr>hs_stubs = map (\<lambda>(name, d). (name, fresh_stub d)) stubs, hs_violations = [], hs_step = None\<rparr>"
    using assms(2) by (simp add: startHttpStubs_def split: if_splits)
  have "map_of (map (\<lambda>(name, d). (name, fresh_stub d)) stubs) name = Some (fresh_stub d)" if "(name, d) \<in> set stubs" for name d
    using that assms(1) by (force intro: map_of_is_SomeI simp: comp_def case_prod_unfold)
  then show ?case
    by (auto simp: hs counts_kept_def requests_ok_def outcomes_def fresh_stub_def map_replicate_const served_Nil
        intro!: exI)
qed (use stub_step_kept [OF assms(1)] in simp)

lemma count_violation_None:
  assumes "ss_counts s = map (served os) [0..<length (sd_routes d)]"
  shows "count_violation name d s = None \<longleftrightarrow> calls_ok d os"
  unfolding count_violation_def calls_ok_def first_some_None_list_all list_all_iff
proof (rule ball_cong [OF refl], clarify)
  fix i r assume "(i, r) \<in> set (enumerate 0 (sd_routes d))"
  then have "i < length (sd_routes d)" by (simp add: in_set_enumerate_eq)
  then have "ss_counts s ! i = served os i" by (simp add: assms)
  then show "((case sr_calls r of None \<Rightarrow> None | Some n \<Rightarrow> if n = ss_counts s ! i then None
      else Some \<lparr>sv_stub = name, sv_kind = CallCount i n (ss_counts s ! i), sv_step = None\<rparr>) = None)
    \<longleftrightarrow> pred_option (\<lambda>n. served os i = n) (sr_calls r)"
    by (cases "sr_calls r") auto
qed

lemma settlement_exact:
  assumes "distinct (map fst stubs)" and "startHttpStubs stubs = Some hs"
  shows "settleStubs stubs (foldl (stub_step rd stubs) hs es) = None
    \<longleftrightarrow> list_all (\<lambda>(name, d). as_scripted rd d (to_stub rd name es)) stubs"
proof -
  let ?hs = "foldl (stub_step rd stubs) hs es"
  have kept: "counts_kept rd stubs es ?hs"
    and clean: "hs_violations ?hs = [] \<longleftrightarrow> requests_ok rd stubs es"
    using stubs_run_kept [OF assms] by blast+
  have keys: "map fst (hs_stubs ?hs) = map fst stubs"
    using kept by (simp add: counts_kept_def)
  have "(\<forall>(name, s)\<in>set (hs_stubs ?hs). (case map_of stubs name of None \<Rightarrow> None | Some d \<Rightarrow> count_violation name d s) = None)
      \<longleftrightarrow> (\<forall>(name, d)\<in>set stubs. calls_ok d (outcomes rd d (to_stub rd name es)))"
  proof -
    have each: "(case map_of stubs name of None \<Rightarrow> None | Some d' \<Rightarrow> count_violation name d' s) = None
        \<longleftrightarrow> calls_ok d (outcomes rd d (to_stub rd name es))"
      if "(name, d) \<in> set stubs" "(name, s) \<in> set (hs_stubs ?hs)" for name d s
    proof -
      have "map_of (hs_stubs ?hs) name = Some s"
        using that(2) assms(1) keys by (intro map_of_is_SomeI) simp_all
      then have "ss_counts s = map (served (outcomes rd d (to_stub rd name es))) [0..<length (sd_routes d)]"
        using kept that(1) unfolding counts_kept_def by fastforce
      moreover have "map_of stubs name = Some d"
        using that(1) assms(1) by (intro map_of_is_SomeI)
      ultimately show ?thesis by (simp add: count_violation_None)
    qed
    show ?thesis
    proof (intro iffI ballI; clarify)
      fix name d assume all: "\<forall>(name, s)\<in>set (hs_stubs ?hs). (case map_of stubs name of None \<Rightarrow> None
          | Some d \<Rightarrow> count_violation name d s) = None" and d: "(name, d) \<in> set stubs"
      then obtain s where "(name, s) \<in> set (hs_stubs ?hs)"
        using kept unfolding counts_kept_def by (blast dest: map_of_SomeD)
      then show "calls_ok d (outcomes rd d (to_stub rd name es))"
        using each [OF d] all by blast
    next
      fix name s assume all: "\<forall>(name, d)\<in>set stubs. calls_ok d (outcomes rd d (to_stub rd name es))"
        and s: "(name, s) \<in> set (hs_stubs ?hs)"
      from s have "name \<in> set (map fst stubs)" by (subst keys [symmetric]) force
      then obtain d where "(name, d) \<in> set stubs" by auto
      then show "(case map_of stubs name of None \<Rightarrow> None | Some d \<Rightarrow> count_violation name d s) = None"
        using each [OF _ s] all by blast
    qed
  qed
  then show ?thesis
    using clean
    by (auto simp: settleStubs_def requests_ok_def as_scripted_def list_all_iff split: list.split)
qed

text \<open>The settlement of the stubs is exact: it finds nothing if and only if, for each stub on its own, every
  request it took found a route of it (or the stub tolerates others) and met what that route asserts,
  and each route with a call count found exactly that many. A request finds the first route that takes
  it and is not a one-time route already used. How many requests are kept as records, how the requests of
  several stubs interleave and at which step they came makes no difference.\<close>

theorem settlement_is_exact:
  assumes "distinct (map fst stubs)" and "startHttpStubs stubs = Some hs"
  shows "settleStubs stubs (foldl (stub_step rd stubs) hs es) = None
    \<longleftrightarrow> list_all (\<lambda>(name, d). as_scripted rd d (to_stub rd name es)) stubs"
  using assms by (rule settlement_exact)

definition demo_stubs :: "(string \<times> stub_decl) list" where
  "demo_stubs =
     [(''pay'', \<lparr>sd_routes =
         [\<lparr>sr_method = ''POST'', sr_path = ''/v1/orders/*'',
           sr_answer = \<lparr>sc_status = None, sc_headers = None, sc_body = None, sc_json = None, sc_bodyDelayed = False,
             sc_refuse = False\<rparr>,
           sr_expect = Some \<lparr>se_bodyContains = Some [''card''], se_query = None, se_jsonPath = None, se_headers = None\<rparr>,
           sr_once = True, sr_calls = Some 1\<rparr>], sd_unmatched = None\<rparr>)]"

definition demo_readers :: readers where
  "demo_readers = \<lparr>rd_url = (\<lambda>u. Some (u, [])), rd_json = (\<lambda>b. Inl b)\<rparr>"

definition demo_call :: stub_event where
  "demo_call = Arrives ''pay'' \<lparr>iq_method = ''post'', iq_url = ''/v1/orders/7'', iq_headers = [], iq_chunks = [''card=1''],
     iq_gone = False, iq_ready = True, iq_bodyReady = True\<rparr>"

theorem settlement_is_exact_witness:
  "\<exists>hs. startHttpStubs demo_stubs = Some hs
     \<and> (settleStubs demo_stubs (foldl (stub_step demo_readers demo_stubs) hs [MarkStep 1, demo_call]) = None
       \<longleftrightarrow> list_all (\<lambda>(name, d). as_scripted demo_readers d (to_stub demo_readers name [MarkStep 1, demo_call])) demo_stubs)
     \<and> list_all (\<lambda>(name, d). as_scripted demo_readers d (to_stub demo_readers name [MarkStep 1, demo_call])) demo_stubs
     \<and> \<not> list_all (\<lambda>(name, d). as_scripted demo_readers d (to_stub demo_readers name [demo_call, demo_call])) demo_stubs"
proof -
  obtain hs where start: "startHttpStubs demo_stubs = Some hs"
    by (simp add: startHttpStubs_def demo_stubs_def)
  have dist: "distinct (map fst demo_stubs)" by code_simp
  have "list_all (\<lambda>(name, d). as_scripted demo_readers d (to_stub demo_readers name [MarkStep 1, demo_call])) demo_stubs"
    by code_simp
  moreover have "\<not> list_all (\<lambda>(name, d). as_scripted demo_readers d (to_stub demo_readers name [demo_call, demo_call])) demo_stubs"
    by code_simp
  ultimately show ?thesis
    using settlement_is_exact [OF dist start, of demo_readers "[MarkStep 1, demo_call]"] start by blast
qed

text \<open>A one-time route serves one request at most.\<close>

lemma once_serves_once:
  "list_all (\<lambda>(i, r). sr_once r \<longrightarrow> served (outcomes rd d qs) i \<le> 1) (enumerate 0 (sd_routes d))"
proof (induction qs rule: rev_induct)
  case (snoc q qs)
  have "served (outcomes rd d (qs @ [q])) i \<le> 1"
    if "sr_once (sd_routes d ! i)" "served (outcomes rd d qs) i \<le> 1" for i
    using that route_for_Some(2) [of "sd_routes d" "served (outcomes rd d qs)" _ _ i]
    by (auto simp: outcomes_snoc served_snoc outcome_of_def)
  then show ?case
    using snoc by (auto simp: list_all_iff in_set_enumerate_eq)
qed (simp add: outcomes_def served_def list_all_iff)

subsection \<open>Stub origins in the environment\<close>

text \<open>\<open>\$\{HTTP_STUB:([A-Za-z0-9_-]+)\}\<close>, with the name it captures.\<close>

definition stub_name_char :: "char \<Rightarrow> bool" where
  "stub_name_char c \<longleftrightarrow>
     (let n = of_char c :: nat
      in (65 \<le> n \<and> n \<le> 90) \<or> (97 \<le> n \<and> n \<le> 122) \<or> (48 \<le> n \<and> n \<le> 57) \<or> c = CHR ''_'' \<or> c = CHR ''-'')"

definition stub_placeholder :: "string \<Rightarrow> (string \<times> nat) option" where
  "stub_placeholder s =
     (if starts_with ''${HTTP_STUB:'' s then
        let name = takeWhile stub_name_char (drop 12 s)
        in if name \<noteq> [] \<and> starts_with ''}'' (drop (12 + length name) s) then Some (name, 12 + length name) else None
      else None)"

datatype capability_error =
    UndeclaredStub string string      \<comment> \<open>the variable and the stub it names\<close>
  | UnknownEndpoint string string
  | ControlledOverridden string
  | NotProvided string
  | ProxyDown string string

definition stub_origin :: "(string \<times> string) list \<Rightarrow> string \<Rightarrow> string \<Rightarrow> capability_error + string" where
  "stub_origin origins key name =
     (case map_of origins name of None \<Rightarrow> Inl (UndeclaredStub key name) | Some url \<Rightarrow> Inr url)"

definition substituteHttpStubOriginsInEnv ::
    "(string \<times> string) list \<Rightarrow> (string \<times> string) list \<Rightarrow> capability_error + (string \<times> string) list" where
  "substituteHttpStubOriginsInEnv env origins =
     all_right (map (\<lambda>(key, v). map_sum id (Pair key)
       (weave (\<lambda>name _. stub_origin origins key name) Inr [] (lex stub_placeholder v))) env)"

definition applyHttpStubOrigins ::
    "(string \<times> string) list option \<Rightarrow> (string \<times> string) list \<Rightarrow> capability_error + (string \<times> string) list option" where
  "applyHttpStubOrigins env origins =
     traverse_option (\<lambda>e. substituteHttpStubOriginsInEnv e origins) env"

subsection \<open>Proxies in front of provided services\<close>

record fault_match =
  fm_endpoint :: "string option"
  fm_method :: "string option"
  fm_path :: "string option"

record fault_rule =
  fr_match :: "fault_match option"
  fr_respond :: "scripted option"
  fr_refuse :: bool
  fr_expect :: "stub_expect option"
  fr_once :: bool

record external_script =
  ex_faults :: "fault_rule list option"
  ex_strict :: bool  \<comment> \<open>\<open>unmatched: 'error'\<close>\<close>
  ex_calls :: "nat option"

record proxy_target =
  pt_service :: string
  pt_endpoints :: "(string \<times> string) list"  \<comment> \<open>variable and upstream\<close>

datatype call_outcome = Passthrough | Responded | RefusedCall | UnmatchedCall

record external_call =
  ec_envVar :: string
  ec_method :: string
  ec_url :: string
  ec_outcome :: call_outcome
  ec_faultIndex :: "nat option"

datatype external_finding = UnscriptedTraffic | CallMissedRule request_miss | ServiceCalls nat nat

record service_state =
  sv_calls :: "external_call list"
  sv_count :: nat
  sv_consumed :: "nat list"
  sv_violations :: "external_finding list"

definition fresh_service :: service_state where
  "fresh_service = \<lparr>sv_calls = [], sv_count = 0, sv_consumed = [], sv_violations = []\<rparr>"

definition MAX_RECORDED_CALLS :: nat where "MAX_RECORDED_CALLS = 200"

definition falsy_or_eq :: "string option \<Rightarrow> string \<Rightarrow> bool" where
  "falsy_or_eq x y \<longleftrightarrow> x = None \<or> x = Some [] \<or> x = Some y"

definition fault_applies :: "fault_rule \<Rightarrow> string \<Rightarrow> string \<Rightarrow> string \<Rightarrow> bool" where
  "fault_applies r verb pathname endpoint \<longleftrightarrow>
     (case fr_match r of
        None \<Rightarrow> True
      | Some m \<Rightarrow>
          falsy_or_eq (fm_endpoint m) endpoint \<and> falsy_or_eq (fm_method m) verb \<and>
          (case fm_path m of None \<Rightarrow> True | Some p \<Rightarrow> p = [] \<or> pathMatches p pathname))"

text \<open>The rule that fires, by its index, and the rules used up after it.\<close>

definition faults_of :: "external_script option \<Rightarrow> fault_rule list" where
  "faults_of script = (case script of None \<Rightarrow> [] | Some x \<Rightarrow> opt_list (ex_faults x))"

definition selectFault ::
    "external_script option \<Rightarrow> nat list \<Rightarrow> string \<Rightarrow> string \<Rightarrow> string \<Rightarrow> nat option \<times> nat list" where
  "selectFault script consumed verb pathname endpoint =
     (case find_index (\<lambda>(i, r). i \<notin> set consumed \<and> fault_applies r verb pathname endpoint)
             (enumerate 0 (faults_of script)) of
        None \<Rightarrow> (None, consumed)
      | Some i \<Rightarrow> (Some i, if fr_once (faults_of script ! i) then i # consumed else consumed))"

datatype proxy_action =
    PIgnored                \<comment> \<open>the client or the proxy was gone\<close>
  | PBroken                 \<comment> \<open>the connection is destroyed without an answer\<close>
  | PScripted reply
  | PForwarded string       \<comment> \<open>the path asked of the real service\<close>

text \<open>A base URL may have a path of its own, which the path of the call is appended to.\<close>

definition forward_path :: "readers \<Rightarrow> string \<Rightarrow> string \<Rightarrow> string option" where
  "forward_path rd upstream url =
     map_option (\<lambda>(pathname, _). (if ends_with ''/'' pathname then butlast pathname else pathname) @ url)
       (rd_url rd upstream)"

definition forward :: "readers \<Rightarrow> string \<Rightarrow> string \<Rightarrow> proxy_action" where
  "forward rd upstream url = (case forward_path rd upstream url of None \<Rightarrow> PBroken | Some p \<Rightarrow> PForwarded p)"

definition outcome_word :: "bool \<Rightarrow> fault_rule option \<Rightarrow> call_outcome" where
  "outcome_word unmatched rule =
     (if unmatched then UnmatchedCall
      else case rule of
        None \<Rightarrow> Passthrough
      | Some r \<Rightarrow> if fr_refuse r then RefusedCall else if fr_respond r \<noteq> None then Responded else Passthrough)"

definition record_call :: "external_call \<Rightarrow> service_state \<Rightarrow> service_state" where
  "record_call c s = (if length (sv_calls s) < MAX_RECORDED_CALLS then s\<lparr>sv_calls := sv_calls s @ [c]\<rparr> else s)"

definition note_finding :: "external_finding option \<Rightarrow> service_state \<Rightarrow> service_state" where
  "note_finding f s =
     (case f of
        Some x \<Rightarrow> if length (sv_violations s) < MAX_RECORDED_CALLS then s\<lparr>sv_violations := sv_violations s @ [x]\<rparr> else s
      | None \<Rightarrow> s)"

definition rule_miss :: "readers \<Rightarrow> fault_rule option \<Rightarrow> received \<Rightarrow> request_miss option" where
  "rule_miss rd rule r =
     (case rule of None \<Rightarrow> None
      | Some f \<Rightarrow> (case fr_expect f of None \<Rightarrow> None | Some x \<Rightarrow> evaluateStubExpect (rd_json rd) x r))"

definition received_call :: "readers \<Rightarrow> incoming \<Rightarrow> received" where
  "received_call rd q =
     \<lparr>rv_method = map js_upper (iq_method q), rv_query = snd (the (rd_url rd (iq_url q))),
      rv_headers = lower_headers (iq_headers q), rv_body = concat (iq_chunks q)\<rparr>"

definition answer_call :: "readers \<Rightarrow> string \<Rightarrow> incoming \<Rightarrow> bool \<Rightarrow> fault_rule option \<Rightarrow> proxy_action" where
  "answer_call rd upstream q unmatched rule =
     (if unmatched then PBroken
      else if \<not> iq_ready q then PIgnored
      else case rule of
        None \<Rightarrow> forward rd upstream (iq_url q)
      | Some r \<Rightarrow>
          if fr_refuse r then PBroken
          else (case fr_respond r of
                  Some a \<Rightarrow> PScripted (sendScriptedResponse True (iq_bodyReady q) a)
                | None \<Rightarrow> forward rd upstream (iq_url q)))"

definition handleProxyRequest ::
    "readers \<Rightarrow> external_script option \<Rightarrow> string \<Rightarrow> string \<Rightarrow> incoming \<Rightarrow> service_state \<Rightarrow> proxy_action \<times> service_state" where
  "handleProxyRequest rd script envVar upstream q s =
     (if iq_gone q then (PIgnored, s)
      else let s1 = s\<lparr>sv_count := Suc (sv_count s)\<rparr>; verb = map js_upper (iq_method q)
           in case rd_url rd (iq_url q) of
                None \<Rightarrow> (PBroken, s1)
              | Some (pathname, query) \<Rightarrow>
                  (let (fault, used) = selectFault script (sv_consumed s) verb pathname envVar;
                       rule = map_option (\<lambda>i. faults_of script ! i) fault;
                       unmatched = (rule = None \<and> (case script of None \<Rightarrow> False | Some x \<Rightarrow> ex_strict x));
                       failure = rule_miss rd rule (received_call rd q);
                       s2 = record_call \<lparr>ec_envVar = envVar, ec_method = verb, ec_url = iq_url q,
                              ec_outcome = outcome_word unmatched rule, ec_faultIndex = fault\<rparr> (s1\<lparr>sv_consumed := used\<rparr>);
                       finding = (if unmatched then Some UnscriptedTraffic else map_option CallMissedRule failure)
                   in (answer_call rd upstream q unmatched rule, note_finding finding s2)))"

definition settle_service :: "external_script option \<Rightarrow> service_state \<Rightarrow> external_finding option" where
  "settle_service script s =
     (case sv_violations s of
        v # _ \<Rightarrow> Some v
      | [] \<Rightarrow> (case Option.bind script ex_calls of
                 None \<Rightarrow> None
               | Some n \<Rightarrow> if n = sv_count s then None else Some (ServiceCalls n (sv_count s))))"

definition settleProxies :: "(string \<times> external_script) list \<Rightarrow> (string \<times> service_state) list \<Rightarrow> (string \<times> external_finding) option" where
  "settleProxies scripts states =
     first_some (\<lambda>(service, s). map_option (Pair service) (settle_service (map_of scripts service) s)) states"

text \<open>What a script may not say.\<close>

definition unknown_endpoint :: "proxy_target \<Rightarrow> fault_rule \<Rightarrow> string option" where
  "unknown_endpoint t r =
     (case Option.bind (fr_match r) fm_endpoint of
        None \<Rightarrow> None
      | Some e \<Rightarrow> if e = [] \<or> list_ex (\<lambda>(v, _). v = e) (pt_endpoints t) then None else Some e)"

definition script_error ::
    "proxy_target list \<Rightarrow> string list \<Rightarrow> string \<times> external_script \<Rightarrow> capability_error option" where
  "script_error targets overridden = (\<lambda>(service, x).
     case find (\<lambda>t. pt_service t = service) (rev targets) of
       None \<Rightarrow> Some (NotProvided service)
     | Some t \<Rightarrow>
         or_else (first_some (\<lambda>r. map_option (UnknownEndpoint service) (unknown_endpoint t r)) (opt_list (ex_faults x)))
           (if ex_strict x \<and> list_ex (\<lambda>(v, _). v \<in> set overridden) (pt_endpoints t)
            then Some (ControlledOverridden service) else None))"

definition proxied_endpoints :: "proxy_target list \<Rightarrow> string list \<Rightarrow> (string \<times> string) list" where
  "proxied_endpoints targets overridden =
     concat (map (\<lambda>t. map (\<lambda>(v, _). (pt_service t, v)) (filter (\<lambda>(v, _). v \<notin> set overridden) (pt_endpoints t))) targets)"

definition startExternalProxies ::
    "(string \<Rightarrow> string option) \<Rightarrow> proxy_target list \<Rightarrow> (string \<times> external_script) list \<Rightarrow> string list
      \<Rightarrow> capability_error + ((string \<times> string) list \<times> (string \<times> service_state) list) option" where
  "startExternalProxies listen targets scripts overridden =
     (case first_some (script_error targets overridden) scripts of
        Some e \<Rightarrow> Inl e
      | None \<Rightarrow>
          if targets = [] then Inr None
          else (case find (\<lambda>(_, v). listen v = None) (proxied_endpoints targets overridden) of
              Some (service, v) \<Rightarrow> Inl (ProxyDown service v)
            | None \<Rightarrow> Inr (Some
                (foldl (\<lambda>m (_, v). AList.update v (the (listen v)) m) [] (proxied_endpoints targets overridden),
                 foldl (\<lambda>m t. AList.update (pt_service t) fresh_service m) [] targets))))"

subsection \<open>What a proxied service was promised\<close>

text \<open>The rule each call of a service fires: the first that applies and is not a one-time rule that fired
  before.\<close>

type_synonym proxied = "string \<times> string \<times> incoming"  \<comment> \<open>variable, upstream, request\<close>

definition used_up :: "external_script option \<Rightarrow> (proxied \<times> nat option) list \<Rightarrow> nat \<Rightarrow> bool" where
  "used_up script os i \<longleftrightarrow> fr_once (faults_of script ! i) \<and> list_ex (\<lambda>(_, j). j = Some i) os"

definition fires :: "readers \<Rightarrow> external_script option \<Rightarrow> (proxied \<times> nat option) list \<Rightarrow> proxied \<Rightarrow> nat option" where
  "fires rd script os = (\<lambda>(envVar, _, q).
     find_index (\<lambda>(i, r). \<not> used_up script os i \<and>
         fault_applies r (map js_upper (iq_method q)) (fst (the (rd_url rd (iq_url q)))) envVar)
       (enumerate 0 (faults_of script)))"

definition firings :: "readers \<Rightarrow> external_script option \<Rightarrow> proxied list \<Rightarrow> (proxied \<times> nat option) list" where
  "firings rd script cs = foldl (\<lambda>os c. os @ [(c, fires rd script os c)]) [] cs"

definition call_ok :: "readers \<Rightarrow> external_script option \<Rightarrow> proxied \<times> nat option \<Rightarrow> bool" where
  "call_ok rd script = (\<lambda>((_, _, q), j).
     case j of
       None \<Rightarrow> (case script of None \<Rightarrow> True | Some x \<Rightarrow> \<not> ex_strict x)
     | Some i \<Rightarrow> pred_option (\<lambda>x. evaluateStubExpect (rd_json rd) x (received_call rd q) = None)
                   (fr_expect (faults_of script ! i)))"

definition proxy_step :: "readers \<Rightarrow> external_script option \<Rightarrow> service_state \<Rightarrow> proxied \<Rightarrow> service_state" where
  "proxy_step rd script s = (\<lambda>(envVar, upstream, q). snd (handleProxyRequest rd script envVar upstream q s))"

definition readable :: "readers \<Rightarrow> proxied \<Rightarrow> bool" where
  "readable rd = (\<lambda>(_, _, q). taken rd q)"

definition arrived :: "proxied \<Rightarrow> bool" where
  "arrived = (\<lambda>(_, _, q). \<not> iq_gone q)"

lemma firings_snoc: "firings rd script (cs @ [c]) = firings rd script cs @ [(c, fires rd script (firings rd script cs) c)]"
  by (simp add: firings_def)

definition service_kept :: "readers \<Rightarrow> external_script option \<Rightarrow> proxied list \<Rightarrow> service_state \<Rightarrow> bool" where
  "service_kept rd script cs s \<longleftrightarrow>
     (let os = firings rd script (filter (readable rd) cs)
      in sv_count s = length (filter arrived cs) \<and>
         (\<forall>i. i \<in> set (sv_consumed s) \<longleftrightarrow> used_up script os i) \<and>
         (sv_violations s = [] \<longleftrightarrow> list_all (call_ok rd script) os))"

lemma record_call_fields [simp]:
  "sv_count (record_call c s) = sv_count s" "sv_consumed (record_call c s) = sv_consumed s"
  "sv_violations (record_call c s) = sv_violations s"
  by (simp_all add: record_call_def)

lemma note_finding_fields [simp]:
  "sv_count (note_finding f s) = sv_count s" "sv_consumed (note_finding f s) = sv_consumed s"
  "sv_violations (note_finding f s) = [] \<longleftrightarrow> sv_violations s = [] \<and> f = None"
  by (auto simp: note_finding_def MAX_RECORDED_CALLS_def split: option.split)

lemma used_up_snoc: "used_up script (os @ [(c, j)]) i \<longleftrightarrow> used_up script os i \<or> fr_once (faults_of script ! i) \<and> j = Some i"
  by (auto simp: used_up_def)

lemma selects_fired:
  assumes "\<And>i. i \<in> set used \<longleftrightarrow> used_up script os i" and "rd_url rd (iq_url q) = Some (pathname, query)"
  shows "fst (selectFault script used (map js_upper (iq_method q)) pathname envVar) = fires rd script os (envVar, upstream, q)"
    "i \<in> set (snd (selectFault script used (map js_upper (iq_method q)) pathname envVar))
      \<longleftrightarrow> used_up script (os @ [((envVar, upstream, q), fires rd script os (envVar, upstream, q))]) i"
  using assms by (auto simp: selectFault_def fires_def used_up_snoc split: option.split)

lemma finding_call_ok:
  assumes "fst (selectFault script used verb pathname envVar) = j"
  shows "(if map_option ((!) (faults_of script)) j = None \<and> (case script of None \<Rightarrow> False | Some x \<Rightarrow> ex_strict x)
      then Some UnscriptedTraffic
      else map_option CallMissedRule (rule_miss rd (map_option ((!) (faults_of script)) j) (received_call rd q))) = None
    \<longleftrightarrow> call_ok rd script ((envVar, upstream, q), j)"
  by (auto simp: call_ok_def rule_miss_def split: option.splits)

lemma service_step_kept:
  assumes "service_kept rd script cs s"
  shows "service_kept rd script (cs @ [c]) (proxy_step rd script s c)"
proof -
  obtain envVar upstream q where c: "c = (envVar, upstream, q)" by (cases c)
  consider "iq_gone q" | "\<not> iq_gone q" "rd_url rd (iq_url q) = None"
    | pathname query where "\<not> iq_gone q" "rd_url rd (iq_url q) = Some (pathname, query)"
    by fastforce
  then show ?thesis
  proof cases
    case 3
    let ?os = "firings rd script (filter (readable rd) cs)"
    let ?pick = "selectFault script (sv_consumed s) (map js_upper (iq_method q)) pathname envVar"
    have used: "\<And>i. i \<in> set (sv_consumed s) \<longleftrightarrow> used_up script ?os i"
      using assms by (simp add: service_kept_def Let_def)
    note pick = selects_fired(1) [OF used 3(2), of envVar upstream]
    note uses = selects_fired(2) [OF used 3(2), where envVar = envVar and upstream = upstream]
    have "readable rd c" by (simp add: c readable_def taken_def 3)
    then have "firings rd script (filter (readable rd) (cs @ [c])) = ?os @ [(c, fst ?pick)]"
      by (simp add: firings_snoc pick c)
    moreover have "sv_violations (proxy_step rd script s c) = []
        \<longleftrightarrow> sv_violations s = [] \<and> call_ok rd script (c, fst ?pick)"
      unfolding c finding_call_ok [OF refl, symmetric]
      by (simp add: proxy_step_def handleProxyRequest_def 3 Let_def case_prod_beta)
    moreover have "sv_consumed (proxy_step rd script s c) = snd ?pick"
        "sv_count (proxy_step rd script s c) = Suc (sv_count s)"
      by (simp_all add: c proxy_step_def handleProxyRequest_def 3 Let_def case_prod_beta)
    ultimately show ?thesis
      using assms uses by (simp add: service_kept_def Let_def pick c [symmetric] arrived_def 3(1)) (simp add: c 3(1))
  qed (use assms in \<open>simp_all add: service_kept_def proxy_step_def handleProxyRequest_def c readable_def taken_def
      arrived_def Let_def\<close>)
qed

lemma service_settlement:
  "settle_service script (foldl (proxy_step rd script) fresh_service cs) = None
     \<longleftrightarrow> list_all (call_ok rd script) (firings rd script (filter (readable rd) cs))
       \<and> pred_option (\<lambda>n. n = length (filter arrived cs)) (Option.bind script ex_calls)"
proof -
  have "service_kept rd script cs (foldl (proxy_step rd script) fresh_service cs)"
    by (induction cs rule: rev_induct)
      (simp_all add: service_step_kept, simp add: service_kept_def fresh_service_def firings_def used_up_def)
  then show ?thesis
    by (auto simp: service_kept_def settle_service_def Let_def split: list.split option.split)
qed

text \<open>The settlement of a proxied service is exact: it finds nothing if and only if every call it could read
  fired a rule of the script (or the script forwards the rest) and met what that rule asserts, and as
  many calls arrived as the script asks for, whatever was forwarded, refused or answered by a rule. A call
  fires the first rule that applies and is not a one-time rule that fired before.\<close>

theorem service_settlement_is_exact:
  "settle_service script (foldl (proxy_step rd script) fresh_service cs) = None
     \<longleftrightarrow> list_all (call_ok rd script) (firings rd script (filter (readable rd) cs))
       \<and> pred_option (\<lambda>n. n = length (filter arrived cs)) (Option.bind script ex_calls)"
  by (rule service_settlement)

text \<open>What reaches the real service: a call is forwarded exactly when it could be read and its reply was
  awaited, and either a rule fired that neither refuses nor answers it, or none fired and the script is
  not strict. A strict script whose rules all answer or refuse lets nothing through.\<close>

theorem forwarded_exactly:
  "(\<exists>p. fst (handleProxyRequest rd script envVar upstream q s) = PForwarded p)
     \<longleftrightarrow> taken rd q \<and> iq_ready q \<and> rd_url rd upstream \<noteq> None
       \<and> (case fst (selectFault script (sv_consumed s) (map js_upper (iq_method q))
                   (fst (the (rd_url rd (iq_url q)))) envVar) of
            None \<Rightarrow> (case script of None \<Rightarrow> True | Some x \<Rightarrow> \<not> ex_strict x)
          | Some i \<Rightarrow> \<not> fr_refuse (faults_of script ! i) \<and> fr_respond (faults_of script ! i) = None)"
proof (cases "taken rd q")
  case True
  then obtain pathname query where url: "\<not> iq_gone q" "rd_url rd (iq_url q) = Some (pathname, query)"
    by (auto simp: taken_def)
  have fwd: "(\<exists>p. forward rd upstream (iq_url q) = PForwarded p) \<longleftrightarrow> rd_url rd upstream \<noteq> None"
    by (auto simp: forward_def forward_path_def split: option.split)
  obtain j used where pick: "selectFault script (sv_consumed s) (map js_upper (iq_method q)) pathname envVar = (j, used)"
    by fastforce
  show ?thesis
    using True fwd
    by (cases j) (auto simp: handleProxyRequest_def url pick answer_call_def Let_def split: option.splits)
next
  case False
  then show ?thesis
    by (cases "rd_url rd (iq_url q)") (auto simp: handleProxyRequest_def taken_def Let_def)
qed

subsection \<open>A stub judges the head of a long body\<close>

text \<open>A body that comes in several chunks is read until it has 4800 characters, and judged on what was read;
  the proxy of a real service judges the whole body.\<close>

lemma stub_judges_the_head:
  "body_lacks (read_body [replicate 4800 CHR ''a'', ''card'']) ''card'' = Some (BodyLacks ''card'')
   \<and> body_lacks (concat [replicate 4800 CHR ''a'', ''card'']) ''card'' = None"
proof -
  have "read_body [replicate 4800 CHR ''a'', ''card''] = replicate 4800 CHR ''a''"
    by (simp add: read_body_def STUB_EXCERPT_LIMIT_def)
  moreover have "\<not> js_includes ''card'' (replicate n CHR ''a'')" for n
    by (auto simp: js_includes_iff dest!: set_mono_sublist)
  moreover have "js_includes ''card'' (replicate 4800 CHR ''a'' @ ''card'')"
    by (auto simp: js_includes_iff sublist_appendI)
  ultimately show ?thesis by (simp add: body_lacks_def)
qed

end
