(* ===== verification/Dependencies.thy ===== *)
theory Dependencies
  imports CaptureRules Expectations
begin

text \<open>
  The dependency catalog: the declarations of \<open>packages/shared/src/guard/dependencies.ts\<close>, and their join
  with the instances of one machine, the gate on a scenario and the copy into its sandbox of
  \<open>packages/guard-runner/src/dependencies.ts\<close>.

  The two files are what their schemas have read; which paths exist, what lies at them and what a link
  leads to are inputs. A path is POSIX text; the paths the program resolves are absolute, so a resolved
  path is the list of its segments. A reason or a sentence the program words itself is a constructor,
  with what goes into it. A variable named \<open>__proto__\<close> and a dependency named \<open>constructor\<close>, the one
  name of its alphabet that every object inherits, are not given their special meaning.
\<close>

subsection \<open>The declarations\<close>

datatype dependency_class = StepCreatable | Seedable | SuppliedByUser

datatype dependency_predicate =
    ConfigValue string string
  | LanguagePresent string
  | CommandPath string

record dependency_condition =
  cd_predicates :: "dependency_predicate list"
  cd_sentence :: string

record env_var =
  ev_name :: string
  ev_description :: string
  ev_secret :: bool
  ev_optional :: "bool option"

datatype registration =
    RegEnv "env_var list"
  | RegPath string
  | RegConfigDir string string

record dependency_need =
  nd_flowId :: string
  nd_need :: string

record dependency_entry =
  en_name :: string
  en_class :: dependency_class
  en_summary :: string
  en_condition :: "dependency_condition option"
  en_registration :: "registration option"
  en_needs :: "dependency_need list"
  en_services :: "string list option"
  en_obtain :: "string option"

text \<open>\<open>value.split(/[\\/]/)\<close>.\<close>

fun slash_split :: "string \<Rightarrow> string list" where
  "slash_split [] = [[]]"
| "slash_split (c # cs) =
     (if c = CHR ''/'' \<or> c = CHR 0x5C then [] # slash_split cs
      else (case slash_split cs of [] \<Rightarrow> [[c]] | s # ss \<Rightarrow> (c # s) # ss))"

definition slash :: "char \<Rightarrow> bool" where
  "slash c \<longleftrightarrow> c = CHR ''/'' \<or> c = CHR 0x5C"

definition letter :: "char \<Rightarrow> bool" where
  "letter c \<longleftrightarrow> (let n = of_char c :: nat in (65 \<le> n \<and> n \<le> 90) \<or> (97 \<le> n \<and> n \<le> 122))"

definition rooted :: "string \<Rightarrow> bool" where
  "rooted v =
     (case v of
        [] \<Rightarrow> False
      | c # cs \<Rightarrow> slash c \<or> (letter c \<and> (case cs of x # y # _ \<Rightarrow> x = CHR '':'' \<and> slash y | _ \<Rightarrow> False)))"

definition isHomeRelativePath :: "string \<Rightarrow> bool" where
  "isHomeRelativePath v \<longleftrightarrow> \<not> rooted v \<and> list_all (\<lambda>seg. seg \<noteq> ''..'') (slash_split v)"

text \<open>\<open>foldLegacyService\<close>.\<close>

definition foldLegacyService :: "json \<Rightarrow> json" where
  "foldLegacyService v =
     (case v of
        JObj entry \<Rightarrow>
          (case map_of entry ''service'' of
             Some (JStr service) \<Rightarrow>
               (let rest = filter (\<lambda>(k, _). k \<noteq> ''service'') entry
                in JObj (if map_of rest ''services'' = None then rest @ [(''services'', JArr [JStr service])] else rest))
           | _ \<Rightarrow> v)
      | _ \<Rightarrow> v)"

text \<open>The issues of \<open>superRefine\<close>: on an entry, and on the names of the file.\<close>

datatype catalog_issue =
    NoRegistration
  | ObtainOnSupplied
  | RegistrationOn dependency_class
  | NeedsOn dependency_class
  | DuplicateName nat string

definition entry_issues :: "dependency_entry \<Rightarrow> catalog_issue list" where
  "entry_issues e =
     (if en_class e = SuppliedByUser then
        (if en_registration e = None then [NoRegistration] else [])
        @ (if en_obtain e \<noteq> None then [ObtainOnSupplied] else [])
      else
        (if en_registration e \<noteq> None then [RegistrationOn (en_class e)] else [])
        @ (if en_needs e \<noteq> [] then [NeedsOn (en_class e)] else []))"

definition catalog_issues :: "dependency_entry list \<Rightarrow> catalog_issue list" where
  "catalog_issues es =
     concat (map (\<lambda>i. if en_name (es ! i) \<in> set (map en_name (take i es)) then [DuplicateName i (en_name (es ! i))] else [])
       [0..<length es])"

text \<open>The schema's refinements, and that a \<open>config-dir\<close> destination stays inside the home.\<close>

definition registration_ok :: "registration \<Rightarrow> bool" where
  "registration_ok r =
     (case r of RegEnv vs \<Rightarrow> vs \<noteq> [] | RegPath d \<Rightarrow> d \<noteq> [] | RegConfigDir h d \<Rightarrow> h \<noteq> [] \<and> d \<noteq> [] \<and> isHomeRelativePath h)"

definition catalog_ok :: "dependency_entry list \<Rightarrow> bool" where
  "catalog_ok es \<longleftrightarrow> catalog_issues es = []
     \<and> list_all (\<lambda>e. entry_issues e = [] \<and> pred_option registration_ok (en_registration e)) es"

subsection \<open>Header names\<close>

definition header_char :: "char \<Rightarrow> bool" where
  "header_char c \<longleftrightarrow> digit c \<or> letter c \<or> c \<in> set ''!#$%&'' \<or> c = CHR 0x27 \<or> c \<in> set ''*+.^_`|~-''"

definition header_name_ok :: "string \<Rightarrow> bool" where
  "header_name_ok name \<longleftrightarrow> name \<noteq> [] \<and> list_all header_char name"

definition SECRET_HEADER_WORDS :: "string list" where
  "SECRET_HEADER_WORDS =
     [''auth'', ''token'', ''secret'', ''key'', ''password'', ''passwd'', ''cookie'', ''credential'', ''signature'', ''session'']"

definition isSecretHeaderName :: "string \<Rightarrow> bool" where
  "isSecretHeaderName name \<longleftrightarrow> list_ex (\<lambda>w. js_includes w (map js_lower name)) SECRET_HEADER_WORDS"

subsection \<open>The rolled-up requirement\<close>

definition rollUpRequirement :: "dependency_entry \<Rightarrow> string list \<Rightarrow> dependency_need list \<times> string" where
  "rollUpRequirement e dismissed =
     (let needs = filter (\<lambda>n. nd_flowId n \<notin> set dismissed) (en_needs e)
      in (needs, if needs = [] then en_summary e else js_join ''; '' (map nd_need needs)))"

subsection \<open>The supplied token\<close>

definition name_head :: "char \<Rightarrow> bool" where
  "name_head c \<longleftrightarrow> (let n = of_char c :: nat in (97 \<le> n \<and> n \<le> 122) \<or> digit c)"

definition name_tail :: "char \<Rightarrow> bool" where
  "name_tail c \<longleftrightarrow> name_head c \<or> c = CHR ''-''"

definition field_char :: "char \<Rightarrow> bool" where
  "field_char c \<longleftrightarrow> letter c \<or> digit c \<or> c \<in> set ''_.-''"

text \<open>\<open>SUPPLIED_TOKEN\<close> at the start of a text: the name ends at the first dot and the field at the first
  closing brace, so the match is the only one.\<close>

definition supplied_at :: "string \<Rightarrow> ((string \<times> string) \<times> nat) option" where
  "supplied_at s =
     (if \<not> starts_with ''${supplied:'' s then None
      else
        let rest = drop 11 s;
            name = takeWhile name_tail rest;
            field = takeWhile field_char (drop (Suc (length name)) rest)
        in if name \<noteq> [] \<and> name_head (hd name) \<and> starts_with ''.'' (drop (length name) rest)
              \<and> field \<noteq> [] \<and> starts_with ''}'' (drop (Suc (length name + length field)) rest)
           then Some ((name, field), 12 + length name + length field)
           else None)"

definition suppliedTokenRefs :: "string \<Rightarrow> (string \<times> string) list" where
  "suppliedTokenRefs v = js_set (tokens supplied_at v)"

definition suppliedNamesIn :: "json \<Rightarrow> string list" where
  "suppliedNamesIn v = sort (js_set (concat (map (map fst \<circ> suppliedTokenRefs) (strings_in v))))"

subsection \<open>An entry joined with its instance\<close>

record overlay =
  ov_path :: "string option"
  ov_env :: "(string \<times> string) list option"
  ov_token :: "string option"
  ov_headers :: "(string \<times> string) list option"

datatype dependency_state = Provided | Incomplete | Unprovided

datatype missing_reason =
    NoValueFor string
  | NoPath
  | PathAbsent "string list"
  | ManyOwners string
  | ServiceRequires string string string

record requirement =
  dq_field :: string
  dq_resolved :: bool
  dq_reason :: "missing_reason option"
  dq_secret :: bool
  dq_optional :: "bool option"

datatype stale_instance = StalePath "string list" | StaleVariables

record resolved_dependency =
  rv_name :: string
  rv_entry :: dependency_entry
  rv_state :: "dependency_state option"
  rv_requirements :: "requirement list"
  rv_requirement :: string
  rv_needs :: "dependency_need list"
  rv_hostPath :: "string list option"
  rv_env :: "(string \<times> string) list"
  rv_stale :: "stale_instance option"

text \<open>A name every object inherits is found on a record of values too; what is found there is a function of
  the platform, written out as text wherever it is used.\<close>

definition inherited_text :: "string \<Rightarrow> string" where
  "inherited_text name =
     (if name = ''__proto__'' then ''[object Object]''
      else ''function '' @ (if name = ''constructor'' then ''Object'' else name) @ ''() { [native code] }'')"

definition value_get :: "(string \<times> string) list \<Rightarrow> string \<Rightarrow> string option" where
  "value_get kvs key =
     (case map_of kvs key of
        Some v \<Rightarrow> Some v
      | None \<Rightarrow> if key = ''__proto__'' \<or> key \<in> set inherited_names then Some (inherited_text key) else None)"

text \<open>\<open>path.resolve\<close> against an absolute directory, and \<open>path.isAbsolute\<close>.\<close>

fun walk :: "string list \<Rightarrow> string list \<Rightarrow> string list" where
  "walk dir [] = dir"
| "walk dir (seg # segs) =
     walk (if seg = [] \<or> seg = ''.'' then dir else if seg = ''..'' then butlast dir else dir @ [seg]) segs"

definition isAbsolute :: "string \<Rightarrow> bool" where
  "isAbsolute p \<longleftrightarrow> starts_with ''/'' p"

definition resolve_path :: "string list \<Rightarrow> string \<Rightarrow> string list" where
  "resolve_path dir p = walk (if isAbsolute p then [] else dir) (js_split ''/'' p)"

definition registered_value :: "overlay option \<Rightarrow> string \<Rightarrow> string option" where
  "registered_value ov key = (case Option.bind ov ov_env of None \<Rightarrow> None | Some env \<Rightarrow> value_get env key)"

definition filled_in :: "string option \<Rightarrow> bool" where
  "filled_in v \<longleftrightarrow> v \<noteq> None \<and> v \<noteq> Some []"

definition env_requirement :: "(string \<Rightarrow> string option) \<Rightarrow> env_var \<Rightarrow> requirement" where
  "env_requirement registered v =
     \<lparr>dq_field = ev_name v, dq_resolved = filled_in (registered (ev_name v)),
      dq_reason = (if filled_in (registered (ev_name v)) \<or> ev_optional v = Some True then None
                   else Some (NoValueFor (ev_name v))),
      dq_secret = ev_secret v, dq_optional = (if ev_optional v = Some True then Some True else None)\<rparr>"

definition add_value :: "(string \<Rightarrow> string option) \<Rightarrow> (string \<times> string) list \<Rightarrow> env_var \<Rightarrow> (string \<times> string) list" where
  "add_value registered env v =
     (if filled_in (registered (ev_name v)) then AList.update (ev_name v) (the (registered (ev_name v))) env else env)"

definition path_requirement :: "bool \<Rightarrow> missing_reason option \<Rightarrow> requirement" where
  "path_requirement ok reason =
     \<lparr>dq_field = ''path'', dq_resolved = ok, dq_reason = reason, dq_secret = False, dq_optional = None\<rparr>"

definition resolve_registered_path ::
    "(string list \<Rightarrow> bool) \<Rightarrow> string list \<Rightarrow> string option \<Rightarrow> requirement \<times> string list option" where
  "resolve_registered_path exists repoRoot raw =
     (case raw of
        None \<Rightarrow> (path_requirement False (Some NoPath), None)
      | Some p \<Rightarrow>
          if p = [] then (path_requirement False (Some NoPath), None)
          else
            let abs = resolve_path repoRoot p
            in if exists abs then (path_requirement True None, Some abs)
               else (path_requirement False (Some (PathAbsent abs)), None))"

definition staleInstanceNote :: "dependency_entry \<Rightarrow> overlay option \<Rightarrow> stale_instance option" where
  "staleInstanceNote e ov =
     (case (ov, en_registration e) of
        (Some o', Some reg) \<Rightarrow>
          (case reg of
             RegEnv vars \<Rightarrow> if ov_path o' = None then None else Some (StalePath (map ev_name vars))
           | _ \<Rightarrow>
               if pred_option (\<lambda>s. s = []) (en_services e) then
                 (if pred_option (\<lambda>env. env = []) (ov_env o') then None else Some StaleVariables)
               else None)
      | _ \<Rightarrow> None)"

definition state_of :: "requirement list \<Rightarrow> dependency_state" where
  "state_of rs =
     (let voting = filter (\<lambda>r. dq_optional r \<noteq> Some True) rs; satisfied = length (filter dq_resolved voting)
      in if satisfied = length voting then Provided else if satisfied = 0 then Unprovided else Incomplete)"

definition resolveDependency ::
    "(string list \<Rightarrow> bool) \<Rightarrow> dependency_entry \<Rightarrow> overlay option \<Rightarrow> string list \<Rightarrow> string list \<Rightarrow> resolved_dependency" where
  "resolveDependency exists e ov repoRoot dismissed =
     (let (needs, sentence) = rollUpRequirement e dismissed;
          common = \<lparr>rv_name = en_name e, rv_entry = e, rv_state = None, rv_requirements = [], rv_requirement = sentence,
            rv_needs = needs, rv_hostPath = None, rv_env = [], rv_stale = None\<rparr>
      in case (en_class e, en_registration e) of
           (SuppliedByUser, Some reg) \<Rightarrow>
             (let (requirements, env, hostPath) =
                (case reg of
                   RegEnv vars \<Rightarrow>
                     (map (env_requirement (registered_value ov)) vars, foldl (add_value (registered_value ov)) [] vars, None)
                 | _ \<Rightarrow>
                     (let (r, host) = resolve_registered_path exists repoRoot (Option.bind ov ov_path)
                      in ([r], [], host)))
              in common\<lparr>rv_state := Some (state_of requirements), rv_requirements := requirements, rv_env := env,
                   rv_hostPath := hostPath, rv_stale := staleInstanceNote e ov\<rparr>)
         | _ \<Rightarrow> common)"

record resolved_dependencies =
  rs_dependencies :: "resolved_dependency list"
  rs_unknownLocalNames :: "string list"
  rs_catalogExists :: bool

text \<open>What reading a file ends in: it is absent, it is broken (a \<open>DependencyCatalogError\<close>), or its content.\<close>

datatype 'a file_read = FileAbsent | FileBroken string | FileHolds 'a

definition loaded :: "'a \<Rightarrow> 'a file_read \<Rightarrow> string + 'a" where
  "loaded none_yet f = (case f of FileAbsent \<Rightarrow> Inr none_yet | FileBroken e \<Rightarrow> Inl e | FileHolds x \<Rightarrow> Inr x)"

type_synonym catalog = "dependency_entry list"
type_synonym overlays = "(string \<times> overlay) list"

definition joined ::
    "(string list \<Rightarrow> bool) \<Rightarrow> catalog \<Rightarrow> overlays \<Rightarrow> bool \<Rightarrow> string list \<Rightarrow> string list \<Rightarrow> resolved_dependencies" where
  "joined exists catalog local catalogExists repoRoot dismissed =
     \<lparr>rs_dependencies = map (\<lambda>e. resolveDependency exists e (map_of local (en_name e)) repoRoot dismissed) catalog,
      rs_unknownLocalNames = sort (filter (\<lambda>n. n \<notin> set (map en_name catalog)) (map fst local)),
      rs_catalogExists = catalogExists\<rparr>"

definition resolveDependencies ::
    "(string list \<Rightarrow> bool) \<Rightarrow> catalog file_read \<Rightarrow> overlays file_read \<Rightarrow> string list \<Rightarrow> string list
      \<Rightarrow> string + resolved_dependencies" where
  "resolveDependencies exists catalogFile localFile repoRoot dismissed =
     (case loaded [] catalogFile of Inl e \<Rightarrow> Inl e | Inr catalog \<Rightarrow>
      (case loaded [] localFile of Inl e \<Rightarrow> Inl e | Inr local \<Rightarrow>
        Inr (joined exists catalog local (catalogFile \<noteq> FileAbsent) repoRoot dismissed)))"

text \<open>\<open>externalServiceStates\<close>: the map's content, the catalog over the recipe.\<close>

definition recipe_states :: "string list \<Rightarrow> (string \<Rightarrow> dependency_state option) \<Rightarrow> (string \<times> dependency_state) list" where
  "recipe_states declared recipeStates =
     foldl (\<lambda>m s. case recipeStates s of None \<Rightarrow> m | Some st \<Rightarrow> AList.update s st m) [] declared"

definition catalog_states ::
    "resolved_dependency list \<Rightarrow> (string \<times> dependency_state) list \<Rightarrow> (string \<times> dependency_state) list" where
  "catalog_states deps m =
     foldl (\<lambda>m d. case rv_state d of
         None \<Rightarrow> m
       | Some st \<Rightarrow> foldl (\<lambda>m s. AList.update s st m) m (case en_services (rv_entry d) of None \<Rightarrow> [] | Some ss \<Rightarrow> ss)) m deps"

definition externalServiceStates ::
    "string list \<Rightarrow> (string \<Rightarrow> dependency_state option) \<Rightarrow> string + resolved_dependencies
      \<Rightarrow> (string \<times> dependency_state) list" where
  "externalServiceStates declared recipeStates resolved =
     (case resolved of
        Inl _ \<Rightarrow> recipe_states declared recipeStates
      | Inr r \<Rightarrow> catalog_states (rs_dependencies r) (recipe_states declared recipeStates))"

subsection \<open>What a scenario binds\<close>

datatype prerequisite_mode = ModeProvided | ModeAbsent

record prerequisite =
  pq_dependency :: string
  pq_mode :: prerequisite_mode

text \<open>A scenario as the binding reads it: its declared needs, its prerequisites, and the value it is without
  its needs.\<close>

record binding_scenario =
  bs_needs :: "string list option"
  bs_prerequisites :: "prerequisite list option"
  bs_rest :: json

definition scenarioDependencyNames :: "binding_scenario \<Rightarrow> string list" where
  "scenarioDependencyNames sc =
     js_set ((case bs_needs sc of None \<Rightarrow> [] | Some ns \<Rightarrow> ns)
       @ map pq_dependency (filter (\<lambda>p. pq_mode p = ModeProvided) (case bs_prerequisites sc of None \<Rightarrow> [] | Some ps \<Rightarrow> ps))
       @ suppliedNamesIn (bs_rest sc))"

datatype block_detail = NotDeclared | Missing "(string \<times> missing_reason option) list" "stale_instance option"

datatype register_in = CatalogFile | LocalFile

record dependency_block =
  db_dependency :: string
  db_requirement :: "string option"
  db_needs :: "dependency_need list"
  db_registerIn :: register_in
  db_detail :: block_detail

text \<open>\<open>byName.get(name)\<close>: of two entries with one name, the later.\<close>

definition named :: "resolved_dependency list \<Rightarrow> string \<Rightarrow> resolved_dependency option" where
  "named deps name = find (\<lambda>d. rv_name d = name) (rev deps)"

definition block_of :: "resolved_dependencies \<Rightarrow> string \<Rightarrow> dependency_block option" where
  "block_of resolved name =
     (case named (rs_dependencies resolved) name of
        None \<Rightarrow> Some \<lparr>db_dependency = name, db_requirement = None, db_needs = [], db_registerIn = CatalogFile,
                 db_detail = NotDeclared\<rparr>
      | Some d \<Rightarrow>
          if rv_state d = None \<or> rv_state d = Some Provided then None
          else Some \<lparr>db_dependency = rv_name d, db_requirement = Some (rv_requirement d), db_needs = rv_needs d,
                 db_registerIn = LocalFile,
                 db_detail = Missing (map (\<lambda>r. (dq_field r, dq_reason r))
                     (filter (\<lambda>r. \<not> dq_resolved r \<and> dq_optional r \<noteq> Some True) (rv_requirements d))) (rv_stale d)\<rparr>)"

fun first_block :: "resolved_dependencies \<Rightarrow> string list \<Rightarrow> dependency_block option" where
  "first_block resolved [] = None"
| "first_block resolved (name # names) =
     (case block_of resolved name of Some b \<Rightarrow> Some b | None \<Rightarrow> first_block resolved names)"

definition dependencyBlockFor :: "binding_scenario \<Rightarrow> resolved_dependencies \<Rightarrow> dependency_block option" where
  "dependencyBlockFor sc resolved = first_block resolved (scenarioDependencyNames sc)"

subsection \<open>What is copied into the sandbox\<close>

definition SUPPLIED_DIR :: string where
  "SUPPLIED_DIR = ''.tc-supplied''"

definition env_identifier :: "string \<Rightarrow> bool" where
  "env_identifier name =
     (case name of
        [] \<Rightarrow> False
      | c # cs \<Rightarrow> (letter c \<or> c = CHR ''_'') \<and> list_all (\<lambda>c. letter c \<or> digit c \<or> c = CHR ''_'') cs)"

definition registeredEnvironment :: "(string \<times> string) list \<Rightarrow> (string \<times> string) list" where
  "registeredEnvironment env = filter (\<lambda>(name, _). env_identifier name) env"

datatype supplied_instance =
    EnvInstance string "(string \<times> string) list" "string list"
  | PathInstance string "string list option"
  | ConfigInstance string "string list option" string

definition instance_of :: "resolved_dependencies \<Rightarrow> string \<Rightarrow> supplied_instance option" where
  "instance_of resolved name =
     (case named (rs_dependencies resolved) name of
        None \<Rightarrow> None
      | Some d \<Rightarrow>
          (if rv_state d \<noteq> Some Provided then None
           else case en_registration (rv_entry d) of
             None \<Rightarrow> None
           | Some (RegEnv vars) \<Rightarrow>
               Some (EnvInstance name (rv_env d)
                 (map dq_field (filter (\<lambda>r. dq_optional r = Some True \<and> \<not> dq_resolved r) (rv_requirements d))))
           | Some (RegPath _) \<Rightarrow> Some (PathInstance name (rv_hostPath d))
           | Some (RegConfigDir homePath _) \<Rightarrow> Some (ConfigInstance name (rv_hostPath d) homePath)))"

definition suppliedInstancesFor :: "binding_scenario \<Rightarrow> resolved_dependencies \<Rightarrow> supplied_instance list" where
  "suppliedInstancesFor sc resolved = List.map_filter (instance_of resolved) (scenarioDependencyNames sc)"

text \<open>A tree of files. The host answers what lies at a path, and what a link leads to once every link on the
  way is followed: nothing, a tree, or an error on the way.\<close>

datatype file_tree = File string | Dir "(string \<times> file_tree) list" | Symlink string

datatype followed = Dangling | Reads file_tree | Breaks string

record host =
  ho_lstat :: "string list \<Rightarrow> file_tree option"
  ho_follow :: "string list \<Rightarrow> followed"

text \<open>\<open>resolved === root || resolved.startsWith(root + path.sep)\<close>; a root that is the whole file system ends
  in a separator already.\<close>

definition lies_in :: "string list \<Rightarrow> string list \<Rightarrow> bool" where
  "lies_in dir p \<longleftrightarrow> p = dir \<or> (dir \<noteq> [] \<and> prefix dir p)"

fun copySelfContained :: "host \<Rightarrow> string list \<Rightarrow> string list \<Rightarrow> file_tree \<Rightarrow> string + file_tree option" where
  "copySelfContained h base src (Dir entries) =
     map_sum id (\<lambda>rs. Some (Dir (List.map_filter (\<lambda>(name, t). map_option (Pair name) t) rs)))
       (all_right (map (\<lambda>(name, t). map_sum id (Pair name) (copySelfContained h base (src @ [name]) t)) entries))"
| "copySelfContained h base src (Symlink target) =
     (let resolved = resolve_path (butlast src) target
      in if \<not> isAbsolute target \<and> lies_in base resolved then Inr (Some (Symlink target))
         else case ho_follow h resolved of
                Dangling \<Rightarrow> Inr None
              | Reads t \<Rightarrow> Inr (Some t)
              | Breaks e \<Rightarrow> Inl e)"
| "copySelfContained h base src (File content) = Inr (Some (File content))"

datatype materialize_error = HomeEscape string string | CopyFailed string | NoHostPath string

record sandbox =
  sx_cwd :: "string list"
  sx_home :: "string list"

record supplied =
  su_values :: "(string \<times> (string \<times> string) list) list"
  su_env :: "(string \<times> string) list"
  su_omissions :: "(string \<times> string) list"
  su_copies :: "(string list \<times> file_tree option) list"

definition nothing_supplied :: supplied where
  "nothing_supplied = \<lparr>su_values = [], su_env = [], su_omissions = [], su_copies = []\<rparr>"

definition resolveInHome :: "string list \<Rightarrow> string \<Rightarrow> string \<Rightarrow> materialize_error + string list" where
  "resolveInHome home homePath name =
     (let dest = resolve_path home homePath
      in if lies_in home dest then Inr dest else Inl (HomeEscape name homePath))"

definition path_text :: "string list \<Rightarrow> string" where
  "path_text p = ''/'' @ js_join ''/'' p"

definition copy_in ::
    "host \<Rightarrow> supplied \<Rightarrow> string \<Rightarrow> string list option \<Rightarrow> string list \<Rightarrow> materialize_error + supplied" where
  "copy_in h s name hostPath dest =
     (case hostPath of
        None \<Rightarrow> Inl (NoHostPath name)
      | Some src \<Rightarrow>
          (case ho_lstat h src of
             None \<Rightarrow> Inl (CopyFailed ''ENOENT'')
           | Some t \<Rightarrow>
               (case copySelfContained h src src t of
                  Inl e \<Rightarrow> Inl (CopyFailed e)
                | Inr c \<Rightarrow> Inr (s\<lparr>su_values := AList.update name [(''path'', path_text dest)] (su_values s),
                            su_copies := su_copies s @ [(dest, c)]\<rparr>))))"

definition materialize_one :: "host \<Rightarrow> sandbox \<Rightarrow> supplied \<Rightarrow> supplied_instance \<Rightarrow> materialize_error + supplied" where
  "materialize_one h sx s i =
     (case i of
        EnvInstance name env unset \<Rightarrow>
          Inr (s\<lparr>su_values := AList.update name env (su_values s),
            su_omissions := su_omissions s @ map (Pair name) unset,
            su_env := AList.updates (map fst (registeredEnvironment env)) (map snd (registeredEnvironment env)) (su_env s)\<rparr>)
      | PathInstance name hostPath \<Rightarrow> copy_in h s name hostPath (sx_cwd sx @ [SUPPLIED_DIR, name])
      | ConfigInstance name hostPath homePath \<Rightarrow>
          (case resolveInHome (sx_home sx) homePath name of
             Inl e \<Rightarrow> Inl e
           | Inr dest \<Rightarrow> copy_in h s name hostPath dest))"

fun materialize_all :: "host \<Rightarrow> sandbox \<Rightarrow> supplied \<Rightarrow> supplied_instance list \<Rightarrow> materialize_error + supplied" where
  "materialize_all h sx s [] = Inr s"
| "materialize_all h sx s (i # is) =
     (case materialize_one h sx s i of Inl e \<Rightarrow> Inl e | Inr s' \<Rightarrow> materialize_all h sx s' is)"

definition materializeSupplied :: "host \<Rightarrow> sandbox \<Rightarrow> supplied_instance list \<Rightarrow> materialize_error + supplied" where
  "materializeSupplied h sx is = materialize_all h sx nothing_supplied is"

subsection \<open>Resolving the token\<close>

definition field_value :: "(string \<times> (string \<times> string) list) list \<Rightarrow> string \<times> string \<Rightarrow> string option" where
  "field_value vals r = Option.bind (map_of vals (fst r)) (\<lambda>fields. value_get fields (snd r))"

definition supplied_token :: "string \<times> string \<Rightarrow> string" where
  "supplied_token r = ''${supplied:'' @ fst r @ ''.'' @ snd r @ ''}''"

fun apply_supplied_refs ::
    "(string \<times> (string \<times> string) list) list \<Rightarrow> (string \<times> string) list \<Rightarrow> string \<Rightarrow> (string \<times> string) + string" where
  "apply_supplied_refs vals [] out = Inr out"
| "apply_supplied_refs vals (r # refs) out =
     (case field_value vals r of
        None \<Rightarrow> Inl r
      | Some v \<Rightarrow> apply_supplied_refs vals refs (replace_all (supplied_token r) v out))"

definition applySupplied :: "(string \<times> (string \<times> string) list) list \<Rightarrow> string \<Rightarrow> (string \<times> string) + string" where
  "applySupplied vals str =
     (if \<not> js_includes ''${supplied:'' str then Inr str else apply_supplied_refs vals (suppliedTokenRefs str) str)"

definition applySuppliedEnv ::
    "(string \<times> (string \<times> string) list) list \<Rightarrow> (string \<times> string) list \<Rightarrow> (string \<times> string) + (string \<times> string) list" where
  "applySuppliedEnv vals env = map_values (applySupplied vals) env"

definition omitsOptionalPair :: "string \<Rightarrow> (string \<times> string) list \<Rightarrow> bool" where
  "omitsOptionalPair v omissions \<longleftrightarrow> list_ex (\<lambda>r. r \<in> set omissions) (suppliedTokenRefs v)"

definition applySuppliedExpect ::
    "(string \<times> (string \<times> string) list) list \<Rightarrow> guard_expect \<Rightarrow> (string \<times> string) + guard_expect" where
  "applySuppliedExpect vals x = mapExpectStrings (applySupplied vals) x"

subsection \<open>The gate\<close>

lemma first_block_None: "first_block r ns = None \<longleftrightarrow> list_all (\<lambda>n. block_of r n = None) ns"
  by (induction ns) (simp_all split: option.split)

lemma first_block_Some:
  "first_block r ns = Some b \<longleftrightarrow>
     (\<exists>us n vs. ns = us @ n # vs \<and> list_all (\<lambda>n. block_of r n = None) us \<and> block_of r n = Some b)"
proof (induction ns)
  case (Cons m ns)
  show ?case
  proof (cases "block_of r m")
    case None
    have "(\<exists>us n vs. m # ns = us @ n # vs \<and> list_all (\<lambda>n. block_of r n = None) us \<and> block_of r n = Some b)
        \<longleftrightarrow> (\<exists>us n vs. ns = us @ n # vs \<and> list_all (\<lambda>n. block_of r n = None) us \<and> block_of r n = Some b)"
      (is "?L \<longleftrightarrow> ?R")
    proof
      assume ?L
      then obtain us n vs where "m # ns = us @ n # vs" "list_all (\<lambda>n. block_of r n = None) us" "block_of r n = Some b"
        by blast
      with None show ?R by (cases us) auto
    next
      assume ?R
      then obtain us n vs where "ns = us @ n # vs" "list_all (\<lambda>n. block_of r n = None) us" "block_of r n = Some b"
        by blast
      with None show ?L by (intro exI [of _ "m # us"] exI [of _ n] exI [of _ vs]) simp
    qed
    with Cons None show ?thesis by simp
  next
    case (Some c)
    show ?thesis
    proof
      assume "first_block r (m # ns) = Some b"
      with Some show "\<exists>us n vs. m # ns = us @ n # vs \<and> list_all (\<lambda>n. block_of r n = None) us \<and> block_of r n = Some b"
        by (intro exI [of _ "[]"] exI [of _ m] exI [of _ ns]) simp
    next
      assume "\<exists>us n vs. m # ns = us @ n # vs \<and> list_all (\<lambda>n. block_of r n = None) us \<and> block_of r n = Some b"
      then obtain us n vs where "m # ns = us @ n # vs" "list_all (\<lambda>n. block_of r n = None) us" "block_of r n = Some b"
        by blast
      with Some show "first_block r (m # ns) = Some b" by (cases us) auto
    qed
  qed
qed simp

text \<open>What holds a name back: no entry has it, or the entry is the user's to supply and is not provided.\<close>

definition holds_back :: "resolved_dependencies \<Rightarrow> string \<Rightarrow> bool" where
  "holds_back r name \<longleftrightarrow>
     (case named (rs_dependencies r) name of
        None \<Rightarrow> True
      | Some d \<Rightarrow> (case rv_state d of None \<Rightarrow> False | Some st \<Rightarrow> st \<noteq> Provided))"

lemma block_of_None: "block_of r n = None \<longleftrightarrow> \<not> holds_back r n"
  by (simp add: block_of_def holds_back_def split: option.split)

lemma block_of_name: "block_of r n = Some b \<Longrightarrow> db_dependency b = n"
  by (auto simp: block_of_def named_def split: option.splits if_splits dest!: find_Some_mem)

lemma state_of_Provided: "state_of rs = Provided \<longleftrightarrow> list_all (\<lambda>r. dq_optional r = Some True \<or> dq_resolved r) rs"
proof -
  have "length (filter dq_resolved vs) = length vs \<longleftrightarrow> list_all dq_resolved vs" for vs
    by (induction vs) (use le_imp_less_Suc [OF length_filter_le [of dq_resolved]] in \<open>auto simp: less_le\<close>)
  from this [of "filter (\<lambda>r. dq_optional r \<noteq> Some True) rs"] show ?thesis
    by (auto simp: state_of_def Let_def list_all_iff simp del: filter_filter)
qed

text \<open>The gate on a scenario blocks exactly when something it binds is held back, and it names the first
  such binding: the declared needs come first, in their order, then the accounts its prerequisites want,
  then the names its tokens mention.\<close>

theorem gate_names_the_first_missing:
  "case dependencyBlockFor sc r of
     None \<Rightarrow> list_all (\<lambda>n. \<not> holds_back r n) (scenarioDependencyNames sc)
   | Some b \<Rightarrow> (\<exists>us vs. scenarioDependencyNames sc = us @ db_dependency b # vs
       \<and> holds_back r (db_dependency b) \<and> list_all (\<lambda>n. \<not> holds_back r n) us)"
proof (cases "dependencyBlockFor sc r")
  case None
  then have "list_all (\<lambda>n. \<not> holds_back r n) (scenarioDependencyNames sc)"
    by (simp add: dependencyBlockFor_def first_block_None block_of_None)
  with None show ?thesis by simp
next
  case (Some b)
  then obtain us n vs where parts: "scenarioDependencyNames sc = us @ n # vs"
    "list_all (\<lambda>n. block_of r n = None) us" "block_of r n = Some b"
    by (auto simp: dependencyBlockFor_def first_block_Some)
  then have "holds_back r n" "list_all (\<lambda>n. \<not> holds_back r n) us" "db_dependency b = n"
    using block_of_None [of r n] by (auto simp: block_of_None intro: block_of_name)
  with parts(1) Some show ?thesis by auto
qed

subsection \<open>What an unblocked scenario finds\<close>

lemma add_values:
  "map_of (foldl (add_value reg) env vars) k =
     (if k \<in> ev_name ` set vars \<and> filled_in (reg k) then reg k else map_of env k)"
  by (induction vars arbitrary: env) (auto simp: add_value_def update_conv filled_in_def)

lemma catalog_issues_snoc:
  "catalog_issues (es @ [e]) =
     catalog_issues es @ (if en_name e \<in> set (map en_name es) then [DuplicateName (length es) (en_name e)] else [])"
proof -
  have "map (\<lambda>i. if en_name ((es @ [e]) ! i) \<in> set (map en_name (take i (es @ [e])))
          then [DuplicateName i (en_name ((es @ [e]) ! i))] else []) [0..<length es]
      = map (\<lambda>i. if en_name (es ! i) \<in> set (map en_name (take i es)) then [DuplicateName i (en_name (es ! i))] else [])
          [0..<length es]"
    by (rule map_cong) (simp_all add: nth_append)
  then show ?thesis
    by (simp only: catalog_issues_def length_append_singleton upt_Suc_append map_append concat_append) simp
qed

lemma catalog_issues_distinct: "catalog_issues es = [] \<longleftrightarrow> distinct (map en_name es)"
proof (induction es rule: rev_induct)
  case Nil
  show ?case by (simp add: catalog_issues_def)
next
  case (snoc e es)
  then show ?case by (simp add: catalog_issues_snoc)
qed

fun instance_name :: "supplied_instance \<Rightarrow> string" where
  "instance_name (EnvInstance n env u) = n"
| "instance_name (PathInstance n p) = n"
| "instance_name (ConfigInstance n p h) = n"

fun serves :: "supplied_instance \<Rightarrow> (string \<times> string) list \<Rightarrow> bool" where
  "serves (EnvInstance n env u) flds \<longleftrightarrow> flds = env"
| "serves i flds \<longleftrightarrow> map fst flds = [''path'']"

lemma instance_of_name: "instance_of r n = Some i \<Longrightarrow> instance_name i = n"
  by (auto simp: instance_of_def split: option.splits registration.splits if_splits)

lemma copy_in_values:
  assumes "copy_in h s n p d = Inr s'"
  shows "\<exists>v. su_values s' = AList.update n [(''path'', v)] (su_values s)"
  using assms by (auto simp: copy_in_def split: option.splits sum.splits)

lemma materialize_one_values:
  assumes "materialize_one h sx s i = Inr s'"
  shows "\<exists>flds. su_values s' = AList.update (instance_name i) flds (su_values s) \<and> serves i flds"
  using assms
  by (cases i) (auto simp: materialize_one_def split: sum.splits dest!: copy_in_values)

lemma materialize_all_values:
  assumes "materialize_all h sx s ins = Inr s'" and "distinct (map instance_name ins)"
  shows "(\<forall>i\<in>set ins. \<exists>flds. map_of (su_values s') (instance_name i) = Some flds \<and> serves i flds)
    \<and> (\<forall>n. n \<notin> instance_name ` set ins \<longrightarrow> map_of (su_values s') n = map_of (su_values s) n)"
  using assms
proof (induction ins arbitrary: s)
  case (Cons i ins)
  from Cons.prems(1) obtain s1 where s1: "materialize_one h sx s i = Inr s1" "materialize_all h sx s1 ins = Inr s'"
    by (auto split: sum.splits)
  from materialize_one_values [OF s1(1)] obtain flds
    where one: "su_values s1 = AList.update (instance_name i) flds (su_values s)" "serves i flds"
    by blast
  have later: "distinct (map instance_name ins)" "instance_name i \<notin> instance_name ` set ins"
    using Cons.prems(2) by auto
  note IH = Cons.IH [OF s1(2) later(1)]
  have own: "map_of (su_values s') (instance_name i) = Some flds"
    using IH later(2) one(1) by (simp add: update_conv)
  have rest: "n \<notin> instance_name ` set (i # ins) \<Longrightarrow> map_of (su_values s') n = map_of (su_values s) n" for n
    using IH one(1) by (simp add: update_conv)
  show ?case
    using IH own one(2) rest by (metis set_ConsD)
qed simp

lemma named_joined:
  assumes "named (rs_dependencies (joined ex cat loc c root' dis)) n = Some d"
  shows "\<exists>e\<in>set cat. en_name e = n \<and> d = resolveDependency ex e (map_of loc n) root' dis"
proof -
  have "rv_name (resolveDependency ex e ov root' dis) = en_name e" for e ov
    by (simp add: resolveDependency_def Let_def case_prod_beta split: dependency_class.split option.split)
  moreover have "d \<in> (\<lambda>e. resolveDependency ex e (map_of loc (en_name e)) root' dis) ` set cat" "rv_name d = n"
    using find_Some_mem [OF assms [unfolded named_def]] by (auto simp: joined_def)
  ultimately show ?thesis by force
qed

lemma resolved_supplied:
  assumes "en_class e = SuppliedByUser" and "en_registration e = Some reg"
    and "d = resolveDependency ex e ov root' dis"
  shows "rv_entry d = e \<and> rv_state d \<noteq> None
    \<and> (case reg of
         RegEnv vars \<Rightarrow> rv_requirements d = map (env_requirement (registered_value ov)) vars
           \<and> rv_env d = foldl (add_value (registered_value ov)) [] vars
       | _ \<Rightarrow> True)
    \<and> rv_state d = Some (state_of (rv_requirements d))"
  using assms by (simp add: resolveDependency_def Let_def case_prod_beta split: registration.split)

text \<open>The field is one the entry's registration has in every instance: a required variable, or the path.\<close>

definition registers :: "dependency_entry \<Rightarrow> string \<Rightarrow> bool" where
  "registers e field \<longleftrightarrow> en_class e = SuppliedByUser \<and>
     (case en_registration e of
        None \<Rightarrow> False
      | Some (RegEnv vars) \<Rightarrow> list_ex (\<lambda>v. ev_name v = field \<and> ev_optional v \<noteq> Some True) vars
      | Some _ \<Rightarrow> field = ''path'')"

definition registered_ref :: "catalog \<Rightarrow> string \<times> string \<Rightarrow> bool" where
  "registered_ref catalog r \<longleftrightarrow> list_ex (\<lambda>e. en_name e = fst r \<and> registers e (snd r)) catalog"

lemma unique_entry:
  assumes "catalog_issues es = []" and "e \<in> set es" and "e' \<in> set es" and "en_name e = en_name e'"
  shows "e = e'"
  using assms by (simp add: catalog_issues_distinct distinct_map inj_on_def)

lemma required_value_present:
  assumes "state_of (map (env_requirement reg) vars) = Provided" and "v \<in> set vars" and "ev_optional v \<noteq> Some True"
  shows "map_of (foldl (add_value reg) [] vars) (ev_name v) \<noteq> None"
proof -
  have "filled_in (reg (ev_name v))"
    using assms by (auto simp: state_of_Provided list_all_iff env_requirement_def split: if_splits)
  with assms(2) show ?thesis by (auto simp: add_values filled_in_def)
qed

lemma provided_instance:
  assumes "registers e field" and "d = resolveDependency ex e ov root' dis" and "rv_state d = Some Provided"
    and "named (rs_dependencies r) n = Some d"
  shows "\<exists>i. instance_of r n = Some i \<and> (\<forall>flds. serves i flds \<longrightarrow> map_of flds field \<noteq> None)"
proof -
  obtain reg where reg: "en_class e = SuppliedByUser" "en_registration e = Some reg"
    using assms(1) by (auto simp: registers_def split: option.splits)
  note res = resolved_supplied [OF reg assms(2)]
  show ?thesis
  proof (cases reg)
    case (RegEnv vars)
    with assms(1) reg obtain v where v: "v \<in> set vars" "ev_name v = field" "ev_optional v \<noteq> Some True"
      by (auto simp: registers_def list_ex_iff)
    have "state_of (map (env_requirement (registered_value ov)) vars) = Provided"
    proof -
      have "rv_state d = Some (state_of (map (env_requirement (registered_value ov)) vars))"
        using res RegEnv by simp
      with assms(3) show ?thesis by simp
    qed
    from required_value_present [OF this v(1,3)] v(2) res RegEnv
    have "map_of (rv_env d) field \<noteq> None" by simp
    with assms(3,4) res reg RegEnv show ?thesis
      by (simp add: instance_of_def)
  next
    case (RegPath x)
    with assms reg res show ?thesis
      by (auto simp: instance_of_def registers_def Cons_eq_map_conv map_eq_Cons_conv)
  next
    case (RegConfigDir x y)
    with assms reg res show ?thesis
      by (auto simp: instance_of_def registers_def Cons_eq_map_conv map_eq_Cons_conv)
  qed
qed

lemma apply_supplied_refs_error:
  "apply_supplied_refs vals refs out = Inl x \<longleftrightarrow> find (\<lambda>r. field_value vals r = None) refs = Some x"
  by (induction refs arbitrary: out) (auto split: option.split)

lemma applySupplied_ok:
  assumes "\<And>x. x \<in> set (suppliedTokenRefs str) \<Longrightarrow> field_value vals x \<noteq> None"
  shows "\<exists>out. applySupplied vals str = Inr out"
proof (cases "applySupplied vals str")
  case (Inl x)
  then have "find (\<lambda>r. field_value vals r = None) (suppliedTokenRefs str) = Some x"
    by (simp add: applySupplied_def apply_supplied_refs_error split: if_splits)
  from find_Some_mem [OF this] assms show ?thesis by blast
qed simp

lemma instances_distinct: "distinct (map instance_name (suppliedInstancesFor sc r))"
proof -
  have "map instance_name (List.map_filter (instance_of r) ns) = filter (\<lambda>n. instance_of r n \<noteq> None) ns" for ns
    by (induction ns) (auto simp: map_filter_simps instance_of_name split: option.split)
  then show ?thesis
    by (simp add: suppliedInstancesFor_def scenarioDependencyNames_def)
qed

lemma token_name_bound:
  assumes "str \<in> set (strings_in (bs_rest sc))" and "x \<in> set (suppliedTokenRefs str)"
  shows "fst x \<in> set (scenarioDependencyNames sc)"
  using assms by (force simp: scenarioDependencyNames_def suppliedNamesIn_def)

text \<open>C31: A scenario the gate lets through finds what it names. Its bindings provided and its instances
  materialized, every string of the scenario whose tokens name fields their registrations have in every
  instance resolves: \<open>applySupplied\<close> does not throw, whatever the machine registered.\<close>

theorem unblocked_tokens_resolve:
  assumes "resolveDependencies ex (FileHolds catalog) localFile root' dis = Inr resolved"
    and "catalog_ok catalog" and "dependencyBlockFor sc resolved = None"
    and "materializeSupplied h sx (suppliedInstancesFor sc resolved) = Inr s"
    and "str \<in> set (strings_in (bs_rest sc))"
    and "list_all (registered_ref catalog) (suppliedTokenRefs str)"
  shows "\<exists>out. applySupplied (su_values s) str = Inr out"
proof (rule applySupplied_ok)
  fix x assume x: "x \<in> set (suppliedTokenRefs str)"
  obtain loc where resolved: "resolved = joined ex catalog loc True root' dis"
    using assms(1) by (auto simp: resolveDependencies_def loaded_def split: sum.splits)
  have bound: "fst x \<in> set (scenarioDependencyNames sc)"
    by (rule token_name_bound [OF assms(5) x])
  then have "\<not> holds_back resolved (fst x)"
    using assms(3) by (simp add: dependencyBlockFor_def first_block_None block_of_None list_all_iff)
  then obtain d where d: "named (rs_dependencies resolved) (fst x) = Some d" "rv_state d \<in> {None, Some Provided}"
    by (auto simp: holds_back_def split: option.splits)
  obtain e where e: "e \<in> set catalog" "en_name e = fst x" "d = resolveDependency ex e (map_of loc (fst x)) root' dis"
    using named_joined d(1) unfolding resolved by blast
  from assms(6) x obtain e' where "e' \<in> set catalog" "en_name e' = fst x" "registers e' (snd x)"
    by (auto simp: list_all_iff registered_ref_def list_ex_iff)
  with e unique_entry [of catalog e e'] assms(2) have reg: "registers e (snd x)"
    by (simp add: catalog_ok_def)
  then obtain reg where "en_class e = SuppliedByUser" "en_registration e = Some reg"
    by (auto simp: registers_def split: option.splits)
  from resolved_supplied [OF this e(3)] d(2) have "rv_state d = Some Provided" by auto
  from provided_instance [OF reg e(3) this d(1)] obtain i
    where i: "instance_of resolved (fst x) = Some i" "\<And>flds. serves i flds \<Longrightarrow> map_of flds (snd x) \<noteq> None"
    by blast
  have "i \<in> set (suppliedInstancesFor sc resolved)"
    using bound i(1) by (force simp: suppliedInstancesFor_def map_filter_def)
  moreover have "instance_name i = fst x" by (rule instance_of_name [OF i(1)])
  ultimately obtain flds where "map_of (su_values s) (fst x) = Some flds" "serves i flds"
    using materialize_all_values [OF assms(4) [unfolded materializeSupplied_def] instances_distinct] by metis
  with i(2) [of flds] show "field_value (su_values s) x \<noteq> None"
    by (auto simp: field_value_def value_get_def)
qed

definition key_catalog :: catalog where
  "key_catalog =
     [\<lparr>en_name = ''account'', en_class = SuppliedByUser, en_summary = ''an account'', en_condition = None,
       en_registration = Some (RegEnv
         [\<lparr>ev_name = ''API_KEY'', ev_description = ''its key'', ev_secret = True, ev_optional = None\<rparr>]),
       en_needs = [], en_services = None, en_obtain = None\<rparr>]"

definition key_local :: overlays where
  "key_local = [(''account'', \<lparr>ov_path = None, ov_env = Some [(''API_KEY'', ''k1'')], ov_token = None, ov_headers = None\<rparr>)]"

definition key_scenario :: binding_scenario where
  "key_scenario = \<lparr>bs_needs = None, bs_prerequisites = None, bs_rest = JStr ''--key=${supplied:account.API_KEY}''\<rparr>"

definition bare_host :: host where
  "bare_host = \<lparr>ho_lstat = (\<lambda>_. None), ho_follow = (\<lambda>_. Dangling)\<rparr>"

definition key_supplied :: supplied where
  "key_supplied = nothing_supplied\<lparr>su_values := [(''account'', [(''API_KEY'', ''k1'')])], su_env := [(''API_KEY'', ''k1'')]\<rparr>"

theorem unblocked_tokens_resolve_witness:
  "\<exists>out. applySupplied (su_values key_supplied) ''--key=${supplied:account.API_KEY}'' = Inr out"
proof -
  have read: "resolveDependencies (\<lambda>_. False) (FileHolds key_catalog) (FileHolds key_local) [''r''] []
      = Inr (joined (\<lambda>_. False) key_catalog key_local True [''r''] [])"
    by (simp add: resolveDependencies_def loaded_def)
  have ok: "catalog_ok key_catalog" by code_simp
  have free: "dependencyBlockFor key_scenario (joined (\<lambda>_. False) key_catalog key_local True [''r''] []) = None"
    by code_simp
  have copied: "materializeSupplied bare_host \<lparr>sx_cwd = [''t''], sx_home = [''h'']\<rparr>
      (suppliedInstancesFor key_scenario (joined (\<lambda>_. False) key_catalog key_local True [''r''] [])) = Inr key_supplied"
    by code_simp
  have mem: "''--key=${supplied:account.API_KEY}'' \<in> set (strings_in (bs_rest key_scenario))"
    by (simp add: key_scenario_def)
  have refs: "list_all (registered_ref key_catalog) (suppliedTokenRefs ''--key=${supplied:account.API_KEY}'')"
    by code_simp
  show ?thesis by (rule unblocked_tokens_resolve [OF read ok free copied mem refs])
qed

text \<open>A token whose field is a name every object inherits does not throw, though no registration declares
  it: the text of a function of the platform takes its place.\<close>

lemma inherited_field_resolves:
  "applySupplied (su_values key_supplied) ''${supplied:account.constructor}'' = Inr ''function Object() { [native code] }''"
  by code_simp

subsection \<open>A copy that does not reach the host\<close>

text \<open>The links of a tree, each with its place in it.\<close>

fun links :: "string list \<Rightarrow> file_tree \<Rightarrow> (string list \<times> string) list" where
  "links p (Dir entries) = concat (map (\<lambda>(name, t). links (p @ [name]) t) entries)"
| "links p (Symlink target) = [(p, target)]"
| "links p (File content) = []"

lemma links_none: "links p t = [] \<longleftrightarrow> links q t = []"
proof (induction t arbitrary: p q)
  case (Dir entries)
  have "links (p @ [fst e]) (snd e) = [] \<longleftrightarrow> links (q @ [fst e]) (snd e) = []" if "e \<in> set entries" for e
    using Dir [of e "snd e"] that by (cases e) auto
  then show ?case by (auto simp: case_prod_beta)
qed simp_all

definition link_free :: "host \<Rightarrow> bool" where
  "link_free h \<longleftrightarrow> (\<forall>p t. ho_follow h p = Reads t \<longrightarrow> links [] t = [])"

lemma copied_links:
  assumes "link_free h" and "copySelfContained h base (base @ rel) n = Inr (Some c)" and "(q, t) \<in> set (links rel c)"
  shows "(q, t) \<in> set (links rel n) \<and> \<not> isAbsolute t \<and> lies_in base (resolve_path (butlast (base @ q)) t)"
  using assms(2,3)
proof (induction n arbitrary: rel c)
  case (Symlink target)
  show ?case
  proof (cases "\<not> isAbsolute target \<and> lies_in base (resolve_path (butlast (base @ rel)) target)")
    case False
    with Symlink.prems have "links rel c = []"
      using assms(1) links_none [of rel c "[]"] by (auto simp: link_free_def Let_def split: followed.splits if_splits)
    with Symlink.prems(2) show ?thesis by simp
  qed (use Symlink.prems in auto)
next
  case (Dir entries)
  from Dir.prems(1) obtain rs where
    rs: "map (\<lambda>(name, t). map_sum id (Pair name) (copySelfContained h base (base @ rel @ [name]) t)) entries = map Inr rs"
    and c: "c = Dir (List.map_filter (\<lambda>(name, t). map_option (Pair name) t) rs)"
    by (auto simp: all_right_Inr map_sum_def split: sum.splits)
  from Dir.prems(2) obtain name t' where t': "(name, Some t') \<in> set rs" "(q, t) \<in> set (links (rel @ [name]) t')"
    by (auto simp: c map_filter_def)
  then have "Inr (name, Some t') \<in> set (map (\<lambda>(name, t). map_sum id (Pair name) (copySelfContained h base (base @ rel @ [name]) t)) entries)"
    unfolding rs by force
  then obtain n' where n': "(name, n') \<in> set entries" "copySelfContained h base (base @ rel @ [name]) n' = Inr (Some t')"
    by (auto simp: map_sum_def split: sum.splits)
  from Dir.IH [OF n'(1), of n' "rel @ [name]" t'] n' t'(2) show ?case
    by (force simp: case_prod_beta)
qed simp

text \<open>A link that never climbs above the place its instance lies at.\<close>

fun stays_under :: "nat \<Rightarrow> string list \<Rightarrow> bool" where
  "stays_under d [] \<longleftrightarrow> True"
| "stays_under d (seg # segs) \<longleftrightarrow>
     (if seg = [] \<or> seg = ''.'' then stays_under d segs
      else if seg = ''..'' then 0 < d \<and> stays_under (d - 1) segs
      else stays_under (Suc d) segs)"

lemma walk_shift: "stays_under (length rel) segs \<Longrightarrow> \<exists>r. \<forall>b. walk (b @ rel) segs = b @ r"
proof (induction segs arbitrary: rel)
  case (Cons seg segs)
  consider "seg = [] \<or> seg = ''.''" | "seg = ''..''" | "seg \<noteq> [] \<and> seg \<noteq> ''.'' \<and> seg \<noteq> ''..''" by blast
  then show ?case
  proof cases
    case 2
    with Cons.prems have "rel \<noteq> []" "stays_under (length (butlast rel)) segs" by auto
    with Cons.IH [of "butlast rel"] 2 show ?thesis by (simp add: butlast_append)
  next
    case 3
    with Cons.prems Cons.IH [of "rel @ [seg]"] show ?thesis by simp
  qed (use Cons in simp)
qed auto

definition climbs_nowhere :: "string list \<times> string \<Rightarrow> bool" where
  "climbs_nowhere l \<longleftrightarrow> fst l \<noteq> [] \<and> stays_under (length (fst l) - 1) (js_split ''/'' (snd l))"


definition linked_project :: file_tree where
  "linked_project = Dir [(''data'', Dir [(''seed'', File ''1'')]), (''latest'', Symlink ''data/seed''), (''hosts'', Symlink ''/etc/hosts'')]"

definition linked_host :: host where
  "linked_host = \<lparr>ho_lstat = (\<lambda>_. None), ho_follow = (\<lambda>p. if p = [''etc'', ''hosts''] then Reads (File ''h'') else Dangling)\<rparr>"

definition linked_copy :: file_tree where
  "linked_copy = Dir [(''data'', Dir [(''seed'', File ''1'')]), (''latest'', Symlink ''data/seed''), (''hosts'', File ''h'')]"

definition project_place :: "string list" where
  "project_place = [''home'', ''u'', ''proj'']"


text \<open>A link that climbs above its instance and comes back into it by name is kept as a link, and in the
  copy it leads elsewhere: here out of the sandbox, to the instance itself.\<close>

theorem copy_reaches_the_host:
  "copySelfContained linked_host project_place project_place
      (Dir [(''data'', Dir []), (''live'', Symlink ''../../../../../../home/u/proj/data'')])
    = Inr (Some (Dir [(''data'', Dir []), (''live'', Symlink ''../../../../../../home/u/proj/data'')]))
   \<and> resolve_path [''tmp'', ''run'', SUPPLIED_DIR, ''proj''] ''../../../../../../home/u/proj/data''
    = project_place @ [''data'']"
  by code_simp

subsection \<open>A configuration directory stays in the home\<close>

lemma js_split_char:
  "js_split [x] (c # cs) =
     (if c = x then [] # js_split [x] cs else (c # hd (js_split [x] cs)) # tl (js_split [x] cs))"
  by (subst js_split.simps, subst (2 3) js_split.simps) (auto simp: starts_with_def split: option.split)

text \<open>Where a piece of a split text stands in it.\<close>

lemma split_pieces:
  "(\<exists>v. s = hd (js_split [x] s) @ v \<and> (v = [] \<or> hd v = x)) \<and> x \<notin> set (hd (js_split [x] s))
   \<and> (\<forall>seg\<in>set (tl (js_split [x] s)). x \<notin> set seg \<and> (\<exists>u v. s = u @ x # seg @ v \<and> (v = [] \<or> hd v = x)))"
proof (induction s)
  case Nil
  show ?case by (simp add: js_split.simps)
next
  case (Cons c cs)
  obtain h t where split: "js_split [x] cs = h # t" by (cases "js_split [x] cs") simp_all
  with Cons obtain v where hd: "cs = h @ v" "v = [] \<or> hd v = x" "x \<notin> set h" by auto
  have tl: "\<exists>u v. cs = u @ x # seg @ v \<and> (v = [] \<or> hd v = x)" "x \<notin> set seg" if "seg \<in> set t" for seg
    using Cons that by (auto simp: split)
  have deeper: "\<exists>u v. c # cs = u @ x # seg @ v \<and> (v = [] \<or> hd v = x)" if seg: "seg \<in> set t" for seg
  proof -
    from tl(1) [OF seg] obtain u v where "cs = u @ x # seg @ v" "v = [] \<or> hd v = x" by blast
    then show ?thesis by (intro exI [of _ "c # u"] exI [of _ v]) simp
  qed
  show ?case
  proof (cases "c = x")
    case True
    have "\<exists>u v. c # cs = u @ x # h @ v \<and> (v = [] \<or> hd v = x)"
      using True hd by (intro exI [of _ "[]"] exI [of _ v]) simp
    moreover have "js_split [x] (c # cs) = [] # h # t"
      using True by (simp add: js_split_char split)
    ultimately show ?thesis
      using True hd(3) tl(2) deeper by (metis list.sel(1,3) set_ConsD append_Nil empty_iff list.set(1))
  next
    case False
    then have "js_split [x] (c # cs) = (c # h) # t"
      by (simp add: js_split_char split)
    moreover have "c # cs = (c # h) @ v" using hd(1) by simp
    ultimately show ?thesis
      using False hd(2,3) tl(2) deeper by (metis list.sel(1,3) set_ConsD)
  qed
qed

lemma split_piece:
  assumes "seg \<in> set (js_split [x] s)"
  shows "x \<notin> set seg \<and> (\<exists>u v. s = u @ seg @ v \<and> (u = [] \<or> last u = x) \<and> (v = [] \<or> hd v = x))"
proof (cases "seg = hd (js_split [x] s)")
  case True
  with split_pieces [of s x] show ?thesis by (metis append_Nil)
next
  case False
  with assms have "seg \<in> set (tl (js_split [x] s))" by (cases "js_split [x] s") auto
  then obtain u v where "s = u @ x # seg @ v" "v = [] \<or> hd v = x" "x \<notin> set seg"
    using split_pieces [of s x] by blast
  then show ?thesis by (intro conjI exI [of _ "u @ [x]"] exI [of _ v]) simp_all
qed

lemma slash_split_ne [simp]: "slash_split s \<noteq> []"
  by (cases s) (auto split: list.split)

lemma slash_split_cut: "slash c \<Longrightarrow> slash_split (u @ c # w) = slash_split u @ slash_split w"
proof (induction u)
  case (Cons d u)
  then show ?case by (cases "slash_split u") auto
qed (simp add: slash_def)

lemma slash_split_word: "list_all (\<lambda>c. \<not> slash c) seg \<Longrightarrow> slash_split seg = [seg]"
  by (induction seg) (auto simp: slash_def)

lemma slash_split_piece:
  assumes "list_all (\<lambda>c. \<not> slash c) seg" and "u = [] \<or> slash (last u)" and "v = [] \<or> slash (hd v)"
  shows "seg \<in> set (slash_split (u @ seg @ v))"
proof -
  have "seg \<in> set (slash_split (seg @ v))"
    using assms(1,3) by (cases v) (simp_all add: slash_split_cut slash_split_word)
  moreover have "set (slash_split w) \<subseteq> set (slash_split (u @ w))" for w
    using assms(2) by (cases u rule: rev_cases) (simp_all add: slash_split_cut)
  ultimately show ?thesis by blast
qed

lemma no_traversal: "isHomeRelativePath p \<Longrightarrow> ''..'' \<notin> set (js_split ''/'' p)"
proof
  assume ok: "isHomeRelativePath p" and up: "''..'' \<in> set (js_split ''/'' p)"
  from split_piece [OF up] obtain u v where "p = u @ ''..'' @ v" "u = [] \<or> last u = CHR ''/''" "v = [] \<or> hd v = CHR ''/''"
    by blast
  with slash_split_piece [of "''..''" u v] have "''..'' \<in> set (slash_split p)"
    by (auto simp: slash_def)
  with ok show False by (auto simp: isHomeRelativePath_def list_all_iff)
qed

lemma walk_down: "''..'' \<notin> set segs \<Longrightarrow> prefix dir (walk dir segs)"
proof (induction segs arbitrary: dir)
  case (Cons seg segs)
  then have later: "prefix d (walk d segs)" for d by simp
  from later [of dir] later [of "dir @ [seg]"] Cons.prems show ?case
    by (auto dest: append_prefixD)
qed simp

text \<open>A destination the catalog's schema admits is one the copy accepts, and it lies in the home.\<close>

theorem admitted_home_path_is_accepted:
  assumes "registration_ok (RegConfigDir homePath description)" and "home \<noteq> []"
  shows "\<exists>dest. resolveInHome home homePath name = Inr dest \<and> prefix home dest"
proof -
  have rel: "isHomeRelativePath homePath" "\<not> isAbsolute homePath"
    using assms(1) by (auto simp: registration_ok_def isHomeRelativePath_def rooted_def slash_def isAbsolute_def
        starts_with_def split: list.splits)
  from walk_down [OF no_traversal [OF rel(1)], of home] have "prefix home (resolve_path home homePath)"
    using rel(2) by (simp add: resolve_path_def)
  with assms(2) show ?thesis by (simp add: resolveInHome_def lies_in_def Let_def)
qed

theorem admitted_home_path_is_accepted_witness:
  "\<exists>dest. resolveInHome [''home''] ''.claude/x'' ''login'' = Inr dest \<and> prefix [''home''] dest"
  by (rule admitted_home_path_is_accepted [where description = "''d''"]) code_simp+

subsection \<open>External services\<close>

lemma foldl_update_const:
  "map_of (foldl (\<lambda>m s. AList.update s st m) m ss) x = (if x \<in> set ss then Some st else map_of m x)"
  by (induction ss arbitrary: m) (auto simp: update_conv)

definition speaks_for :: "string \<Rightarrow> resolved_dependency \<Rightarrow> bool" where
  "speaks_for service d \<longleftrightarrow> rv_state d \<noteq> None
     \<and> (case en_services (rv_entry d) of None \<Rightarrow> False | Some ss \<Rightarrow> service \<in> set ss)"

text \<open>Of the entries that speak for a service the last one answers, and the recipe only where none does.\<close>

lemma catalog_wins:
  "map_of (catalog_states deps m) service =
     (case find (speaks_for service) (rev deps) of Some d \<Rightarrow> rv_state d | None \<Rightarrow> map_of m service)"
proof (induction deps rule: rev_induct)
  case (snoc d deps)
  then show ?case
    by (auto simp: catalog_states_def foldl_update_const speaks_for_def split: option.splits)
qed (simp add: catalog_states_def)

end
