(* ===== verification/Board.thy ===== *)
theory Board
  imports JsText
begin

text \<open>
  The board of a guard corpus, its latest known verdict for each scenario:
  \<open>packages/guard-runner/src/board.ts\<close>, over the results of \<open>packages/shared/src/guard/result.ts\<close>, with
  the adjudication a row may carry (\<open>packages/shared/src/guard/adjudication.ts\<close>).

  A row has the fields the board and the adjudication read, and the rest of its JSON. \<open>localeCompare\<close> is
  the order of a collation key (\<open>loc\<close>).
\<close>

subsection \<open>Verdicts\<close>

datatype adjudication_class = ExpectedRed | Drift | Bug | AuthoringDefect | SeedDefect | Infrastructure

datatype control_conclusion = Confirms | Refutes | Inconclusive

record control_record =
  cn_conclusion :: control_conclusion
  cn_reasoning :: string

record control = control_record +
  cn_transcriptRef :: string

datatype fix_layer = FixScenario | FixSeed | FixRecipe

record defect_fix =
  fx_layer :: fix_layer
  fx_description :: string

datatype confidence = LowConfidence | MediumConfidence | HighConfidence

record adjudication =
  ad_class :: adjudication_class
  ad_mechanism :: string
  ad_code :: "(string \<times> nat) option"
  ad_evidence :: "string list"
  ad_control :: "control option"
  ad_fix :: "defect_fix option"
  ad_confidence :: confidence
  ad_findings :: "string list"

record scenario_adjudication = adjudication +
  ad_adjudicatedAt :: time
  ad_sessionId :: "uuid option"

subsection \<open>Results\<close>

datatype guard_outcome = OutPass | OutFail | OutStale | OutOrphaned | OutError | OutBlocked

record failure_detail =
  fd_step :: nat
  fd_expected :: string
  fd_actual :: string

record result_row =
  rw_id :: string
  rw_title :: string
  rw_outcome :: guard_outcome
  rw_runId :: "string option"
  rw_ranAt :: "time option"
  rw_failure :: "failure_detail option"
  rw_evidencePath :: "string option"
  rw_flowId :: "string option"
  rw_failedMilestone :: "nat option"
  rw_unservedRoute :: "bool option"
  rw_adjudication :: "scenario_adjudication option"
  rw_rest :: json_object

record run_envelope =
  ev_runId :: string
  ev_ranAt :: time
  ev_rest :: json_object

record summary =
  sm_total :: nat
  sm_pass :: nat
  sm_fail :: nat
  sm_stale :: nat
  sm_orphaned :: nat
  sm_error :: nat
  sm_blocked :: nat

record board =
  bd_run :: run_envelope
  bd_summary :: summary
  bd_scenarios :: "result_row list"

definition guardResultRunId :: "result_row \<Rightarrow> run_envelope \<Rightarrow> string" where
  "guardResultRunId row env = (case rw_runId row of Some r \<Rightarrow> r | None \<Rightarrow> ev_runId env)"

definition guardResultRanAt :: "result_row \<Rightarrow> run_envelope \<Rightarrow> time" where
  "guardResultRanAt row env = (case rw_ranAt row of Some r \<Rightarrow> r | None \<Rightarrow> ev_ranAt env)"

definition isGuardFailure :: "guard_outcome \<Rightarrow> bool" where
  "isGuardFailure out \<longleftrightarrow> out = OutFail \<or> out = OutError"

definition guardSummaryFailed :: "summary \<Rightarrow> bool" where
  "guardSummaryFailed s \<longleftrightarrow> 0 < sm_fail s \<or> 0 < sm_error s"

definition OUTCOME_PRECEDENCE :: "guard_outcome list" where
  "OUTCOME_PRECEDENCE = [OutFail, OutError, OutStale, OutOrphaned, OutBlocked, OutPass]"

definition worstOutcome :: "guard_outcome list \<Rightarrow> guard_outcome" where
  "worstOutcome outs = (case find (\<lambda>c. c \<in> set outs) OUTCOME_PRECEDENCE of Some c \<Rightarrow> c | None \<Rightarrow> OutPass)"

text \<open>Where the evidence of a run is kept, relative to the tree (packages/shared/src/fs/work-tree.ts).\<close>

definition segment_char :: "char \<Rightarrow> bool" where
  "segment_char c \<longleftrightarrow> digit c \<or> c \<in> set ''._-'' \<or> (let n = of_char c :: nat in (65 \<le> n \<and> n \<le> 90) \<or> (97 \<le> n \<and> n \<le> 122))"

definition sanitizeSegment :: "string \<Rightarrow> string" where
  "sanitizeSegment s = map (\<lambda>c. if segment_char c then c else CHR ''_'') s"

definition evidenceRelPath :: "string \<Rightarrow> string \<Rightarrow> string" where
  "evidenceRelPath runId scenarioId = ''.truecourse/guard/evidence/'' @ runId @ ''/'' @ sanitizeSegment scenarioId"

subsection \<open>The board\<close>

fun bump :: "guard_outcome \<Rightarrow> summary \<Rightarrow> summary" where
  "bump OutPass s = s\<lparr>sm_pass := sm_pass s + 1\<rparr>"
| "bump OutFail s = s\<lparr>sm_fail := sm_fail s + 1\<rparr>"
| "bump OutStale s = s\<lparr>sm_stale := sm_stale s + 1\<rparr>"
| "bump OutOrphaned s = s\<lparr>sm_orphaned := sm_orphaned s + 1\<rparr>"
| "bump OutError s = s\<lparr>sm_error := sm_error s + 1\<rparr>"
| "bump OutBlocked s = s\<lparr>sm_blocked := sm_blocked s + 1\<rparr>"

definition summarizeResults :: "result_row list \<Rightarrow> summary" where
  "summarizeResults rows =
     foldl (\<lambda>s r. bump (rw_outcome r) s)
       \<lparr>sm_total = length rows, sm_pass = 0, sm_fail = 0, sm_stale = 0, sm_orphaned = 0, sm_error = 0, sm_blocked = 0\<rparr> rows"

definition withoutAdjudication :: "result_row \<Rightarrow> result_row" where
  "withoutAdjudication row = row\<lparr>rw_adjudication := None\<rparr>"

definition carry :: "run_envelope \<Rightarrow> result_row \<Rightarrow> result_row" where
  "carry env row = row\<lparr>rw_runId := Some (guardResultRunId row env), rw_ranAt := Some (guardResultRanAt row env)\<rparr>"

definition carried :: "board \<Rightarrow> string list \<Rightarrow> string set \<Rightarrow> result_row list" where
  "carried prior ranIds corpusIds =
     map (carry (bd_run prior)) (filter (\<lambda>s. rw_id s \<notin> set ranIds \<and> rw_id s \<in> corpusIds) (bd_scenarios prior))"

definition mergeGuardBoard :: "(string \<Rightarrow> string) \<Rightarrow> board option \<Rightarrow> board \<Rightarrow> string set \<Rightarrow> board" where
  "mergeGuardBoard loc prior run0 corpusIds =
     (let run = run0\<lparr>bd_scenarios := map withoutAdjudication (bd_scenarios run0)\<rparr>
      in case prior of
           None \<Rightarrow> run
         | Some p \<Rightarrow>
             (let scenarios = sort_key (loc \<circ> rw_id)
                    (bd_scenarios run @ carried p (map rw_id (bd_scenarios run)) corpusIds)
              in \<lparr>bd_run = bd_run run, bd_summary = summarizeResults scenarios, bd_scenarios = scenarios\<rparr>))"

definition takes_verdict :: "board \<Rightarrow> string \<Rightarrow> string option \<Rightarrow> result_row \<Rightarrow> bool" where
  "takes_verdict board scenarioId onlyIfRunId row \<longleftrightarrow>
     rw_id row = scenarioId \<and> pred_option (\<lambda>r. guardResultRunId row (bd_run board) = r) onlyIfRunId"

definition withScenarioAdjudication :: "board \<Rightarrow> string \<Rightarrow> scenario_adjudication \<Rightarrow> string option \<Rightarrow> board option" where
  "withScenarioAdjudication board scenarioId verdict onlyIfRunId =
     (if list_ex (takes_verdict board scenarioId onlyIfRunId) (bd_scenarios board)
      then Some (board\<lparr>bd_scenarios :=
        map (\<lambda>row. if takes_verdict board scenarioId onlyIfRunId row then row\<lparr>rw_adjudication := Some verdict\<rparr> else row)
          (bd_scenarios board)\<rparr>)
      else None)"

subsection \<open>What a tally counts\<close>

fun tally :: "guard_outcome \<Rightarrow> summary \<Rightarrow> nat" where
  "tally OutPass = sm_pass"
| "tally OutFail = sm_fail"
| "tally OutStale = sm_stale"
| "tally OutOrphaned = sm_orphaned"
| "tally OutError = sm_error"
| "tally OutBlocked = sm_blocked"

lemma tally_bump: "tally c (bump d s) = (if c = d then Suc (tally c s) else tally c s)" "sm_total (bump d s) = sm_total s"
  by (cases c; cases d; simp) (cases d; simp)

lemma summarize_counts:
  "tally c (summarizeResults rows) = length (filter (\<lambda>r. rw_outcome r = c) rows) \<and> sm_total (summarizeResults rows) = length rows"
proof -
  have "tally c (foldl (\<lambda>s r. bump (rw_outcome r) s) s rows) = tally c s + length (filter (\<lambda>r. rw_outcome r = c) rows)
      \<and> sm_total (foldl (\<lambda>s r. bump (rw_outcome r) s) s rows) = sm_total s" for s
    by (induction rows arbitrary: s) (auto simp: tally_bump)
  then show ?thesis
    by (cases c) (simp_all add: summarizeResults_def)
qed

lemma summarize_outcomes: "map rw_outcome rows = map rw_outcome rows' \<Longrightarrow> summarizeResults rows = summarizeResults rows'"
proof -
  have "foldl (\<lambda>s r. bump (rw_outcome r) s) s rows = foldl (\<lambda>s c. bump c s) s (map rw_outcome rows)"
    for s and rows :: "result_row list"
    by (induction rows arbitrary: s) simp_all
  moreover assume eq: "map rw_outcome rows = map rw_outcome rows'"
  ultimately show ?thesis
    unfolding summarizeResults_def using map_eq_imp_length_eq [OF eq] by (simp only:)
qed

subsection \<open>The board is the current state\<close>

definition row_of :: "board \<Rightarrow> string \<Rightarrow> result_row option" where
  "row_of b i = find (\<lambda>r. rw_id r = i) (bd_scenarios b)"

definition one_row_each :: "board \<Rightarrow> bool" where
  "one_row_each b \<longleftrightarrow> distinct (map rw_id (bd_scenarios b))"

lemma find_distinct:
  "distinct (map f xs) \<Longrightarrow> find (\<lambda>x. f x = k) xs = Some x \<longleftrightarrow> x \<in> set xs \<and> f x = k"
  by (induction xs) force+

lemma find_same_set:
  assumes "distinct (map f xs)" and "distinct (map f ys)" and "set xs = set ys"
  shows "find (\<lambda>x. f x = k) xs = find (\<lambda>x. f x = k) ys"
  using find_distinct [OF assms(1)] find_distinct [OF assms(2)] assms(3) by (metis not_Some_eq)

lemma find_map_key: "(\<And>x. f (g x) = f x) \<Longrightarrow> find (\<lambda>x. f x = k) (map g xs) = map_option g (find (\<lambda>x. f x = k) xs)"
  by (induction xs) simp_all

lemma find_filter_id:
  "find (\<lambda>r. rw_id r = k) (filter (\<lambda>r. rw_id r \<notin> A \<and> rw_id r \<in> B) rows)
    = (if k \<notin> A \<and> k \<in> B then find (\<lambda>r. rw_id r = k) rows else None)"
  by (induction rows) auto

lemma row_ids [simp]: "rw_id (withoutAdjudication r) = rw_id r" "rw_id (carry env r) = rw_id r"
  by (simp_all add: withoutAdjudication_def carry_def)

lemma carry_effective_run: "guardResultRunId (carry env r) env' = guardResultRunId r env"
  by (simp add: carry_def guardResultRunId_def)

text \<open>The board after a run is the current state. It has one row for each scenario; a scenario the run
  settled has the run's row, without the verdict an earlier adjudication left on it; any other scenario
  of the corpus keeps its row and the run that row came from; a scenario that left the corpus has none.\<close>

theorem merge_is_current_state:
  assumes "one_row_each p" and "one_row_each run"
  shows "one_row_each (mergeGuardBoard loc (Some p) run corpusIds)
    \<and> row_of (mergeGuardBoard loc (Some p) run corpusIds) i =
       (case row_of run i of
          Some r \<Rightarrow> Some (withoutAdjudication r)
        | None \<Rightarrow> if i \<in> corpusIds then map_option (carry (bd_run p)) (row_of p i) else None)
    \<and> tally c (bd_summary (mergeGuardBoard loc (Some p) run corpusIds))
       = length (filter (\<lambda>r. rw_outcome r = c) (bd_scenarios (mergeGuardBoard loc (Some p) run corpusIds)))"
proof -
  let ?ran = "map withoutAdjudication (bd_scenarios run)"
  let ?kept = "carried p (map rw_id (bd_scenarios run)) corpusIds"
  let ?b = "mergeGuardBoard loc (Some p) run corpusIds"
  have ids: "map rw_id ?ran = map rw_id (bd_scenarios run)"
    "map rw_id ?kept = filter (\<lambda>i. i \<notin> rw_id ` set (bd_scenarios run) \<and> i \<in> corpusIds) (map rw_id (bd_scenarios p))"
    by (simp_all add: carried_def comp_def filter_map)
  have rows: "bd_scenarios ?b = sort_key (loc \<circ> rw_id) (?ran @ ?kept)"
    by (simp add: mergeGuardBoard_def Let_def comp_def)
  have dist: "distinct (map rw_id (?ran @ ?kept))"
    unfolding map_append ids using assms by (auto simp: one_row_each_def distinct_filter simp del: filter_map)
  have sorted_dist: "distinct (map rw_id (bd_scenarios ?b))"
    unfolding rows using dist mset_sort [of "loc \<circ> rw_id"] by (metis mset_eq_imp_distinct_iff mset_map)
  have "row_of ?b i = find (\<lambda>r. rw_id r = i) (?ran @ ?kept)"
    unfolding row_of_def by (rule find_same_set [OF sorted_dist dist]) (simp add: rows)
  also have "\<dots> = (case row_of run i of
          Some r \<Rightarrow> Some (withoutAdjudication r)
        | None \<Rightarrow> if i \<in> corpusIds then map_option (carry (bd_run p)) (row_of p i) else None)"
  proof (cases "row_of run i")
    case None
    then have "i \<notin> rw_id ` set (bd_scenarios run)" by (auto simp: row_of_def find_None_iff)
    with None show ?thesis
      by (simp add: find_append find_map_key carried_def row_of_def find_filter_id)
  next
    case (Some r)
    then show ?thesis by (simp add: find_append find_map_key row_of_def)
  qed
  finally have "row_of ?b i = \<dots>" .
  with sorted_dist summarize_counts [of c "bd_scenarios ?b"] show ?thesis
    by (simp add: one_row_each_def mergeGuardBoard_def Let_def)
qed

subsection \<open>Adjudication and runs side by side\<close>

text \<open>The board an adjudication leaves, whether or not it found its row.\<close>

definition annotated :: "board \<Rightarrow> string \<Rightarrow> scenario_adjudication \<Rightarrow> string \<Rightarrow> board" where
  "annotated b i v judged = (case withScenarioAdjudication b i v (Some judged) of Some b' \<Rightarrow> b' | None \<Rightarrow> b)"

definition annotate_row :: "board \<Rightarrow> string \<Rightarrow> scenario_adjudication \<Rightarrow> string \<Rightarrow> result_row \<Rightarrow> result_row" where
  "annotate_row b i v judged row = (if takes_verdict b i (Some judged) row then row\<lparr>rw_adjudication := Some v\<rparr> else row)"

lemma annotated_rows: "annotated b i v judged = b\<lparr>bd_scenarios := map (annotate_row b i v judged) (bd_scenarios b)\<rparr>"
proof (cases "list_ex (takes_verdict b i (Some judged)) (bd_scenarios b)")
  case True
  then show ?thesis by (simp add: annotated_def withScenarioAdjudication_def annotate_row_def [abs_def])
next
  case False
  then have "map (annotate_row b i v judged) (bd_scenarios b) = bd_scenarios b"
    by (intro map_idI) (auto simp: annotate_row_def list_ex_iff)
  with False show ?thesis by (simp add: annotated_def withScenarioAdjudication_def)
qed

lemma annotate_row_fields [simp]:
  "rw_id (annotate_row b i v j r) = rw_id r" "rw_outcome (annotate_row b i v j r) = rw_outcome r"
  "guardResultRunId (annotate_row b i v j r) env = guardResultRunId r env"
  by (simp_all add: annotate_row_def guardResultRunId_def)

lemma insort_map: "(\<And>x. k (f x) = k x) \<Longrightarrow> map f (insort_key k x xs) = insort_key k (f x) (map f xs)"
  by (induction xs) simp_all

lemma sort_map: "(\<And>x. k (f x) = k x) \<Longrightarrow> map f (sort_key k xs) = sort_key k (map f xs)"
  by (induction xs) (simp_all add: insort_map)

lemma annotate_carry:
  assumes "bd_run b = env"
  shows "annotate_row b i v j (carry (bd_run p) r) = carry (bd_run p) (annotate_row p i v j r)"
  by (simp add: annotate_row_def takes_verdict_def carry_effective_run)
    (simp add: carry_def guardResultRunId_def guardResultRanAt_def)

lemma bd_scenarios_merge:
  "bd_scenarios (mergeGuardBoard loc (Some p) run corpusIds) = sort_key (loc \<circ> rw_id)
     (map withoutAdjudication (bd_scenarios run) @ carried p (map rw_id (bd_scenarios run)) corpusIds)"
  by (simp add: mergeGuardBoard_def Let_def comp_def)

text \<open>C34: A run and the adjudication of an earlier one may finish in either order. Where the run is not the
  one the verdict judged, recording the verdict before the run's rows are merged or after gives the same
  board: on a scenario the run settled the verdict is lost in both, on any other it stands in both.\<close>

theorem adjudication_commutes_with_runs:
  assumes "list_all (\<lambda>r. guardResultRunId r (bd_run run) \<noteq> judged) (bd_scenarios run)"
  shows "annotated (mergeGuardBoard loc (Some p) run corpusIds) i v judged
    = mergeGuardBoard loc (Some (annotated p i v judged)) run corpusIds"
proof -
  let ?b = "mergeGuardBoard loc (Some p) run corpusIds"
  let ?f = "annotate_row ?b i v judged"
  let ?ids = "map rw_id (bd_scenarios run)"
  have run: "bd_run ?b = bd_run run" by (simp add: mergeGuardBoard_def Let_def)
  have "map ?f (map withoutAdjudication (bd_scenarios run)) = map withoutAdjudication (bd_scenarios run)"
    using assms
    by (auto simp: annotate_row_def takes_verdict_def run list_all_iff withoutAdjudication_def guardResultRunId_def)
  moreover have "map ?f (carried p ?ids corpusIds) = carried (annotated p i v judged) ?ids corpusIds"
    by (simp add: carried_def annotated_rows filter_map comp_def annotate_carry)
  moreover have "map ?f (bd_scenarios ?b)
      = sort_key (loc \<circ> rw_id) (map ?f (map withoutAdjudication (bd_scenarios run) @ carried p ?ids corpusIds))"
    unfolding bd_scenarios_merge by (rule sort_map) simp
  ultimately have rows: "map ?f (bd_scenarios ?b)
      = sort_key (loc \<circ> rw_id) (map withoutAdjudication (bd_scenarios run) @ carried (annotated p i v judged) ?ids corpusIds)"
    by (simp only: map_append)
  have "summarizeResults (map ?f (bd_scenarios ?b)) = summarizeResults (bd_scenarios ?b)"
    by (rule summarize_outcomes) simp
  with rows show ?thesis
    by (simp add: annotated_rows [of ?b]) (simp add: mergeGuardBoard_def Let_def comp_def)
qed

definition demo_row :: "string \<Rightarrow> guard_outcome \<Rightarrow> result_row" where
  "demo_row i out = \<lparr>rw_id = i, rw_title = i, rw_outcome = out, rw_runId = None, rw_ranAt = None, rw_failure = None,
     rw_evidencePath = None, rw_flowId = None, rw_failedMilestone = None, rw_unservedRoute = None,
     rw_adjudication = None, rw_rest = []\<rparr>"

definition demo_board :: "string \<Rightarrow> result_row list \<Rightarrow> board" where
  "demo_board runId rows = \<lparr>bd_run = \<lparr>ev_runId = runId, ev_ranAt = runId, ev_rest = []\<rparr>, bd_summary = summarizeResults rows,
     bd_scenarios = rows\<rparr>"

definition demo_verdict :: scenario_adjudication where
  "demo_verdict = \<lparr>ad_class = Drift, ad_mechanism = ''m'', ad_code = None, ad_evidence = [''e''], ad_control = None,
     ad_fix = None, ad_confidence = HighConfidence, ad_findings = [], ad_adjudicatedAt = ''t'', ad_sessionId = None\<rparr>"

definition morning_board :: board where
  "morning_board = demo_board ''r1'' [demo_row ''a'' OutFail, demo_row ''b'' OutFail]"

definition second_run :: board where
  "second_run = demo_board ''r2'' [demo_row ''a'' OutPass]"

lemmas demo_board_defs = demo_row_def demo_board_def morning_board_def second_run_def

theorem merge_is_current_state_witness:
  "row_of (mergeGuardBoard id (Some morning_board) second_run {''a'', ''b''}) ''b''
     = map_option (carry (bd_run morning_board)) (row_of morning_board ''b'')
   \<and> tally OutFail (bd_summary (mergeGuardBoard id (Some morning_board) second_run {''a'', ''b''}))
     = length (filter (\<lambda>r. rw_outcome r = OutFail) (bd_scenarios (mergeGuardBoard id (Some morning_board) second_run {''a'', ''b''})))"
proof -
  have "one_row_each morning_board" "one_row_each second_run"
    by (simp_all add: one_row_each_def demo_board_defs)
  moreover have "row_of second_run ''b'' = None"
    by (simp add: row_of_def demo_board_defs)
  ultimately show ?thesis
    using merge_is_current_state [of morning_board second_run id "{''a'', ''b''}" "''b''" OutFail] by simp
qed

theorem adjudication_commutes_with_runs_witness:
  "annotated (mergeGuardBoard id (Some morning_board) second_run {''a'', ''b''}) ''b'' demo_verdict ''r1''
    = mergeGuardBoard id (Some (annotated morning_board ''b'' demo_verdict ''r1'')) second_run {''a'', ''b''}"
  by (rule adjudication_commutes_with_runs) (simp add: guardResultRunId_def demo_board_defs)

end
