(* ===== verification/Adjudication.thy ===== *)
theory Adjudication
  imports Board CaptureRules
begin

text \<open>
  The adjudication of the failures on the board: \<open>packages/core/src/services/guard-adjudicate\<close> (the
  deterministic pre-pass, the tools of a session and its control, the fold, the findings report) and the
  command \<open>packages/core/src/commands/guard-adjudicate.ts\<close> that runs it, with the auto-resolution ledger
  (\<open>shared/src/guard/auto-resolutions.ts\<close>) and the dismissals (\<open>guard-runner/src/decisions.ts\<close>).

  What the stores hold besides is handed in: the manifest, the flows, the scenario files as they parse, the
  claims. How a session comes to its outcome is the theory \<open>AgentLoop\<close>; here a session is the calls of its
  tools and its end. The wording of a message is a constructor; a prompt, a briefing, the digest of the
  evidence and the text of the report are not modelled; a dash in a text is written as a hyphen. A scenario
  whose id is a name every object inherits is not given its special meaning in the numbering. The folds of a pool come in any order.
\<close>

subsection \<open>One failure\<close>

record expected_red =
  er_step :: nat
  er_predictedActual :: string
  er_verdict :: string
  er_brief :: string

record diagnosis =
  dg_claimId :: "string option"
  dg_expectedRed :: "expected_red option"

record milestone =
  ml_order :: nat
  ml_claimId :: string

record guard_flow =
  fl_id :: string
  fl_milestones :: "milestone list"

text \<open>A scenario file as it parses: its id, the flow it names, and what it executes.\<close>

record stored_scenario =
  sc_id :: string
  sc_flowId :: "string option"
  sc_body :: guard_scenario

record item =
  it_scenarioId :: string
  it_title :: string
  it_outcome :: guard_outcome
  it_runId :: string
  it_row :: result_row
  it_step :: nat
  it_expected :: string
  it_actual :: string
  it_surface :: string
  it_flowId :: "string option"
  it_evidenceDir :: string
  it_scenario :: "(string \<times> string \<times> stored_scenario) option"
  it_flow :: "guard_flow option"
  it_diagnosis :: "diagnosis option"
  it_expectedRed :: "expected_red option"
  it_prior :: "scenario_adjudication option"

definition guardDriverIds :: "string list" where
  "guardDriverIds = [''cli'', ''api'', ''web'', ''tui'', ''library'', ''desktop'', ''mobile'']"

definition step_driver :: "step \<Rightarrow> string" where
  "step_driver st = (if isWebStep st then ''web'' else if isApiStep st then ''api'' else ''cli'')"

definition guardScenarioDrivers :: "guard_scenario \<Rightarrow> string list" where
  "guardScenarioDrivers s = filter (\<lambda>i. i \<in> set (map step_driver (guardExecutionSteps s))) guardDriverIds"

definition itemSurface :: "guard_scenario option \<Rightarrow> string" where
  "itemSurface s =
     (case s of None \<Rightarrow> ''cli'' | Some sc \<Rightarrow> (case guardScenarioDrivers sc of d # _ \<Rightarrow> d | [] \<Rightarrow> ''cli''))"

subsection \<open>The deterministic pre-pass\<close>

definition norm_space :: "string \<Rightarrow> string" where
  "norm_space t = js_trim (squeeze t)"

definition actualMatchesPrediction :: "string \<Rightarrow> string \<Rightarrow> bool" where
  "actualMatchesPrediction actual predicted \<longleftrightarrow>
     norm_space actual = norm_space predicted \<or> js_includes (norm_space predicted) (norm_space actual)"

definition SANDBOX_SETUP_EXPECTED :: string where
  "SANDBOX_SETUP_EXPECTED = ''sandbox setup to succeed''"

definition CAPABILITY_SETUP_EXPECTED :: string where
  "CAPABILITY_SETUP_EXPECTED = ''setup capabilities to materialize''"

definition isSetupDefectResult :: "result_row \<Rightarrow> bool" where
  "isSetupDefectResult row \<longleftrightarrow> rw_outcome row = OutError
     \<and> (case rw_failure row of
          None \<Rightarrow> False
        | Some f \<Rightarrow> fd_expected f = SANDBOX_SETUP_EXPECTED \<or> fd_expected f = CAPABILITY_SETUP_EXPECTED)"

text \<open>The verdict of a rule: its class, the texts it is made of, and high confidence.\<close>

definition machine_verdict :: "adjudication_class \<Rightarrow> string \<Rightarrow> string list \<Rightarrow> defect_fix option \<Rightarrow> adjudication" where
  "machine_verdict c mechanism evidence fx =
     \<lparr>ad_class = c, ad_mechanism = mechanism, ad_code = None, ad_evidence = evidence, ad_control = None, ad_fix = fx,
      ad_confidence = HighConfidence, ad_findings = []\<rparr>"

definition expected_and_actual :: "item \<Rightarrow> string list" where
  "expected_and_actual i = [''expected: '' @ it_expected i, ''actual: '' @ it_actual i]"

definition declared_red :: "item \<Rightarrow> expected_red option" where
  "declared_red i =
     (case it_expectedRed i of
        Some er \<Rightarrow>
          if er_step er = it_step i \<and> actualMatchesPrediction (it_actual i) (er_predictedActual er) then Some er else None
      | None \<Rightarrow> None)"

definition deterministicVerdict :: "item \<Rightarrow> adjudication option" where
  "deterministicVerdict i =
     (case declared_red i of
        Some er \<Rightarrow> Some (machine_verdict ExpectedRed (er_brief er)
          [''declared '' @ er_verdict er @ '' at step '' @ decimal (er_step er) @ '': predicted '' @ [CHR 0x22]
             @ er_predictedActual er @ [CHR 0x22],
           ''observed actual: '' @ [CHR 0x22] @ it_actual i @ [CHR 0x22]] None)
      | None \<Rightarrow>
          if isSetupDefectResult (it_row i) then
            Some (machine_verdict SeedDefect (''the scenario's setup declaration failed before any step ran: '' @ it_actual i)
              (expected_and_actual i) (Some \<lparr>fx_layer = FixScenario, fx_description = it_actual i\<rparr>))
          else if rw_unservedRoute (it_row i) = Some True then
            Some (machine_verdict Infrastructure
              (''the request hit a route the recipe declares no server for (unserved route) - the fix is one recipe edit, not a code change: '' @ it_actual i)
              (expected_and_actual i) None)
          else None)"

subsection \<open>The tools of a session\<close>

record session_state =
  ss_reruns :: nat
  ss_controls :: "(string \<times> control_record) list"

definition newSessionState :: session_state where
  "newSessionState = \<lparr>ss_reruns = 0, ss_controls = []\<rparr>"

definition RERUN_MAX :: nat where
  "RERUN_MAX = 2"

definition CONTROL_MAX_EXECUTIONS :: nat where
  "CONTROL_MAX_EXECUTIONS = 3"

text \<open>How a control child ends: with its conclusion, or without one.\<close>

datatype child_end = ChildConcluded control_conclusion string | ChildFailed string

text \<open>A call of a tool that keeps something: a rerun, and a control with the reference the engine mints.\<close>

datatype tool_call = RerunScoped | VerifyBug child_end string

datatype tool_answer =
    RerunCapReached
  | NothingToRerun
  | Reran
  | NoScenarioYaml
  | ControlFailed string
  | ControlConcluded control_conclusion string

definition rerun_scoped :: "bool \<Rightarrow> session_state \<Rightarrow> tool_answer \<times> session_state" where
  "rerun_scoped hasScenario s =
     (if RERUN_MAX \<le> ss_reruns s then (RerunCapReached, s)
      else if \<not> hasScenario then (NothingToRerun, s)
      else (Reran, s\<lparr>ss_reruns := ss_reruns s + 1\<rparr>))"

definition verify_bug :: "bool \<Rightarrow> child_end \<Rightarrow> string \<Rightarrow> session_state \<Rightarrow> tool_answer \<times> session_state" where
  "verify_bug hasYaml child ref s =
     (if \<not> hasYaml then (NoScenarioYaml, s)
      else case child of
        ChildFailed e \<Rightarrow> (ControlFailed e, s)
      | ChildConcluded c reasoning \<Rightarrow>
          (ControlConcluded c ref,
           s\<lparr>ss_controls := AList.update ref \<lparr>cn_conclusion = c, cn_reasoning = reasoning\<rparr> (ss_controls s)\<rparr>))"

definition call_tool :: "item \<Rightarrow> session_state \<Rightarrow> tool_call \<Rightarrow> session_state" where
  "call_tool i s c =
     (case c of
        RerunScoped \<Rightarrow> snd (rerun_scoped (it_scenario i \<noteq> None) s)
      | VerifyBug child ref \<Rightarrow>
          snd (verify_bug (case it_scenario i of Some (_, raw, _) \<Rightarrow> raw \<noteq> [] | None \<Rightarrow> False) child ref s))"

text \<open>\<open>run_control\<close>: what its arguments read as, and the executions of the child so far.\<close>

datatype control_input = YamlBroken string | SchemaRefused string | BadPattern string | Runs

datatype control_answer = ControlCapReached | ControlRefused control_input | ControlRan

definition run_control :: "control_input \<Rightarrow> nat \<Rightarrow> control_answer \<times> nat" where
  "run_control inp executions =
     (if CONTROL_MAX_EXECUTIONS \<le> executions then (ControlCapReached, executions)
      else if inp \<noteq> Runs then (ControlRefused inp, executions)
      else (ControlRan, executions + 1))"

subsection \<open>The structural invariants of a verdict\<close>

datatype refusal =
    BugWithoutCode
  | BugWithoutControl
  | DefectWithoutFix adjudication_class
  | UnknownControl string
  | RestatedControl control_conclusion control_conclusion
  | RefutedBug

text \<open>A control is checked against the record of the session that claims it, where there is one.\<close>

definition control_refusal :: "session_state option \<Rightarrow> control \<Rightarrow> refusal option" where
  "control_refusal state c =
     (case state of
        None \<Rightarrow> None
      | Some s \<Rightarrow>
          (case map_of (ss_controls s) (cn_transcriptRef c) of
             None \<Rightarrow> Some (UnknownControl (cn_transcriptRef c))
           | Some r \<Rightarrow>
               if cn_conclusion r \<noteq> cn_conclusion c then Some (RestatedControl (cn_conclusion r) (cn_conclusion c))
               else None))"

definition adjudicationRefusalReason :: "'a adjudication_scheme \<Rightarrow> session_state option \<Rightarrow> refusal option" where
  "adjudicationRefusalReason v state =
     (if ad_class v = Bug \<and> ad_code v = None then Some BugWithoutCode
      else if ad_class v = Bug \<and> ad_confidence v \<noteq> LowConfidence \<and> ad_control v = None then Some BugWithoutControl
      else if (ad_class v = AuthoringDefect \<or> ad_class v = SeedDefect) \<and> ad_fix v = None
      then Some (DefectWithoutFix (ad_class v))
      else
        case Option.bind (ad_control v) (control_refusal state) of
          Some e \<Rightarrow> Some e
        | None \<Rightarrow>
            if ad_class v = Bug \<and> map_option cn_conclusion (ad_control v) = Some Refutes then Some RefutedBug else None)"

subsection \<open>Where a verdict goes\<close>

record ledger_entry =
  le_count :: nat
  le_source :: string
  le_updatedAt :: time

record flow_taint =
  tt_flowId :: string
  tt_surface :: string
  tt_title :: string
  tt_mismatch :: string
  tt_updatedAt :: time

record auto_resolutions =
  ar_entries :: "(string \<times> ledger_entry) list"
  ar_tainted :: "(string \<times> flow_taint) list"

definition autoResolutionKey :: "string \<Rightarrow> string \<Rightarrow> string" where
  "autoResolutionKey flowId surface = flowId @ CHR 0x00 # surface"

definition DEFAULT_AUTO_RESOLVE_ESCALATE_AFTER :: nat where
  "DEFAULT_AUTO_RESOLVE_ESCALATE_AFTER = 2"

record dismissed_claim =
  dc_claimId :: string
  dc_dismissedAt :: time
  dc_note :: "string option"
  dc_auto :: "bool option"
  dc_reason :: "string option"

definition dismissGuardClaim :: "dismissed_claim list \<Rightarrow> dismissed_claim \<Rightarrow> dismissed_claim list" where
  "dismissGuardClaim claims c = filter (\<lambda>d. dc_claimId d \<noteq> dc_claimId c) claims @ [c]"

definition undismissGuardClaim :: "dismissed_claim list \<Rightarrow> string \<Rightarrow> dismissed_claim list" where
  "undismissGuardClaim claims claimId = filter (\<lambda>d. dc_claimId d \<noteq> claimId) claims"

record guard_store =
  gd_runs :: "(string \<times> board) list"
  gd_latest :: "board option"
  gd_ledger :: auto_resolutions
  gd_dismissed :: "dismissed_claim list"
  gd_claims :: "string list"
  gd_cache :: "(string \<times> adjudication) list"

record tainted =
  ta_key :: string
  ta_count :: nat
  ta_escalated :: bool

record routing =
  rt_tainted :: "tainted option"
  rt_autoDismissed :: "string option"

definition truthy_text :: "string option \<Rightarrow> string option" where
  "truthy_text v = (if v = Some [] then None else v)"

definition failingClaimId :: "item \<Rightarrow> string option" where
  "failingClaimId i =
     (case truthy_text (Option.bind (it_diagnosis i) dg_claimId) of
        Some c \<Rightarrow> Some c
      | None \<Rightarrow>
          (case (rw_failedMilestone (it_row i), it_flow i) of
             (Some order, Some flow) \<Rightarrow> map_option ml_claimId (find (\<lambda>m. ml_order m = order) (fl_milestones flow))
           | _ \<Rightarrow> None))"

definition record_on_run :: "guard_store \<Rightarrow> item \<Rightarrow> scenario_adjudication \<Rightarrow> guard_store" where
  "record_on_run s i v =
     (case Option.bind (map_of (gd_runs s) (it_runId i)) (\<lambda>b. withScenarioAdjudication b (it_scenarioId i) v None) of
        Some b \<Rightarrow> s\<lparr>gd_runs := AList.update (ev_runId (bd_run b)) b (gd_runs s)\<rparr>
      | None \<Rightarrow> s)"

definition record_on_board :: "guard_store \<Rightarrow> item \<Rightarrow> scenario_adjudication \<Rightarrow> guard_store" where
  "record_on_board s i v =
     (case Option.bind (gd_latest s) (\<lambda>b. withScenarioAdjudication b (it_scenarioId i) v (Some (it_runId i))) of
        Some b \<Rightarrow> s\<lparr>gd_latest := Some b\<rparr>
      | None \<Rightarrow> s)"

definition taint_flow :: "guard_store \<Rightarrow> item \<Rightarrow> scenario_adjudication \<Rightarrow> string \<Rightarrow> time \<Rightarrow> guard_store \<times> tainted" where
  "taint_flow s i v flowId now =
     (let key = autoResolutionKey flowId (it_surface i);
          count = (case map_of (ar_entries (gd_ledger s)) key of Some e \<Rightarrow> le_count e | None \<Rightarrow> 0) + 1
      in (s\<lparr>gd_ledger :=
            \<lparr>ar_entries = AList.update key \<lparr>le_count = count, le_source = ''adjudicate'', le_updatedAt = now\<rparr>
               (ar_entries (gd_ledger s)),
             ar_tainted = AList.update key
               \<lparr>tt_flowId = flowId, tt_surface = it_surface i, tt_title = it_title i, tt_mismatch = ad_mechanism v,
                tt_updatedAt = now\<rparr> (ar_tainted (gd_ledger s))\<rparr>\<rparr>,
          \<lparr>ta_key = key, ta_count = count, ta_escalated = DEFAULT_AUTO_RESOLVE_ESCALATE_AFTER < count\<rparr>))"

definition auto_dismiss :: "guard_store \<Rightarrow> item \<Rightarrow> scenario_adjudication \<Rightarrow> bool \<Rightarrow> time \<Rightarrow> guard_store \<times> string option" where
  "auto_dismiss s i v escalated now =
     (if ad_confidence v = HighConfidence \<and> map_option fx_layer (ad_fix v) = Some FixScenario \<and> \<not> escalated then
        (case Option.bind (failingClaimId i) (\<lambda>c. if c \<in> set (gd_claims s) then Some c else None) of
           Some c \<Rightarrow>
             (s\<lparr>gd_dismissed := dismissGuardClaim (gd_dismissed s)
                 \<lparr>dc_claimId = c, dc_dismissedAt = now, dc_note = None, dc_auto = Some True,
                  dc_reason = Some (ad_mechanism v)\<rparr>\<rparr>, Some c)
         | None \<Rightarrow> (s, None))
      else (s, None))"

definition persistAdjudication :: "guard_store \<Rightarrow> item \<Rightarrow> scenario_adjudication \<Rightarrow> time \<Rightarrow> guard_store \<times> routing" where
  "persistAdjudication s i v now =
     (let s1 = record_on_board (record_on_run s i v) i v
      in case (ad_class v, truthy_text (it_flowId i)) of
           (AuthoringDefect, Some flowId) \<Rightarrow>
             (let (s2, t) = taint_flow s1 i v flowId now; (s3, c) = auto_dismiss s2 i v (ta_escalated t) now
              in (s3, \<lparr>rt_tainted = Some t, rt_autoDismissed = c\<rparr>))
         | _ \<Rightarrow> (s1, \<lparr>rt_tainted = None, rt_autoDismissed = None\<rparr>))"

subsection \<open>The work list\<close>

record manifest_flow =
  mf_flowId :: string
  mf_scenarios :: "(string \<times> diagnosis option) list"

text \<open>What the other stores hold: the manifest, the flows, and the scenario files, each with its raw text (none
  where it cannot be read) and what that parses to.\<close>

record corpus =
  co_manifest :: "manifest_flow list option"
  co_flows :: "guard_flow list option"
  co_files :: "(string \<times> string option \<times> stored_scenario option) list"

definition failingRows :: "board option \<Rightarrow> result_row list" where
  "failingRows latest =
     (case latest of None \<Rightarrow> [] | Some b \<Rightarrow> filter (\<lambda>r. isGuardFailure (rw_outcome r)) (bd_scenarios b))"

definition diagnosisById :: "corpus \<Rightarrow> string \<Rightarrow> diagnosis option" where
  "diagnosisById co i =
     map_of (rev (List.map_filter (\<lambda>(s, d). map_option (Pair s) d)
       (concat (map mf_scenarios (case co_manifest co of Some fs \<Rightarrow> fs | None \<Rightarrow> []))))) i"

definition flowIdByScenario :: "corpus \<Rightarrow> string \<Rightarrow> string option" where
  "flowIdByScenario co i =
     map_of (rev (concat (map (\<lambda>f. map (\<lambda>(s, _). (s, mf_flowId f)) (mf_scenarios f))
       (case co_manifest co of Some fs \<Rightarrow> fs | None \<Rightarrow> [])))) i"

definition flowById :: "corpus \<Rightarrow> string \<Rightarrow> guard_flow option" where
  "flowById co i = find (\<lambda>f. fl_id f = i) (rev (case co_flows co of Some fs \<Rightarrow> fs | None \<Rightarrow> []))"

text \<open>The first file that holds the scenario.\<close>

definition scenarioById :: "corpus \<Rightarrow> string \<Rightarrow> (string \<times> string \<times> stored_scenario) option" where
  "scenarioById co i =
     find (\<lambda>(file, raw, sc). sc_id sc = i)
       (List.map_filter (\<lambda>(file, raw, sc). case (raw, sc) of (Some r, Some c) \<Rightarrow> Some (file, r, c) | _ \<Rightarrow> None)
         (co_files co))"

definition first_of :: "'a option list \<Rightarrow> 'a option" where
  "first_of vs = foldr (\<lambda>v rest. case v of Some x \<Rightarrow> Some x | None \<Rightarrow> rest) vs None"

definition item_of :: "corpus \<Rightarrow> run_envelope \<Rightarrow> bool \<Rightarrow> result_row \<Rightarrow> item" where
  "item_of co env scoped row =
     (let runId = guardResultRunId row env;
          found = scenarioById co (rw_id row);
          diag = diagnosisById co (rw_id row);
          flowId = truthy_text (first_of [rw_flowId row, Option.bind found (\<lambda>(_, _, sc). sc_flowId sc),
            flowIdByScenario co (rw_id row)])
      in \<lparr>it_scenarioId = rw_id row, it_title = rw_title row, it_outcome = rw_outcome row, it_runId = runId, it_row = row,
          it_step = (case rw_failure row of Some f \<Rightarrow> fd_step f | None \<Rightarrow> 1),
          it_expected = (case rw_failure row of Some f \<Rightarrow> fd_expected f | None \<Rightarrow> []),
          it_actual = (case rw_failure row of Some f \<Rightarrow> fd_actual f | None \<Rightarrow> []),
          it_surface = itemSurface (map_option (\<lambda>(_, _, sc). sc_body sc) found),
          it_flowId = flowId,
          it_evidenceDir = (case rw_evidencePath row of Some p \<Rightarrow> p | None \<Rightarrow> evidenceRelPath runId (rw_id row)),
          it_scenario = found,
          it_flow = Option.bind flowId (flowById co),
          it_diagnosis = diag,
          it_expectedRed = Option.bind diag dg_expectedRed,
          it_prior = (if scoped then rw_adjudication row else None)\<rparr>)"

datatype prepare_error = NoBoard | UnknownScenarios "string list"

record prepared =
  pp_latest :: board
  pp_items :: "item list"
  pp_alreadyAdjudicated :: nat
  pp_deterministic :: "(string \<times> adjudication) list"
  pp_cached :: "(string \<times> adjudication) list"
  pp_sessionItems :: "item list"

definition rows_in_scope :: "board \<Rightarrow> string option \<Rightarrow> result_row list" where
  "rows_in_scope latest runId =
     (case truthy_text runId of
        None \<Rightarrow> failingRows (Some latest)
      | Some r \<Rightarrow> filter (\<lambda>row. guardResultRunId row (bd_run latest) = r) (failingRows (Some latest)))"

text \<open>The scenarios the caller named, where it named any.\<close>

definition scope_of :: "string list option \<Rightarrow> string list option" where
  "scope_of scenarios = (if scenarios = Some [] then None else map_option js_set scenarios)"

definition taken :: "string list option \<Rightarrow> result_row \<Rightarrow> bool" where
  "taken scoped row \<longleftrightarrow> (case scoped of Some ids \<Rightarrow> rw_id row \<in> set ids | None \<Rightarrow> rw_adjudication row = None)"

text \<open>The cached verdict of an item, where the cache is asked and holds one that stands. The key is a hash of
  the failure; an entry the schema does not read is none.\<close>

definition cached_verdict :: "guard_store \<Rightarrow> (item \<Rightarrow> string) \<Rightarrow> bool \<Rightarrow> item \<Rightarrow> adjudication option" where
  "cached_verdict s cacheKey scoped i =
     (if scoped then None
      else case map_of (gd_cache s) (cacheKey i) of
        Some v \<Rightarrow> if adjudicationRefusalReason v None = None then Some v else None
      | None \<Rightarrow> None)"

text \<open>The rows in scope, joined and sorted out: settled by a rule, by the cache, or left to a session.\<close>

definition prepared_of ::
    "guard_store \<Rightarrow> corpus \<Rightarrow> (item \<Rightarrow> string) \<Rightarrow> board \<Rightarrow> string list option \<Rightarrow> result_row list \<Rightarrow> prepared" where
  "prepared_of s co cacheKey latest scoped rows =
     (let items = map (item_of co (bd_run latest) (scoped \<noteq> None)) (filter (taken scoped) rows);
          cachedFor = (\<lambda>i. if deterministicVerdict i = None then cached_verdict s cacheKey (scoped \<noteq> None) i else None)
      in \<lparr>pp_latest = latest, pp_items = items,
          pp_alreadyAdjudicated =
            (if scoped \<noteq> None then 0 else length (filter (\<lambda>r. rw_adjudication r \<noteq> None) rows)),
          pp_deterministic = List.map_filter (\<lambda>i. map_option (Pair (it_scenarioId i)) (deterministicVerdict i)) items,
          pp_cached = List.map_filter (\<lambda>i. map_option (Pair (it_scenarioId i)) (cachedFor i)) items,
          pp_sessionItems = filter (\<lambda>i. deterministicVerdict i = None \<and> cachedFor i = None) items\<rparr>)"

definition unknown_scenarios :: "string list option \<Rightarrow> result_row list \<Rightarrow> string list" where
  "unknown_scenarios scoped rows =
     (case scoped of Some ids \<Rightarrow> filter (\<lambda>i. i \<notin> set (map rw_id rows)) ids | None \<Rightarrow> [])"

definition prepareAdjudication ::
    "guard_store \<Rightarrow> corpus \<Rightarrow> (item \<Rightarrow> string) \<Rightarrow> string option \<Rightarrow> string list option \<Rightarrow> prepare_error + prepared" where
  "prepareAdjudication s co cacheKey runId scenarios =
     (case gd_latest s of
        None \<Rightarrow> Inl NoBoard
      | Some latest \<Rightarrow>
          (let rows = rows_in_scope latest runId; scoped = scope_of scenarios
           in if unknown_scenarios scoped rows \<noteq> [] then Inl (UnknownScenarios (unknown_scenarios scoped rows))
              else Inr (prepared_of s co cacheKey latest scoped rows)))"

record adjudication_plan =
  pl_failures :: nat
  pl_already :: nat
  pl_prePassed :: nat
  pl_cached :: nat
  pl_sessions :: nat

definition planGuardAdjudication ::
    "guard_store \<Rightarrow> corpus \<Rightarrow> (item \<Rightarrow> string) \<Rightarrow> string option \<Rightarrow> string list option \<Rightarrow> prepare_error + adjudication_plan" where
  "planGuardAdjudication s co cacheKey runId scenarios =
     map_sum id (\<lambda>p. \<lparr>pl_failures = length (pp_items p), pl_already = pp_alreadyAdjudicated p,
         pl_prePassed = length (js_set (map fst (pp_deterministic p))),
         pl_cached = length (js_set (map fst (pp_cached p))), pl_sessions = length (pp_sessionItems p)\<rparr>)
       (prepareAdjudication s co cacheKey runId scenarios)"

subsection \<open>The run\<close>

datatype verdict_source = FromPrePass | FromCache | FromSession

datatype no_verdict = SessionFailed string | VerdictRefused refusal | NeverRan

record verdict_row =
  vr_scenarioId :: string
  vr_source :: verdict_source
  vr_result :: "no_verdict + scenario_adjudication \<times> routing"

definition stamped :: "adjudication \<Rightarrow> time \<Rightarrow> uuid option \<Rightarrow> scenario_adjudication" where
  "stamped v now session = adjudication.extend v \<lparr>ad_adjudicatedAt = now, ad_sessionId = session\<rparr>"

type_synonym progress = "guard_store \<times> (string \<times> verdict_row) list"

definition settle :: "item \<Rightarrow> adjudication \<Rightarrow> verdict_source \<Rightarrow> time \<Rightarrow> progress \<Rightarrow> progress" where
  "settle i v src now pr =
     (let verdict = stamped v now None; (s, r) = persistAdjudication (fst pr) i verdict now
      in (s, AList.update (it_scenarioId i)
            \<lparr>vr_scenarioId = it_scenarioId i, vr_source = src, vr_result = Inr (verdict, r)\<rparr> (snd pr)))"

definition settle_prepared :: "prepared \<Rightarrow> time \<Rightarrow> progress \<Rightarrow> item \<Rightarrow> progress" where
  "settle_prepared p now pr i =
     (case map_of (rev (pp_deterministic p)) (it_scenarioId i) of
        Some v \<Rightarrow> settle i v FromPrePass now pr
      | None \<Rightarrow>
          (case map_of (rev (pp_cached p)) (it_scenarioId i) of
             Some v \<Rightarrow> settle i v FromCache now pr
           | None \<Rightarrow> pr))"

text \<open>One session as the pool folds it: the calls of its tools, then its output or its failure.\<close>

datatype session_result = Completed adjudication uuid | NotCompleted string

record session_fold =
  sf_item :: item
  sf_calls :: "tool_call list"
  sf_result :: session_result
  sf_now :: time

definition state_of_session :: "item \<Rightarrow> tool_call list \<Rightarrow> session_state" where
  "state_of_session i calls = foldl (call_tool i) newSessionState calls"

definition no_verdict_row :: "item \<Rightarrow> no_verdict \<Rightarrow> verdict_row" where
  "no_verdict_row i why = \<lparr>vr_scenarioId = it_scenarioId i, vr_source = FromSession, vr_result = Inl why\<rparr>"

definition fold_session :: "(item \<Rightarrow> string) \<Rightarrow> progress \<Rightarrow> session_fold \<Rightarrow> progress" where
  "fold_session cacheKey pr f =
     (let i = sf_item f
      in case sf_result f of
           NotCompleted e \<Rightarrow> (fst pr, AList.update (it_scenarioId i) (no_verdict_row i (SessionFailed e)) (snd pr))
         | Completed v session \<Rightarrow>
             (case adjudicationRefusalReason v (Some (state_of_session i (sf_calls f))) of
                Some why \<Rightarrow> (fst pr, AList.update (it_scenarioId i) (no_verdict_row i (VerdictRefused why)) (snd pr))
              | None \<Rightarrow>
                  (let verdict = stamped v (sf_now f) (Some session);
                       (s, r) = persistAdjudication (fst pr) i verdict (sf_now f)
                   in (s\<lparr>gd_cache := AList.update (cacheKey i) v (gd_cache s)\<rparr>,
                       AList.update (it_scenarioId i)
                         \<lparr>vr_scenarioId = it_scenarioId i, vr_source = FromSession, vr_result = Inr (verdict, r)\<rparr> (snd pr)))))"

record adjudication_run =
  an_boardRunId :: string
  an_scenarios :: "verdict_row list"
  an_alreadyAdjudicated :: nat

definition report_row :: "(string \<times> verdict_row) list \<Rightarrow> item \<Rightarrow> verdict_row" where
  "report_row rows i = (case map_of rows (it_scenarioId i) of Some r \<Rightarrow> r | None \<Rightarrow> no_verdict_row i NeverRan)"

text \<open>The command over the folds its pool delivers, in their order; none where it was aborted before.\<close>

definition runGuardAdjudication ::
    "guard_store \<Rightarrow> corpus \<Rightarrow> (item \<Rightarrow> string) \<Rightarrow> string option \<Rightarrow> string list option \<Rightarrow> time \<Rightarrow> session_fold list
      \<Rightarrow> prepare_error + guard_store \<times> adjudication_run" where
  "runGuardAdjudication s co cacheKey runId scenarios now folds =
     map_sum id (\<lambda>p.
         let (s', rows) = foldl (fold_session cacheKey) (foldl (settle_prepared p now) (s, []) (pp_items p)) folds
         in (s', \<lparr>an_boardRunId = ev_runId (bd_run (pp_latest p)), an_scenarios = map (report_row rows) (pp_items p),
              an_alreadyAdjudicated = pp_alreadyAdjudicated p\<rparr>))
       (prepareAdjudication s co cacheKey runId scenarios)"

subsection \<open>Convergence\<close>

definition outcomes_of :: "(string \<Rightarrow> string) \<Rightarrow> board \<Rightarrow> (string \<times> guard_outcome) list" where
  "outcomes_of loc b = map (\<lambda>r. (rw_id r, rw_outcome r)) (sort_key (loc \<circ> rw_id) (bd_scenarios b))"

text \<open>The history is its entries, a run id and a summary each.\<close>

definition computeConverged ::
    "(string \<Rightarrow> string) \<Rightarrow> guard_store \<Rightarrow> (string \<times> summary) list \<Rightarrow> bool" where
  "computeConverged loc s history \<longleftrightarrow>
     gd_latest s \<noteq> None
     \<and> list_all (\<lambda>r. rw_adjudication r \<noteq> None) (failingRows (gd_latest s))
     \<and> 2 \<le> length history
     \<and> (let prev = history ! (length history - 2); l = history ! (length history - 1)
        in snd prev = snd l
           \<and> (case (map_of (gd_runs s) (fst prev), map_of (gd_runs s) (fst l)) of
                (Some a, Some b) \<Rightarrow> outcomes_of loc a = outcomes_of loc b
              | _ \<Rightarrow> False))"

subsection \<open>The findings report\<close>

text \<open>The numbering registry of the prior report, as its JSON reads.\<close>

definition parseFindingNumbering :: "json option \<Rightarrow> (string \<times> int) list" where
  "parseFindingNumbering parsed =
     (case parsed of
        Some (JObj kvs) \<Rightarrow> List.map_filter (\<lambda>(i, v). case v of JNum n \<Rightarrow> if 0 < n then Some (i, n) else None | _ \<Rightarrow> None) kvs
      | _ \<Rightarrow> [])"

definition isReportFinding :: "result_row \<Rightarrow> bool" where
  "isReportFinding row \<longleftrightarrow> (case rw_adjudication row of Some v \<Rightarrow> ad_class v = Bug \<or> ad_class v = Drift | None \<Rightarrow> False)"

definition number_row :: "(string \<times> int) list \<times> int \<Rightarrow> result_row \<Rightarrow> (string \<times> int) list \<times> int" where
  "number_row st row =
     (case map_of (fst st) (rw_id row) of
        Some _ \<Rightarrow> st
      | None \<Rightarrow> (fst st @ [(rw_id row, snd st)], snd st + 1))"

definition assign_numbers :: "(string \<times> int) list \<Rightarrow> result_row list \<Rightarrow> (string \<times> int) list" where
  "assign_numbers numbering rows =
     fst (foldl number_row (numbering, foldl max 0 (map snd numbering) + 1) rows)"

record findings_report =
  fr_numbering :: "(string \<times> int) list"
  fr_ordered :: "(int \<times> result_row) list"

definition renderGuardFindingsReport :: "board option \<Rightarrow> bool \<Rightarrow> json option \<Rightarrow> findings_report option" where
  "renderGuardFindingsReport latest hasPrior registry =
     (let rows = filter isReportFinding (case latest of Some b \<Rightarrow> bd_scenarios b | None \<Rightarrow> []);
          numbering = assign_numbers (parseFindingNumbering registry) rows;
          number = (\<lambda>row. the (map_of numbering (rw_id row)))
      in if rows = [] \<and> \<not> hasPrior then None
         else Some \<lparr>fr_numbering = numbering, fr_ordered = map (\<lambda>r. (number r, r)) (sort_key number rows)\<rparr>)"

subsection \<open>The findings ledger\<close>

definition line_key :: "string \<Rightarrow> string" where
  "line_key line = map js_lower (js_trim line)"

definition keep_line :: "string \<Rightarrow> string list \<times> (string \<times> string) list \<Rightarrow> string \<Rightarrow> string list \<times> (string \<times> string) list" where
  "keep_line workItem st line =
     (if line_key line = [] \<or> line_key line \<in> set (fst st) then st
      else (fst st @ [line_key line], snd st @ [(workItem, line)]))"

definition dedupe_lines :: "(string \<times> string list) list \<Rightarrow> (string \<times> string) list" where
  "dedupe_lines findings = snd (foldl (\<lambda>st (w, ls). foldl (keep_line w) st ls) ([], []) findings)"

text \<open>The sections of a ledger file; nothing is appended where nothing was found.\<close>

definition appendFindingsLedger ::
    "(string \<times> time \<times> (string \<times> string) list) list \<Rightarrow> string \<Rightarrow> time \<Rightarrow> (string \<times> string list) list
      \<Rightarrow> (string \<times> time \<times> (string \<times> string) list) list" where
  "appendFindingsLedger file runId now findings =
     (if dedupe_lines findings = [] then file else file @ [(runId, now, dedupe_lines findings)])"

subsection \<open>Only sound verdicts land\<close>

lemma stamped_fields [simp]:
  "ad_class (stamped v now j) = ad_class v" "ad_code (stamped v now j) = ad_code v"
  "ad_control (stamped v now j) = ad_control v" "ad_fix (stamped v now j) = ad_fix v"
  "ad_confidence (stamped v now j) = ad_confidence v"
  by (simp_all add: stamped_def adjudication.extend_def)

lemma refusal_stamped [simp]: "adjudicationRefusalReason (stamped v now j) st = adjudicationRefusalReason v st"
  by (simp only: adjudicationRefusalReason_def stamped_fields)

definition sound_verdict :: "'a adjudication_scheme \<Rightarrow> bool" where
  "sound_verdict v \<longleftrightarrow> adjudicationRefusalReason v None = None"

lemma no_record_no_refusal [simp]: "Option.bind c (control_refusal None) = None"
  by (cases c) (simp_all add: control_refusal_def)

lemma sound_verdict_iff:
  "sound_verdict v \<longleftrightarrow>
     (ad_class v = Bug \<longrightarrow> ad_code v \<noteq> None \<and> (ad_confidence v = LowConfidence \<or> ad_control v \<noteq> None)
        \<and> map_option cn_conclusion (ad_control v) \<noteq> Some Refutes)
     \<and> (ad_class v = AuthoringDefect \<or> ad_class v = SeedDefect \<longrightarrow> ad_fix v \<noteq> None)"
  by (simp add: sound_verdict_def adjudicationRefusalReason_def)

lemma accepted_sound: "adjudicationRefusalReason v st = None \<Longrightarrow> sound_verdict v"
  by (auto simp: sound_verdict_def adjudicationRefusalReason_def split: option.splits if_splits)

lemma deterministic_sound: "deterministicVerdict i = Some v \<Longrightarrow> sound_verdict v"
  by (auto simp: deterministicVerdict_def machine_verdict_def sound_verdict_iff split: option.splits if_splits)

lemma cached_sound: "cached_verdict s key scoped i = Some v \<Longrightarrow> sound_verdict v"
  by (auto simp: cached_verdict_def sound_verdict_def split: option.splits if_splits)

lemma sound_stamped [simp]: "sound_verdict (stamped v now j) \<longleftrightarrow> sound_verdict v"
  by (simp add: sound_verdict_def)

definition sound_board :: "board \<Rightarrow> bool" where
  "sound_board b \<longleftrightarrow> list_all (\<lambda>r. pred_option sound_verdict (rw_adjudication r)) (bd_scenarios b)"

definition sound_store :: "guard_store \<Rightarrow> bool" where
  "sound_store s \<longleftrightarrow> pred_option sound_board (gd_latest s) \<and> list_all (\<lambda>(_, b). sound_board b) (gd_runs s)"

lemma sound_with:
  assumes "withScenarioAdjudication b i v only = Some b'" and "sound_board b" and "sound_verdict v"
  shows "sound_board b'"
  using assms by (auto simp: withScenarioAdjudication_def sound_board_def list_all_iff split: if_splits)

lemma sound_update: "list_all P kvs \<Longrightarrow> P (k, v) \<Longrightarrow> list_all P (AList.update k v kvs)"
  by (induction kvs) auto

lemma record_on_board_annotated:
  "record_on_board s i v = s\<lparr>gd_latest := map_option (\<lambda>b. annotated b (it_scenarioId i) v (it_runId i)) (gd_latest s)\<rparr>"
  by (cases "gd_latest s") (auto simp: record_on_board_def annotated_def split: option.split)

lemma record_on_run_fields [simp]:
  "gd_latest (record_on_run s i v) = gd_latest s" "gd_ledger (record_on_run s i v) = gd_ledger s"
  "gd_cache (record_on_run s i v) = gd_cache s"
  by (simp_all add: record_on_run_def split: option.split)

lemma sound_record:
  assumes "sound_store s" and "sound_verdict v"
  shows "sound_store (record_on_board (record_on_run s i v) i v)"
proof -
  have "list_all (\<lambda>(_, b). sound_board b) (gd_runs (record_on_run s i v))"
  proof (cases "Option.bind (map_of (gd_runs s) (it_runId i)) (\<lambda>b. withScenarioAdjudication b (it_scenarioId i) v None)")
    case (Some b')
    then obtain b where b: "map_of (gd_runs s) (it_runId i) = Some b" "withScenarioAdjudication b (it_scenarioId i) v None = Some b'"
      by (auto simp: bind_eq_Some_conv)
    from map_of_SomeD [OF b(1)] assms(1) have "sound_board b" by (auto simp: sound_store_def list_all_iff)
    with b(2) assms show ?thesis
      by (simp add: record_on_run_def Some sound_update sound_with sound_store_def)
  qed (use assms(1) in \<open>simp add: record_on_run_def sound_store_def\<close>)
  moreover have "pred_option sound_board (gd_latest (record_on_board (record_on_run s i v) i v))"
    using assms
    by (auto simp: record_on_board_def sound_store_def bind_eq_Some_conv split: option.splits dest: sound_with)
  moreover have "gd_runs (record_on_board s' i v) = gd_runs s'" for s'
    by (simp add: record_on_board_annotated)
  ultimately show ?thesis by (simp add: sound_store_def)
qed

lemma persist_boards:
  "gd_latest (fst (persistAdjudication s i v now)) = gd_latest (record_on_board (record_on_run s i v) i v)"
  "gd_runs (fst (persistAdjudication s i v now)) = gd_runs (record_on_board (record_on_run s i v) i v)"
  by (simp_all add: persistAdjudication_def taint_flow_def auto_dismiss_def Let_def case_prod_beta
      split: adjudication_class.split option.split)

lemma sound_persist:
  "sound_store s \<Longrightarrow> sound_verdict v \<Longrightarrow> sound_store (fst (persistAdjudication s i v now))"
  using sound_record [of s v i] by (simp add: sound_store_def persist_boards)

text \<open>The rows of a report whose verdict landed hold sound ones too.\<close>

definition sound_progress :: "progress \<Rightarrow> bool" where
  "sound_progress pr \<longleftrightarrow> sound_store (fst pr)
     \<and> list_all (\<lambda>(_, r). case vr_result r of Inl _ \<Rightarrow> True | Inr (v, _) \<Rightarrow> sound_verdict v) (snd pr)"

lemma sound_settle: "sound_progress pr \<Longrightarrow> sound_verdict v \<Longrightarrow> sound_progress (settle i v src now pr)"
  by (auto simp: sound_progress_def settle_def Let_def case_prod_beta sound_persist intro!: sound_update)

lemma sound_settle_prepared:
  assumes "sound_progress pr" and "list_all (\<lambda>(_, v). sound_verdict v) (pp_deterministic p)"
    and "list_all (\<lambda>(_, v). sound_verdict v) (pp_cached p)"
  shows "sound_progress (settle_prepared p now pr i)"
  using assms
  by (auto simp: settle_prepared_def list_all_iff split: option.split dest!: map_of_SomeD intro!: sound_settle)

lemma sound_store_cache [simp]: "sound_store (s\<lparr>gd_cache := c\<rparr>) \<longleftrightarrow> sound_store s"
  by (simp add: sound_store_def)

lemma sound_fold_session:
  assumes "sound_progress pr"
  shows "sound_progress (fold_session key pr f)"
proof (cases "sf_result f")
  case (NotCompleted e)
  with assms show ?thesis
    by (simp add: sound_progress_def fold_session_def Let_def no_verdict_row_def sound_update)
next
  case (Completed v session)
  show ?thesis
  proof (cases "adjudicationRefusalReason v (Some (state_of_session (sf_item f) (sf_calls f)))")
    case (Some why)
    with Completed assms show ?thesis
      by (simp add: sound_progress_def fold_session_def Let_def no_verdict_row_def sound_update)
  next
    case None
    from accepted_sound [OF this] have v: "sound_verdict (stamped v (sf_now f) (Some session))" by simp
    with sound_persist [OF _ v, of "fst pr"] Completed None assms show ?thesis
      by (simp add: sound_progress_def fold_session_def Let_def case_prod_beta sound_update)
  qed
qed

definition sound_prepared :: "prepared \<Rightarrow> bool" where
  "sound_prepared p \<longleftrightarrow> list_all (\<lambda>(_, v). sound_verdict v) (pp_deterministic p)
     \<and> list_all (\<lambda>(_, v). sound_verdict v) (pp_cached p)"

interpretation prepared_stays_sound: invariant_machine "settle_prepared p now"
    "\<lambda>pr. sound_prepared p \<longrightarrow> sound_progress pr" for p now
  by unfold_locales (auto simp: sound_prepared_def intro: sound_settle_prepared)

interpretation folds_stay_sound: invariant_machine "fold_session key" sound_progress for key
  by unfold_locales (rule sound_fold_session)

lemma prepared_sound:
  assumes "prepareAdjudication s co key runId scenarios = Inr p"
  shows "sound_prepared p"
  using assms
  by (auto simp: sound_prepared_def prepareAdjudication_def prepared_of_def Let_def list_all_iff map_filter_def
      deterministic_sound cached_sound split: option.splits if_splits)

text \<open>C36: Whatever the sessions answer and the cache holds, a run of the adjudication leaves only sound verdicts on
  the boards: a bug with its place in the source, with a control above low confidence and never a refuted
  one, and a defect with its fix. A verdict that is not is reported as refused.\<close>

theorem only_sound_verdicts_land:
  assumes "runGuardAdjudication s co key runId scenarios now folds = Inr (s', rep)" and "sound_store s"
  shows "sound_store s'
    \<and> list_all (\<lambda>r. case vr_result r of Inl _ \<Rightarrow> True | Inr (v, _) \<Rightarrow> sound_verdict v) (an_scenarios rep)"
proof -
  obtain p where p: "prepareAdjudication s co key runId scenarios = Inr p"
    using assms(1) by (auto simp: runGuardAdjudication_def map_sum_def split: sum.splits)
  have "sound_progress (foldl (settle_prepared p now) (s, []) (pp_items p))"
    using prepared_stays_sound.run_inv [of p "(s, [])" now "pp_items p"] prepared_sound [OF p] assms(2)
    by (simp add: sound_progress_def)
  from folds_stay_sound.run_inv [OF this]
  have "sound_progress (foldl (fold_session key) (foldl (settle_prepared p now) (s, []) (pp_items p)) folds)" .
  moreover obtain rows where rows:
    "foldl (fold_session key) (foldl (settle_prepared p now) (s, []) (pp_items p)) folds = (s', rows)"
    "an_scenarios rep = map (report_row rows) (pp_items p)"
    using assms(1) by (auto simp: runGuardAdjudication_def p Let_def split: prod.splits)
  ultimately show ?thesis
    by (auto simp: sound_progress_def list_all_iff report_row_def no_verdict_row_def split: option.split dest!: map_of_SomeD)
qed

definition demo_item :: item where
  "demo_item = \<lparr>it_scenarioId = ''a'', it_title = ''a'', it_outcome = OutFail, it_runId = ''r1'', it_row = demo_row ''a'' OutFail,
     it_step = 1, it_expected = [], it_actual = [], it_surface = ''cli'', it_flowId = None, it_evidenceDir = [],
     it_scenario = None, it_flow = None, it_diagnosis = None, it_expectedRed = None, it_prior = None\<rparr>"

definition empty_corpus :: corpus where
  "empty_corpus = \<lparr>co_manifest = None, co_flows = None, co_files = []\<rparr>"

definition demo_store :: guard_store where
  "demo_store = \<lparr>gd_runs = [(''r1'', morning_board)], gd_latest = Some morning_board,
     gd_ledger = \<lparr>ar_entries = [], ar_tainted = []\<rparr>, gd_dismissed = [], gd_claims = [], gd_cache = []\<rparr>"

definition demo_drift :: adjudication where
  "demo_drift = machine_verdict Drift ''m'' [''e''] None"

text \<open>Two failures, two sessions: one says drift, one a bug it found no place for.\<close>

definition demo_folds :: "session_fold list" where
  "demo_folds =
     (let items = map (item_of empty_corpus (bd_run morning_board) False) (bd_scenarios morning_board)
      in [\<lparr>sf_item = items ! 0, sf_calls = [], sf_result = Completed demo_drift ''s1'', sf_now = ''t1''\<rparr>,
          \<lparr>sf_item = items ! 1, sf_calls = [], sf_result = Completed (demo_drift\<lparr>ad_class := Bug\<rparr>) ''s2'', sf_now = ''t2''\<rparr>])"

definition demo_adjudicated :: "guard_store \<times> adjudication_run" where
  "demo_adjudicated = projr (runGuardAdjudication demo_store empty_corpus it_scenarioId None None ''t'' demo_folds)"

lemma demo_adjudication:
  "runGuardAdjudication demo_store empty_corpus it_scenarioId None None ''t'' demo_folds
    = Inr (fst demo_adjudicated, snd demo_adjudicated)"
  by code_simp

theorem only_sound_verdicts_land_witness:
  "sound_store (fst demo_adjudicated) \<and> map vr_result (an_scenarios (snd demo_adjudicated))
    = [Inr (stamped demo_drift ''t1'' (Some ''s1''), \<lparr>rt_tainted = None, rt_autoDismissed = None\<rparr>),
       Inl (VerdictRefused BugWithoutCode)]"
proof -
  have "sound_store demo_store" by code_simp
  moreover have "map vr_result (an_scenarios (snd demo_adjudicated))
      = [Inr (stamped demo_drift ''t1'' (Some ''s1''), \<lparr>rt_tainted = None, rt_autoDismissed = None\<rparr>),
         Inl (VerdictRefused BugWithoutCode)]"
    by code_simp
  ultimately show ?thesis
    using only_sound_verdicts_land [OF demo_adjudication] by blast
qed

subsection \<open>A bug rests on a control that ran\<close>

text \<open>The record of a session holds what its children concluded, under the references the engine minted.\<close>

lemma session_controls:
  assumes "map_of (ss_controls (foldl (call_tool i) s calls)) ref = Some r"
  shows "map_of (ss_controls s) ref = Some r
    \<or> VerifyBug (ChildConcluded (cn_conclusion r) (cn_reasoning r)) ref \<in> set calls"
  using assms
proof (induction calls arbitrary: s)
  case (Cons c calls)
  have "map_of (ss_controls (call_tool i s c)) ref = Some r \<Longrightarrow> map_of (ss_controls s) ref = Some r
      \<or> c = VerifyBug (ChildConcluded (cn_conclusion r) (cn_reasoning r)) ref"
    by (auto simp: call_tool_def rerun_scoped_def verify_bug_def update_conv
        split: tool_call.splits child_end.splits option.splits if_splits)
  with Cons.IH [of "call_tool i s c"] Cons.prems show ?case by auto
qed simp

lemma accepted_control_ran:
  assumes "adjudicationRefusalReason v (Some (state_of_session i calls)) = None" and "ad_control v = Some c"
  shows "\<exists>reasoning. VerifyBug (ChildConcluded (cn_conclusion c) reasoning) (cn_transcriptRef c) \<in> set calls"
proof -
  have "control_refusal (Some (state_of_session i calls)) c = None"
    using assms by (auto simp: adjudicationRefusalReason_def split: if_splits option.splits)
  then obtain r where "map_of (ss_controls (state_of_session i calls)) (cn_transcriptRef c) = Some r"
    "cn_conclusion r = cn_conclusion c"
    by (auto simp: control_refusal_def split: option.splits if_splits)
  with session_controls [of i newSessionState calls "cn_transcriptRef c" r] show ?thesis
    by (auto simp: state_of_session_def newSessionState_def)
qed

text \<open>A verdict the folds put into the report from a session was accepted at the end of that session.\<close>

definition from_fold :: "session_fold list \<Rightarrow> verdict_row \<Rightarrow> bool" where
  "from_fold folds r \<longleftrightarrow>
     (case vr_result r of
        Inl _ \<Rightarrow> True
      | Inr (v, _) \<Rightarrow> vr_source r = FromSession \<longrightarrow>
          (\<exists>f w j. f \<in> set folds \<and> sf_result f = Completed w j \<and> v = stamped w (sf_now f) (Some j)
             \<and> it_scenarioId (sf_item f) = vr_scenarioId r
             \<and> adjudicationRefusalReason w (Some (state_of_session (sf_item f) (sf_calls f))) = None))"

lemma from_fold_mono: "from_fold folds r \<Longrightarrow> set folds \<subseteq> set folds' \<Longrightarrow> from_fold folds' r"
  by (fastforce simp: from_fold_def split: sum.splits)

lemma from_fold_step:
  assumes "list_all (\<lambda>(_, r). from_fold folds r) (snd pr)" and "f \<in> set folds"
  shows "list_all (\<lambda>(_, r). from_fold folds r) (snd (fold_session key pr f))"
proof (cases "sf_result f")
  case (NotCompleted e)
  with assms(1) show ?thesis
    by (simp add: fold_session_def Let_def no_verdict_row_def from_fold_def sound_update)
next
  case (Completed w j)
  let ?reason = "adjudicationRefusalReason w (Some (state_of_session (sf_item f) (sf_calls f)))"
  have "from_fold folds \<lparr>vr_scenarioId = it_scenarioId (sf_item f), vr_source = FromSession,
      vr_result = Inr (stamped w (sf_now f) (Some j), rt)\<rparr>" if "?reason = None" for rt
    using that assms(2) Completed by (auto simp: from_fold_def)
  moreover have "from_fold folds (no_verdict_row i why)" for i why
    by (simp add: from_fold_def no_verdict_row_def)
  ultimately show ?thesis
    using assms(1) Completed
    by (cases ?reason) (simp_all add: fold_session_def Let_def case_prod_beta sound_update)
qed

lemma from_folds:
  assumes "list_all (\<lambda>(_, r). from_fold folds r) (snd pr)" and "set fs \<subseteq> set folds"
  shows "list_all (\<lambda>(_, r). from_fold folds r) (snd (foldl (fold_session key) pr fs))"
  using assms by (induction fs arbitrary: pr) (simp_all add: from_fold_step)

lemma from_prepared:
  assumes "list_all (\<lambda>(_, r). from_fold folds r) (snd pr)"
  shows "list_all (\<lambda>(_, r). from_fold folds r) (snd (foldl (settle_prepared p now) pr items))"
  using assms
proof (induction items arbitrary: pr)
  case (Cons i items)
  have other: "src \<noteq> FromSession \<Longrightarrow> from_fold folds \<lparr>vr_scenarioId = k, vr_source = src, vr_result = x\<rparr>" for src k x
    by (simp add: from_fold_def split: sum.split)
  have "list_all (\<lambda>(_, r). from_fold folds r) (snd (settle_prepared p now pr i))"
    using Cons.prems by (simp add: settle_prepared_def settle_def Let_def case_prod_unfold sound_update other split: option.split)
  with Cons.IH show ?case by simp
qed simp

text \<open>C33: A bug a session puts on the board rests on a control that ran. The verdict names its place in the
  source, and above low confidence it cites a reference under which, in that very session, a control child
  came to the conclusion the verdict states, and that conclusion is not that the mechanism is refuted.\<close>

theorem standing_bug_is_controlled:
  assumes "runGuardAdjudication s co key runId scenarios now folds = Inr (s', rep)"
    and "r \<in> set (an_scenarios rep)" and "vr_source r = FromSession" and "vr_result r = Inr (v, rt)" and "ad_class v = Bug"
  shows "ad_code v \<noteq> None \<and>
    (ad_confidence v = LowConfidence \<or>
      (\<exists>c f reasoning. ad_control v = Some c \<and> cn_conclusion c \<noteq> Refutes
         \<and> f \<in> set folds \<and> it_scenarioId (sf_item f) = vr_scenarioId r
         \<and> VerifyBug (ChildConcluded (cn_conclusion c) reasoning) (cn_transcriptRef c) \<in> set (sf_calls f)))"
proof -
  obtain p rows where p: "prepareAdjudication s co key runId scenarios = Inr p"
    "foldl (fold_session key) (foldl (settle_prepared p now) (s, []) (pp_items p)) folds = (s', rows)"
    "an_scenarios rep = map (report_row rows) (pp_items p)"
    using assms(1) by (auto simp: runGuardAdjudication_def map_sum_def Let_def split: sum.splits prod.splits)
  have "list_all (\<lambda>(_, r). from_fold folds r) rows"
    using from_folds [OF from_prepared, of folds "(s, [])" folds key p now "pp_items p"] p(2) by simp
  moreover obtain i where "r = report_row rows i" using assms(2) p(3) by auto
  ultimately have "from_fold folds r"
    using assms(4) by (auto simp: report_row_def no_verdict_row_def list_all_iff split: option.splits dest!: map_of_SomeD)
  then obtain f w j where f: "f \<in> set folds" "v = stamped w (sf_now f) (Some j)" "it_scenarioId (sf_item f) = vr_scenarioId r"
    "adjudicationRefusalReason w (Some (state_of_session (sf_item f) (sf_calls f))) = None"
    using assms(3,4) by (auto simp: from_fold_def)
  have "sound_verdict v" using accepted_sound [OF f(4)] f(2) by simp
  with assms(5) have bug: "ad_code v \<noteq> None" "ad_confidence v = LowConfidence \<or> ad_control v \<noteq> None"
    "map_option cn_conclusion (ad_control v) \<noteq> Some Refutes"
    by (simp_all add: sound_verdict_iff)
  show ?thesis
  proof (cases "ad_control v")
    case (Some c)
    with accepted_control_ran [OF f(4), of c] f bug show ?thesis by auto
  qed (use bug in auto)
qed

definition demo_control :: control where
  "demo_control = \<lparr>cn_conclusion = Confirms, cn_reasoning = ''ran'', cn_transcriptRef = ''control-1''\<rparr>"

definition demo_bug :: adjudication where
  "demo_bug = \<lparr>ad_class = Bug, ad_mechanism = ''m'', ad_code = Some (''a.ts'', 7), ad_evidence = [''e''],
     ad_control = Some demo_control, ad_fix = None, ad_confidence = HighConfidence, ad_findings = []\<rparr>"

definition scripted_corpus :: corpus where
  "scripted_corpus = \<lparr>co_manifest = None, co_flows = None,
     co_files = [(''a.yaml'', Some ''id: a'', Some \<lparr>sc_id = ''a'', sc_flowId = None,
       sc_body = \<lparr>gs_steps = [], gs_teardown = None, gs_setup = None\<rparr>\<rparr>)]\<rparr>"

definition bug_folds :: "session_fold list" where
  "bug_folds = [\<lparr>sf_item = item_of scripted_corpus (bd_run morning_board) True (demo_row ''a'' OutFail),
     sf_calls = [RerunScoped, VerifyBug (ChildConcluded Confirms ''ran'') ''control-1''],
     sf_result = Completed demo_bug ''s1'', sf_now = ''t1''\<rparr>]"

definition bug_adjudicated :: "guard_store \<times> adjudication_run" where
  "bug_adjudicated = projr (runGuardAdjudication demo_store scripted_corpus it_scenarioId None (Some [''a'']) ''t'' bug_folds)"

theorem standing_bug_is_controlled_witness:
  "\<exists>f reasoning. f \<in> set bug_folds
     \<and> VerifyBug (ChildConcluded Confirms reasoning) ''control-1'' \<in> set (sf_calls f)"
proof -
  have run: "runGuardAdjudication demo_store scripted_corpus it_scenarioId None (Some [''a'']) ''t'' bug_folds
      = Inr (fst bug_adjudicated, snd bug_adjudicated)"
    by code_simp
  let ?v = "stamped demo_bug ''t1'' (Some ''s1'')"
  let ?rt = "\<lparr>rt_tainted = None, rt_autoDismissed = None\<rparr> :: routing"
  let ?r = "\<lparr>vr_scenarioId = ''a'', vr_source = FromSession, vr_result = Inr (?v, ?rt)\<rparr>"
  have rows: "an_scenarios (snd bug_adjudicated) = [?r]" by code_simp
  have bug: "ad_class ?v = Bug" "ad_confidence ?v = HighConfidence" "ad_control ?v = Some demo_control"
    by (simp_all add: demo_bug_def)
  from standing_bug_is_controlled [OF run, of ?r ?v ?rt] bug show ?thesis
    by (auto simp: rows demo_control_def)
qed

subsection \<open>A run gives up on a flow twice\<close>

definition ledger_count :: "guard_store \<Rightarrow> string \<Rightarrow> nat" where
  "ledger_count s key = (case map_of (ar_entries (gd_ledger s)) key of Some e \<Rightarrow> le_count e | None \<Rightarrow> 0)"

definition taints :: "string \<Rightarrow> routing \<Rightarrow> bool" where
  "taints key r \<longleftrightarrow> map_option ta_key (rt_tainted r) = Some key"

definition dismisses :: "string \<Rightarrow> routing \<Rightarrow> bool" where
  "dismisses key r \<longleftrightarrow> taints key r \<and> rt_autoDismissed r \<noteq> None"

definition persist_next :: "guard_store \<times> routing list \<Rightarrow> item \<times> scenario_adjudication \<times> time \<Rightarrow> guard_store \<times> routing list" where
  "persist_next st x =
     (case x of (i, v, now) \<Rightarrow> (let (s, r) = persistAdjudication (fst st) i v now in (s, snd st @ [r])))"

lemma count_recorded [simp]: "ledger_count (record_on_board (record_on_run s i v) i v) key = ledger_count s key"
  by (simp add: ledger_count_def record_on_board_annotated)

lemma persist_counts:
  assumes "persistAdjudication s i v now = (s', r)"
  shows "ledger_count s' key = ledger_count s key + (if taints key r then 1 else 0)
    \<and> (dismisses key r \<longrightarrow> ledger_count s key < DEFAULT_AUTO_RESOLVE_ESCALATE_AFTER)"
proof (cases "ad_class v = AuthoringDefect \<and> truthy_text (it_flowId i) \<noteq> None")
  case True
  then obtain flowId where f: "ad_class v = AuthoringDefect" "truthy_text (it_flowId i) = Some flowId" by auto
  let ?s1 = "record_on_board (record_on_run s i v) i v"
  let ?k = "autoResolutionKey flowId (it_surface i)"
  obtain s2 t where t: "taint_flow ?s1 i v flowId now = (s2, t)" by (metis surj_pair)
  obtain s3 c where c: "auto_dismiss s2 i v (ta_escalated t) now = (s3, c)" by (metis surj_pair)
  have out: "s' = s3" "r = \<lparr>rt_tainted = Some t, rt_autoDismissed = c\<rparr>"
    using assms f t c by (simp_all add: persistAdjudication_def)
  have "ledger_count s2 key = ledger_count ?s1 key + (if key = ?k then 1 else 0)" "ta_key t = ?k"
    "ta_escalated t \<longleftrightarrow> DEFAULT_AUTO_RESOLVE_ESCALATE_AFTER < ledger_count ?s1 ?k + 1"
    using t by (auto simp: taint_flow_def ledger_count_def Let_def update_conv)
  moreover have "ledger_count s3 key = ledger_count s2 key" "c \<noteq> None \<Longrightarrow> \<not> ta_escalated t"
    using c by (auto simp: auto_dismiss_def ledger_count_def split: option.splits if_splits)
  ultimately show ?thesis
    by (auto simp: out taints_def dismisses_def)
next
  case False
  then have "s' = record_on_board (record_on_run s i v) i v" "rt_tainted r = None"
    using assms by (auto simp: persistAdjudication_def Let_def split: adjudication_class.splits option.splits)
  then show ?thesis by (simp add: taints_def dismisses_def)
qed

text \<open>The adjudication dismisses the claims of one flow on one surface at most twice. Over any verdicts that
  are persisted one after the other, the ledger's count for a flow grows by one with each verdict that
  blames its test, and no claim is dismissed through the flow once the count has reached the threshold,
  whatever the count was to begin with.\<close>

theorem auto_dismissals_are_bounded:
  "ledger_count (fst (foldl persist_next (s, []) verdicts)) key
     = ledger_count s key + length (filter (taints key) (snd (foldl persist_next (s, []) verdicts)))
   \<and> ledger_count s key + length (filter (dismisses key) (snd (foldl persist_next (s, []) verdicts)))
     \<le> max (ledger_count s key) DEFAULT_AUTO_RESOLVE_ESCALATE_AFTER"
proof (induction verdicts rule: rev_induct)
  case (snoc x xs)
  obtain i v now where x: "x = (i, v, now)" by (cases x) auto
  let ?st = "foldl persist_next (s, []) xs"
  obtain s' r where p: "persistAdjudication (fst ?st) i v now = (s', r)" by (metis surj_pair)
  have "filter (dismisses key) rs = filter (dismisses key) (filter (taints key) rs)" for rs
    by (induction rs) (auto simp: dismisses_def)
  then have fewer: "length (filter (dismisses key) (snd ?st)) \<le> length (filter (taints key) (snd ?st))"
    by (metis length_filter_le)
  have step: "foldl persist_next (s, []) (xs @ [x]) = (s', snd ?st @ [r])"
    by (simp add: x persist_next_def p)
  have dismissing: "dismisses key r \<Longrightarrow> taints key r" by (simp add: dismisses_def)
  note counted = persist_counts [OF p, of key]
  show ?case
  proof (cases "dismisses key r")
    case True
    with counted fewer snoc dismissing show ?thesis
      unfolding step by (simp add: max_def)
  next
    case False
    with counted snoc show ?thesis
      unfolding step by (simp add: max_def)
  qed
qed simp

subsection \<open>The report is what the board shows\<close>

definition verdict_on :: "board \<Rightarrow> string \<Rightarrow> scenario_adjudication option" where
  "verdict_on b k = Option.bind (row_of b k) rw_adjudication"

definition shown :: "board \<Rightarrow> verdict_row \<Rightarrow> scenario_adjudication option" where
  "shown b0 r = (case vr_result r of Inr (v, _) \<Rightarrow> Some v | Inl _ \<Rightarrow> verdict_on b0 (vr_scenarioId r))"

lemma row_of_annotated: "row_of (annotated b i v j) k = map_option (annotate_row b i v j) (row_of b k)"
  by (simp add: row_of_def annotated_rows find_map_key)

text \<open>Two boards that differ in the verdicts on their rows alone.\<close>

definition same_but_verdicts :: "board \<Rightarrow> board \<Rightarrow> bool" where
  "same_but_verdicts b b' \<longleftrightarrow> bd_run b = bd_run b' \<and> bd_summary b = bd_summary b'
     \<and> map withoutAdjudication (bd_scenarios b) = map withoutAdjudication (bd_scenarios b')"

lemma same_annotated: "same_but_verdicts (annotated b i v j) b' \<longleftrightarrow> same_but_verdicts b b'"
proof -
  have "withoutAdjudication \<circ> annotate_row b i v j = withoutAdjudication"
    by (auto simp: annotate_row_def withoutAdjudication_def)
  then show ?thesis by (simp add: same_but_verdicts_def annotated_rows)
qed

lemma same_rows:
  assumes "same_but_verdicts b b'" and "row_of b' k = Some row'"
  shows "\<exists>row. row_of b k = Some row \<and> guardResultRunId row (bd_run b) = guardResultRunId row' (bd_run b')"
proof -
  have "map_option withoutAdjudication (row_of b k) = map_option withoutAdjudication (row_of b' k)"
    using assms(1) find_map_key [of rw_id withoutAdjudication k "bd_scenarios b"]
      find_map_key [of rw_id withoutAdjudication k "bd_scenarios b'"]
    by (simp add: same_but_verdicts_def row_of_def)
  with assms(2) obtain row where row: "row_of b k = Some row" "withoutAdjudication row = withoutAdjudication row'"
    by auto
  have "guardResultRunId (withoutAdjudication x) env = guardResultRunId x env" for x env
    by (simp add: guardResultRunId_def withoutAdjudication_def)
  with row assms(1) show ?thesis by (metis same_but_verdicts_def)
qed

definition on_its_run :: "board \<Rightarrow> item \<Rightarrow> bool" where
  "on_its_run b i \<longleftrightarrow> pred_option (\<lambda>row. guardResultRunId row (bd_run b) = it_runId i) (row_of b (it_scenarioId i))
     \<and> row_of b (it_scenarioId i) \<noteq> None"

lemma verdict_on_annotated:
  assumes "same_but_verdicts b b0" and "on_its_run b0 i"
  shows "verdict_on (annotated b (it_scenarioId i) v (it_runId i)) k
    = (if k = it_scenarioId i then Some v else verdict_on b k)"
proof -
  obtain row where row: "row_of b (it_scenarioId i) = Some row" "guardResultRunId row (bd_run b) = it_runId i"
  proof -
    obtain row0 where row0: "row_of b0 (it_scenarioId i) = Some row0" "guardResultRunId row0 (bd_run b0) = it_runId i"
      using assms(2) by (auto simp: on_its_run_def)
    from same_rows [OF assms(1) row0(1)] row0(2) that show thesis by auto
  qed
  have "rw_id r = k" if "row_of b k = Some r" for r
    using find_Some_mem that unfolding row_of_def by fast
  with row show ?thesis
    by (cases "row_of b k") (auto simp: verdict_on_def row_of_annotated annotate_row_def takes_verdict_def)
qed

definition faithful :: "board \<Rightarrow> progress \<Rightarrow> bool" where
  "faithful b0 pr \<longleftrightarrow> list_all (\<lambda>(k, r). vr_scenarioId r = k) (snd pr)
     \<and> (case gd_latest (fst pr) of
          None \<Rightarrow> False
        | Some b \<Rightarrow> same_but_verdicts b b0
            \<and> (\<forall>k. verdict_on b k = (case map_of (snd pr) k of Some r \<Rightarrow> shown b0 r | None \<Rightarrow> verdict_on b0 k)))"

lemma faithful_landed:
  assumes "faithful b0 pr" and "on_its_run b0 i" and "vr_scenarioId r = it_scenarioId i" and "vr_result r = Inr (v, rt)"
    and "gd_latest s' = gd_latest (fst (persistAdjudication (fst pr) i v now))"
  shows "faithful b0 (s', AList.update (it_scenarioId i) r (snd pr))"
proof -
  obtain b where b: "gd_latest (fst pr) = Some b" "same_but_verdicts b b0"
    "\<forall>k. verdict_on b k = (case map_of (snd pr) k of Some r \<Rightarrow> shown b0 r | None \<Rightarrow> verdict_on b0 k)"
    using assms(1) by (auto simp: faithful_def split: option.splits)
  with assms verdict_on_annotated [OF b(2) assms(2)] show ?thesis
    by (simp add: faithful_def persist_boards record_on_board_annotated same_annotated sound_update update_conv)
      (auto simp: shown_def)
qed

lemma faithful_failed:
  assumes "faithful b0 pr" and "it_scenarioId i \<notin> fst ` set (snd pr)"
  shows "faithful b0 (fst pr, AList.update (it_scenarioId i) (no_verdict_row i why) (snd pr))"
  using assms
  by (auto simp: faithful_def sound_update update_conv no_verdict_row_def shown_def map_of_eq_None_iff split: option.splits)

lemma faithful_settle: "faithful b0 pr \<Longrightarrow> on_its_run b0 i \<Longrightarrow> faithful b0 (settle i v src now pr)"
  by (auto simp: settle_def Let_def case_prod_unfold intro!: faithful_landed)

lemma faithful_settle_prepared: "faithful b0 pr \<Longrightarrow> on_its_run b0 i \<Longrightarrow> faithful b0 (settle_prepared p now pr i)"
  by (auto simp: settle_prepared_def faithful_settle split: option.split)

lemma faithful_prepared:
  "faithful b0 pr \<Longrightarrow> list_all (on_its_run b0) items \<Longrightarrow> faithful b0 (foldl (settle_prepared p now) pr items)"
  by (induction items arbitrary: pr) (simp_all add: faithful_settle_prepared)

lemma settled_ids:
  "fst ` set (snd (foldl (settle_prepared p now) pr items))
    \<subseteq> fst ` set (snd pr) \<union> fst ` set (pp_deterministic p) \<union> fst ` set (pp_cached p)"
proof (induction items arbitrary: pr)
  case (Cons i items)
  have "fst ` set (snd (settle_prepared p now pr i))
      \<subseteq> fst ` set (snd pr) \<union> fst ` set (pp_deterministic p) \<union> fst ` set (pp_cached p)"
    by (auto simp: settle_prepared_def settle_def Let_def case_prod_unfold dom_update
        split: option.splits dest!: map_of_SomeD intro: rev_image_eqI)
  with Cons [of "settle_prepared p now pr i"] show ?case by auto
qed auto

lemma folded_ids: "fst ` set (snd (fold_session key pr f)) = insert (it_scenarioId (sf_item f)) (fst ` set (snd pr))"
  by (simp add: fold_session_def Let_def case_prod_unfold dom_update split: session_result.split option.split)

lemma faithful_folds:
  assumes "faithful b0 pr" and "list_all (\<lambda>f. on_its_run b0 (sf_item f)) folds"
    and "distinct (map (it_scenarioId \<circ> sf_item) folds)"
    and "fst ` set (snd pr) \<inter> (it_scenarioId \<circ> sf_item) ` set folds = {}"
  shows "faithful b0 (foldl (fold_session key) pr folds)"
  using assms
proof (induction folds arbitrary: pr)
  case (Cons f folds)
  have "faithful b0 (fold_session key pr f)"
    using Cons.prems
    by (auto simp: fold_session_def Let_def case_prod_unfold faithful_failed
        split: session_result.split option.split intro!: faithful_landed)
  with Cons.IH [of "fold_session key pr f"] Cons.prems show ?case
    by (auto simp: folded_ids)
qed simp

lemma disjoint_mono: "A \<subseteq> A' \<Longrightarrow> B \<subseteq> B' \<Longrightarrow> A' \<inter> B' = {} \<Longrightarrow> A \<inter> B = {}"
  by blast

lemma settled_items:
  "fst ` set (snd (foldl (settle_prepared p now) pr items)) \<subseteq> fst ` set (snd pr) \<union> it_scenarioId ` set items"
proof (induction items arbitrary: pr)
  case (Cons i items)
  have "fst ` set (snd (settle_prepared p now pr i)) \<subseteq> insert (it_scenarioId i) (fst ` set (snd pr))"
    by (simp add: settle_prepared_def settle_def Let_def case_prod_unfold dom_update subset_insertI split: option.split)
  with Cons [of "settle_prepared p now pr i"] show ?case by auto
qed simp

lemma all_folded_ids:
  "fst ` set (snd (foldl (fold_session key) pr folds)) = fst ` set (snd pr) \<union> (it_scenarioId \<circ> sf_item) ` set folds"
  by (induction folds arbitrary: pr) (auto simp: folded_ids)

lemma prepared_items:
  assumes "prepareAdjudication s co key runId scenarios = Inr p" and "gd_latest s = Some b" and "one_row_each b"
  shows "list_all (on_its_run b) (pp_items p)" and "set (pp_sessionItems p) \<subseteq> set (pp_items p)"
    and "(fst ` set (pp_deterministic p) \<union> fst ` set (pp_cached p)) \<inter> it_scenarioId ` set (pp_sessionItems p) = {}"
proof -
  let ?rows = "filter (taken (scope_of scenarios)) (rows_in_scope b runId)"
  let ?items = "map (item_of co (bd_run b) (scope_of scenarios \<noteq> None)) ?rows"
  have fields: "it_scenarioId (item_of co env sc r) = rw_id r" "it_runId (item_of co env sc r) = guardResultRunId r env"
    for env sc r
    by (simp_all add: item_of_def Let_def)
  have p: "p = prepared_of s co key b (scope_of scenarios) (rows_in_scope b runId)"
    using assms(1,2) by (auto simp: prepareAdjudication_def Let_def split: if_splits)
  then have items: "pp_items p = ?items"
    by (simp add: prepared_of_def Let_def)
  have rows: "set (rows_in_scope b runId) \<subseteq> set (bd_scenarios b)" "distinct (map rw_id (rows_in_scope b runId))"
    using assms(3)
    by (auto simp: rows_in_scope_def failingRows_def one_row_each_def distinct_map_filter split: option.split)
  then have dist: "distinct (map it_scenarioId ?items)"
    by (simp add: comp_def fields distinct_map_filter)
  have "row_of b (rw_id r) = Some r" if "r \<in> set (bd_scenarios b)" for r
    using assms(3) that unfolding row_of_def one_row_each_def by (simp add: find_distinct)
  with rows(1) have "list_all (on_its_run b) ?items"
    by (auto simp: list_all_iff on_its_run_def fields)
  moreover have "(fst ` set (pp_deterministic p) \<union> fst ` set (pp_cached p)) \<inter> it_scenarioId ` set (pp_sessionItems p) = {}"
  proof -
    let ?cached = "\<lambda>i. if deterministicVerdict i = None then cached_verdict s key (scope_of scenarios \<noteq> None) i else None"
    have keys: "fst ` set (List.map_filter (\<lambda>i. map_option (Pair (it_scenarioId i)) (f i)) is)
        = it_scenarioId ` {i \<in> set is. f i \<noteq> None}" for f :: "item \<Rightarrow> adjudication option" and "is"
      by (force simp: map_filter_def image_def)
    have "pp_deterministic p = List.map_filter (\<lambda>i. map_option (Pair (it_scenarioId i)) (deterministicVerdict i)) ?items"
      "pp_cached p = List.map_filter (\<lambda>i. map_option (Pair (it_scenarioId i)) (?cached i)) ?items"
      "pp_sessionItems p = filter (\<lambda>i. deterministicVerdict i = None \<and> ?cached i = None) ?items"
      by (simp_all only: p prepared_of_def Let_def prepared.simps)
    then have parts: "fst ` set (pp_deterministic p) = it_scenarioId ` {i \<in> set ?items. deterministicVerdict i \<noteq> None}"
      "fst ` set (pp_cached p) = it_scenarioId ` {i \<in> set ?items. ?cached i \<noteq> None}"
      "set (pp_sessionItems p) = {i \<in> set ?items. deterministicVerdict i = None \<and> ?cached i = None}"
      by (simp_all only: keys set_filter)
    have inj: "inj_on it_scenarioId (set ?items)"
      using dist unfolding distinct_map [of it_scenarioId ?items] by (rule conjunct2)
    have "it_scenarioId ` A \<inter> it_scenarioId ` B = it_scenarioId ` (A \<inter> B)"
      if "A \<subseteq> set ?items" "B \<subseteq> set ?items" for A B
      by (rule inj_on_image_Int [OF inj that, symmetric])
    note meet = this [of "{i \<in> set ?items. deterministicVerdict i \<noteq> None} \<union> {i \<in> set ?items. ?cached i \<noteq> None}"
        "{i \<in> set ?items. deterministicVerdict i = None \<and> ?cached i = None}"]
    have "it_scenarioId ` ({i \<in> set ?items. deterministicVerdict i \<noteq> None} \<union> {i \<in> set ?items. ?cached i \<noteq> None})
        \<inter> it_scenarioId ` {i \<in> set ?items. deterministicVerdict i = None \<and> ?cached i = None} = {}"
      by (subst meet) auto
    then show ?thesis unfolding parts image_Un .
  qed
  moreover have "set (pp_sessionItems p) \<subseteq> set (pp_items p)"
    by (auto simp: p prepared_of_def Let_def)
  ultimately show "list_all (on_its_run b) (pp_items p)" and "set (pp_sessionItems p) \<subseteq> set (pp_items p)"
    and "(fst ` set (pp_deterministic p) \<union> fst ` set (pp_cached p)) \<inter> it_scenarioId ` set (pp_sessionItems p) = {}"
    unfolding items by - assumption+
qed

lemma session_rows_fresh:
  assumes "prepareAdjudication s co key runId scenarios = Inr p" and "gd_latest s = Some b" and "one_row_each b"
    and "list_all (\<lambda>f. sf_item f \<in> set (pp_sessionItems p)) folds"
  shows "fst ` set (snd (foldl (settle_prepared p now) (s, []) (pp_items p))) \<inter> (it_scenarioId \<circ> sf_item) ` set folds = {}"
proof -
  have "fst ` set (snd (foldl (settle_prepared p now) (s, []) (pp_items p)))
      \<subseteq> fst ` set (pp_deterministic p) \<union> fst ` set (pp_cached p)"
    using settled_ids [of p now "(s, [])" "pp_items p"] by simp
  moreover have "(it_scenarioId \<circ> sf_item) ` set folds \<subseteq> it_scenarioId ` set (pp_sessionItems p)"
    using assms(4) by (auto simp: list_all_iff)
  ultimately show ?thesis by (rule disjoint_mono [OF _ _ prepared_items(3) [OF assms(1,2,3)]])
qed

lemma rows_of_items:
  assumes "prepareAdjudication s co key runId scenarios = Inr p" and "gd_latest s = Some b" and "one_row_each b"
    and "list_all (\<lambda>f. sf_item f \<in> set (pp_sessionItems p)) folds"
  shows "fst ` set (snd (foldl (fold_session key) (foldl (settle_prepared p now) (s, []) (pp_items p)) folds))
    \<subseteq> it_scenarioId ` set (pp_items p)"
proof -
  have "fst ` set (snd (foldl (settle_prepared p now) (s, []) (pp_items p))) \<subseteq> it_scenarioId ` set (pp_items p)"
    using settled_items [of p now "(s, [])" "pp_items p"] by simp
  moreover have "(it_scenarioId \<circ> sf_item) ` set folds \<subseteq> it_scenarioId ` set (pp_items p)"
    using assms(4) prepared_items(2) [OF assms(1,2,3)] by (auto simp: list_all_iff)
  ultimately show ?thesis by (simp add: all_folded_ids)
qed

text \<open>C35: The report of an adjudication is what the board shows afterwards. Each row that landed a verdict is on
  the board with that verdict, each row that did not keeps the verdict it had or none, and nothing else of
  the board has moved: no outcome, no tally and no other scenario's verdict.\<close>

theorem report_is_the_board:
  assumes "runGuardAdjudication s co key runId scenarios now folds = Inr (s', rep)"
    and "prepareAdjudication s co key runId scenarios = Inr p"
    and "gd_latest s = Some b" and "one_row_each b"
    and "list_all (\<lambda>f. sf_item f \<in> set (pp_sessionItems p)) folds"
    and "distinct (map (it_scenarioId \<circ> sf_item) folds)"
  shows "\<exists>b'. gd_latest s' = Some b' \<and> same_but_verdicts b' b
    \<and> list_all (\<lambda>r. verdict_on b' (vr_scenarioId r) = shown b r) (an_scenarios rep)
    \<and> (k \<notin> vr_scenarioId ` set (an_scenarios rep) \<longrightarrow> verdict_on b' k = verdict_on b k)"
proof -
  note prepared = prepared_items [OF assms(2,3,4)]
  let ?pr1 = "foldl (settle_prepared p now) (s, []) (pp_items p)"
  obtain rows where run: "foldl (fold_session key) ?pr1 folds = (s', rows)" "an_scenarios rep = map (report_row rows) (pp_items p)"
    using assms(1,2) by (auto simp: runGuardAdjudication_def Let_def split: prod.splits)
  have "faithful b (s, [])"
    using assms(3) by (simp add: faithful_def same_but_verdicts_def)
  then have "faithful b ?pr1" by (rule faithful_prepared) (rule prepared(1))
  moreover have "list_all (\<lambda>f. on_its_run b (sf_item f)) folds"
    using assms(5) prepared by (auto simp: list_all_iff)
  moreover note session_rows_fresh [OF assms(2,3,4,5), of now]
  ultimately have faithful: "faithful b (s', rows)"
    using faithful_folds [of b ?pr1 folds key] assms(6) run(1) by simp
  then obtain b' where b': "gd_latest s' = Some b'" "same_but_verdicts b' b"
    "\<And>k. verdict_on b' k = (case map_of rows k of Some r \<Rightarrow> shown b r | None \<Rightarrow> verdict_on b k)"
    by (auto simp: faithful_def split: option.splits)
  have ids: "vr_scenarioId (report_row rows i) = it_scenarioId i" for i
    using faithful by (auto simp: report_row_def no_verdict_row_def faithful_def list_all_iff split: option.split dest!: map_of_SomeD)
  have "verdict_on b' (vr_scenarioId r) = shown b r" if r: "r \<in> set (an_scenarios rep)" for r
  proof -
    from r obtain i where i: "r = report_row rows i" using run(2) by auto
    show ?thesis
      unfolding i ids b'(3) by (simp add: report_row_def shown_def no_verdict_row_def split: option.split)
  qed
  moreover have "verdict_on b' k = verdict_on b k" if k: "k \<notin> vr_scenarioId ` set (an_scenarios rep)"
  proof -
    have "fst ` set rows \<subseteq> it_scenarioId ` set (pp_items p)"
      using rows_of_items [OF assms(2,3,4,5), of now] run(1) by simp
    with k show ?thesis
      by (auto simp: b'(3) run(2) ids image_image split: option.split dest!: map_of_SomeD)
  qed
  ultimately show ?thesis using b'(1,2) by (auto simp: list_all_iff)
qed

definition demo_prepared :: prepared where
  "demo_prepared = projr (prepareAdjudication demo_store empty_corpus it_scenarioId None None)"

theorem report_is_the_board_witness:
  "\<exists>b'. gd_latest (fst demo_adjudicated) = Some b' \<and> same_but_verdicts b' morning_board
    \<and> verdict_on b' ''a'' = Some (stamped demo_drift ''t1'' (Some ''s1'')) \<and> verdict_on b' ''b'' = None"
proof -
  have prepared: "prepareAdjudication demo_store empty_corpus it_scenarioId None None = Inr demo_prepared"
    by code_simp
  have latest: "gd_latest demo_store = Some morning_board" by (simp add: demo_store_def)
  have one: "one_row_each morning_board" by code_simp
  have "list_all (\<lambda>f. sf_item f \<in> set (pp_sessionItems demo_prepared)) demo_folds" by code_simp
  moreover have "distinct (map (it_scenarioId \<circ> sf_item) demo_folds)" by code_simp
  ultimately obtain b' where b': "gd_latest (fst demo_adjudicated) = Some b'" "same_but_verdicts b' morning_board"
    "list_all (\<lambda>r. verdict_on b' (vr_scenarioId r) = shown morning_board r) (an_scenarios (snd demo_adjudicated))"
    using report_is_the_board [OF demo_adjudication prepared latest one] by blast
  have "map vr_scenarioId (an_scenarios (snd demo_adjudicated)) = [''a'', ''b'']"
    "map (shown morning_board) (an_scenarios (snd demo_adjudicated)) = [Some (stamped demo_drift ''t1'' (Some ''s1'')), None]"
    by code_simp+
  then obtain r1 r2 where "an_scenarios (snd demo_adjudicated) = [r1, r2]" "vr_scenarioId r1 = ''a''" "vr_scenarioId r2 = ''b''"
    "shown morning_board r1 = Some (stamped demo_drift ''t1'' (Some ''s1''))" "shown morning_board r2 = None"
    by (auto simp: map_eq_Cons_conv)
  with b' show ?thesis by auto
qed

subsection \<open>Finding numbers\<close>

lemma start_below_max: "(m :: int) \<le> foldl max m ns"
  by (induction ns arbitrary: m) (auto intro: order_trans [OF max.cobounded1])

lemma below_max: "k \<in> set ns \<Longrightarrow> (k :: int) \<le> foldl max m ns"
proof (induction ns arbitrary: m)
  case (Cons n ns)
  have "max m n \<le> foldl max (max m n) ns" by (rule start_below_max)
  then have "n \<le> foldl max (max m n) ns" by (rule order_trans [OF max.cobounded2])
  with Cons show ?case by auto
qed simp

definition numbered :: "(string \<times> int) list \<times> int \<Rightarrow> bool" where
  "numbered st \<longleftrightarrow> distinct (map fst (fst st)) \<and> distinct (map snd (fst st)) \<and> list_all (\<lambda>(_, n). n < snd st) (fst st)"

lemma number_rows:
  assumes "numbered st"
  shows "numbered (foldl number_row st rows)
    \<and> (\<exists>new. fst (foldl number_row st rows) = fst st @ new \<and> list_all (\<lambda>(_, n). snd st \<le> n) new)
    \<and> rw_id ` set rows \<subseteq> fst ` set (fst (foldl number_row st rows))
    \<and> snd st \<le> snd (foldl number_row st rows)"
  using assms
proof (induction rows rule: rev_induct)
  case (snoc r rows)
  obtain m n where st: "foldl number_row st rows = (m, n)" by (cases "foldl number_row st rows")
  obtain new where new: "m = fst st @ new" "list_all (\<lambda>(_, n). snd st \<le> n) new" "snd st \<le> n"
    "numbered (m, n)" "rw_id ` set rows \<subseteq> fst ` set m"
    using snoc by (auto simp: st)
  show ?case
  proof (cases "map_of m (rw_id r)")
    case None
    then have "rw_id r \<notin> fst ` set m" by (simp add: map_of_eq_None_iff)
    moreover have "n \<notin> snd ` set m" using new(4) by (auto simp: numbered_def list_all_iff)
    ultimately have "numbered (m @ [(rw_id r, n)], n + 1)"
      using new(4) by (auto simp: numbered_def list_all_iff)
    moreover have "foldl number_row st (rows @ [r]) = (m @ [(rw_id r, n)], n + 1)"
      using None by (simp add: st number_row_def)
    ultimately show ?thesis using new(1,2,3,5) by auto
  next
    case (Some k)
    then have "rw_id r \<in> fst ` set m" by (force dest: map_of_SomeD)
    moreover have "foldl number_row st (rows @ [r]) = (m, n)"
      using Some by (simp add: st number_row_def)
    ultimately show ?thesis using new by auto
  qed
qed simp

text \<open>The number of a finding never changes hands. Rendering a report keeps every number the registry of the
  last one held, whether or not its finding is still open, and gives each new finding a number that none
  ever had.\<close>

theorem finding_numbers_are_stable:
  assumes "distinct (map fst registry)" and "distinct (map snd registry)" and "list_all (\<lambda>(_, n). 0 < n) registry"
  shows "\<exists>new. assign_numbers registry rows = registry @ new
    \<and> list_all (\<lambda>(_, n). list_all (\<lambda>(_, m). m < n) registry \<and> 0 < n) new
    \<and> distinct (map snd (assign_numbers registry rows))
    \<and> list_all (\<lambda>r. map_of (assign_numbers registry rows) (rw_id r) \<noteq> None) rows"
proof -
  let ?top = "foldl max 0 (map snd registry)"
  have below: "m \<le> ?top" if "(i, m) \<in> set registry" for i m
    using that by (intro below_max) force
  have "0 \<le> ?top" by (rule start_below_max)
  have "numbered (registry, ?top + 1)"
    using assms below by (fastforce simp: numbered_def list_all_iff)
  from number_rows [OF this, of rows] obtain new where new:
    "assign_numbers registry rows = registry @ new" "list_all (\<lambda>(_, n). ?top + 1 \<le> n) new"
    "distinct (map snd (assign_numbers registry rows))"
    "rw_id ` set rows \<subseteq> fst ` set (assign_numbers registry rows)"
    by (auto simp: assign_numbers_def numbered_def)
  have "m < n" "0 < n" if "(i, n) \<in> set new" "(j, m) \<in> set registry" for i n j m
    using that new(2) below [of j m] \<open>0 \<le> ?top\<close> by (fastforce simp: list_all_iff)+
  moreover have "0 < n" if "(i, n) \<in> set new" for i n
    using that new(2) \<open>0 \<le> ?top\<close> by (fastforce simp: list_all_iff)
  ultimately have "list_all (\<lambda>(_, n). list_all (\<lambda>(_, m). m < n) registry \<and> 0 < n) new"
    by (fastforce simp: list_all_iff)
  moreover have "list_all (\<lambda>r. map_of (assign_numbers registry rows) (rw_id r) \<noteq> None) rows"
    using new(4) by (fastforce simp: list_all_iff map_of_eq_None_iff)
  ultimately show ?thesis using new(1,3) by blast
qed

theorem finding_numbers_are_stable_witness:
  "\<exists>new. assign_numbers [(''old'', 7)] [demo_row ''b'' OutFail] = [(''old'', 7)] @ new"
  using finding_numbers_are_stable [of "[(''old'', 7)]" "[demo_row ''b'' OutFail]"] by auto

subsection \<open>After the folds\<close>

definition accepted_fold :: "session_fold \<Rightarrow> adjudication option" where
  "accepted_fold f =
     (case sf_result f of
        Completed v _ \<Rightarrow>
          if adjudicationRefusalReason v (Some (state_of_session (sf_item f) (sf_calls f))) = None then Some v else None
      | NotCompleted _ \<Rightarrow> None)"

definition session_findings :: "session_fold list \<Rightarrow> (string \<times> string list) list" where
  "session_findings folds =
     List.map_filter (\<lambda>f. case accepted_fold f of
         Some v \<Rightarrow> if ad_findings v = [] then None else Some (it_scenarioId (sf_item f), ad_findings v)
       | None \<Rightarrow> None) folds"

datatype session_run_status = RunInterrupted | RunFailed | RunCompleted

definition session_run_end :: "bool \<Rightarrow> prepared \<Rightarrow> session_fold list \<Rightarrow> session_run_status" where
  "session_run_end aborted p folds =
     (let failed = length (filter (\<lambda>f. accepted_fold f = None) folds)
      in if aborted then RunInterrupted
         else if 0 < failed \<and> failed = length (pp_sessionItems p) then RunFailed else RunCompleted)"

text \<open>A verdict the folds accept is one of the session's own output; where every session was refused or failed the
  run of the sessions has failed, where one was accepted it has not.\<close>

lemma refused_everywhere_fails:
  assumes "length folds = length (pp_sessionItems p)" and "folds \<noteq> []"
  shows "session_run_end False p folds = RunFailed \<longleftrightarrow> list_all (\<lambda>f. accepted_fold f = None) folds"
proof -
  have "length (filter P xs) = length xs \<longleftrightarrow> list_all P xs" for P and xs :: "session_fold list"
    by (induction xs) (use le_imp_less_Suc [OF length_filter_le] in \<open>auto simp: less_le\<close>)
  note all = this [of "\<lambda>f. accepted_fold f = None" folds]
  have "0 < length folds" using assms(2) by simp
  with all assms(1) show ?thesis
    unfolding session_run_end_def Let_def by (auto simp: filter_empty_conv)
qed

end
