(* ===== verification/FlowTests.thy ===== *)
theory FlowTests
  imports JsText Dependencies Board
begin

text \<open>
  The tests that prove the flows (packages/shared/src/guard/flow-tests.ts) and running them
  (packages/guard-runner/src/flow-tests.ts, packages/core/src/services/product-world/flow-test-run.ts).

  A flow has one Playwright spec and at most one seed. The first part has the data, the movement of a kept
  test and the tally of a run; the second part reads specs and reports; the third runs the specs and keeps
  what a run showed; the last is a run of all the stored tests against a product brought up for it.

  Playwright and the product are inputs: \<open>play\<close> answers, for the patterns of the specs it is started
  on, the report it wrote, when it wrote one, and how the process ended. Bringing the product up is a
  value of \<open>world_run\<close>. \<open>localeCompare\<close> is the order of a collation key, an argument. Durations are
  whole milliseconds.
\<close>

section \<open>The data\<close>

datatype flow_test_status = TPassing | TFailing | TBlocked

record disagreement =
  dg_documented :: string
  dg_observed :: string

record copy_drift =
  cd_step :: nat
  cd_documented :: string
  cd_observed :: string

text \<open>By step, then by the documented name, then by the observed one: three stable sorts.\<close>

definition orderCopyDrift :: "(string \<Rightarrow> 'c::linorder) \<Rightarrow> copy_drift list \<Rightarrow> copy_drift list" where
  "orderCopyDrift coll drift =
     sort_key cd_step (sort_key (coll \<circ> cd_documented) (sort_key (coll \<circ> cd_observed) drift))"

record flow_outcome =
  fo_status :: flow_test_status
  fo_summary :: string
  fo_disagreement :: "disagreement option"
  fo_blockedBy :: "string option"
  fo_blockedOn :: "string option"
  fo_copyDrift :: "copy_drift list option"

datatype outcome_issue = DriftOfBlocked | NoDisagreement | NoBlockedBy | NoBlockedOn

definition outcome_issues :: "flow_outcome \<Rightarrow> outcome_issue list" where
  "outcome_issues o' =
     (if fo_status o' = TBlocked \<and> (case fo_copyDrift o' of Some (_ # _) \<Rightarrow> True | _ \<Rightarrow> False) then [DriftOfBlocked] else [])
     @ (if fo_status o' = TFailing \<and> fo_disagreement o' = None then [NoDisagreement] else [])
     @ (if fo_status o' = TBlocked \<and> \<not> truthy (fo_blockedBy o') then [NoBlockedBy] else [])
     @ (if fo_status o' = TBlocked \<and> \<not> truthy (fo_blockedOn o') then [NoBlockedOn] else [])"

datatype step_outcome = StepPassed | StepFailed | StepNotReached

record test_step =
  ts_order :: nat
  ts_title :: string
  ts_outcome :: step_outcome
  ts_durationMs :: "int option"
  ts_error :: "string option"

datatype run_outcome = RPass | RFail | RSeedFailed | RSkipped

record file_result =
  fr_outcome :: run_outcome
  fr_durationMs :: int
  fr_error :: "string option"
  fr_steps :: "test_step list"
  fr_attachments :: "(string \<times> string) list"

record test_result = file_result +
  tr_flowId :: string
  tr_file :: string

record test_run =
  tn_ranAt :: time
  tn_durationMs :: int
  tn_steps :: "test_step list"
  tn_error :: "string option"
  tn_evidencePath :: "string option"
  tn_commit :: "string option"

record run_result =
  rr_flowId :: string
  rr_file :: string
  rr_authored :: flow_test_status
  rr_outcome :: run_outcome
  rr_run :: test_run

record run_tally =
  ty_run :: nat
  ty_passed :: nat
  ty_failed :: nat
  ty_seedFailed :: nat
  ty_skipped :: nat
  ty_nowFailing :: nat
  ty_nowPassing :: nat

definition tallyFlowTestRun :: "run_result list \<Rightarrow> run_tally" where
  "tallyFlowTestRun results =
     (let count = (\<lambda>pick. length (filter pick results))
      in \<lparr>ty_run = length results,
          ty_passed = count (\<lambda>r. rr_outcome r = RPass),
          ty_failed = count (\<lambda>r. rr_outcome r = RFail),
          ty_seedFailed = count (\<lambda>r. rr_outcome r = RSeedFailed),
          ty_skipped = count (\<lambda>r. rr_outcome r = RSkipped),
          ty_nowFailing = count (\<lambda>r. rr_authored r = TPassing \<and> rr_outcome r = RFail),
          ty_nowPassing = count (\<lambda>r. rr_authored r = TFailing \<and> rr_outcome r = RPass)\<rparr>)"

datatype repair_reason = FlowChanged | Moved | SeedFailed | NowPassing | JudgeFlagged

record test_record =
  rc_flowId :: string
  rc_flowFingerprint :: string
  rc_status :: flow_test_status
  rc_file :: "string option"
  rc_seed :: "string option"
  rc_summary :: string
  rc_disagreement :: "disagreement option"
  rc_blockedBy :: "string option"
  rc_blockedOn :: "string option"
  rc_copyDrift :: "copy_drift list option"
  rc_run :: "test_run option"
  rc_judged :: "string option"

definition flowTestFailedStep :: "test_step list \<Rightarrow> nat option" where
  "flowTestFailedStep steps = map_option ts_order (find (\<lambda>s. ts_outcome s = StepFailed) steps)"

text \<open>\<open>'holds'\<close> is \<open>None\<close>.\<close>

definition flowTestMovement :: "test_record \<Rightarrow> 'r test_result_scheme \<Rightarrow> repair_reason option" where
  "flowTestMovement rc rerun =
     (if fr_outcome rerun = RSeedFailed then Some SeedFailed
      else if rc_status rc = TPassing then (if fr_outcome rerun = RPass then None else Some Moved)
      else if fr_outcome rerun = RPass then Some NowPassing
      else if fr_outcome rerun \<noteq> RFail then Some Moved
      else if flowTestFailedStep (fr_steps rerun)
                = flowTestFailedStep (case rc_run rc of Some run \<Rightarrow> tn_steps run | None \<Rightarrow> [])
           then None else Some Moved)"

section \<open>Regular expressions that look behind\<close>

text \<open>
  \<open>\b\<close> needs the character before the place a match is tried at. \<open>lex_after\<close> is the scanner \<open>lex\<close> with that
  character handed to the token reader.
\<close>

definition word_char :: "char \<Rightarrow> bool" where
  "word_char c \<longleftrightarrow>
     (let n = of_char c :: nat
      in (48 \<le> n \<and> n \<le> 57) \<or> (65 \<le> n \<and> n \<le> 90) \<or> (97 \<le> n \<and> n \<le> 122) \<or> n = 95)"

definition word_at :: "string \<Rightarrow> bool" where
  "word_at s \<longleftrightarrow> (case s of [] \<Rightarrow> False | c # _ \<Rightarrow> word_char c)"

definition boundary :: "char option \<Rightarrow> string \<Rightarrow> bool" where
  "boundary p s \<longleftrightarrow> (case p of None \<Rightarrow> False | Some c \<Rightarrow> word_char c) \<noteq> word_at s"

function lex_after :: "(char option \<Rightarrow> string \<Rightarrow> ('m \<times> nat) option) \<Rightarrow> char option \<Rightarrow> string \<Rightarrow> 'm lexeme list" where
  "lex_after reader p [] = []"
| "lex_after reader p (c # cs) =
     (case reader p (c # cs) of
        None \<Rightarrow> Lit c # lex_after reader (Some c) cs
      | Some (m, n) \<Rightarrow> Tok m (c # take n cs) # lex_after reader (Some (last (c # take n cs))) (drop n cs))"
  by pat_completeness auto
termination
  by (relation "measure (\<lambda>(reader, p, s). length s)") auto

text \<open>Whether an expression matches somewhere, for one that is tried at each place.\<close>

fun found_after :: "(char option \<Rightarrow> string \<Rightarrow> bool) \<Rightarrow> char option \<Rightarrow> string \<Rightarrow> bool" where
  "found_after P p [] = P p []"
| "found_after P p (c # cs) \<longleftrightarrow> P p (c # cs) \<or> found_after P (Some c) cs"

fun put_back :: "string lexeme \<Rightarrow> string" where
  "put_back (Lit c) = [c]"
| "put_back (Tok m _) = m"

text \<open>\<open>s.replace(re, by)\<close> of an expression with the \<open>g\<close> flag; \<open>len\<close> is how far it matches, at least one
  character.\<close>

definition rewrite :: "(char option \<Rightarrow> string \<Rightarrow> nat option) \<Rightarrow> string \<Rightarrow> string \<Rightarrow> string" where
  "rewrite len by s =
     concat (map put_back (lex_after (\<lambda>p t. map_option (\<lambda>n. (by, n - 1)) (len p t)) None s))"

definition after :: "string \<Rightarrow> string \<Rightarrow> string option" where
  "after p s = (if starts_with p s then Some (drop (length p) s) else None)"

abbreviation spaces :: "string \<Rightarrow> string" where
  "spaces \<equiv> dropWhile js_space"

subsection \<open>The signature of an error\<close>

definition url_len :: "char option \<Rightarrow> string \<Rightarrow> nat option" where
  "url_len p s =
     Option.bind (after ''http'' s) (\<lambda>r.
       Option.bind (after ''://'' (case after ''s'' r of Some r' \<Rightarrow> r' | None \<Rightarrow> r)) (\<lambda>t.
         let body = takeWhile (\<lambda>c. \<not> js_space c \<and> c \<notin> {CHR 0x27, CHR 0x22, CHR 0x60, CHR '')''}) t
         in if body = [] then None else Some (length s - length t + length body)))"

definition quote_char :: "char \<Rightarrow> bool" where
  "quote_char c \<longleftrightarrow> c = CHR 0x27 \<or> c = CHR 0x22 \<or> c = CHR 0x60"

definition quoted_len :: "char option \<Rightarrow> string \<Rightarrow> nat option" where
  "quoted_len p s =
     (case s of
        [] \<Rightarrow> None
      | q # r \<Rightarrow>
          if \<not> quote_char q then None
          else let body = takeWhile (\<lambda>c. c \<noteq> q \<and> c \<noteq> CHR 0x0A \<and> c \<noteq> CHR 0x0D) r
               in case drop (length body) r of
                    [] \<Rightarrow> None
                  | c # _ \<Rightarrow> if c = q then Some (length body + 2) else None)"

definition hex_char :: "char \<Rightarrow> bool" where
  "hex_char c \<longleftrightarrow> (let n = of_char c :: nat in (48 \<le> n \<and> n \<le> 57) \<or> (65 \<le> n \<and> n \<le> 70) \<or> (97 \<le> n \<and> n \<le> 102))"

definition id_len :: "char option \<Rightarrow> string \<Rightarrow> nat option" where
  "id_len p s =
     (let run = takeWhile hex_char s
      in if boundary p s \<and> 8 \<le> length run \<and> \<not> word_at (drop (length run) s) then Some (length run) else None)"

definition number_len :: "char option \<Rightarrow> string \<Rightarrow> nat option" where
  "number_len p s =
     (let whole = takeWhile digit s; r = drop (length whole) s
      in if whole = [] then None
         else case after ''.'' r of
                None \<Rightarrow> Some (length whole)
              | Some t \<Rightarrow> let part = takeWhile digit t
                          in Some (if part = [] then length whole else length whole + 1 + length part))"

definition flowTestErrorSignature :: "string option \<Rightarrow> string" where
  "flowTestErrorSignature error =
     (let line = (case find (\<lambda>l. l \<noteq> []) (map js_trim (js_split [CHR 0x0A] (case error of Some e \<Rightarrow> e | None \<Rightarrow> []))) of
                    Some l \<Rightarrow> l | None \<Rightarrow> []);
          s = take 160 (squeeze (rewrite number_len ''<n>'' (rewrite id_len ''<id>''
                (rewrite quoted_len ''<text>'' (rewrite url_len ''<url>'' line)))))
      in if s = [] then ''(no error text)'' else s)"

subsection \<open>The steps a spec names\<close>

text \<open>The body of a string literal up to its quote, as written: a backslash takes the next character with it.\<close>

fun quoted_body :: "char \<Rightarrow> string \<Rightarrow> string option" where
  "quoted_body q [] = None"
| "quoted_body q [c] = (if c = q then Some [] else None)"
| "quoted_body q (c # d # r) =
     (if c = q then Some []
      else if c = CHR 0x5C then map_option (\<lambda>b. c # d # b) (quoted_body q r)
      else map_option ((#) c) (quoted_body q (d # r)))"

fun unescape :: "string \<Rightarrow> string" where
  "unescape [] = []"
| "unescape [c] = [c]"
| "unescape (c # d # r) = (if c = CHR 0x5C then d # unescape r else c # unescape (d # r))"

definition step_call :: "char option \<Rightarrow> string \<Rightarrow> (string \<times> nat) option" where
  "step_call p s =
     (if \<not> boundary p s then None
      else Option.bind (after ''test.step('' s) (\<lambda>r.
        case spaces r of
          [] \<Rightarrow> None
        | q # t \<Rightarrow>
            if quote_char q
            then map_option (\<lambda>b. (unescape b, length s - length t + length b)) (quoted_body q t)
            else None))"

definition flowSpecStepTitles :: "string \<Rightarrow> string list" where
  "flowSpecStepTitles spec = meanings (lex_after step_call None spec)"

section \<open>What Playwright reports\<close>

type_synonym pw_error = "string option"

record pw_step =
  ps_title :: "string option"
  ps_duration :: "int option"
  ps_error :: "pw_error option"

datatype pw_status = PwPassed | PwFailed | PwTimedOut | PwSkipped | PwInterrupted

record pw_result =
  pr_status :: "pw_status option"
  pr_duration :: "int option"
  pr_error :: "pw_error option"
  pr_errors :: "pw_error list"
  pr_steps :: "pw_step list"
  pr_attachments :: "(string option \<times> string option) list"

text \<open>A test of a spec: its annotations (type and description) and its results, retries first.\<close>

record pw_test =
  pt_annotations :: "(string option \<times> string option) list"
  pt_results :: "pw_result list"

type_synonym pw_spec = "string option \<times> pw_test list"

datatype pw_suite = Suite (su_file: "string option") (su_specs: "pw_spec list") (su_suites: "pw_suite list")

text \<open>The load errors: a message, and the file of the place it names.\<close>

record pw_report =
  rp_suites :: "pw_suite list"
  rp_errors :: "(string option \<times> string option) list"

definition orEmpty :: "string option \<Rightarrow> string" where
  "orEmpty s = (case s of Some t \<Rightarrow> t | None \<Rightarrow> [])"

text \<open>\<open>/\u001b\[[0-9;?]*[ -/]*[@-~]/g\<close>.\<close>

definition in_range :: "nat \<Rightarrow> nat \<Rightarrow> char \<Rightarrow> bool" where
  "in_range a b c \<longleftrightarrow> (let n = of_char c :: nat in a \<le> n \<and> n \<le> b)"

definition ansi_len :: "char option \<Rightarrow> string \<Rightarrow> nat option" where
  "ansi_len p s =
     Option.bind (after [CHR 0x1B, CHR ''[''] s) (\<lambda>r.
       case dropWhile (in_range 32 47) (dropWhile (\<lambda>c. digit c \<or> c = CHR '';'' \<or> c = CHR ''?'') r) of
         [] \<Rightarrow> None
       | c # t \<Rightarrow> if in_range 64 126 c then Some (length s - length t) else None)"

definition stripAnsi :: "string \<Rightarrow> string" where
  "stripAnsi s = rewrite ansi_len [] s"

text \<open>\<open>path.basename\<close>: the last segment, whatever slashes follow it.\<close>

definition slash_char :: "char \<Rightarrow> bool" where
  "slash_char c \<longleftrightarrow> c = CHR ''/''"

definition basename :: "string \<Rightarrow> string" where
  "basename p = rev (takeWhile (\<lambda>c. \<not> slash_char c) (dropWhile slash_char (rev p)))"

definition join_lines :: "string \<Rightarrow> string list \<Rightarrow> string" where
  "join_lines sep xs = js_join sep (filter (\<lambda>x. x \<noteq> []) xs)"

text \<open>A test asked for: its flow and the file of its spec.\<close>

type_synonym asked = "string \<times> string"

definition broken_by :: "asked list \<Rightarrow> (string \<times> string) list \<Rightarrow> string option \<times> string option \<Rightarrow> (string \<times> string) list" where
  "broken_by tests broken e =
     (let message = stripAnsi (orEmpty (fst e))
      in case find (\<lambda>(flowId, f). basename (orEmpty (snd e)) = f \<or> js_includes f message) tests of
           None \<Rightarrow> broken
         | Some (flowId, f) \<Rightarrow> AList.update f (join_lines [CHR 0x0A] [orEmpty (map_of broken f), message]) broken)"

definition brokenSpecs :: "pw_report \<Rightarrow> asked list \<Rightarrow> (string \<times> string) list" where
  "brokenSpecs report tests = foldl (broken_by tests) [] (rp_errors report)"

subsection \<open>One result per file\<close>

text \<open>What one spec of a suite comes to: its file, the last result of each of its tests, and whether a test's
  seed did not hold. A test that left no result counts for nothing.\<close>

definition SEED_TYPE :: string where "SEED_TYPE = ''seed''"
definition SEED_FAILED :: string where "SEED_FAILED = ''failed''"

definition seed_failed :: "pw_test \<Rightarrow> bool" where
  "seed_failed t \<longleftrightarrow>
     pt_results t \<noteq> []
     \<and> (case find (\<lambda>a. fst a = Some SEED_TYPE) (pt_annotations t) of
          Some a \<Rightarrow> snd a = Some SEED_FAILED
        | None \<Rightarrow> False)"

definition last_results :: "pw_test list \<Rightarrow> pw_result list" where
  "last_results ts = concat (map (\<lambda>t. case pt_results t of [] \<Rightarrow> [] | rs \<Rightarrow> [last rs]) ts)"

definition spec_entries :: "string option \<Rightarrow> pw_spec list \<Rightarrow> (string \<times> pw_test list) list" where
  "spec_entries suite specs =
     filter (\<lambda>(f, ts). f \<noteq> [])
       (map (\<lambda>(f, ts). (basename (case f of Some p \<Rightarrow> p | None \<Rightarrow> orEmpty suite), ts)) specs)"

fun suite_entries :: "pw_suite \<Rightarrow> (string \<times> pw_test list) list" where
  "suite_entries (Suite f specs suites) = spec_entries f specs @ concat (map suite_entries suites)"

definition report_entries :: "pw_report \<Rightarrow> (string \<times> pw_test list) list" where
  "report_entries r = concat (map suite_entries (rp_suites r))"

definition tests_of :: "pw_report \<Rightarrow> string \<Rightarrow> pw_test list" where
  "tests_of r f = concat (map snd (filter (\<lambda>e. fst e = f) (report_entries r)))"

definition passed_or_skipped :: "pw_result \<Rightarrow> bool" where
  "passed_or_skipped r \<longleftrightarrow> pr_status r = Some PwPassed \<or> pr_status r = Some PwSkipped"

definition errors_of :: "pw_result \<Rightarrow> pw_error list" where
  "errors_of r = (if pr_errors r \<noteq> [] then pr_errors r else case pr_error r of Some e \<Rightarrow> [e] | None \<Rightarrow> [])"

fun status_name :: "pw_status \<Rightarrow> string" where
  "status_name PwPassed = ''passed''"
| "status_name PwFailed = ''failed''"
| "status_name PwTimedOut = ''timedOut''"
| "status_name PwSkipped = ''skipped''"
| "status_name PwInterrupted = ''interrupted''"

definition step_of :: "nat \<Rightarrow> pw_step \<Rightarrow> test_step" where
  "step_of index s =
     \<lparr>ts_order = index + 1, ts_title = orEmpty (ps_title s),
      ts_outcome = (if ps_error s = None then StepPassed else StepFailed),
      ts_durationMs = ps_duration s,
      ts_error = (case ps_error s of
                    Some (Some m) \<Rightarrow> if m = [] then None else Some (stripAnsi m)
                  | _ \<Rightarrow> None)\<rparr>"

text \<open>The trees a report's paths may be under: the tree as given, and its real path. Outside both, the way
  from the tree to the file.\<close>

fun common :: "string list \<Rightarrow> string list \<Rightarrow> nat" where
  "common (x # xs) (y # ys) = (if x = y then Suc (common xs ys) else 0)"
| "common _ _ = 0"

definition relative_path :: "string \<Rightarrow> string \<Rightarrow> string" where
  "relative_path from to =
     (let f = resolve_path [] from; t = resolve_path [] to; n = common f t
      in js_join ''/'' (replicate (length f - n) ''..'' @ drop n t))"

definition treeRelative :: "string \<Rightarrow> string \<Rightarrow> string \<Rightarrow> string" where
  "treeRelative repoRoot realRoot path =
     relative_path (case find (\<lambda>r. starts_with (r @ ''/'') path) [repoRoot, realRoot] of Some r \<Rightarrow> r | None \<Rightarrow> repoRoot) path"

definition attachments_of :: "(string \<Rightarrow> string) \<Rightarrow> pw_result \<Rightarrow> (string \<times> string) list" where
  "attachments_of tree r =
     List.map_filter (\<lambda>(n, p). if truthy n \<and> truthy p then Some (the n, tree (the p)) else None) (pr_attachments r)"

definition fold_file :: "(string \<Rightarrow> string) \<Rightarrow> pw_test list \<Rightarrow> file_result" where
  "fold_file tree ts =
     (let results = last_results ts;
          failed = filter (\<lambda>r. \<not> passed_or_skipped r) results;
          ran = filter (\<lambda>r. pr_status r \<noteq> Some PwSkipped) results;
          error = join_lines [CHR 0x0A, CHR 0x0A] (map (\<lambda>e. stripAnsi (orEmpty e)) (concat (map errors_of failed)))
      in \<lparr>fr_outcome = (if list_ex seed_failed ts then RSeedFailed
                        else if failed \<noteq> [] then RFail
                        else if ran = [] then RSkipped else RPass),
          fr_durationMs = sum_list (map (\<lambda>r. case pr_duration r of Some d \<Rightarrow> d | None \<Rightarrow> 0) results),
          fr_error = (case failed of
                        [] \<Rightarrow> None
                      | r # _ \<Rightarrow> Some (if error \<noteq> [] then error
                                      else ''ended '' @ (case pr_status r of Some st \<Rightarrow> status_name st | None \<Rightarrow> ''without a status''))),
          fr_steps = map (\<lambda>(i, s). step_of i s) (enumerate 0 (concat (map pr_steps results))),
          fr_attachments = concat (map (attachments_of tree) results)\<rparr>)"

definition collectByFile :: "(string \<Rightarrow> string) \<Rightarrow> pw_report \<Rightarrow> string \<Rightarrow> file_result option" where
  "collectByFile tree r f =
     (if f \<in> set (map fst (report_entries r)) then Some (fold_file tree (tests_of r f)) else None)"

section \<open>Running specs\<close>

text \<open>How the Playwright process ended.\<close>

record play_end =
  pe_exitCode :: "int option"
  pe_timedOut :: bool
  pe_output :: string

text \<open>
  What a run of specs is started with: whether Playwright is installed, the tree and its real path, and
  what Playwright does with a list of file patterns: the report it leaves, when it leaves one that can be
  read, and how it ended.
\<close>

record playground =
  pg_installed :: bool
  pg_repoRoot :: string
  pg_realRoot :: string
  pg_play :: "string list \<Rightarrow> pw_report option \<times> play_end"

datatype run_refusal = NotInstalled | NoReport play_end

definition special :: "char \<Rightarrow> bool" where
  "special c \<longleftrightarrow> c \<in> set ''.*+?^${}()|[]'' \<or> c = CHR 0x5C"

definition escapeRegExp :: "string \<Rightarrow> string" where
  "escapeRegExp s = concat (map (\<lambda>c. if special c then [CHR 0x5C, c] else [c]) s)"

definition spec_pattern :: "asked \<Rightarrow> string" where
  "spec_pattern t = escapeRegExp (''tests/'' @ snd t) @ ''$''"

definition lost :: "asked \<Rightarrow> string \<Rightarrow> test_result" where
  "lost t error =
     \<lparr>fr_outcome = RFail, fr_durationMs = 0, fr_error = Some error, fr_steps = [], fr_attachments = [],
      tr_flowId = fst t, tr_file = snd t\<rparr>"

definition named_result :: "asked \<Rightarrow> file_result \<Rightarrow> test_result" where
  "named_result t r = file_result.extend r \<lparr>tr_flowId = fst t, tr_file = snd t\<rparr>"

definition reported ::
    "playground \<Rightarrow> pw_report \<Rightarrow> (string \<times> string) list \<Rightarrow> string \<Rightarrow> asked \<Rightarrow> test_result" where
  "reported pg report broken output t =
     (case collectByFile (treeRelative (pg_repoRoot pg) (pg_realRoot pg)) report (snd t) of
        Some r \<Rightarrow> named_result t r
      | None \<Rightarrow>
          lost t (case map_of broken (snd t) of
              Some m \<Rightarrow> m
            | None \<Rightarrow>
                let load = join_lines [CHR 0x0A] (map (\<lambda>e. stripAnsi (orEmpty (fst e))) (rp_errors report))
                in if load \<noteq> [] then load
                   else ''the run did not report '' @ snd t @ '':'' @ [CHR 0x0A] @ output))"

definition without :: "(string \<times> string) list \<Rightarrow> asked list \<Rightarrow> asked list" where
  "without broken tests = filter (\<lambda>t. map_of broken (snd t) = None) tests"

lemma broken_by_keys: "fst ` set (broken_by tests broken e) \<subseteq> fst ` set broken \<union> snd ` set tests"
proof (cases "find (\<lambda>(flowId, f). basename (orEmpty (snd e)) = f \<or> js_includes f (stripAnsi (orEmpty (fst e)))) tests")
  case (Some t)
  then have "t \<in> set tests" by (auto dest: find_Some_mem)
  then have "snd t \<in> snd ` set tests" by simp
  with Some show ?thesis by (cases t) (simp add: broken_by_def dom_update)
qed (simp add: broken_by_def)

lemma broken_files: "fst ` set (brokenSpecs report tests) \<subseteq> snd ` set tests"
proof -
  have "fst ` set (foldl (broken_by tests) broken es) \<subseteq> fst ` set broken \<union> snd ` set tests" for broken es
  proof (induction es arbitrary: broken)
    case (Cons e es)
    from Cons.IH [of "broken_by tests broken e"] broken_by_keys [of tests broken e] show ?case
      unfolding foldl.simps by blast
  qed simp
  from this [of "[]"] show ?thesis by (simp add: brokenSpecs_def)
qed

lemma fewer_without: "brokenSpecs report tests \<noteq> [] \<Longrightarrow> length (without (brokenSpecs report tests) tests) < length tests"
proof -
  assume "brokenSpecs report tests \<noteq> []"
  then obtain e where "e \<in> set (brokenSpecs report tests)" by (meson list.set_sel(1))
  then have f: "fst e \<in> fst ` set (brokenSpecs report tests)" by simp
  then have "fst e \<in> snd ` set tests" by (rule subsetD [OF broken_files])
  then obtain t where t: "t \<in> set tests" "fst e = snd t" by (rule imageE) simp
  have "map_of (brokenSpecs report tests) (fst e) \<noteq> None" using f by (simp add: map_of_eq_None_iff)
  with t(2) show ?thesis
    unfolding without_def by (intro length_filter_less [OF t(1)]) simp
qed

function runFlowTests :: "playground \<Rightarrow> asked list \<Rightarrow> run_refusal + test_result list" where
  "runFlowTests pg tests =
     (if \<not> pg_installed pg then Inl NotInstalled
      else if tests = [] then Inr []
      else case pg_play pg (map spec_pattern tests) of
          (None, ended) \<Rightarrow> Inl (NoReport ended)
        | (Some report, ended) \<Rightarrow>
            let broken = brokenSpecs report tests
            in if broken \<noteq> [] \<and> length broken < length tests
               then case runFlowTests pg (without broken tests) of
                      Inl r \<Rightarrow> Inl r
                    | Inr rest \<Rightarrow>
                        Inr (map (\<lambda>t. case find (\<lambda>r. tr_file r = snd t) (rev rest) of
                                        Some r \<Rightarrow> r
                                      | None \<Rightarrow> lost t (case map_of broken (snd t) of Some m \<Rightarrow> m | None \<Rightarrow> [])) tests)
               else Inr (map (reported pg report broken (pe_output ended)) tests))"
  by pat_completeness auto
termination
  by (relation "measure (\<lambda>(pg, tests). length tests)") (auto simp: fewer_without)

declare runFlowTests.simps [simp del]

section \<open>A run, as it is kept\<close>

definition step_shot :: "string \<Rightarrow> string option" where
  "step_shot name = Option.bind (after ''step-'' name) (\<lambda>d. if d \<noteq> [] \<and> list_all digit d then Some d else None)"

definition visual_of :: "string \<times> string \<Rightarrow> (string \<times> string) option" where
  "visual_of a =
     (case step_shot (fst a) of
        Some d \<Rightarrow> Some (snd a, ''step-'' @ d @ ''.png'')
      | None \<Rightarrow> if fst a = ''video'' then Some (snd a, ''session.webm'') else None)"

record keep_input =
  ki_runId :: string
  ki_specSource :: string
  ki_ranAt :: time
  ki_commit :: "string option"
  ki_evidence :: bool

text \<open>What is copied, and the run. \<open>copied\<close> says of a recording whether it could be copied.\<close>

definition visuals_of :: "keep_input \<Rightarrow> test_result \<Rightarrow> (string \<times> string) list" where
  "visuals_of k r = (if ki_evidence k then List.map_filter visual_of (fr_attachments r) else [])"

definition unreached :: "nat \<Rightarrow> string list \<Rightarrow> test_step list" where
  "unreached n titles =
     map (\<lambda>(i, t). \<lparr>ts_order = n + i + 1, ts_title = t, ts_outcome = StepNotReached, ts_durationMs = None, ts_error = None\<rparr>)
       (enumerate 0 (drop n titles))"

definition not_empty :: "string option \<Rightarrow> string option" where
  "not_empty s = (if truthy s then s else None)"

definition keepFlowTestRun :: "(string \<Rightarrow> bool) \<Rightarrow> keep_input \<Rightarrow> test_result \<Rightarrow> test_run" where
  "keepFlowTestRun copied k r =
     \<lparr>tn_ranAt = ki_ranAt k, tn_durationMs = fr_durationMs r,
      tn_steps = fr_steps r @ unreached (length (fr_steps r)) (flowSpecStepTitles (ki_specSource k)),
      tn_error = not_empty (fr_error r),
      tn_evidencePath = (if list_ex (copied \<circ> fst) (visuals_of k r) then Some (evidenceRelPath (ki_runId k) (tr_flowId r)) else None),
      tn_commit = not_empty (ki_commit k)\<rparr>"

text \<open>The step a kept run failed at is the step the run failed at: what the spec names and the run never
  reached is not a failure.\<close>

lemma kept_failed_step: "flowTestFailedStep (tn_steps (keepFlowTestRun copied k r)) = flowTestFailedStep (fr_steps r)"
proof -
  have "find (\<lambda>s. ts_outcome s = StepFailed) (unreached n titles) = None" for n titles
    by (auto simp: unreached_def find_None_iff)
  then show ?thesis by (simp add: flowTestFailedStep_def keepFlowTestRun_def find_append split: option.split)
qed

section \<open>What a result stands for\<close>

lemma passes_iff:
  "fr_outcome (fold_file tree ts) = RPass
     \<longleftrightarrow> \<not> list_ex seed_failed ts \<and> list_all passed_or_skipped (last_results ts)
       \<and> list_ex (\<lambda>r. pr_status r = Some PwPassed) (last_results ts)"
  by (auto simp: fold_file_def Let_def filter_empty_conv list_all_iff list_ex_iff passed_or_skipped_def)

lemma fails_iff:
  "fr_outcome (fold_file tree ts) = RFail
     \<longleftrightarrow> \<not> list_ex seed_failed ts \<and> \<not> list_all passed_or_skipped (last_results ts)"
  by (auto simp: fold_file_def Let_def filter_empty_conv list_all_iff)

text \<open>The report of Playwright a pass is read from: one of a run the spec was started in.\<close>

definition passed_in :: "pw_report \<Rightarrow> string \<Rightarrow> bool" where
  "passed_in report f \<longleftrightarrow>
     (let ts = tests_of report f
      in \<not> list_ex seed_failed ts \<and> list_all passed_or_skipped (last_results ts)
         \<and> list_ex (\<lambda>r. pr_status r = Some PwPassed) (last_results ts))"

lemma reported_pass:
  "fr_outcome (reported pg report broken output t) = RPass \<longleftrightarrow> passed_in report (snd t) \<and> snd t \<in> fst ` set (report_entries report)"
  by (auto simp: reported_def collectByFile_def named_result_def file_result.extend_def lost_def passed_in_def Let_def passes_iff)

lemma reported_names: "tr_flowId (reported pg report broken output t) = fst t \<and> tr_file (reported pg report broken output t) = snd t"
  by (auto simp: reported_def named_result_def file_result.extend_def lost_def split: option.split)

lemma map_of_find_result:
  assumes "map nm rest = filter P tests" and "distinct (map snd tests)" and "t \<in> set tests" and "P t"
    and "\<And>r. nm r = (tr_flowId r, tr_file r)"
  shows "\<exists>r\<in>set rest. find (\<lambda>r. tr_file r = snd t) (rev rest) = Some r \<and> nm r = t"
proof -
  have "t \<in> set (filter P tests)" using assms(3,4) by simp
  then have "t \<in> nm ` set rest" unfolding assms(1) [symmetric] by simp
  then obtain r where r: "r \<in> set rest" "nm r = t" by blast
  then have "find (\<lambda>r. tr_file r = snd t) (rev rest) \<noteq> None"
    by (auto simp: find_None_iff assms(5))
  then obtain r' where r': "find (\<lambda>r. tr_file r = snd t) (rev rest) = Some r'" by blast
  then have "r' \<in> set rest" "tr_file r' = snd t" by (auto dest: find_Some_mem)
  then have "nm r' \<in> set tests" "snd (nm r') = snd t"
    using assms(1) by (metis filter_is_subset image_eqI image_set subsetD, simp add: assms(5))
  with assms(2,3) have "nm r' = t" by (metis distinct_map inj_onD)
  with r' \<open>r' \<in> set rest\<close> show ?thesis by blast
qed

definition stands_on :: "playground \<Rightarrow> asked list \<Rightarrow> test_result \<Rightarrow> bool" where
  "stands_on pg tests r \<longleftrightarrow>
     (\<exists>asked report ended. pg_play pg (map spec_pattern asked) = (Some report, ended) \<and> set asked \<subseteq> set tests
        \<and> (tr_flowId r, tr_file r) \<in> set asked \<and> passed_in report (tr_file r))"

lemma stands_on_more: "stands_on pg (filter P tests) r \<Longrightarrow> stands_on pg tests r"
  unfolding stands_on_def by (meson filter_is_subset subset_trans)

lemma run_started:
  assumes "pg_installed pg" and "tests \<noteq> []" and "pg_play pg (map spec_pattern tests) = (Some report, ended)"
  shows "runFlowTests pg tests =
    (let broken = brokenSpecs report tests
     in if broken \<noteq> [] \<and> length broken < length tests
        then map_sum id (\<lambda>rest. map (\<lambda>t. case find (\<lambda>r. tr_file r = snd t) (rev rest) of
            Some r \<Rightarrow> r
          | None \<Rightarrow> lost t (case map_of broken (snd t) of Some m \<Rightarrow> m | None \<Rightarrow> [])) tests)
          (runFlowTests pg (without broken tests))
        else Inr (map (reported pg report broken (pe_output ended)) tests))"
  using assms by (subst runFlowTests.simps) (simp add: Let_def map_sum_def split: sum.split)

lemma run_needs_report:
  assumes "runFlowTests pg tests = Inr rs" and "tests \<noteq> []"
  shows "pg_installed pg \<and> (\<exists>report ended. pg_play pg (map spec_pattern tests) = (Some report, ended))"
  using assms by (subst (asm) runFlowTests.simps) (auto split: if_splits prod.splits option.splits)

lemma results_in_order:
  assumes "runFlowTests pg tests = Inr rs" and "distinct (map snd tests)"
  shows "map (\<lambda>r. (tr_flowId r, tr_file r)) rs = tests \<and> list_all (\<lambda>r. fr_outcome r = RPass \<longrightarrow> stands_on pg tests r) rs"
  using assms
proof (induction pg tests arbitrary: rs rule: runFlowTests.induct)
  case (1 pg tests)
  show ?case
  proof (cases "pg_installed pg \<and> tests \<noteq> []")
    case False
    then have "tests = []" using run_needs_report [OF "1.prems"(1)] by blast
    with "1.prems"(1) show ?thesis by (subst (asm) runFlowTests.simps) (simp split: if_splits)
  next
    case ready: True
    then obtain report ended where play: "pg_play pg (map spec_pattern tests) = (Some report, ended)"
      using run_needs_report [OF "1.prems"(1)] by blast
    from ready have "pg_installed pg" "tests \<noteq> []" by simp_all
    note started = run_started [OF this play]
    let ?broken = "brokenSpecs report tests"
    show ?thesis
    proof (cases "?broken \<noteq> [] \<and> length ?broken < length tests")
      case False
      then have rs: "rs = map (reported pg report ?broken (pe_output ended)) tests"
        using "1.prems"(1) started by (simp only: Let_def if_False sum.inject)
      have "stands_on pg tests (reported pg report ?broken (pe_output ended) t)"
        if "t \<in> set tests" "fr_outcome (reported pg report ?broken (pe_output ended) t) = RPass" for t
        unfolding stands_on_def
        by (intro exI conjI, rule play, rule subset_refl) (use that in \<open>simp_all add: reported_names reported_pass\<close>)
      moreover have "map (\<lambda>r. (tr_flowId r, tr_file r)) rs = tests"
        unfolding rs map_map comp_def by (intro map_idI) (simp add: reported_names)
      ultimately show ?thesis unfolding rs list_all_iff by auto
    next
      case True
      then obtain rest where rest: "runFlowTests pg (without ?broken tests) = Inr rest"
        using "1.prems"(1) started by (cases "runFlowTests pg (without ?broken tests)") (simp_all add: Let_def)
      define pick where "pick t = (case find (\<lambda>r. tr_file r = snd t) (rev rest) of
          Some r \<Rightarrow> r | None \<Rightarrow> lost t (case map_of ?broken (snd t) of Some m \<Rightarrow> m | None \<Rightarrow> []))" for t
      have rs: "rs = map pick tests"
        using "1.prems"(1) started True rest by (simp add: Let_def pick_def [abs_def])
      have dist: "distinct (map snd (without ?broken tests))"
        using "1.prems"(2) by (simp add: without_def distinct_map_filter)
      have "\<not> \<not> pg_installed pg" "tests \<noteq> []" using ready by auto
      from "1.IH" [OF this play [symmetric] refl refl True rest dist]
      have IH: "map (\<lambda>r. (tr_flowId r, tr_file r)) rest = without ?broken tests"
        "list_all (\<lambda>r. fr_outcome r = RPass \<longrightarrow> stands_on pg tests r) rest"
        by (auto simp: list_all_iff without_def intro: stands_on_more)
      have pick: "(tr_flowId (pick t), tr_file (pick t)) = t \<and> (fr_outcome (pick t) = RPass \<longrightarrow> stands_on pg tests (pick t))"
        if t: "t \<in> set tests" for t
      proof (cases "map_of ?broken (snd t) = None")
        case True
        from map_of_find_result [OF IH(1) [unfolded without_def] "1.prems"(2) t True refl]
        obtain r where "r \<in> set rest" "pick t = r" "(tr_flowId r, tr_file r) = t" by (auto simp: pick_def)
        with IH(2) show ?thesis by (auto simp: list_all_iff)
      next
        case False
        have "find (\<lambda>r. tr_file r = snd t) (rev rest) = None"
        proof (rule ccontr)
          assume "\<not> ?thesis"
          then obtain r where "r \<in> set rest" "tr_file r = snd t" by (auto dest: find_Some_mem)
          then have "(tr_flowId r, snd t) \<in> set (without ?broken tests)" unfolding IH(1) [symmetric] by force
          with False show False by (simp add: without_def)
        qed
        then show ?thesis by (simp add: pick_def lost_def)
      qed
      then have "map (\<lambda>r. (tr_flowId r, tr_file r)) rs = tests"
        unfolding rs map_map comp_def by (intro map_idI) simp
      with pick show ?thesis unfolding rs list_all_iff by auto
    qed
  qed
qed

text \<open>C28: A run of flow tests answers for every spec it was asked for, once and in the order asked, and a
  pass is Playwright's word: a run that the spec was in left a report in which every result of the file
  that counts passed or was skipped, at least one passed, and no test's seed failed. Specs that do not
  load take none of the others' results with them.\<close>

theorem pass_is_playwrights:
  assumes "runFlowTests pg tests = Inr rs" and "distinct (map snd tests)"
  shows "map (\<lambda>r. (tr_flowId r, tr_file r)) rs = tests
    \<and> list_all (\<lambda>r. fr_outcome r = RPass \<longrightarrow>
        (\<exists>asked report ended. pg_play pg (map spec_pattern asked) = (Some report, ended) \<and> set asked \<subseteq> set tests
          \<and> (tr_flowId r, tr_file r) \<in> set asked \<and> passed_in report (tr_file r))) rs"
  using results_in_order [OF assms] unfolding stands_on_def .

text \<open>Two specs, of which one does not load: Playwright is started again without it.\<close>

definition demo_passed :: pw_result where
  "demo_passed = \<lparr>pr_status = Some PwPassed, pr_duration = Some 5, pr_error = None, pr_errors = [],
     pr_steps = [\<lparr>ps_title = Some ''a'', ps_duration = None, ps_error = None\<rparr>], pr_attachments = []\<rparr>"

definition demo_play :: "string list \<Rightarrow> pw_report option \<times> play_end" where
  "demo_play patterns =
     (Some (if length patterns = 2
        then \<lparr>rp_suites = [], rp_errors = [(Some ''cannot load'', Some ''/w/tests/y.spec.ts'')]\<rparr>
        else \<lparr>rp_suites = [Suite (Some ''x.spec.ts'') [(None, [\<lparr>pt_annotations = [], pt_results = [demo_passed]\<rparr>])] []],
              rp_errors = []\<rparr>),
      \<lparr>pe_exitCode = Some 0, pe_timedOut = False, pe_output = []\<rparr>)"

definition demo_playground :: playground where
  "demo_playground = \<lparr>pg_installed = True, pg_repoRoot = ''/w'', pg_realRoot = ''/w'', pg_play = demo_play\<rparr>"

definition demo_asked :: "asked list" where
  "demo_asked = [(''x'', ''x.spec.ts''), (''y'', ''y.spec.ts'')]"

theorem pass_is_playwrights_witness:
  "\<exists>rs. runFlowTests demo_playground demo_asked = Inr rs \<and> map fr_outcome rs = [RPass, RFail]
     \<and> map (\<lambda>r. (tr_flowId r, tr_file r)) rs = demo_asked"
proof -
  let ?pg = demo_playground
  let ?first = "the (fst (demo_play [[], []]))" and ?second = "the (fst (demo_play [[]]))"
    and ?ended = "snd (demo_play [])"
  have on: "pg_installed ?pg" and some: "demo_asked \<noteq> []" "[hd demo_asked] \<noteq> []"
    by (simp_all add: demo_playground_def demo_asked_def)
  have play: "pg_play ?pg (map spec_pattern demo_asked) = (Some ?first, ?ended)"
    "pg_play ?pg (map spec_pattern [hd demo_asked]) = (Some ?second, ?ended)"
    by (simp_all add: demo_playground_def demo_asked_def demo_play_def)
  have broken: "brokenSpecs ?first demo_asked = [(''y.spec.ts'', ''cannot load'')]"
    "brokenSpecs ?second [hd demo_asked] = []" "without [(''y.spec.ts'', ''cannot load'')] demo_asked = [hd demo_asked]"
    by code_simp+
  have rest: "runFlowTests ?pg [hd demo_asked] = Inr (map (reported ?pg ?second [] (pe_output ?ended)) [hd demo_asked])"
    using run_started [OF on some(2) play(2)] broken(2) by simp
  have one: "fr_outcome (reported ?pg ?second [] (pe_output ?ended) (hd demo_asked)) = RPass" by code_simp
  obtain r where r: "runFlowTests ?pg [hd demo_asked] = Inr [r]" "fr_outcome r = RPass" "tr_file r = ''x.spec.ts''"
  proof
    show "runFlowTests ?pg [hd demo_asked] = Inr [reported ?pg ?second [] (pe_output ?ended) (hd demo_asked)]"
      unfolding rest by simp
  qed (use one reported_names in \<open>simp_all add: demo_asked_def\<close>)
  have two: "\<not> length demo_asked \<le> 1" "length [(''y.spec.ts'', ''cannot load'')] = 1" by (simp_all add: demo_asked_def)
  have rs: "runFlowTests ?pg demo_asked = Inr [r, lost (''y'', ''y.spec.ts'') ''cannot load'']"
    unfolding run_started [OF on some(1) play(1)] Let_def broken(1) broken(3) r(1)
    using two r(3) by (simp add: demo_asked_def)
  have "distinct (map snd demo_asked)" by code_simp
  from pass_is_playwrights [OF rs this] rs r(2) show ?thesis
    by (simp add: lost_def)
qed
end
