(* ===== verification/FlowRun.thy ===== *)
theory FlowRun
  imports FlowTests Board
begin

text \<open>
  A product brought up once, and a run of the stored tests against it:
  packages/core/src/services/product-world/flow-test-run.ts. The same life of a product, with the judge's
  work in flight, is the stage's (flow-test-stage.ts), so it is stated once here.

  What the host does is an input: whether the slot could be reserved, how the build and the boot ended, and
  whether taking the product down threw. What happened is a list of effects, so that what must always be
  undone can be stated. A thrown exception is \<open>Threw\<close> with its text.
\<close>

section \<open>The life of a product\<close>

datatype build_end = Built | BuildFailed (bf_timedOut: bool) (bf_exitCode: "int option") (bf_output: string)

datatype boot_end = Booted | BootFailed (bt_stage: string) (bt_reason: string)

record host_run =
  hr_reserve :: "string option"
  hr_build :: "string + build_end"
  hr_boot :: "string + boot_end"
  hr_down :: "string option"

datatype effect = Reserved | BuildRan | BootRan | BodyRan | WentDown | CleanedUp | Released

datatype 'a settled = Threw string | WorldFailed string string | Came 'a

definition build_reason :: "bool \<Rightarrow> int option \<Rightarrow> string \<Rightarrow> string" where
  "build_reason timedOut exitCode output =
     ''world/build.sh ''
     @ (if timedOut then ''did not finish in time''
        else ''exited '' @ (case exitCode of Some c \<Rightarrow> js_int c | None \<Rightarrow> ''without a code''))
     @ '':'' @ [CHR 0x0A] @ output"

text \<open>The inner \<open>try\<close>: the body, then the product is taken down whatever became of it. An exception of
  \<open>down\<close> takes the place of what the body came to.\<close>

definition body_then_down :: "host_run \<Rightarrow> 'a settled \<Rightarrow> effect list \<times> 'a settled" where
  "body_then_down h body =
     ([BodyRan, WentDown], case hr_down h of Some e \<Rightarrow> Threw e | None \<Rightarrow> body)"

definition built_and_booted :: "host_run \<Rightarrow> 'a settled \<Rightarrow> effect list \<times> 'a settled" where
  "built_and_booted h body =
     (case hr_build h of
        Inl e \<Rightarrow> ([BuildRan], Threw e)
      | Inr (BuildFailed t c out) \<Rightarrow> ([BuildRan], WorldFailed ''build'' (build_reason t c out))
      | Inr Built \<Rightarrow>
          (case hr_boot h of
             Inl e \<Rightarrow> ([BuildRan, BootRan], Threw e)
           | Inr (BootFailed stage reason) \<Rightarrow> ([BuildRan, BootRan], WorldFailed stage reason)
           | Inr Booted \<Rightarrow>
               let (es, r) = body_then_down h body in ([BuildRan, BootRan] @ es, r)))"

text \<open>The outer \<open>try\<close>: the slot is released however the rest ended. \<open>cleanup\<close> is what else its
  \<open>finally\<close> does first.\<close>

definition with_product :: "host_run \<Rightarrow> effect list \<Rightarrow> 'a settled \<Rightarrow> effect list \<times> 'a settled" where
  "with_product h cleanup body =
     (case hr_reserve h of
        Some e \<Rightarrow> ([], Threw e)
      | None \<Rightarrow>
          let (es, r) = built_and_booted h body in ([Reserved] @ es @ cleanup @ [Released], r))"

lemma product_life:
  assumes "cleanup = [] \<or> cleanup = [CleanedUp]"
  shows "count_list (fst (with_product h cleanup body)) Released = count_list (fst (with_product h cleanup body)) Reserved
    \<and> count_list (fst (with_product h cleanup body)) WentDown = count_list (fst (with_product h cleanup body)) BodyRan
    \<and> (BodyRan \<in> set (fst (with_product h cleanup body))
        \<longleftrightarrow> hr_reserve h = None \<and> hr_build h = Inr Built \<and> hr_boot h = Inr Booted)
    \<and> (fst (with_product h cleanup body) \<noteq> [] \<longrightarrow> last (fst (with_product h cleanup body)) = Released)
    \<and> count_list (fst (with_product h cleanup body)) Reserved \<le> 1"
  using assms
  by (auto simp: with_product_def built_and_booted_def body_then_down_def split: option.split sum.split
      build_end.split boot_end.split)

lemma came_from_body: "snd (with_product h cleanup body) = Came x \<Longrightarrow> body = Came x"
  by (auto simp: with_product_def built_and_booted_def body_then_down_def
      split: option.splits sum.splits build_end.splits boot_end.splits)

section \<open>A run of the stored tests\<close>

datatype 'l run_end = NoTests | RunWorldFailed string string | RunFailed run_refusal | RunThrew string | RunDone 'l

record flow_latest =
  fl_runId :: string
  fl_ranAt :: time
  fl_branch :: "string option"
  fl_commit :: "string option"
  fl_recipeFingerprint :: string
  fl_summary :: summary
  fl_flowTests :: "run_result list"

definition PRODUCT_WORLD_RECIPE_FINGERPRINT :: string where
  "PRODUCT_WORLD_RECIPE_FINGERPRINT = ''product-world''"

definition flowTestRunLatest ::
    "string \<Rightarrow> time \<Rightarrow> string option \<Rightarrow> string option \<Rightarrow> run_result list \<Rightarrow> flow_latest" where
  "flowTestRunLatest runId ranAt branch commit results =
     (let tally = tallyFlowTestRun results
      in \<lparr>fl_runId = runId, fl_ranAt = ranAt, fl_branch = branch, fl_commit = commit,
          fl_recipeFingerprint = PRODUCT_WORLD_RECIPE_FINGERPRINT,
          fl_summary = \<lparr>sm_total = ty_run tally, sm_pass = ty_passed tally, sm_fail = ty_failed tally, sm_stale = 0,
            sm_orphaned = 0, sm_error = ty_seedFailed tally, sm_blocked = 0\<rparr>,
          fl_flowTests = results\<rparr>)"

definition stored_runnable :: "test_record \<Rightarrow> bool" where
  "stored_runnable rc \<longleftrightarrow> rc_status rc \<noteq> TBlocked \<and> rc_file rc \<noteq> None"

record stored_input =
  si_index :: "test_record list"
  si_host :: host_run
  si_playground :: playground
  si_runThrows :: "string option"
  si_disk :: "string \<Rightarrow> string option"
  si_copied :: "string \<Rightarrow> bool"
  si_runId :: string
  si_ranAt :: time
  si_branch :: "string option"
  si_commit :: "string option"

definition records_asked :: "test_record list \<Rightarrow> asked list" where
  "records_asked rcs = map (\<lambda>rc. (rc_flowId rc, the (rc_file rc))) rcs"

definition PLAYWRIGHT_TEST_MISSING :: string where
  "PLAYWRIGHT_TEST_MISSING =
     ''Running flow tests needs @playwright/test and its browser. Install them with:'' @ [CHR 0x0A]
     @ ''  npm install @playwright/test@1.62.1'' @ [CHR 0x0A] @ ''  npx playwright install chromium''"

text \<open>\<open>new Map(list)\<close>: the last entry of a flow is the one that is found.\<close>

definition authored_of :: "test_record list \<Rightarrow> string \<Rightarrow> flow_test_status option" where
  "authored_of rcs f = map_of (rev (map (\<lambda>rc. (rc_flowId rc, rc_status rc)) rcs)) f"

text \<open>A result as the run keeps it, \<open>Inl\<close> when its spec cannot be read.\<close>

definition kept_result :: "stored_input \<Rightarrow> flow_test_status \<Rightarrow> test_result \<Rightarrow> string + run_result" where
  "kept_result si status r =
     (case si_disk si (tr_file r) of
        None \<Rightarrow> Inl (tr_file r)
      | Some spec \<Rightarrow>
          Inr \<lparr>rr_flowId = tr_flowId r, rr_file = tr_file r, rr_authored = status, rr_outcome = fr_outcome r,
               rr_run = keepFlowTestRun (si_copied si)
                 \<lparr>ki_runId = si_runId si, ki_specSource = spec, ki_ranAt = si_ranAt si, ki_commit = si_commit si,
                  ki_evidence = True\<rparr> r\<rparr>)"

definition kept_results :: "stored_input \<Rightarrow> test_record list \<Rightarrow> test_result list \<Rightarrow> string + run_result list" where
  "kept_results si rcs rs =
     all_right (List.map_filter (\<lambda>r. map_option (\<lambda>st. kept_result si st r) (authored_of rcs (tr_flowId r))) rs)"

definition runStoredFlowTests :: "stored_input \<Rightarrow> effect list \<times> flow_latest run_end" where
  "runStoredFlowTests si =
     (let rcs = filter stored_runnable (si_index si); pg = si_playground si
      in if rcs = [] then ([], NoTests)
         else if \<not> pg_installed pg then ([], RunWorldFailed ''scripts'' PLAYWRIGHT_TEST_MISSING)
         else let (es, r) = with_product (si_host si) []
                (case si_runThrows si of Some e \<Rightarrow> Threw e | None \<Rightarrow> Came (runFlowTests pg (records_asked rcs)))
              in (es, case r of
                        Threw e \<Rightarrow> RunThrew e
                      | WorldFailed stage reason \<Rightarrow> RunWorldFailed stage reason
                      | Came (Inl why) \<Rightarrow> RunFailed why
                      | Came (Inr rs) \<Rightarrow>
                          (case kept_results si rcs rs of
                             Inl e \<Rightarrow> RunThrew e
                           | Inr out \<Rightarrow>
                               RunDone (flowTestRunLatest (si_runId si) (si_ranAt si) (si_branch si) (si_commit si) out))))"



lemma kept_result_fields:
  "kept_result si st r = Inr k \<Longrightarrow> rr_flowId k = tr_flowId r \<and> rr_file k = tr_file r \<and> rr_authored k = st
    \<and> rr_outcome k = fr_outcome r"
  by (auto simp: kept_result_def split: option.splits)

lemma authored_of_member:
  "distinct (map rc_flowId rcs) \<Longrightarrow> rc \<in> set rcs \<Longrightarrow> authored_of rcs (rc_flowId rc) = Some (rc_status rc)"
  by (auto simp: authored_of_def intro!: map_of_is_SomeI simp: comp_def distinct_rev rev_map[symmetric])

lemma kept_in_order:
  assumes "kept_results si rcs rs = Inr out" and "distinct (map rc_flowId rcs)" and "rcs' = rcs"
    and "map (\<lambda>r. (tr_flowId r, tr_file r)) rs = records_asked qs" and "set qs \<subseteq> set rcs"
  shows "list_all2 (\<lambda>rc k. rr_flowId k = rc_flowId rc \<and> rr_authored k = rc_status rc) qs out
    \<and> map rr_outcome out = map fr_outcome rs"
  using assms(1,4,5)
proof (induction qs arbitrary: rs out)
  case Nil
  then show ?case by (simp add: records_asked_def kept_results_def)
next
  case (Cons q qs)
  then obtain r rest where rs: "rs = r # rest" "tr_flowId r = rc_flowId q"
    "map (\<lambda>r. (tr_flowId r, tr_file r)) rest = records_asked qs" by (auto simp: records_asked_def)
  have st: "authored_of rcs (rc_flowId q) = Some (rc_status q)"
    using authored_of_member [OF assms(2)] Cons.prems(3) by simp
  with Cons.prems(1) rs obtain k ks where k: "kept_result si (rc_status q) r = Inr k"
      "kept_results si rcs rest = Inr ks" "out = k # ks"
    by (auto simp: kept_results_def split: sum.splits)
  from Cons.IH [OF k(2) rs(3)] Cons.prems(3) kept_result_fields [OF k(1)] rs(1,2) k(3)
  show ?case by simp
qed

text \<open>A run of the stored tests that ends with a snapshot has one result for every stored test with a
  spec, in the order of the index, each beside the status it was accepted on, and its summary counts
  exactly them: as many passes, failures and seeds that failed as there are, the rest skipped. The
  product was up while they ran and is down again.\<close>

theorem stored_run_is_complete:
  assumes "runStoredFlowTests si = (es, RunDone l)"
    and "distinct (map rc_flowId (si_index si))" and "distinct (map rc_file (filter stored_runnable (si_index si)))"
  shows "list_all2 (\<lambda>rc k. rr_flowId k = rc_flowId rc \<and> rr_authored k = rc_status rc)
      (filter stored_runnable (si_index si)) (fl_flowTests l)
    \<and> sm_total (fl_summary l) = length (fl_flowTests l)
    \<and> sm_total (fl_summary l) = sm_pass (fl_summary l) + sm_fail (fl_summary l) + sm_error (fl_summary l)
        + length (filter (\<lambda>k. rr_outcome k = RSkipped) (fl_flowTests l))
    \<and> es = [Reserved, BuildRan, BootRan, BodyRan, WentDown, Released]"
proof -
  let ?rcs = "filter stored_runnable (si_index si)"
  have ne: "?rcs \<noteq> []" and inst: "pg_installed (si_playground si)"
    using assms(1) by (auto simp: runStoredFlowTests_def Let_def split: if_splits)
  let ?body = "case si_runThrows si of Some e \<Rightarrow> Threw e | None \<Rightarrow> Came (runFlowTests (si_playground si) (records_asked ?rcs))"
  obtain r where r: "with_product (si_host si) [] ?body = (es, r)"
    using assms(1) ne inst by (auto simp: runStoredFlowTests_def Let_def split: prod.splits)
  then obtain rs out where rs: "r = Came (Inr rs)" "kept_results si ?rcs rs = Inr out"
      "l = flowTestRunLatest (si_runId si) (si_ranAt si) (si_branch si) (si_commit si) out"
    using assms(1) ne inst by (auto simp: runStoredFlowTests_def Let_def split: settled.splits sum.splits)
  have "?body = Came (Inr rs)" using came_from_body [of "si_host si" "[]" ?body "Inr rs"] r rs(1) by simp
  then have run: "runFlowTests (si_playground si) (records_asked ?rcs) = Inr rs" by (simp split: option.splits)
  have "map snd (records_asked ?rcs) = map (the \<circ> rc_file) ?rcs" by (simp add: records_asked_def)
  moreover have "inj_on the (set (map rc_file ?rcs))"
    by (auto simp: inj_on_def stored_runnable_def)
  ultimately have "distinct (map snd (records_asked ?rcs))"
    using assms(3) by (metis distinct_map map_map)
  from results_in_order [OF run this] have order: "map (\<lambda>r. (tr_flowId r, tr_file r)) rs = records_asked ?rcs" by simp
  have "distinct (map rc_flowId ?rcs)" using assms(2) by (simp add: distinct_map_filter)
  from kept_in_order [OF rs(2) this refl order subset_refl]
  have rows: "list_all2 (\<lambda>rc k. rr_flowId k = rc_flowId rc \<and> rr_authored k = rc_status rc) ?rcs out" by simp
  have effects: "es = [Reserved, BuildRan, BootRan, BodyRan, WentDown, Released]"
    using r rs(1) by (auto simp: with_product_def built_and_booted_def body_then_down_def
        split: option.splits sum.splits build_end.splits boot_end.splits)
  have "length out = length (filter (\<lambda>k. rr_outcome k = RPass) out) + length (filter (\<lambda>k. rr_outcome k = RFail) out)
      + length (filter (\<lambda>k. rr_outcome k = RSeedFailed) out) + length (filter (\<lambda>k. rr_outcome k = RSkipped) out)" for out
  proof (induction out)
    case (Cons k out)
    then show ?case by (cases "rr_outcome k") simp_all
  qed simp
  with rows effects show ?thesis
    by (simp add: rs(3) flowTestRunLatest_def tallyFlowTestRun_def Let_def)
qed

definition demo_record :: "string \<Rightarrow> flow_test_status \<Rightarrow> string option \<Rightarrow> test_record" where
  "demo_record f st spec =
     \<lparr>rc_flowId = f, rc_flowFingerprint = ''p'', rc_status = st, rc_file = spec, rc_seed = None, rc_summary = ''s'',
      rc_disagreement = None, rc_blockedBy = None, rc_blockedOn = None, rc_copyDrift = None, rc_run = None, rc_judged = None\<rparr>"

definition demo_stored :: stored_input where
  "demo_stored =
     \<lparr>si_index = [demo_record ''z'' TBlocked None, demo_record ''x'' TFailing (Some ''x.spec.ts'')],
      si_host = \<lparr>hr_reserve = None, hr_build = Inr Built, hr_boot = Inr Booted, hr_down = None\<rparr>,
      si_playground = demo_playground, si_runThrows = None, si_disk = (\<lambda>f. Some ''spec''), si_copied = (\<lambda>f. True),
      si_runId = ''r1'', si_ranAt = ''t1'', si_branch = None, si_commit = Some ''c1''\<rparr>"

theorem stored_run_is_complete_witness:
  "\<exists>l. snd (runStoredFlowTests demo_stored) = RunDone l \<and> map rr_flowId (fl_flowTests l) = [''x'']
     \<and> sm_total (fl_summary l) = 1 \<and> sm_pass (fl_summary l) = 1"
proof -
  let ?second = "the (fst (demo_play [[]]))" and ?ended = "snd (demo_play [])"
  have rcs: "filter stored_runnable (si_index demo_stored) = [demo_record ''x'' TFailing (Some ''x.spec.ts'')]"
    by (simp add: demo_stored_def demo_record_def stored_runnable_def)
  have asked: "records_asked [demo_record ''x'' TFailing (Some ''x.spec.ts'')] = [hd demo_asked]"
    by (simp add: records_asked_def demo_record_def demo_asked_def)
  have play: "pg_play demo_playground (map spec_pattern [hd demo_asked]) = (Some ?second, ?ended)"
    and on: "pg_installed demo_playground" and some: "[hd demo_asked] \<noteq> []"
    by (simp_all add: demo_playground_def demo_asked_def demo_play_def)
  have broken: "brokenSpecs ?second [hd demo_asked] = []" by code_simp
  obtain r where r: "runFlowTests demo_playground [hd demo_asked] = Inr [r]" "fr_outcome r = RPass"
      "tr_flowId r = ''x''" "tr_file r = ''x.spec.ts''"
  proof
    show "runFlowTests demo_playground [hd demo_asked] = Inr [reported demo_playground ?second [] (pe_output ?ended) (hd demo_asked)]"
      using run_started [OF on some play] broken by simp
    show "fr_outcome (reported demo_playground ?second [] (pe_output ?ended) (hd demo_asked)) = RPass" by code_simp
  qed (use reported_names in \<open>simp_all add: demo_asked_def\<close>)
  obtain l where l: "runStoredFlowTests demo_stored = ([Reserved, BuildRan, BootRan, BodyRan, WentDown, Released], RunDone l)"
      "map rr_flowId (fl_flowTests l) = [''x'']" "sm_pass (fl_summary l) = 1"
  proof
    have kept: "kept_results demo_stored [demo_record ''x'' TFailing (Some ''x.spec.ts'')] [r] =
        Inr [\<lparr>rr_flowId = ''x'', rr_file = ''x.spec.ts'', rr_authored = TFailing, rr_outcome = RPass,
          rr_run = keepFlowTestRun (\<lambda>f. True) \<lparr>ki_runId = ''r1'', ki_specSource = ''spec'', ki_ranAt = ''t1'',
            ki_commit = Some ''c1'', ki_evidence = True\<rparr> r\<rparr>]" (is "_ = Inr ?out")
      using r by (simp add: kept_results_def kept_result_def authored_of_def demo_stored_def demo_record_def map_filter_simps)
    show "runStoredFlowTests demo_stored = ([Reserved, BuildRan, BootRan, BodyRan, WentDown, Released],
        RunDone (flowTestRunLatest ''r1'' ''t1'' None (Some ''c1'') ?out))"
      unfolding runStoredFlowTests_def rcs asked Let_def
      using kept r(1) on by (simp add: demo_stored_def with_product_def built_and_booted_def body_then_down_def)
  qed (simp_all add: flowTestRunLatest_def tallyFlowTestRun_def Let_def)
  have "distinct (map rc_flowId (si_index demo_stored))" by code_simp
  moreover have "distinct (map rc_file (filter stored_runnable (si_index demo_stored)))" unfolding rcs by simp
  ultimately have "sm_total (fl_summary l) = length (fl_flowTests l)"
    using stored_run_is_complete [OF l(1)] by blast
  moreover have "length (fl_flowTests l) = 1" using arg_cong [OF l(2), of length] by simp
  ultimately show ?thesis using l by simp
qed

end
