(* ===== verification/FlowSession.thy ===== *)
theory FlowSession
  imports FlowTests
begin

text \<open>
  The session that writes one flow's test, and the judge it answers to:
  packages/core/src/services/product-world/flow-test-session.ts, flow-test-fidelity.ts, flow-test-steps.ts.

  The tests directory is a map from file names to their text. A session edits it, has the engine run the
  test (\<open>run_test\<close>), has the judge read it (\<open>review_test\<close>) and gives an outcome, which the engine holds
  against the files as they stand. Each is a \<open>session_event\<close>, carrying what the model did not decide: what
  the engine's run came to, and what the judge's session ended with. \<open>session_step\<close> is one event;
  concurrent edits of others are edits too.

  A verdict is kept under the hash of what the judge was given; \<open>sha\<close> is the hash function and \<open>coll\<close> the
  collation, arguments both. What the schema's parser says of a malformed verdict is left out. The ellipsis, one unit in the language, is three dots here, and the messages
  a refusal is made of are constructors with what the text names.
\<close>

section \<open>The steps of a flow\<close>

record milestone =
  ml_order :: nat
  ml_doc :: string
  ml_claimId :: string
  ml_claimTitle :: string
  ml_sentences :: "string list"

record flow_step =
  fs_order :: nat
  fs_claimTitle :: string
  fs_claim :: "string option"
  fs_doc :: string
  fs_heading :: "string option"
  fs_sectionText :: "string option"

definition SECTION_QUOTE_CHARS :: nat where
  "SECTION_QUOTE_CHARS = 4000"

definition quotedSection :: "flow_step \<Rightarrow> string option" where
  "quotedSection s =
     map_option (\<lambda>t. if length t \<le> SECTION_QUOTE_CHARS then t
       else take SECTION_QUOTE_CHARS t @ [CHR 0x0A] @ ''... ('' @ js_int (int (length t - SECTION_QUOTE_CHARS))
         @ '' more characters in the document)'') (fs_sectionText s)"

definition step_quotes :: "flow_step \<Rightarrow> string list" where
  "step_quotes s =
     [js_int (int (fs_order s)) @ ''. '' @ fs_claimTitle s]
     @ (if truthy (fs_claim s) then [''   claim: '' @ the (fs_claim s)] else [])
     @ [''   document: '' @ fs_doc s @ (if truthy (fs_heading s) then CHR '' '' # [CHR 0xA7] @ CHR '' '' # the (fs_heading s) else [])]
     @ (if truthy (quotedSection s)
        then ''   the passage, as written:'' # map (\<lambda>l. ''   | '' @ l) (js_split [CHR 0x0A] (the (quotedSection s)))
        else [])
     @ [[]]"

definition flowStepQuotes :: "flow_step list \<Rightarrow> string list" where
  "flowStepQuotes steps = concat (map step_quotes steps)"

text \<open>The steps read out of a tree. \<open>claims\<close> is the statement of a claim, and \<open>section\<close> the heading and the
  text of the section some sentences of a document sit in, when the document could be read.\<close>

definition flowStepReader ::
    "(string \<Rightarrow> string option) \<Rightarrow> (string \<Rightarrow> string list \<Rightarrow> (string \<times> string) option) \<Rightarrow> milestone list \<Rightarrow> flow_step list" where
  "flowStepReader claims passage milestones =
     map (\<lambda>m. let p = passage (ml_doc m) (ml_sentences m)
              in \<lparr>fs_order = ml_order m, fs_claimTitle = ml_claimTitle m, fs_claim = claims (ml_claimId m),
                  fs_doc = ml_doc m, fs_heading = map_option fst p, fs_sectionText = map_option snd p\<rparr>)
       (sort_key ml_order milestones)"

section \<open>The judge\<close>

datatype verdict_word = SaysFaithful | SaysFlagged

text \<open>What the judge's session answered, before it is held to the schema.\<close>

record judge_answer =
  ja_verdict :: verdict_word
  ja_flagged :: "(nat \<times> string) list option"
  ja_confidence :: "string option"

datatype answer_issue = FlagsNothing | NoConfidence | FaithfulWithFlags

definition flags_of :: "judge_answer \<Rightarrow> (nat \<times> string) list" where
  "flags_of a = (case ja_flagged a of Some fs \<Rightarrow> fs | None \<Rightarrow> [])"

definition answer_issues :: "judge_answer \<Rightarrow> answer_issue list" where
  "answer_issues a =
     (if ja_verdict a = SaysFlagged
      then (if flags_of a = [] then [FlagsNothing] else []) @ (if ja_confidence a = None then [NoConfidence] else [])
      else if flags_of a \<noteq> [] then [FaithfulWithFlags] else [])"

text \<open>How a judge's session ended: a failure as it is described, or an answer, which need not be of the
  schema (\<open>None\<close>).\<close>

datatype judge_end = JudgeFailed string | JudgeSaid "judge_answer option"

datatype flow_verdict = Faithful | Flagged "(nat \<times> string) list" string | Unavailable string

definition flowTestVerdictOf :: "judge_end \<Rightarrow> flow_verdict" where
  "flowTestVerdictOf e =
     (case e of
        JudgeFailed reason \<Rightarrow> Unavailable reason
      | JudgeSaid None \<Rightarrow> Unavailable ''malformed verdict''
      | JudgeSaid (Some a) \<Rightarrow>
          if answer_issues a \<noteq> [] then Unavailable ''malformed verdict''
          else if ja_verdict a = SaysFaithful then Faithful
          else Flagged (flags_of a) (case ja_confidence a of Some c \<Rightarrow> c | None \<Rightarrow> ''medium''))"

text \<open>The steps an answer may flag.\<close>

definition unknown_flags :: "flow_step list \<Rightarrow> judge_answer \<Rightarrow> nat list" where
  "unknown_flags steps a = filter (\<lambda>n. n \<notin> set (map fs_order steps)) (map fst (flags_of a))"

definition opt_json :: "string option \<Rightarrow> json" where
  "opt_json s = (case s of Some t \<Rightarrow> JStr t | None \<Rightarrow> JNull)"

definition drift_json :: "copy_drift \<Rightarrow> json" where
  "drift_json d = JArr [JNum (int (cd_step d)), JStr (cd_documented d), JStr (cd_observed d)]"

definition step_json :: "flow_step \<Rightarrow> json" where
  "step_json s = JArr [JNum (int (fs_order s)), JStr (fs_claimTitle s), opt_json (fs_claim s), opt_json (quotedSection s)]"

definition judge_subject :: "(string \<Rightarrow> 'c::linorder) \<Rightarrow> flow_step list \<Rightarrow> string \<Rightarrow> string option \<Rightarrow> copy_drift list \<Rightarrow> json" where
  "judge_subject coll steps spec seed drift =
     (let ordered = map drift_json (orderCopyDrift coll drift)
      in JArr ([JStr ''flow-test-fidelity-v1'', JStr spec, opt_json seed, JArr (map step_json steps)]
               @ (if ordered \<noteq> [] then [JArr ordered] else [])))"

definition flowTestJudgeKey ::
    "(string \<Rightarrow> string) \<Rightarrow> (string \<Rightarrow> 'c::linorder) \<Rightarrow> flow_step list \<Rightarrow> string \<Rightarrow> string option \<Rightarrow> copy_drift list \<Rightarrow> string" where
  "flowTestJudgeKey sha coll steps spec seed drift = sha (json_stringify (judge_subject coll steps spec seed drift))"

definition describeFlagged :: "(nat \<times> string) list \<Rightarrow> string" where
  "describeFlagged flags = js_join ''; '' (map (\<lambda>(n, m). ''step '' @ js_int (int n) @ '': '' @ m) flags)"

section \<open>What a spec and a seed may not be\<close>

definition flowTestFileName :: "string \<Rightarrow> string" where
  "flowTestFileName flowId = sanitizeSegment flowId @ ''.spec.ts''"

definition flowSeedFileName :: "string \<Rightarrow> string" where
  "flowSeedFileName flowId = sanitizeSegment flowId @ ''.seed.ts''"

datatype spec_defect = NoFlowImport | NoExpect | Narrowed string | OtherSteps "string list" "string list"

definition imports_flow :: "string \<Rightarrow> bool" where
  "imports_flow spec \<longleftrightarrow>
     list_ex (\<lambda>(a, b). js_includes (''from '' @ [a] @ ''./flow'' @ [b]) spec)
       (List.product [CHR 0x27, CHR 0x22] [CHR 0x27, CHR 0x22])"

definition expect_at :: "char option \<Rightarrow> string \<Rightarrow> bool" where
  "expect_at p s \<longleftrightarrow>
     boundary p s
     \<and> (case after ''expect'' s of
          None \<Rightarrow> False
        | Some r \<Rightarrow> (case spaces r of [] \<Rightarrow> False | c # _ \<Rightarrow> c = CHR ''.'' \<or> c = CHR ''(''))"

text \<open>The words of a list that the text starts with and that end at a word's end.\<close>

definition whole_word :: "string list \<Rightarrow> string \<Rightarrow> string option" where
  "whole_word ws s = find (\<lambda>w. case after w s of None \<Rightarrow> False | Some r \<Rightarrow> \<not> word_at r) ws"

definition after_word :: "string list \<Rightarrow> string \<Rightarrow> (string \<times> string) option" where
  "after_word ws s = map_option (\<lambda>w. (w, drop (length w) s)) (find (\<lambda>w. starts_with w s) ws)"

definition narrowed_at :: "char option \<Rightarrow> string \<Rightarrow> (string \<times> nat) option" where
  "narrowed_at p s =
     (let one = (if boundary p s
          then Option.bind (after_word [''test.'', ''it.'', ''describe.''] s) (\<lambda>(w, r).
            map_option (\<lambda>v. w @ v) (whole_word [''skip'', ''fixme'', ''fail'', ''only''] r))
          else None);
          two = Option.bind (after ''.describe.'' s) (\<lambda>r.
            map_option (\<lambda>v. ''.describe.'' @ v) (whole_word [''skip'', ''fixme'', ''only''] r))
      in map_option (\<lambda>m. (m, length m - 1)) (case one of Some m \<Rightarrow> Some m | None \<Rightarrow> two))"

definition specDefect :: "string \<Rightarrow> flow_step list \<Rightarrow> spec_defect option" where
  "specDefect spec steps =
     (if \<not> imports_flow spec then Some NoFlowImport
      else if \<not> found_after expect_at None spec then Some NoExpect
      else case meanings (lex_after narrowed_at None spec) of
          m # _ \<Rightarrow> Some (Narrowed m)
        | [] \<Rightarrow>
            if flowSpecStepTitles spec \<noteq> map fs_claimTitle steps
            then Some (OtherSteps (map fs_claimTitle steps) (flowSpecStepTitles spec)) else None)"

datatype seed_defect = ExportsNoSeed | NotRun | NotUnique

text \<open>\<open>\s+\<close> between two words.\<close>

definition spaced :: "string \<Rightarrow> string option" where
  "spaced s = (case s of c # _ \<Rightarrow> if js_space c then Some (spaces s) else None | [] \<Rightarrow> None)"

definition exports_seed_at :: "char option \<Rightarrow> string \<Rightarrow> bool" where
  "exports_seed_at p s \<longleftrightarrow>
     boundary p s
     \<and> (case Option.bind (after ''export'' s) spaced of
          None \<Rightarrow> False
        | Some r \<Rightarrow>
            (case Option.bind
                (case Option.bind (Option.bind (after ''async'' r) spaced) (after ''function'') of
                   Some t \<Rightarrow> Some t | None \<Rightarrow> after ''const'' r) spaced of
               None \<Rightarrow> False
             | Some t \<Rightarrow> (case after ''seed'' t of None \<Rightarrow> False | Some u \<Rightarrow> \<not> word_at u)))"

definition flow_test_call_at :: "char option \<Rightarrow> string \<Rightarrow> bool" where
  "flow_test_call_at p s \<longleftrightarrow>
     boundary p s \<and> (case after ''flowTest'' s of None \<Rightarrow> False | Some r \<Rightarrow> starts_with ''('' (spaces r))"

definition word_unique_at :: "char option \<Rightarrow> string \<Rightarrow> bool" where
  "word_unique_at p s \<longleftrightarrow> boundary p s \<and> whole_word [''unique''] s \<noteq> None"

definition seedDefect :: "string \<Rightarrow> string \<Rightarrow> string \<Rightarrow> seed_defect option" where
  "seedDefect seed spec file =
     (let modul = (if drop (length file - 3) file = ''.ts'' then take (length file - 3) file else file)
      in if \<not> found_after exports_seed_at None seed then Some ExportsNoSeed
         else if \<not> js_includes (''./'' @ modul) spec \<or> \<not> found_after flow_test_call_at None spec then Some NotRun
         else if \<not> found_after word_unique_at None seed then Some NotUnique else None)"

datatype drift_defect = UnknownSteps "nat list" | SameName copy_drift

definition copyDriftDefect :: "copy_drift list \<Rightarrow> flow_step list \<Rightarrow> drift_defect option" where
  "copyDriftDefect drift steps =
     (let unknown = filter (\<lambda>d. cd_step d \<notin> set (map fs_order steps)) drift
      in if unknown \<noteq> [] then Some (UnknownSteps (js_set (map cd_step unknown)))
         else map_option SameName (find (\<lambda>d. js_trim (cd_documented d) = js_trim (cd_observed d)) drift))"

section \<open>The session\<close>

type_synonym tests_dir = "string \<Rightarrow> string option"

record flow_prior =
  pq_reason :: repair_reason
  pq_record :: test_record
  pq_spec :: "string option"
  pq_seed :: "string option"
  pq_rerun :: "test_result option"
  pq_flagged :: "(nat \<times> string) list option"
  pq_diffBase :: "string option"

record 'c session_input =
  sx_sha :: "string \<Rightarrow> string"
  sx_coll :: "string \<Rightarrow> 'c"
  sx_flowId :: string
  sx_steps :: "flow_step list"
  sx_prior :: "flow_prior option"

text \<open>What the judge's child sessions cost.\<close>

record judge_cost =
  jc_sessions :: nat
  jc_turns :: nat
  jc_tokens :: nat
  jc_costUsd :: rat

record session_files =
  sf_spec :: string
  sf_seed :: "string option"

record flow_session =
  fx_lastRun :: "(string \<times> test_result) option"
  fx_lastVerdict :: "flow_verdict option"
  fx_verdicts :: "(string \<times> flow_verdict) list"
  fx_judgeSpent :: judge_cost

datatype files_defect = NoSpec | SpecDefect spec_defect | SeedDefect seed_defect

definition spec_name :: "('c, 'z) session_input_scheme \<Rightarrow> string" where
  "spec_name c = flowTestFileName (sx_flowId c)"

definition seed_name :: "('c, 'z) session_input_scheme \<Rightarrow> string" where
  "seed_name c = flowSeedFileName (sx_flowId c)"

definition open_flow_session :: "('c, 'z) session_input_scheme \<Rightarrow> flow_session" where
  "open_flow_session c =
     \<lparr>fx_lastRun = None, fx_lastVerdict = None,
      fx_verdicts = (case Option.bind (sx_prior c) (\<lambda>p. not_empty (rc_judged (pq_record p))) of
                       Some k \<Rightarrow> [(k, Faithful)] | None \<Rightarrow> []),
      fx_judgeSpent = \<lparr>jc_sessions = 0, jc_turns = 0, jc_tokens = 0, jc_costUsd = 0\<rparr>\<rparr>"

definition readFiles :: "('c, 'z) session_input_scheme \<Rightarrow> tests_dir \<Rightarrow> files_defect + session_files" where
  "readFiles c dir =
     (case dir (spec_name c) of
        None \<Rightarrow> Inl NoSpec
      | Some spec \<Rightarrow>
          (case specDefect spec (sx_steps c) of
             Some d \<Rightarrow> Inl (SpecDefect d)
           | None \<Rightarrow>
               (case Option.bind (dir (seed_name c)) (\<lambda>seed. seedDefect seed spec (seed_name c)) of
                  Some d \<Rightarrow> Inl (SeedDefect d)
                | None \<Rightarrow> Inr \<lparr>sf_spec = spec, sf_seed = dir (seed_name c)\<rparr>)))"

definition judge_key :: "('c::linorder, 'z) session_input_scheme \<Rightarrow> session_files \<Rightarrow> copy_drift list \<Rightarrow> string" where
  "judge_key c f drift = flowTestJudgeKey (sx_sha c) (sx_coll c) (sx_steps c) (sf_spec f) (sf_seed f) drift"

definition files_key :: "('c::linorder, 'z) session_input_scheme \<Rightarrow> session_files \<Rightarrow> string" where
  "files_key c f = judge_key c f []"

datatype refusal =
    Defective files_defect
  | EngineDidNotRun string
  | DriftRefused drift_defect
  | SeedDidNotHold "string option"
  | RunEnded run_outcome
  | FilesLeft "string list"
  | PutBack "string list"
  | VerdictFlagged "(nat \<times> string) list"
  | NotReviewed "copy_drift list"
  | NotPassing run_outcome "string option"
  | NotFailing run_outcome

text \<open>The engine's own run of the files: \<open>Inl\<close> when Playwright gave no results.\<close>

definition runSpec ::
    "('c::linorder, 'z) session_input_scheme \<Rightarrow> tests_dir \<Rightarrow> string + test_result \<Rightarrow> flow_session
     \<Rightarrow> (refusal + test_result) \<times> flow_session" where
  "runSpec c dir eng s =
     (let s = s\<lparr>fx_lastRun := None\<rparr>
      in case readFiles c dir of
           Inl d \<Rightarrow> (Inl (Defective d), s)
         | Inr f \<Rightarrow>
             (case eng of
                Inl e \<Rightarrow> (Inl (EngineDidNotRun e), s)
              | Inr r \<Rightarrow> (Inr r, s\<lparr>fx_lastRun := Some (files_key c f, r)\<rparr>)))"

definition add_cost :: "judge_cost \<Rightarrow> judge_cost \<Rightarrow> judge_cost" where
  "add_cost a b =
     \<lparr>jc_sessions = jc_sessions a + jc_sessions b, jc_turns = jc_turns a + jc_turns b,
      jc_tokens = jc_tokens a + jc_tokens b, jc_costUsd = jc_costUsd a + jc_costUsd b\<rparr>"

text \<open>The verdict is new when the flag is set.\<close>

definition dispatch_judge ::
    "string \<Rightarrow> judge_end \<Rightarrow> judge_cost \<Rightarrow> flow_session \<Rightarrow> (refusal + flow_verdict \<times> bool) \<times> flow_session" where
  "dispatch_judge key j cost s =
     (let s = s\<lparr>fx_judgeSpent := add_cost (fx_judgeSpent s) (cost\<lparr>jc_sessions := 1\<rparr>)\<rparr>;
          v = flowTestVerdictOf j
      in (Inr (v, True),
          case v of Unavailable _ \<Rightarrow> s
          | _ \<Rightarrow> s\<lparr>fx_verdicts := AList.update key v (fx_verdicts s), fx_lastVerdict := Some v\<rparr>))"

definition run_to_judge ::
    "('c::linorder, 'z) session_input_scheme \<Rightarrow> tests_dir \<Rightarrow> session_files \<Rightarrow> string + test_result \<Rightarrow> flow_session
     \<Rightarrow> (refusal + test_result) \<times> flow_session" where
  "run_to_judge c dir f eng s =
     (case fx_lastRun s of
        Some (k, r) \<Rightarrow> if k = files_key c f then (Inr r, s) else runSpec c dir eng s
      | None \<Rightarrow> runSpec c dir eng s)"

definition review ::
    "('c::linorder, 'z) session_input_scheme \<Rightarrow> tests_dir \<Rightarrow> copy_drift list \<Rightarrow> string + test_result \<Rightarrow> judge_end
     \<Rightarrow> judge_cost \<Rightarrow> flow_session \<Rightarrow> (refusal + flow_verdict \<times> bool) \<times> flow_session" where
  "review c dir declared eng j cost s =
     (case readFiles c dir of
        Inl d \<Rightarrow> (Inl (Defective d), s)
      | Inr f \<Rightarrow>
          let drift = orderCopyDrift (sx_coll c) declared
          in case copyDriftDefect drift (sx_steps c) of
               Some d \<Rightarrow> (Inl (DriftRefused d), s)
             | None \<Rightarrow>
                 (case map_of (fx_verdicts s) (judge_key c f drift) of
                    Some v \<Rightarrow> (Inr (v, False), s\<lparr>fx_lastVerdict := Some v\<rparr>)
                  | None \<Rightarrow>
                      (case run_to_judge c dir f eng s of
                         (Inl r, s) \<Rightarrow> (Inl r, s)
                       | (Inr r, s) \<Rightarrow>
                           (case fr_outcome r of
                              RSeedFailed \<Rightarrow> (Inl (SeedDidNotHold (fr_error r)), s)
                            | RSkipped \<Rightarrow> (Inl (RunEnded RSkipped), s)
                            | _ \<Rightarrow> dispatch_judge (judge_key c f drift) j cost s))))"

text \<open>What a reason forbids changing is put back, and named.\<close>

definition put_file_back :: "string \<Rightarrow> string option \<Rightarrow> tests_dir \<Rightarrow> tests_dir \<times> string list" where
  "put_file_back name accepted dir = (if dir name = accepted then (dir, []) else (dir(name := accepted), [name]))"

definition restoreFrozen :: "('c, 'z) session_input_scheme \<Rightarrow> tests_dir \<Rightarrow> tests_dir \<times> string list" where
  "restoreFrozen c dir =
     (case sx_prior c of
        None \<Rightarrow> (dir, [])
      | Some p \<Rightarrow>
          if pq_reason p = SeedFailed \<or> pq_reason p = NowPassing
          then let (dir1, a) = put_file_back (spec_name c) (pq_spec p) dir;
                   (dir2, b) = (if pq_reason p = NowPassing then put_file_back (seed_name c) (pq_seed p) dir1 else (dir1, []))
               in (dir2, a @ b)
          else (dir, []))"

text \<open>How the engine's run is held against what the session says it proves.\<close>

definition held_against :: "flow_test_status \<Rightarrow> test_result \<Rightarrow> refusal option" where
  "held_against status r =
     (if fr_outcome r = RSeedFailed then Some (SeedDidNotHold (fr_error r))
      else if status = TPassing \<and> fr_outcome r \<noteq> RPass then Some (NotPassing (fr_outcome r) (fr_error r))
      else if status = TFailing \<and> fr_outcome r \<noteq> RFail then Some (NotFailing (fr_outcome r))
      else None)"

definition outcome_drift :: "('c::linorder, 'z) session_input_scheme \<Rightarrow> flow_outcome \<Rightarrow> copy_drift list" where
  "outcome_drift c o' = orderCopyDrift (sx_coll c) (case fo_copyDrift o' of Some d \<Rightarrow> d | None \<Rightarrow> [])"

text \<open>\<open>validateOutcome\<close>: the refusal, or \<open>None\<close>, with the directory and the session as it leaves them. A
  verdict kept is \<open>Faithful\<close> or \<open>Flagged\<close>.\<close>

definition validateOutcome ::
    "('c::linorder, 'z) session_input_scheme \<Rightarrow> flow_outcome \<Rightarrow> string + test_result \<Rightarrow> tests_dir \<Rightarrow> flow_session
     \<Rightarrow> refusal option \<times> tests_dir \<times> flow_session" where
  "validateOutcome c o' eng dir s =
     (if fo_status o' = TBlocked
      then let left = filter (\<lambda>n. dir n \<noteq> None) [spec_name c, seed_name c]
           in (if left \<noteq> [] then Some (FilesLeft left) else None, dir, s)
      else case restoreFrozen c dir of
          (dir1, n # ns) \<Rightarrow> (Some (PutBack (n # ns)), dir1, s)
        | (dir1, []) \<Rightarrow>
            (case readFiles c dir1 of
               Inl d \<Rightarrow> (Some (Defective d), dir1, s)
             | Inr f \<Rightarrow>
                 let drift = outcome_drift c o'
                 in case copyDriftDefect drift (sx_steps c) of
                      Some d \<Rightarrow> (Some (DriftRefused d), dir1, s)
                    | None \<Rightarrow>
                        (case map_of (fx_verdicts s) (judge_key c f drift) of
                           Some (Flagged flags _) \<Rightarrow> (Some (VerdictFlagged flags), dir1, s)
                         | None \<Rightarrow> (Some (NotReviewed drift), dir1, s)
                         | Some _ \<Rightarrow>
                             (case runSpec c dir1 eng s of
                                (Inl r, s1) \<Rightarrow> (Some r, dir1, s1)
                              | (Inr r, s1) \<Rightarrow> (held_against (fo_status o') r, dir1, s1)))))"

definition judged_key :: "('c::linorder, 'z) session_input_scheme \<Rightarrow> tests_dir \<Rightarrow> flow_session \<Rightarrow> copy_drift list \<Rightarrow> string option" where
  "judged_key c dir s drift =
     (case readFiles c dir of
        Inl _ \<Rightarrow> None
      | Inr f \<Rightarrow>
          let k = judge_key c f (orderCopyDrift (sx_coll c) drift)
          in if map_of (fx_verdicts s) k = Some Faithful then Some k else None)"

definition refused_reading :: "flow_session \<Rightarrow> string option" where
  "refused_reading s =
     (case fx_lastVerdict s of Some (Flagged flags _) \<Rightarrow> Some (describeFlagged flags) | _ \<Rightarrow> None)"

subsection \<open>A session, event by event\<close>

text \<open>An outcome its schema refuses never comes before \<open>validateOutcome\<close>, and an accepted one ends the
  session.\<close>

datatype flow_event =
    Edits string "string option"
  | RunsTest "string + test_result"
  | ReviewsTest "copy_drift list" "string + test_result" judge_end judge_cost
  | Concludes flow_outcome "string + test_result"

record session_run =
  sn_dir :: tests_dir
  sn_session :: flow_session
  sn_accepted :: "flow_outcome option"

definition session_step :: "('c::linorder, 'z) session_input_scheme \<Rightarrow> session_run \<Rightarrow> flow_event \<Rightarrow> session_run" where
  "session_step c r e =
     (if sn_accepted r \<noteq> None then r
      else case e of
          Edits name text' \<Rightarrow> r\<lparr>sn_dir := (sn_dir r)(name := text')\<rparr>
        | RunsTest eng \<Rightarrow> r\<lparr>sn_session := snd (runSpec c (sn_dir r) eng (sn_session r))\<rparr>
        | ReviewsTest declared eng j cost \<Rightarrow>
            r\<lparr>sn_session := snd (review c (sn_dir r) declared eng j cost (sn_session r))\<rparr>
        | Concludes o' eng \<Rightarrow>
            if outcome_issues o' \<noteq> [] then r
            else (case validateOutcome c o' eng (sn_dir r) (sn_session r) of
               (refused, dir, s) \<Rightarrow>
                 \<lparr>sn_dir = dir, sn_session = s, sn_accepted = (if refused = None then Some o' else None)\<rparr>))"

definition open_run :: "('c::linorder, 'z) session_input_scheme \<Rightarrow> tests_dir \<Rightarrow> session_run" where
  "open_run c dir = \<lparr>sn_dir = dir, sn_session = open_flow_session c, sn_accepted = None\<rparr>"

definition session_runs :: "('c::linorder, 'z) session_input_scheme \<Rightarrow> tests_dir \<Rightarrow> flow_event list \<Rightarrow> session_run" where
  "session_runs c dir es = foldl (session_step c) (open_run c dir) es"

section \<open>What an accepted outcome stands on\<close>

lemma session_runs_snoc: "session_runs c dir (es @ [e]) = session_step c (session_runs c dir es) e"
  by (simp add: session_runs_def)

lemma runSpec_verdicts [simp]: "fx_verdicts (snd (runSpec c dir eng s)) = fx_verdicts s"
  by (simp add: runSpec_def Let_def split: sum.split)

lemma runSpec_verdictsD: "runSpec c dir eng s = (r, s') \<Longrightarrow> fx_verdicts s' = fx_verdicts s"
  using runSpec_verdicts [of c dir eng s] by simp

lemma run_to_judge_verdicts [simp]: "fx_verdicts (snd (run_to_judge c dir f eng s)) = fx_verdicts s"
  by (simp add: run_to_judge_def split: option.split)

lemma validate_verdicts: "validateOutcome c o' eng dir s = (refused, dir', s') \<Longrightarrow> fx_verdicts s' = fx_verdicts s"
proof -
  have "fx_verdicts (snd (snd (validateOutcome c o' eng dir s))) = fx_verdicts s"
    by (auto simp: validateOutcome_def Let_def dest: runSpec_verdictsD
        split: prod.split list.split sum.split option.split flow_verdict.split)
  then show "validateOutcome c o' eng dir s = (refused, dir', s') \<Longrightarrow> ?thesis" by simp
qed

lemma dispatch_verdicts:
  "fx_verdicts (snd (dispatch_judge k j cost s))
     = (case flowTestVerdictOf j of Unavailable _ \<Rightarrow> fx_verdicts s | v \<Rightarrow> AList.update k v (fx_verdicts s))"
  by (simp add: dispatch_judge_def Let_def split: flow_verdict.split)

lemma review_verdicts:
  "fx_verdicts (snd (review c dir declared eng j cost s)) = fx_verdicts s
   \<or> (\<exists>f. readFiles c dir = Inr f
        \<and> (case flowTestVerdictOf j of Unavailable _ \<Rightarrow> False | v \<Rightarrow>
             fx_verdicts (snd (review c dir declared eng j cost s))
               = AList.update (judge_key c f (orderCopyDrift (sx_coll c) declared)) v (fx_verdicts s)))"
proof (cases "readFiles c dir")
  case (Inr f)
  obtain r s1 where r: "run_to_judge c dir f eng s = (r, s1)" by fastforce
  then have s1: "fx_verdicts s1 = fx_verdicts s" using run_to_judge_verdicts by (metis snd_conv)
  show ?thesis
    using dispatch_verdicts [of "judge_key c f (orderCopyDrift (sx_coll c) declared)" j cost s1]
    by (auto simp: review_def Inr r s1 Let_def split: option.split sum.split run_outcome.split flow_verdict.splits)
qed (simp add: review_def)

definition faithful_reading :: "('c::linorder, 'z) session_input_scheme \<Rightarrow> tests_dir \<Rightarrow> flow_event list \<Rightarrow> string \<Rightarrow> bool" where
  "faithful_reading c dir es k \<longleftrightarrow>
     (\<exists>p. sx_prior c = Some p \<and> rc_judged (pq_record p) = Some k)
     \<or> (\<exists>es1 declared eng j cost es2 f. es = es1 @ ReviewsTest declared eng j cost # es2
          \<and> readFiles c (sn_dir (session_runs c dir es1)) = Inr f
          \<and> judge_key c f (orderCopyDrift (sx_coll c) declared) = k \<and> flowTestVerdictOf j = Faithful)"

lemma faithful_reading_more: "faithful_reading c dir es k \<Longrightarrow> faithful_reading c dir (es @ [e]) k"
  unfolding faithful_reading_def by (metis append.assoc append_Cons)

text \<open>Every verdict a session keeps is a reading, and one that found the files faithful was given.\<close>

lemma verdicts_were_read:
  "map_of (fx_verdicts (sn_session (session_runs c dir es))) k = Some v
    \<Longrightarrow> (v = Faithful \<longrightarrow> faithful_reading c dir es k) \<and> (\<forall>why. v \<noteq> Unavailable why)"
proof (induction es arbitrary: k v rule: rev_induct)
  case Nil
  then show ?case
    by (auto simp: session_runs_def open_run_def open_flow_session_def faithful_reading_def not_empty_def
        split: option.splits if_splits bind_splits)
next
  case (snoc e es)
  let ?r = "session_runs c dir es"
  show ?case
  proof (cases "map_of (fx_verdicts (sn_session ?r)) k = Some v")
    case True
    from snoc.IH [OF this] show ?thesis by (auto intro: faithful_reading_more)
  next
    case False
    with snoc.prems have changed: "fx_verdicts (sn_session (session_step c ?r e)) \<noteq> fx_verdicts (sn_session ?r)"
      by (auto simp: session_runs_snoc)
    then obtain declared eng j cost where e: "e = ReviewsTest declared eng j cost" and open': "sn_accepted ?r = None"
      by (cases e) (auto simp: session_step_def dest: validate_verdicts split: if_splits prod.splits)
    then have step: "fx_verdicts (sn_session (session_step c ?r e)) = fx_verdicts (snd (review c (sn_dir ?r) declared eng j cost (sn_session ?r)))"
      by (simp add: session_step_def)
    with changed review_verdicts [of c "sn_dir ?r" declared eng j cost "sn_session ?r"]
    obtain f where f: "readFiles c (sn_dir ?r) = Inr f"
      and up: "case flowTestVerdictOf j of Unavailable _ \<Rightarrow> False | w \<Rightarrow>
        fx_verdicts (sn_session (session_step c ?r e))
          = AList.update (judge_key c f (orderCopyDrift (sx_coll c) declared)) w (fx_verdicts (sn_session ?r))"
      unfolding step by blast
    have k: "judge_key c f (orderCopyDrift (sx_coll c) declared) = k \<and> flowTestVerdictOf j = v"
      using snoc.prems False up by (auto simp: session_runs_snoc update_conv' split: flow_verdict.splits if_splits)
    have "faithful_reading c dir (es @ [e]) k" if "v = Faithful"
      using f k that e unfolding faithful_reading_def by blast
    moreover have "v \<noteq> Unavailable why" for why using up k by (auto split: flow_verdict.splits)
    ultimately show ?thesis by blast
  qed
qed

lemma accepted_outcome:
  assumes "validateOutcome c o' eng dir s = (None, dir', s')" and "fo_status o' \<noteq> TBlocked"
  obtains f r where "restoreFrozen c dir = (dir', [])" "readFiles c dir' = Inr f" "eng = Inr r"
    "fx_lastRun s' = Some (files_key c f, r)" "held_against (fo_status o') r = None"
    "copyDriftDefect (outcome_drift c o') (sx_steps c) = None"
    "map_of (fx_verdicts s) (judge_key c f (outcome_drift c o')) \<in> {Some Faithful} \<union> range (Some \<circ> Unavailable)"
  using assms
  by (auto simp: validateOutcome_def runSpec_def Let_def
      split: prod.splits list.splits sum.splits option.splits flow_verdict.splits if_splits)

lemma nothing_put_back:
  assumes "restoreFrozen c dir = (dir', [])"
  shows "dir' = dir \<and> (\<forall>p. sx_prior c = Some p \<longrightarrow>
      (pq_reason p \<in> {SeedFailed, NowPassing} \<longrightarrow> dir (spec_name c) = pq_spec p)
      \<and> (pq_reason p = NowPassing \<longrightarrow> dir (seed_name c) = pq_seed p))"
  using assms by (auto simp: restoreFrozen_def put_file_back_def split: option.splits if_splits prod.splits)

lemma readFiles_sound:
  "readFiles c dir = Inr f \<Longrightarrow> dir (spec_name c) = Some (sf_spec f) \<and> dir (seed_name c) = sf_seed f
     \<and> specDefect (sf_spec f) (sx_steps c) = None"
  by (auto simp: readFiles_def split: option.splits)

lemma spec_titles: "specDefect spec steps = None \<Longrightarrow> flowSpecStepTitles spec = map fs_claimTitle steps"
  by (auto simp: specDefect_def split: if_splits list.splits)

lemma held_against_None:
  "held_against st r = None \<longleftrightarrow> fr_outcome r \<noteq> RSeedFailed \<and> (st = TPassing \<longrightarrow> fr_outcome r = RPass)
     \<and> (st = TFailing \<longrightarrow> fr_outcome r = RFail)"
  by (auto simp: held_against_def)

text \<open>C24: No session can report a test the engine did not see behave that way, nor one nobody read against
  the documents. Whatever it did before, an outcome other than blocked is accepted only on files as they
  stand: a spec whose steps are the flow's, titled as the claims are; with a reading of exactly those
  files and exactly that copy drift that found them faithful, given in this session or kept from the test
  it repairs; and with a run the engine made of them on the spot, which passed for a passing test and
  failed in the test for a failing one. A repair of a seed left the spec as it was accepted, a failing
  test that passes now left both.\<close>

theorem accepted_only_as_read_and_run:
  assumes "sn_accepted (session_runs c dir es) = None"
    and "session_runs c dir (es @ [Concludes o' eng]) = r" and "sn_accepted r = Some o'" and "fo_status o' \<noteq> TBlocked"
  shows "\<exists>f res. readFiles c (sn_dir r) = Inr f \<and> sn_dir r = sn_dir (session_runs c dir es)
    \<and> flowSpecStepTitles (sf_spec f) = map fs_claimTitle (sx_steps c)
    \<and> faithful_reading c dir es (judge_key c f (outcome_drift c o'))
    \<and> eng = Inr res \<and> fx_lastRun (sn_session r) = Some (files_key c f, res)
    \<and> fr_outcome res = (if fo_status o' = TPassing then RPass else RFail)
    \<and> pred_option (\<lambda>p. (pq_reason p \<in> {SeedFailed, NowPassing} \<longrightarrow> Some (sf_spec f) = pq_spec p)
        \<and> (pq_reason p = NowPassing \<longrightarrow> sf_seed f = pq_seed p)) (sx_prior c)"
proof -
  let ?r = "session_runs c dir es"
  obtain refused dir' s' where v: "validateOutcome c o' eng (sn_dir ?r) (sn_session ?r) = (refused, dir', s')"
    by (metis prod_cases3)
  have r: "refused = None" "r = \<lparr>sn_dir = dir', sn_session = s', sn_accepted = Some o'\<rparr>"
    using assms v by (auto simp: session_runs_snoc session_step_def split: if_splits)
  from accepted_outcome [OF v [unfolded r(1)] assms(4)]
  obtain f res where f: "restoreFrozen c (sn_dir ?r) = (dir', [])" "readFiles c dir' = Inr f" "eng = Inr res"
      "fx_lastRun s' = Some (files_key c f, res)" "held_against (fo_status o') res = None"
    and known: "map_of (fx_verdicts (sn_session ?r)) (judge_key c f (outcome_drift c o')) \<in> {Some Faithful} \<union> range (Some \<circ> Unavailable)" .
  have read: "faithful_reading c dir es (judge_key c f (outcome_drift c o'))"
    using known by (auto dest: verdicts_were_read)
  have "fr_outcome res = (if fo_status o' = TPassing then RPass else RFail)"
    using f(5) assms(4) by (cases "fo_status o'") (auto simp: held_against_None)
  moreover have "pred_option (\<lambda>p. (pq_reason p \<in> {SeedFailed, NowPassing} \<longrightarrow> Some (sf_spec f) = pq_spec p)
      \<and> (pq_reason p = NowPassing \<longrightarrow> sf_seed f = pq_seed p)) (sx_prior c)"
    using nothing_put_back [OF f(1)] readFiles_sound [OF f(2)] by (auto simp: pred_option_def)
  ultimately show ?thesis
    using f read nothing_put_back [OF f(1)] spec_titles readFiles_sound [OF f(2)] by (auto simp: r(2))
qed

definition demo_spec :: string where
  "demo_spec = ''from '' @ [CHR 0x27] @ ''./flow'' @ [CHR 0x27, CHR 0x0A]
     @ ''test.step('' @ [CHR 0x27] @ ''a'' @ [CHR 0x27] @ '', () => expect(1))''"

definition demo_flow_step :: flow_step where
  "demo_flow_step = \<lparr>fs_order = 1, fs_claimTitle = ''a'', fs_claim = None, fs_doc = ''d'', fs_heading = None, fs_sectionText = None\<rparr>"

definition demo_input :: "string session_input" where
  "demo_input = \<lparr>sx_sha = id, sx_coll = id, sx_flowId = ''x'', sx_steps = [demo_flow_step], sx_prior = None\<rparr>"

definition demo_pass :: test_result where
  "demo_pass = \<lparr>fr_outcome = RPass, fr_durationMs = 5, fr_error = None, fr_steps = [], fr_attachments = [],
     tr_flowId = ''x'', tr_file = ''x.spec.ts''\<rparr>"

definition demo_passing :: flow_outcome where
  "demo_passing = \<lparr>fo_status = TPassing, fo_summary = ''s'', fo_disagreement = None, fo_blockedBy = None,
     fo_blockedOn = None, fo_copyDrift = None\<rparr>"

definition demo_session_events :: "flow_event list" where
  "demo_session_events =
     [Edits ''x.spec.ts'' (Some demo_spec),
      ReviewsTest [] (Inr demo_pass)
        (JudgeSaid (Some \<lparr>ja_verdict = SaysFaithful, ja_flagged = None, ja_confidence = None\<rparr>))
        \<lparr>jc_sessions = 1, jc_turns = 2, jc_tokens = 10, jc_costUsd = 0\<rparr>]"

lemmas demo_session_defs = demo_input_def demo_session_events_def demo_passing_def session_runs_def
  open_run_def open_flow_session_def session_step_def

theorem accepted_only_as_read_and_run_witness:
  "sn_accepted (session_runs demo_input (\<lambda>n. None) (demo_session_events @ [Concludes demo_passing (Inr demo_pass)])) = Some demo_passing
   \<and> (\<exists>f. faithful_reading demo_input (\<lambda>n. None) demo_session_events (judge_key demo_input f []))"
proof -
  let ?run = "session_runs demo_input (\<lambda>n. None)"
  have open': "sn_accepted (?run demo_session_events) = None" by code_simp
  have accepted: "sn_accepted (?run (demo_session_events @ [Concludes demo_passing (Inr demo_pass)])) = Some demo_passing"
    by code_simp
  have drift: "outcome_drift demo_input demo_passing = []" and status: "fo_status demo_passing \<noteq> TBlocked"
    by code_simp+
  from accepted_only_as_read_and_run [OF open' refl accepted status] accepted drift show ?thesis by auto
qed

end
