(* ===== verification/JudgeKey.thy ===== *)
theory JudgeKey
  imports FlowSession
begin

text \<open>
  What a judge's verdict is kept under: \<open>flowTestJudgeKey\<close> of
  packages/core/src/services/product-world/flow-test-fidelity.ts hashes a JSON text, and the text says
  exactly what the judge was given. The first part is that \<open>JSON.stringify\<close> of a value without objects can be
  read back in one way only.
\<close>

section \<open>Reading JSON text back\<close>

fun plain :: "json \<Rightarrow> bool" where
  "plain (JArr xs) \<longleftrightarrow> list_all plain xs"
| "plain (JObj _) \<longleftrightarrow> False"
| "plain _ \<longleftrightarrow> True"

definition hex_value :: "char \<Rightarrow> nat" where
  "hex_value c = (let n = of_char c in if n \<le> 57 then n - 48 else n - 87)"

fun read_hex :: "string \<Rightarrow> (char \<times> string) option" where
  "read_hex (a # b # c # d # r) =
     Some (char_of (hex_value a * 4096 + hex_value b * 256 + hex_value c * 16 + hex_value d), r)"
| "read_hex _ = None"

text \<open>One character of a quoted string.\<close>

fun read_escaped :: "string \<Rightarrow> (char \<times> string) option" where
  "read_escaped [] = None"
| "read_escaped [c] = Some (c, [])"
| "read_escaped (c # d # r) =
     (if c \<noteq> CHR 0x5C then Some (c, d # r)
      else if d = CHR ''b'' then Some (CHR 0x08, r)
      else if d = CHR ''t'' then Some (CHR 0x09, r)
      else if d = CHR ''n'' then Some (CHR 0x0A, r)
      else if d = CHR ''f'' then Some (CHR 0x0C, r)
      else if d = CHR ''r'' then Some (CHR 0x0D, r)
      else if d = CHR ''u'' then read_hex r
      else Some (d, r))"

lemma hex_digit_value: "n < 16 \<Longrightarrow> hex_value (hex_digit n) = n"
proof -
  have "list_all (\<lambda>n. hex_value (hex_digit n) = n) [0..<16]" by code_simp
  then show "n < 16 \<Longrightarrow> ?thesis" by (simp add: list_all_iff)
qed

lemma hex_reads:
  assumes "n < 32"
  shows "\<exists>a b c d. padStart 4 (CHR ''0'') (hex_string n) = [a, b, c, d]
    \<and> hex_value a * 4096 + hex_value b * 256 + hex_value c * 16 + hex_value d = n"
proof -
  have zero: "hex_value (CHR ''0'') = 0" by code_simp
  show ?thesis
  proof (cases "n < 16")
    case True
    then have "padStart 4 (CHR ''0'') (hex_string n) = [CHR ''0'', CHR ''0'', CHR ''0'', hex_digit n]"
      by (simp add: padStart_def hex_string.simps [of n] numeral_eq_Suc)
    with zero hex_digit_value [OF True] show ?thesis by simp
  next
    case False
    with assms have "n div 16 < 16" by simp
    with False have "padStart 4 (CHR ''0'') (hex_string n) = [CHR ''0'', CHR ''0'', hex_digit (n div 16), hex_digit (n mod 16)]"
      by (simp add: padStart_def hex_string.simps [of n] hex_string.simps [of "n div 16"] numeral_2_eq_2)
    with zero hex_digit_value [of "n div 16"] hex_digit_value [of "n mod 16"] \<open>n div 16 < 16\<close> show ?thesis by simp
  qed
qed

lemma char_code: "(of_char c :: nat) = n \<Longrightarrow> c = char_of n"
  by auto

lemma char_codes: "(char_of (8 :: nat) :: char) = CHR 0x08" "(char_of (9 :: nat) :: char) = CHR 0x09" "(char_of (10 :: nat) :: char) = CHR 0x0A"
  "(char_of (12 :: nat) :: char) = CHR 0x0C" "(char_of (13 :: nat) :: char) = CHR 0x0D"
  "(char_of (34 :: nat) :: char) = CHR 0x22" "(char_of (92 :: nat) :: char) = CHR 0x5C"
  by code_simp+

lemma read_escape: "x \<noteq> [] \<Longrightarrow> read_escaped (json_escape c @ x) = Some (c, x)"
proof (cases "32 \<le> (of_char c :: nat)")
  case False
  assume x: "x \<noteq> []"
  obtain a b d e where hex: "padStart 4 (CHR ''0'') (hex_string (of_char c)) = [a, b, d, e]"
      "hex_value a * 4096 + hex_value b * 256 + hex_value d * 16 + hex_value e = (of_char c :: nat)"
    using hex_reads [of "of_char c"] False by auto
  show ?thesis
    using False hex by (auto simp: json_escape_def Let_def char_codes dest!: char_code)
next
  case True
  assume x: "x \<noteq> []"
  then obtain d r where "x = d # r" by (cases x) auto
  with True show ?thesis by (auto simp: json_escape_def Let_def char_codes dest!: char_code)
qed

lemma escape_not_quote: "json_escape c @ x \<noteq> CHR 0x22 # y"
  by (auto simp: json_escape_def Let_def)

lemma read_quoted:
  "concat (map json_escape s) @ CHR 0x22 # r = concat (map json_escape t) @ CHR 0x22 # r' \<Longrightarrow> s = t \<and> r = r'"
proof (induction s arbitrary: t)
  case Nil
  then show ?case by (cases t) (auto simp: escape_not_quote dest: sym)
next
  case (Cons c s)
  then obtain d t' where t: "t = d # t'" by (cases t) (auto simp: escape_not_quote)
  from Cons.prems t have "read_escaped (json_escape c @ concat (map json_escape s) @ CHR 0x22 # r)
      = read_escaped (json_escape d @ concat (map json_escape t') @ CHR 0x22 # r')" by simp
  then have "c = d \<and> concat (map json_escape s) @ CHR 0x22 # r = concat (map json_escape t') @ CHR 0x22 # r'"
    by (simp add: read_escape)
  with Cons.IH [of t'] t show ?case by simp
qed

definition digit_value :: "char \<Rightarrow> nat" where
  "digit_value c = of_char c - 48"

definition value_of_digits :: "string \<Rightarrow> nat" where
  "value_of_digits s = foldl (\<lambda>v c. v * 10 + digit_value c) 0 s"

lemma digit_reads: "n < 10 \<Longrightarrow> digit (hex_digit n) \<and> digit_value (hex_digit n) = n"
proof -
  have "list_all (\<lambda>n. digit (hex_digit n) \<and> digit_value (hex_digit n) = n) [0..<10]" by code_simp
  then show "n < 10 \<Longrightarrow> ?thesis" by (simp add: list_all_iff)
qed

lemma decimal_reads: "list_all digit (decimal n) \<and> decimal n \<noteq> [] \<and> value_of_digits (decimal n) = n"
proof (induction n rule: decimal.induct)
  case (1 n)
  show ?case
  proof (cases "n < 10")
    case True
    with digit_reads [OF True] show ?thesis by (simp add: decimal.simps [of n] value_of_digits_def)
  next
    case False
    have "n mod 10 < 10" by simp
    from digit_reads [OF this] 1 [OF False] False show ?thesis
      by (simp add: decimal.simps [of n] value_of_digits_def)
  qed
qed

definition number_char :: "char \<Rightarrow> bool" where
  "number_char c \<longleftrightarrow> digit c \<or> c = CHR ''-''"

lemma js_int_chars: "list_all number_char (js_int i)" "js_int i \<noteq> []"
  using decimal_reads [of "nat (- i)"] decimal_reads [of "nat i"]
  by (auto simp: js_int_def number_char_def list_all_iff)

lemma js_int_inj: "js_int i = js_int j \<Longrightarrow> i = j"
proof -
  have minus: "\<not> digit (CHR ''-'')" by code_simp
  have dig: "hd (decimal n) \<noteq> CHR ''-''" for n
    using decimal_reads [of n] minus by (cases "decimal n") auto
  assume eq: "js_int i = js_int j"
  have "i < 0 \<longleftrightarrow> j < 0"
    using arg_cong [OF eq, of hd] dig [of "nat i"] dig [of "nat j"] by (auto simp: js_int_def split: if_splits)
  with eq have "value_of_digits (decimal (nat \<bar>i\<bar>)) = value_of_digits (decimal (nat \<bar>j\<bar>))"
    by (auto simp: js_int_def split: if_splits)
  then have "nat \<bar>i\<bar> = nat \<bar>j\<bar>" using decimal_reads by simp
  with \<open>i < 0 \<longleftrightarrow> j < 0\<close> show "i = j" by linarith
qed

text \<open>What may follow a value: the end, or a character no number has.\<close>

definition ended :: "string \<Rightarrow> bool" where
  "ended r \<longleftrightarrow> (case r of [] \<Rightarrow> True | c # _ \<Rightarrow> \<not> number_char c)"

lemma takeWhile_ended: "list_all P s \<Longrightarrow> (case r of [] \<Rightarrow> True | c # _ \<Rightarrow> \<not> P c) \<Longrightarrow> takeWhile P (s @ r) = s"
  by (induction s) (auto split: list.splits)

lemma read_number: "js_int i @ r = js_int j @ r' \<Longrightarrow> ended r \<Longrightarrow> ended r' \<Longrightarrow> i = j \<and> r = r'"
proof -
  assume eq: "js_int i @ r = js_int j @ r'" and "ended r" and "ended r'"
  then have "js_int i = js_int j"
    using takeWhile_ended [OF js_int_chars(1), of r i] takeWhile_ended [OF js_int_chars(1), of r' j]
    unfolding ended_def by metis
  with eq js_int_inj show ?thesis by simp
qed

text \<open>The first character tells the kinds of value apart, and none begins like the end of a list.\<close>

definition kind_of :: "char \<Rightarrow> nat" where
  "kind_of c = (if c = CHR ''n'' then 0 else if c = CHR ''t'' then 1 else if c = CHR ''f'' then 2
     else if number_char c then 3 else if c = CHR 0x22 then 4 else if c = CHR ''['' then 5 else 6)"

fun kind :: "json \<Rightarrow> nat" where
  "kind JNull = 0"
| "kind (JBool b) = (if b then 1 else 2)"
| "kind (JNum i) = 3"
| "kind (JStr s) = 4"
| "kind (JArr xs) = 5"
| "kind (JObj kvs) = 6"

lemma first_char: "\<exists>c t. json_stringify j = c # t \<and> kind_of c = kind j"
proof (cases j)
  case (JNum i)
  obtain c t where "js_int i = c # t" using js_int_chars(2) [of i] by (cases "js_int i") auto
  moreover have "number_char c" using js_int_chars(1) [of i] calculation by simp
  moreover have "\<not> number_char (CHR ''n'')" "\<not> number_char (CHR ''t'')" "\<not> number_char (CHR ''f'')" by code_simp+
  ultimately show ?thesis using JNum by (auto simp: kind_of_def)
qed (simp_all add: kind_of_def json_quote_def number_char_def digit_def)

lemma same_kind: "json_stringify a @ r = json_stringify b @ r' \<Longrightarrow> kind a = kind b"
  using first_char [of a] first_char [of b] by force

lemma not_list_end: "plain a \<Longrightarrow> json_stringify a @ r \<noteq> CHR '']'' # r'"
proof
  assume "plain a" and eq: "json_stringify a @ r = CHR '']'' # r'"
  have "kind_of (CHR '']'') = 6" by code_simp
  with eq first_char [of a] have "kind a = 6" by force
  with \<open>plain a\<close> show False by (cases a) (auto split: if_splits)
qed

lemma ended_marks: "ended (CHR '','' # r)" "ended (CHR '']'' # r)"
proof -
  have "\<not> number_char (CHR '','')" "\<not> number_char (CHR '']'')" by code_simp+
  then show "ended (CHR '','' # r)" "ended (CHR '']'' # r)" by (simp_all add: ended_def)
qed

definition list_tail :: "json list \<Rightarrow> string \<Rightarrow> string" where
  "list_tail xs r = js_join '','' (map json_stringify xs) @ CHR '']'' # r"

lemma list_tail_Cons:
  "list_tail (x # xs) r = json_stringify x @ (if xs = [] then CHR '']'' # r else CHR '','' # list_tail xs r)"
  by (cases xs) (simp_all add: list_tail_def)

lemma read_list:
  assumes "\<And>x b s s'. x \<in> set xs \<Longrightarrow> plain b \<Longrightarrow> json_stringify x @ s = json_stringify b @ s' \<Longrightarrow> ended s \<Longrightarrow> ended s' \<Longrightarrow> x = b \<and> s = s'"
    and "list_all plain xs" and "list_all plain ys" and "list_tail xs r = list_tail ys r'"
  shows "xs = ys \<and> r = r'"
  using assms
proof (induction xs arbitrary: ys)
  case Nil
  then show ?case
    by (cases ys) (auto simp: list_tail_Cons list_tail_def [of "[]"] not_list_end dest: sym)
next
  case (Cons x xs)
  then obtain y ys' where ys: "ys = y # ys'"
    by (cases ys) (auto simp: list_tail_Cons list_tail_def [of "[]"] not_list_end)
  let ?s = "if xs = [] then CHR '']'' # r else CHR '','' # list_tail xs r"
  let ?s' = "if ys' = [] then CHR '']'' # r' else CHR '','' # list_tail ys' r'"
  have "json_stringify x @ ?s = json_stringify y @ ?s'" using Cons.prems(4) ys by (simp only: list_tail_Cons)
  then have eq: "x = y \<and> ?s = ?s'"
    using Cons.prems(1) [of x y ?s ?s'] Cons.prems(3) ys by (simp add: ended_marks)
  show ?case
  proof (cases "xs = [] \<or> ys' = []")
    case True
    with eq ys show ?thesis by (auto split: if_splits)
  next
    case False
    with eq have tails: "list_tail xs r = list_tail ys' r'" by simp
    have "xs = ys' \<and> r = r'"
      by (rule Cons.IH [OF Cons.prems(1) _ _ tails]) (use Cons.prems(2,3) ys in simp_all)
    with ys eq show ?thesis by simp
  qed
qed

lemma read_json:
  "plain a \<Longrightarrow> plain b \<Longrightarrow> json_stringify a @ r = json_stringify b @ r' \<Longrightarrow> ended r \<Longrightarrow> ended r' \<Longrightarrow> a = b \<and> r = r'"
proof (induction a arbitrary: b r r')
  case (JStr s)
  with same_kind [OF JStr.prems(3)] obtain t where b: "b = JStr t" by (cases b) (auto split: if_splits)
  with JStr.prems(3) read_quoted [of s r t r'] show ?case by (simp add: json_quote_def)
next
  case (JNum i)
  with same_kind [OF JNum.prems(3)] obtain j where b: "b = JNum j" by (cases b) (auto split: if_splits)
  with JNum read_number [of i r j r'] show ?case by simp
next
  case (JArr xs)
  with same_kind [OF JArr.prems(3)] obtain ys where b: "b = JArr ys" by (cases b) (auto split: if_splits)
  have "list_tail xs r = list_tail ys r'" using JArr.prems(3) b by (simp add: list_tail_def)
  moreover have "list_all plain xs" "list_all plain ys" using JArr.prems(1,2) b by simp_all
  moreover have "x = c \<and> s = s'"
    if "x \<in> set xs" "plain c" "json_stringify x @ s = json_stringify c @ s'" "ended s" "ended s'" for x c s s'
    by (rule JArr.IH [OF that(1) _ that(2-5)]) (use \<open>list_all plain xs\<close> that(1) in \<open>simp add: list_all_iff\<close>)
  ultimately have "xs = ys \<and> r = r'" by (intro read_list) blast+
  with b show ?case by simp
next
  case JNull
  with same_kind [OF JNull.prems(3)] have "b = JNull" by (cases b) (auto split: if_splits)
  with JNull show ?case by simp
next
  case (JBool v)
  with same_kind [OF JBool.prems(3)] have "b = JBool v" by (cases b) (auto split: if_splits)
  with JBool show ?case by simp
qed simp


section \<open>The key says what was judged\<close>

lemma plain_subject: "plain (judge_subject coll steps spec seed drift)"
  by (auto simp: judge_subject_def Let_def opt_json_def step_json_def drift_json_def list_all_iff split: option.split)

lemma opt_json_inj: "opt_json a = opt_json b \<longleftrightarrow> a = b"
  by (cases a; cases b) (auto simp: opt_json_def)

lemma drift_json_inj: "map drift_json a = map drift_json b \<longleftrightarrow> a = b"
  by (subst inj_map_eq_map) (auto simp: inj_def drift_json_def)

text \<open>What a briefing quotes of a step.\<close>

definition quoted_as :: "flow_step \<Rightarrow> nat \<times> string \<times> string option \<times> string option" where
  "quoted_as s = (fs_order s, fs_claimTitle s, fs_claim s, quotedSection s)"

lemma step_json_inj: "map step_json a = map step_json b \<longleftrightarrow> map quoted_as a = map quoted_as b"
proof (induction a arbitrary: b)
  case (Cons s a)
  then show ?case by (cases b) (auto simp: step_json_def quoted_as_def opt_json_inj)
qed auto

text \<open>C30: A verdict is kept for exactly what the judge was given. Two judge keys are hashes of the same text
  just when the spec, the seed, the copy drift in the order it is stored in, and of every step its
  number, its claim, the statement read from the documents and the passage as it is quoted are the same:
  no edit of a test, a seed, a declaration or a quoted document leaves the key as it was, and nothing
  else changes it.\<close>

theorem judge_key_is_exact:
  "json_stringify (judge_subject coll steps spec seed drift) = json_stringify (judge_subject coll steps' spec' seed' drift')
     \<longleftrightarrow> spec = spec' \<and> seed = seed' \<and> map quoted_as steps = map quoted_as steps'
         \<and> orderCopyDrift coll drift = orderCopyDrift coll drift'"
proof -
  have "json_stringify (judge_subject coll steps spec seed drift) = json_stringify (judge_subject coll steps' spec' seed' drift')
      \<longleftrightarrow> judge_subject coll steps spec seed drift = judge_subject coll steps' spec' seed' drift'"
    using read_json [OF plain_subject plain_subject, of coll steps spec seed drift "[]" coll steps' spec' seed' drift' "[]"]
    by (auto simp: ended_def)
  also have "\<dots> \<longleftrightarrow> spec = spec' \<and> seed = seed' \<and> map quoted_as steps = map quoted_as steps'
         \<and> orderCopyDrift coll drift = orderCopyDrift coll drift'"
    by (auto simp: judge_subject_def Let_def opt_json_inj drift_json_inj step_json_inj split: if_splits)
  finally show ?thesis .
qed

end
