(* ===== verification/FlowStage.thy ===== *)
theory FlowStage
  imports FlowSession FlowRun SessionTypes
begin

text \<open>
  The stage of a generate that keeps the flow tests true:
  packages/core/src/services/product-world/flow-test-stage.ts, with the index of
  packages/shared/src/guard/flow-tests.ts.

  The stage is a composition. \<open>triage\<close> says of each flow whether its record is kept or a session is opened;
  the kept tests are run again (\<open>FlowTests.runFlowTests\<close>) and those whose judge key is out of date are read
  by the judge; what moved or was flagged is opened for repair; the sessions then run side by side over
  one tests directory, each a session of \<open>FlowSession\<close>, as a list of \<open>stage_event\<close>s in whatever order the
  pool made; and the index is written. The product lives as \<open>FlowRun.with_product\<close> has it.

  A JavaScript \<open>Map\<close> keyed by the flow is an association list under \<open>AList.update\<close>. Inputs are the run of
  the host, Playwright, the readings of the judge, the events of the sessions, times and ids.
\<close>

record guard_flow =
  gf_id :: string
  gf_fingerprint :: string
  gf_milestones :: "milestone list"

type_synonym flow_work = "guard_flow \<times> flow_prior option"

datatype stage_event =
    Within string flow_event
  | Settles string budget_spent
  | Fails string session_failure budget_spent

record 'c stage_input =
  st_flows :: "guard_flow list"
  st_index :: "test_record list"
  st_dir :: tests_dir
  st_readSteps :: "milestone list \<Rightarrow> flow_step list"
  st_sha :: "string \<Rightarrow> string"
  st_coll :: "string \<Rightarrow> 'c"
  st_host :: host_run
  st_playground :: playground
  st_readings :: "string + (string \<Rightarrow> judge_end option)"
  st_events :: "stage_event list"
  st_commit :: "string option"
  st_fetch :: "(string \<Rightarrow> bool) option"
  st_copied :: "string \<Rightarrow> bool"
  st_runId :: string
  st_stageRunId :: string
  st_ranAt :: time
  st_now :: time

section \<open>Which flows get a session\<close>

definition record_files :: "test_record \<Rightarrow> string list" where
  "record_files rc = List.map_filter not_empty [rc_file rc, rc_seed rc]"

definition whole :: "test_record \<Rightarrow> bool" where
  "whole rc \<longleftrightarrow> (if rc_status rc = TBlocked then truthy (rc_blockedOn rc) else rc_run rc \<noteq> None)"

definition source_of :: "tests_dir \<Rightarrow> string option \<Rightarrow> string option" where
  "source_of dir file = Option.bind (not_empty file) dir"

definition prior_of :: "repair_reason \<Rightarrow> tests_dir \<Rightarrow> test_record \<Rightarrow> flow_prior" where
  "prior_of reason dir rc =
     \<lparr>pq_reason = reason, pq_record = rc, pq_spec = source_of dir (rc_file rc), pq_seed = source_of dir (rc_seed rc),
      pq_rerun = None, pq_flagged = None, pq_diffBase = None\<rparr>"

datatype triaged = Kept test_record | Opened "flow_prior option"

definition triage :: "tests_dir \<Rightarrow> (milestone list \<Rightarrow> flow_step list) \<Rightarrow> guard_flow \<Rightarrow> test_record option \<Rightarrow> triaged" where
  "triage dir readSteps flow rc =
     (case rc of
        None \<Rightarrow> Opened None
      | Some rc \<Rightarrow>
          if \<not> whole rc \<or> list_ex (\<lambda>f. dir f = None) (record_files rc) then Opened None
          else if rc_flowFingerprint rc \<noteq> gf_fingerprint flow then Opened (Some (prior_of FlowChanged dir rc))
          else case source_of dir (rc_file rc) of
                 Some spec \<Rightarrow> if specDefect spec (readSteps (gf_milestones flow)) \<noteq> None then Opened None else Kept rc
               | None \<Rightarrow> Kept rc)"

definition index_record :: "test_record list \<Rightarrow> string \<Rightarrow> test_record option" where
  "index_record rcs f = map_of (rev (map (\<lambda>rc. (rc_flowId rc, rc)) rcs)) f"

definition triage_flow :: "('c, 'z) stage_input_scheme \<Rightarrow> guard_flow \<Rightarrow> triaged" where
  "triage_flow st flow = triage (st_dir st) (st_readSteps st) flow (index_record (st_index st) (gf_id flow))"

definition kept_flows :: "('c, 'z) stage_input_scheme \<Rightarrow> (guard_flow \<times> test_record) list" where
  "kept_flows st =
     List.map_filter (\<lambda>flow. case triage_flow st flow of Kept rc \<Rightarrow> Some (flow, rc) | Opened _ \<Rightarrow> None) (st_flows st)"

definition opened_flows :: "('c, 'z) stage_input_scheme \<Rightarrow> flow_work list" where
  "opened_flows st =
     List.map_filter (\<lambda>flow. case triage_flow st flow of Kept _ \<Rightarrow> None | Opened p \<Rightarrow> Some (flow, p)) (st_flows st)"

definition runnable :: "test_record \<Rightarrow> bool" where
  "runnable rc \<longleftrightarrow> rc_status rc \<noteq> TBlocked \<and> rc_file rc \<noteq> None \<and> rc_run rc \<noteq> None"

definition standing :: "('c, 'z) stage_input_scheme \<Rightarrow> (guard_flow \<times> test_record) list" where
  "standing st = filter (\<lambda>(flow, rc). runnable rc) (kept_flows st)"

section \<open>What the judge says of the kept tests\<close>

definition kept_key :: "('c::linorder, 'z) stage_input_scheme \<Rightarrow> guard_flow \<Rightarrow> test_record \<Rightarrow> string" where
  "kept_key st flow rc =
     flowTestJudgeKey (st_sha st) (st_coll st) (st_readSteps st (gf_milestones flow))
       (orEmpty (source_of (st_dir st) (rc_file rc))) (source_of (st_dir st) (rc_seed rc))
       (case rc_copyDrift rc of Some d \<Rightarrow> d | None \<Rightarrow> [])"

definition to_judge :: "('c::linorder, 'z) stage_input_scheme \<Rightarrow> (guard_flow \<times> test_record) list" where
  "to_judge st = filter (\<lambda>(flow, rc). rc_judged rc \<noteq> Some (kept_key st flow rc)) (standing st)"

text \<open>The verdict a kept test was read under, when it was read.\<close>

definition reading_of :: "('c::linorder, 'z) stage_input_scheme \<Rightarrow> (string \<Rightarrow> judge_end option) \<Rightarrow> string \<Rightarrow> flow_verdict option" where
  "reading_of st readings f =
     (if f \<in> set (map (gf_id \<circ> fst) (to_judge st)) then map_option flowTestVerdictOf (readings f) else None)"

definition stamp :: "('c::linorder, 'z) stage_input_scheme \<Rightarrow> (string \<Rightarrow> judge_end option) \<Rightarrow> guard_flow \<Rightarrow> test_record \<Rightarrow> test_record" where
  "stamp st readings flow rc =
     (if reading_of st readings (gf_id flow) = Some Faithful then rc\<lparr>rc_judged := Some (kept_key st flow rc)\<rparr> else rc)"

definition kept_after :: "('c::linorder, 'z) stage_input_scheme \<Rightarrow> (string \<Rightarrow> judge_end option) \<Rightarrow> (guard_flow \<times> test_record) list" where
  "kept_after st readings = map (\<lambda>(flow, rc). (flow, stamp st readings flow rc)) (kept_flows st)"

definition flags_on :: "('c::linorder, 'z) stage_input_scheme \<Rightarrow> (string \<Rightarrow> judge_end option) \<Rightarrow> string \<Rightarrow> (nat \<times> string) list option" where
  "flags_on st readings f = (case reading_of st readings f of Some (Flagged flags _) \<Rightarrow> Some flags | _ \<Rightarrow> None)"

record judged_counts =
  jd_read :: nat
  jd_flagged :: nat
  jd_unavailable :: nat

definition judged_counts_of :: "('c::linorder, 'z) stage_input_scheme \<Rightarrow> (string \<Rightarrow> judge_end option) \<Rightarrow> judged_counts" where
  "judged_counts_of st readings =
     (let vs = List.map_filter (\<lambda>(flow, rc). reading_of st readings (gf_id flow)) (to_judge st)
      in \<lparr>jd_read = length vs,
          jd_flagged = length (filter (\<lambda>v. case v of Flagged _ _ \<Rightarrow> True | _ \<Rightarrow> False) vs),
          jd_unavailable = length (filter (\<lambda>v. case v of Unavailable _ \<Rightarrow> True | _ \<Rightarrow> False) vs)\<rparr>)"

section \<open>What moved\<close>

record moved_test =
  mv_flowId :: string
  mv_reason :: repair_reason
  mv_signature :: string
  mv_settled :: "flow_test_status option"

definition rerun_of :: "test_result list \<Rightarrow> string \<Rightarrow> test_result option" where
  "rerun_of reruns f = map_of (rev (map (\<lambda>r. (tr_flowId r, r)) reruns)) f"

definition movement_of :: "test_result list \<Rightarrow> guard_flow \<times> test_record \<Rightarrow> (repair_reason \<times> test_result) option" where
  "movement_of reruns k =
     Option.bind (rerun_of reruns (gf_id (fst k))) (\<lambda>r. map_option (\<lambda>why. (why, r)) (flowTestMovement (snd k) r))"

definition moved_tests :: "test_result list \<Rightarrow> (guard_flow \<times> test_record) list \<Rightarrow> moved_test list" where
  "moved_tests reruns ks =
     List.map_filter (\<lambda>k. map_option (\<lambda>(why, r). \<lparr>mv_flowId = gf_id (fst k), mv_reason = why,
         mv_signature = flowTestErrorSignature (fr_error r), mv_settled = None\<rparr>) (movement_of reruns k)) ks"

definition repair_of ::
    "('c::linorder, 'z) stage_input_scheme \<Rightarrow> (string \<Rightarrow> judge_end option) \<Rightarrow> test_result list \<Rightarrow> guard_flow \<times> test_record \<Rightarrow> flow_work option" where
  "repair_of st readings reruns k =
     (let flags = flags_on st readings (gf_id (fst k)); moved = movement_of reruns k
      in if moved = None \<and> flags = None then None
         else Some (fst k, Some ((prior_of (if flags \<noteq> None then JudgeFlagged else fst (the moved)) (st_dir st) (snd k))
             \<lparr>pq_rerun := map_option snd moved, pq_flagged := flags\<rparr>)))"

text \<open>What a moved test's session diffs against: the commit it was accepted on, when the checkout has it.\<close>

definition with_diff_base :: "('c, 'z) stage_input_scheme \<Rightarrow> flow_work \<Rightarrow> flow_work" where
  "with_diff_base st w =
     (case snd w of
        None \<Rightarrow> w
      | Some p \<Rightarrow>
          (case (pq_rerun p, Option.bind (rc_run (pq_record p)) (not_empty \<circ> tn_commit), st_fetch st) of
             (Some _, Some accepted, Some fetch) \<Rightarrow>
               if Some accepted \<noteq> st_commit st \<and> fetch accepted then (fst w, Some (p\<lparr>pq_diffBase := Some accepted\<rparr>)) else w
           | _ \<Rightarrow> w))"

definition work_of ::
    "('c::linorder, 'z) stage_input_scheme \<Rightarrow> (string \<Rightarrow> judge_end option) \<Rightarrow> test_result list \<Rightarrow> flow_work list" where
  "work_of st readings reruns =
     opened_flows st
     @ map (with_diff_base st)
         (List.map_filter (repair_of st readings reruns) (filter (\<lambda>(flow, rc). runnable rc) (kept_after st readings)))"

section \<open>The sessions\<close>

fun class_name :: "error_class \<Rightarrow> string" where
  "class_name EProvider = ''provider''"
| "class_name ETransport = ''transport''"
| "class_name EPermission = ''permission''"
| "class_name EValidation = ''validation''"
| "class_name EUnknown = ''unknown''"

fun describeSessionFailure :: "session_failure \<Rightarrow> string" where
  "describeSessionFailure (BudgetExhausted what _) = ''the session ran out of turns without reaching '' @ what"
| "describeSessionFailure (ContextExhausted _) = ''the session hit its context ceiling''"
| "describeSessionFailure (Malformed detail _) = ''the session ended malformed: '' @ detail"
| "describeSessionFailure (Transport detail cls _) = ''the provider failed ('' @ class_name cls @ ''): '' @ detail"
| "describeSessionFailure (SessionLost sid _) = ''the provider session '' @ sid @ '' is gone''"

definition flow_input :: "('c, 'z) stage_input_scheme \<Rightarrow> flow_work \<Rightarrow> 'c session_input" where
  "flow_input st w =
     \<lparr>sx_sha = st_sha st, sx_coll = st_coll st, sx_flowId = gf_id (fst w),
      sx_steps = st_readSteps st (gf_milestones (fst w)), sx_prior = snd w\<rparr>"

text \<open>
  The state the sessions share: the directory, what each item's session holds and whether its outcome was
  accepted, which items are settled, and what the folds wrote. \<open>sg_threw\<close> is an exception of a fold: a spec
  that was there when the outcome was accepted and is gone when it is folded.
\<close>

record stage_state =
  sg_dir :: tests_dir
  sg_sessions :: "(string \<times> flow_session \<times> flow_outcome option) list"
  sg_written :: "(string \<times> test_record) list"
  sg_accepted :: "(string \<times> test_result) list"
  sg_unsettled :: "(string \<times> string) list"
  sg_moved :: "moved_test list"
  sg_spent :: judge_cost
  sg_threw :: "string option"

definition no_cost :: judge_cost where
  "no_cost = \<lparr>jc_sessions = 0, jc_turns = 0, jc_tokens = 0, jc_costUsd = 0\<rparr>"

definition open_stage :: "('c, 'z) stage_input_scheme \<Rightarrow> flow_work list \<Rightarrow> moved_test list \<Rightarrow> stage_state" where
  "open_stage st work moved =
     \<lparr>sg_dir = st_dir st, sg_sessions = map (\<lambda>w. (gf_id (fst w), open_flow_session (flow_input st w), None)) work,
      sg_written = [], sg_accepted = [], sg_unsettled = [], sg_moved = moved, sg_spent = no_cost, sg_threw = None\<rparr>"

definition work_item :: "flow_work list \<Rightarrow> string \<Rightarrow> flow_work option" where
  "work_item work f = find (\<lambda>w. gf_id (fst w) = f) work"

definition spend :: "flow_session \<Rightarrow> budget_spent \<Rightarrow> stage_state \<Rightarrow> stage_state" where
  "spend s sp g =
     g\<lparr>sg_spent := add_cost (sg_spent g) (add_cost (fx_judgeSpent s)
        \<lparr>jc_sessions = 1, jc_turns = sp_turns sp, jc_tokens = sp_tokens sp, jc_costUsd = sp_costUsd sp\<rparr>)\<rparr>"

definition settle_moved :: "string \<Rightarrow> flow_test_status \<Rightarrow> stage_state \<Rightarrow> stage_state" where
  "settle_moved f status g =
     g\<lparr>sg_moved := map (\<lambda>m. if mv_flowId m = f then m\<lparr>mv_settled := Some status\<rparr> else m) (sg_moved g)\<rparr>"

text \<open>The record of an accepted outcome, with the run it was accepted on when it has a test.\<close>

definition written_drift :: "('c::linorder, 'z) stage_input_scheme \<Rightarrow> flow_outcome \<Rightarrow> copy_drift list" where
  "written_drift st o' =
     (if fo_status o' = TBlocked then []
      else orderCopyDrift (st_coll st) (case fo_copyDrift o' of Some d \<Rightarrow> d | None \<Rightarrow> []))"

definition written_record ::
    "('c::linorder, 'z) stage_input_scheme \<Rightarrow> flow_work \<Rightarrow> tests_dir \<Rightarrow> flow_session \<Rightarrow> flow_outcome \<Rightarrow> test_run option \<Rightarrow> test_record" where
  "written_record st w dir s o' run =
     (let blocked = fo_status o' = TBlocked; f = gf_id (fst w); drift = written_drift st o'
      in \<lparr>rc_flowId = f, rc_flowFingerprint = gf_fingerprint (fst w), rc_status = fo_status o',
          rc_file = (if blocked then None else Some (flowTestFileName f)),
          rc_seed = (if \<not> blocked \<and> dir (flowSeedFileName f) \<noteq> None then Some (flowSeedFileName f) else None),
          rc_summary = fo_summary o', rc_disagreement = fo_disagreement o',
          rc_blockedBy = not_empty (fo_blockedBy o'), rc_blockedOn = not_empty (fo_blockedOn o'),
          rc_copyDrift = (if drift = [] then None else Some drift), rc_run = run,
          rc_judged = (if blocked then None else not_empty (judged_key (flow_input st w) dir s drift))\<rparr>)"

definition run_of_session :: "flow_outcome \<Rightarrow> flow_session \<Rightarrow> test_result option" where
  "run_of_session o' s = (if fo_status o' = TBlocked then None else map_option snd (fx_lastRun s))"

definition keep_run :: "('c, 'z) stage_input_scheme \<Rightarrow> string \<Rightarrow> time \<Rightarrow> bool \<Rightarrow> string \<Rightarrow> test_result \<Rightarrow> test_run" where
  "keep_run st runId at' evidence spec r =
     keepFlowTestRun (st_copied st)
       \<lparr>ki_runId = runId, ki_specSource = spec, ki_ranAt = at', ki_commit = not_empty (st_commit st), ki_evidence = evidence\<rparr> r"

definition close_session :: "string \<Rightarrow> stage_state \<Rightarrow> stage_state" where
  "close_session f g = g\<lparr>sg_sessions := filter (\<lambda>x. fst x \<noteq> f) (sg_sessions g)\<rparr>"

definition fold_accepted ::
    "('c::linorder, 'z) stage_input_scheme \<Rightarrow> flow_work \<Rightarrow> flow_session \<Rightarrow> flow_outcome \<Rightarrow> stage_state \<Rightarrow> stage_state" where
  "fold_accepted st w s o' g =
     (let f = gf_id (fst w); name = flowTestFileName f
      in case run_of_session o' s of
           None \<Rightarrow> settle_moved f (fo_status o')
             (g\<lparr>sg_written := AList.update f (written_record st w (sg_dir g) s o' None) (sg_written g)\<rparr>)
         | Some r \<Rightarrow>
             let g = g\<lparr>sg_accepted := AList.update f r (sg_accepted g)\<rparr>
             in case sg_dir g name of
                  None \<Rightarrow> g\<lparr>sg_threw := Some name\<rparr>
                | Some spec \<Rightarrow> settle_moved f (fo_status o')
                    (g\<lparr>sg_written := AList.update f
                       (written_record st w (sg_dir g) s o' (Some (keep_run st (st_runId st) (st_now st) True spec r)))
                       (sg_written g)\<rparr>))"

text \<open>A session that ended without an accepted outcome: the test its flow had, when it was accepted and the
  flow is the same, is put back; what nobody accepted is removed.\<close>

definition fold_failed ::
    "flow_work \<Rightarrow> flow_session \<Rightarrow> session_failure \<Rightarrow> stage_state \<Rightarrow> stage_state" where
  "fold_failed w s why g =
     (let f = gf_id (fst w);
          (spec, seed) = (case snd w of
             Some p \<Rightarrow> if pq_reason p \<noteq> FlowChanged then (pq_spec p, pq_seed p) else (None, None)
           | None \<Rightarrow> (None, None))
      in g\<lparr>sg_dir := (sg_dir g)(flowTestFileName f := spec, flowSeedFileName f := seed),
           sg_unsettled := sg_unsettled g @ [(f, case refused_reading s of
               Some r \<Rightarrow> ''fidelity: '' @ r | None \<Rightarrow> describeSessionFailure why)]\<rparr>)"

definition session_of :: "stage_state \<Rightarrow> string \<Rightarrow> (flow_session \<times> flow_outcome option) option" where
  "session_of g f = map_of (sg_sessions g) f"

definition within_session ::
    "('c::linorder, 'z) stage_input_scheme \<Rightarrow> flow_work \<Rightarrow> flow_event \<Rightarrow> flow_session \<times> flow_outcome option \<Rightarrow> stage_state \<Rightarrow> stage_state" where
  "within_session st w e so g =
     (let r = session_step (flow_input st w) \<lparr>sn_dir = sg_dir g, sn_session = fst so, sn_accepted = snd so\<rparr> e
      in g\<lparr>sg_dir := sn_dir r,
           sg_sessions := AList.update (gf_id (fst w)) (sn_session r, sn_accepted r) (sg_sessions g)\<rparr>)"

definition stage_step :: "('c::linorder, 'z) stage_input_scheme \<Rightarrow> flow_work list \<Rightarrow> stage_state \<Rightarrow> stage_event \<Rightarrow> stage_state" where
  "stage_step st work g ev =
     (if sg_threw g \<noteq> None then g
      else case ev of
          Within f e \<Rightarrow>
            (case (work_item work f, session_of g f) of
               (Some w, Some so) \<Rightarrow> within_session st w e so g
             | _ \<Rightarrow> g)
        | Settles f sp \<Rightarrow>
            (case (work_item work f, session_of g f) of
               (Some w, Some (s, Some o')) \<Rightarrow> close_session f (fold_accepted st w s o' (spend s sp g))
             | _ \<Rightarrow> g)
        | Fails f why sp \<Rightarrow>
            (case (work_item work f, session_of g f) of
               (Some w, Some (s, None)) \<Rightarrow> close_session f (fold_failed w s why (spend s sp g))
             | _ \<Rightarrow> g))"

definition stage_runs :: "('c::linorder, 'z) stage_input_scheme \<Rightarrow> flow_work list \<Rightarrow> moved_test list \<Rightarrow> stage_event list \<Rightarrow> stage_state" where
  "stage_runs st work moved es = foldl (stage_step st work) (open_stage st work moved) es"

section \<open>The stage\<close>

text \<open>The rerun of each kept test as the stage's run carries it: one that held keeps no evidence of its own.
  \<open>Inl\<close> names a spec that cannot be read.\<close>

definition rerun_runs ::
    "('c, 'z) stage_input_scheme \<Rightarrow> moved_test list \<Rightarrow> test_result list \<Rightarrow> string + (string \<times> test_run) list" where
  "rerun_runs st moved reruns =
     all_right (map (\<lambda>r. case st_dir st (flowTestFileName (tr_flowId r)) of
         None \<Rightarrow> Inl (flowTestFileName (tr_flowId r))
       | Some spec \<Rightarrow> Inr (tr_flowId r, keep_run st (st_stageRunId st) (st_ranAt st)
             (tr_flowId r \<in> set (map mv_flowId moved)) spec r)) reruns)"

definition record_after :: "stage_state \<Rightarrow> (guard_flow \<times> test_record) list \<Rightarrow> string \<Rightarrow> test_record option" where
  "record_after g kept f =
     (case map_of (sg_written g) f of
        Some rc \<Rightarrow> Some rc
      | None \<Rightarrow> map_of (map (\<lambda>(flow, rc). (gf_id flow, rc)) kept) f)"

definition result_row_of :: "test_record \<Rightarrow> run_outcome \<Rightarrow> test_run \<Rightarrow> run_result" where
  "result_row_of rc out run =
     \<lparr>rr_flowId = rc_flowId rc, rr_file = orEmpty (rc_file rc), rr_authored = rc_status rc, rr_outcome = out, rr_run = run\<rparr>"

definition stage_result ::
    "stage_state \<Rightarrow> (guard_flow \<times> test_record) list \<Rightarrow> test_result list \<Rightarrow> (string \<times> test_run) list \<Rightarrow> guard_flow \<Rightarrow> run_result option" where
  "stage_result g kept reruns runs flow =
     (let f = gf_id flow
      in case record_after g kept f of
           None \<Rightarrow> None
         | Some rc \<Rightarrow>
             if \<not> runnable rc then None
             else (case (if map_of (sg_written g) f \<noteq> None then map_of (sg_accepted g) f else None) of
                     Some own \<Rightarrow> Some (result_row_of rc (fr_outcome own) (the (rc_run rc)))
                   | None \<Rightarrow>
                       (case (rerun_of reruns f, map_of (rev runs) f) of
                          (Some r, Some run) \<Rightarrow> Some (result_row_of rc (fr_outcome r) run)
                        | _ \<Rightarrow> None)))"

definition bySignatureGroup :: "(string \<Rightarrow> 'c::linorder) \<Rightarrow> moved_test list \<Rightarrow> moved_test list" where
  "bySignatureGroup coll ms =
     (let size = (\<lambda>m. int (length (filter (\<lambda>x. mv_signature x = mv_signature m) ms)))
      in sort_key (\<lambda>m. - size m) (sort_key (coll \<circ> mv_signature) (sort_key (coll \<circ> mv_flowId) ms)))"

definition test_file :: "string \<Rightarrow> bool" where
  "test_file name \<longleftrightarrow> suffix ''.spec.ts'' name \<or> suffix ''.seed.ts'' name"

text \<open>Writing the index drops every spec and seed it does not name.\<close>

definition writeFlowTests :: "test_record list \<Rightarrow> tests_dir \<Rightarrow> tests_dir" where
  "writeFlowTests tests dir =
     (\<lambda>name. if test_file name \<and> name \<notin> set (concat (map record_files tests)) then None else dir name)"

record stage_report =
  sr_tests :: "test_record list"
  sr_authored :: nat
  sr_unsettled :: "(string \<times> string) list"
  sr_run :: "run_result list option"
  sr_moved :: "moved_test list"
  sr_judged :: judged_counts
  sr_spent :: judge_cost
  sr_dir :: tests_dir

datatype stage_end =
    NoFlows
  | StageWorldFailed string string
  | RerunFailed run_refusal
  | StageThrew string
  | StageDone stage_report

datatype body_end = BodyRerunFailed run_refusal | BodyThrew string | BodyDone stage_state "run_result list" "flow_work list" "(guard_flow \<times> test_record) list" judged_counts

definition asked_of :: "(guard_flow \<times> test_record) list \<Rightarrow> asked list" where
  "asked_of ks = map (\<lambda>(flow, rc). (gf_id flow, orEmpty (rc_file rc))) ks"

text \<open>What is done while the product is up.\<close>

definition stage_sessions ::
    "('c::linorder, 'z) stage_input_scheme \<Rightarrow> (string \<Rightarrow> judge_end option) \<Rightarrow> test_result list \<Rightarrow> body_end" where
  "stage_sessions st readings reruns =
     (let kept = kept_after st readings;
          moved = moved_tests reruns (filter (\<lambda>(flow, rc). runnable rc) kept);
          work = work_of st readings reruns
      in case rerun_runs st moved reruns of
           Inl e \<Rightarrow> BodyThrew e
         | Inr runs \<Rightarrow>
             let g = stage_runs st work moved (st_events st)
             in case sg_threw g of
                  Some e \<Rightarrow> BodyThrew e
                | None \<Rightarrow>
                    BodyDone g (List.map_filter (stage_result g kept reruns runs) (st_flows st)) work kept
                      (judged_counts_of st readings))"

definition stage_body :: "('c::linorder, 'z) stage_input_scheme \<Rightarrow> body_end" where
  "stage_body st =
     (case (if standing st = [] then Inr [] else runFlowTests (st_playground st) (asked_of (standing st))) of
        Inl why \<Rightarrow> BodyRerunFailed why
      | Inr reruns \<Rightarrow>
          (case st_readings st of
             Inl e \<Rightarrow> BodyThrew e
           | Inr readings \<Rightarrow> stage_sessions st readings reruns))"

definition report_of ::
    "('c::linorder, 'z) stage_input_scheme \<Rightarrow> stage_state \<Rightarrow> run_result list option \<Rightarrow> nat
     \<Rightarrow> (guard_flow \<times> test_record) list \<Rightarrow> judged_counts \<Rightarrow> stage_report" where
  "report_of st g run authored kept counts =
     (let tests = List.map_filter (\<lambda>flow. record_after g kept (gf_id flow)) (st_flows st)
      in \<lparr>sr_tests = tests, sr_authored = authored, sr_unsettled = sg_unsettled g, sr_run = run,
          sr_moved = bySignatureGroup (st_coll st) (sg_moved g), sr_judged = counts, sr_spent = sg_spent g,
          sr_dir = writeFlowTests tests (sg_dir g)\<rparr>)"

definition runFlowTestStage :: "('c::linorder, 'z) stage_input_scheme \<Rightarrow> effect list \<times> stage_end" where
  "runFlowTestStage st =
     (if st_flows st = [] then ([], NoFlows)
      else if opened_flows st = [] \<and> standing st = []
           then ([], StageDone (report_of st (open_stage st [] []) None 0 (kept_flows st)
                   \<lparr>jd_read = 0, jd_flagged = 0, jd_unavailable = 0\<rparr>))
      else if \<not> pg_installed (st_playground st) then ([], StageWorldFailed ''scripts'' PLAYWRIGHT_TEST_MISSING)
      else let (es, r) = with_product (st_host st) [CleanedUp] (Came (stage_body st))
           in (es, case r of
                     Threw e \<Rightarrow> StageThrew e
                   | WorldFailed stage why \<Rightarrow> StageWorldFailed stage why
                   | Came (BodyRerunFailed why) \<Rightarrow> RerunFailed why
                   | Came (BodyThrew e) \<Rightarrow> StageThrew e
                   | Came (BodyDone g results work kept counts) \<Rightarrow>
                       StageDone (report_of st g (Some results) (length work) kept counts)))"

section \<open>What the sessions leave\<close>

text \<open>The outcome an engine's run bears out.\<close>

fun bears_out :: "flow_test_status \<Rightarrow> run_outcome \<Rightarrow> bool" where
  "bears_out TPassing out \<longleftrightarrow> out = RPass"
| "bears_out TFailing out \<longleftrightarrow> out = RFail"
| "bears_out TBlocked out \<longleftrightarrow> False"

definition run_bears :: "flow_outcome \<Rightarrow> flow_session \<Rightarrow> bool" where
  "run_bears o' s \<longleftrightarrow>
     (if fo_status o' = TBlocked then True
      else case fx_lastRun s of None \<Rightarrow> False | Some (k, r) \<Rightarrow> bears_out (fo_status o') (fr_outcome r))"

lemma held_bears: "held_against st r = None \<Longrightarrow> st \<noteq> TBlocked \<Longrightarrow> bears_out st (fr_outcome r)"
  by (cases st) (auto simp: held_against_None)

definition stage_ok :: "stage_state \<Rightarrow> bool" where
  "stage_ok g \<longleftrightarrow>
     (\<forall>f s o'. (f, s, Some o') \<in> set (sg_sessions g) \<longrightarrow> run_bears o' s)
     \<and> (\<forall>f rc. map_of (sg_written g) f = Some rc \<longrightarrow> (\<forall>x. (f, x) \<notin> set (sg_sessions g)) \<and> rc_flowId rc = f
          \<and> (rc_status rc \<noteq> TBlocked \<longrightarrow> (\<exists>r. map_of (sg_accepted g) f = Some r \<and> bears_out (rc_status rc) (fr_outcome r))))
     \<and> (\<forall>m. m \<in> set (sg_moved g) \<longrightarrow> mv_settled m \<noteq> None \<longrightarrow> map_of (sg_written g) (mv_flowId m) \<noteq> None)"

lemma stage_okI:
  assumes "\<And>f s o'. (f, s, Some o') \<in> set (sg_sessions g) \<Longrightarrow> run_bears o' s"
    and "\<And>f rc. map_of (sg_written g) f = Some rc \<Longrightarrow> (\<forall>x. (f, x) \<notin> set (sg_sessions g)) \<and> rc_flowId rc = f
          \<and> (rc_status rc \<noteq> TBlocked \<longrightarrow> (\<exists>r. map_of (sg_accepted g) f = Some r \<and> bears_out (rc_status rc) (fr_outcome r)))"
    and "\<And>m. m \<in> set (sg_moved g) \<Longrightarrow> mv_settled m \<noteq> None \<Longrightarrow> map_of (sg_written g) (mv_flowId m) \<noteq> None"
  shows "stage_ok g"
  using assms unfolding stage_ok_def by blast

text \<open>A session whose outcome the gate accepts has, as its last run, one that bears the outcome out.\<close>

lemma accepted_bears:
  assumes "sn_accepted (session_step c \<lparr>sn_dir = dir, sn_session = s, sn_accepted = acc\<rparr> e) = Some o'"
    and "\<And>o'. acc = Some o' \<Longrightarrow> run_bears o' s"
  shows "run_bears o' (sn_session (session_step c \<lparr>sn_dir = dir, sn_session = s, sn_accepted = acc\<rparr> e))"
proof (cases acc)
  case (Some a)
  with assms show ?thesis by (simp add: session_step_def)
next
  case None
  with assms(1) obtain eng dir' s' where e: "e = Concludes o' eng" "outcome_issues o' = []"
    and v: "validateOutcome c o' eng dir s = (None, dir', s')"
    by (cases e) (auto simp: session_step_def split: if_splits prod.splits)
  show ?thesis
  proof (cases "fo_status o' = TBlocked")
    case False
    from accepted_outcome [OF v this] obtain f r where
      "fx_lastRun s' = Some (files_key c f, r)" "held_against (fo_status o') r = None" by metis
    with held_bears False show ?thesis
      by (simp add: run_bears_def session_step_def None e v)
  qed (simp add: run_bears_def)
qed

lemma set_update_sessions: "(x, y) \<in> set (AList.update k v xs) \<Longrightarrow> (x, y) = (k, v) \<or> (x, y) \<in> set xs"
  by (induction xs) (auto split: if_splits)

lemma within_ok:
  assumes "stage_ok g" and "session_of g f = Some so" and "gf_id (fst w) = f"
  shows "stage_ok (within_session st w e so g)"
proof (rule stage_okI, goal_cases)
  case (1 f' s' o')
  let ?r = "session_step (flow_input st w) \<lparr>sn_dir = sg_dir g, sn_session = fst so, sn_accepted = snd so\<rparr> e"
  from 1 have "(f', s', Some o') = (f, sn_session ?r, sn_accepted ?r) \<or> (f', s', Some o') \<in> set (sg_sessions g)"
    using assms(3) by (auto simp: within_session_def Let_def dest: set_update_sessions)
  then show ?case
  proof
    assume new: "(f', s', Some o') = (f, sn_session ?r, sn_accepted ?r)"
    have before: "run_bears a (fst so)" if "snd so = Some a" for a
      using assms(1,2) that unfolding stage_ok_def session_of_def by (metis map_of_SomeD prod.collapse)
    from new have "sn_accepted ?r = Some o'" by simp
    from accepted_bears [OF this before] new show ?thesis by simp
  qed (use assms(1) in \<open>auto simp: stage_ok_def\<close>)
next
  case (2 f' rc)
  have "(f, so) \<in> set (sg_sessions g)"
    using assms(2) unfolding session_of_def by (rule map_of_SomeD)
  then have "f' \<noteq> f" "\<forall>x. (f', x) \<notin> set (sg_sessions g)" and
      rest: "rc_flowId rc = f' \<and> (rc_status rc \<noteq> TBlocked \<longrightarrow>
        (\<exists>r. map_of (sg_accepted g) f' = Some r \<and> bears_out (rc_status rc) (fr_outcome r)))"
    using 2 assms(1) by (cases so; auto simp: within_session_def Let_def stage_ok_def)+
  then have "\<forall>x. (f', x) \<notin> set (sg_sessions (within_session st w e so g))"
    using assms(3) by (auto simp: within_session_def Let_def dest!: set_update_sessions)
  with rest show ?case by (simp add: within_session_def Let_def)
next
  case (3 m)
  with assms(1) show ?case by (simp add: within_session_def Let_def stage_ok_def)
qed

lemma written_record_fields:
  "rc_flowId (written_record st w dir s o' run) = gf_id (fst w)" "rc_status (written_record st w dir s o' run) = fo_status o'"
  by (simp_all add: written_record_def Let_def)

lemma settle_moved_written: "m \<in> set (sg_moved (settle_moved f st' g)) \<Longrightarrow> mv_settled m \<noteq> None \<Longrightarrow>
    mv_flowId m = f \<or> m \<in> set (sg_moved g)"
  by (auto simp: settle_moved_def split: if_splits)

lemma settle_moved_frame [simp]:
  "sg_sessions (settle_moved f st' g) = sg_sessions g" "sg_written (settle_moved f st' g) = sg_written g"
  "sg_accepted (settle_moved f st' g) = sg_accepted g" "sg_dir (settle_moved f st' g) = sg_dir g"
  "sg_threw (settle_moved f st' g) = sg_threw g" "sg_unsettled (settle_moved f st' g) = sg_unsettled g"
  "map mv_flowId (sg_moved (settle_moved f st' g)) = map mv_flowId (sg_moved g)"
  by (simp_all add: settle_moved_def comp_def)

lemma spend_frame [simp]:
  "sg_sessions (spend s sp g) = sg_sessions g" "sg_written (spend s sp g) = sg_written g"
  "sg_accepted (spend s sp g) = sg_accepted g" "sg_dir (spend s sp g) = sg_dir g"
  "sg_threw (spend s sp g) = sg_threw g" "sg_unsettled (spend s sp g) = sg_unsettled g"
  "sg_moved (spend s sp g) = sg_moved g"
  by (simp_all add: spend_def)

text \<open>What a fold of an accepted outcome writes, when it does not throw.\<close>

lemma fold_accepted_cases:
  assumes "f = gf_id (fst w)" and "run_bears o' s"
  shows "sg_threw (fold_accepted st w s o' g) \<noteq> None \<and> sg_written (fold_accepted st w s o' g) = sg_written g
      \<and> sg_moved (fold_accepted st w s o' g) = sg_moved g
      \<and> (\<exists>r. sg_accepted (fold_accepted st w s o' g) = AList.update f r (sg_accepted g))
    \<or> (\<exists>rc h. fold_accepted st w s o' g = settle_moved f (fo_status o') h \<and> sg_moved h = sg_moved g
        \<and> sg_written h = AList.update f rc (sg_written g) \<and> rc_flowId rc = f \<and> rc_status rc = fo_status o'
        \<and> (if fo_status o' = TBlocked then sg_accepted h = sg_accepted g
           else \<exists>r. sg_accepted h = AList.update f r (sg_accepted g) \<and> bears_out (fo_status o') (fr_outcome r)))"
proof (cases "run_of_session o' s")
  case None
  with assms(2) have blocked: "fo_status o' = TBlocked"
    by (auto simp: run_of_session_def run_bears_def split: if_splits option.splits)
  show ?thesis
    by (rule disjI2, rule exI [of _ "written_record st w (sg_dir g) s o' None"],
        rule exI [of _ "g\<lparr>sg_written := AList.update f (written_record st w (sg_dir g) s o' None) (sg_written g)\<rparr>"])
      (simp add: fold_accepted_def Let_def None blocked assms(1) [symmetric] written_record_fields)
next
  case (Some r)
  with assms(2) have b: "fo_status o' \<noteq> TBlocked" "bears_out (fo_status o') (fr_outcome r)"
    by (auto simp: run_of_session_def run_bears_def split: if_splits option.splits)
  show ?thesis
  proof (cases "sg_dir g (flowTestFileName f)")
    case None
    with Some show ?thesis by (auto simp: fold_accepted_def Let_def assms(1))
  next
    case spec: (Some spec)
    let ?rc = "written_record st w (sg_dir g) s o' (Some (keep_run st (st_runId st) (st_now st) True spec r))"
    show ?thesis
      by (rule disjI2, rule exI [of _ ?rc],
          rule exI [of _ "g\<lparr>sg_accepted := AList.update f r (sg_accepted g), sg_written := AList.update f ?rc (sg_written g)\<rparr>"])
        (use Some spec b in \<open>auto simp: fold_accepted_def Let_def assms(1) [symmetric] written_record_fields\<close>)
  qed
qed

lemma fold_accepted_sessions [simp]: "sg_sessions (fold_accepted st w s o' g) = sg_sessions g"
  by (simp add: fold_accepted_def Let_def split: option.split)

lemma settles_ok:
  assumes ok: "stage_ok g" and so: "session_of g f = Some (s, Some o')" and w: "gf_id (fst w) = f"
  shows "stage_ok (close_session f (fold_accepted st w s o' (spend s sp g)))"
proof -
  let ?h = "spend s sp g"
  from so have mem: "(f, s, Some o') \<in> set (sg_sessions g)" by (simp add: session_of_def map_of_SomeD)
  with ok have "run_bears o' s" unfolding stage_ok_def by blast
  from fold_accepted_cases [OF w [symmetric] this, of st ?h]
  show ?thesis
  proof (elim disjE conjE exE)
    fix r
    assume "sg_written (fold_accepted st w s o' ?h) = sg_written ?h" "sg_moved (fold_accepted st w s o' ?h) = sg_moved ?h"
      "sg_accepted (fold_accepted st w s o' ?h) = AList.update f r (sg_accepted ?h)"
    moreover have "map_of (sg_written g) f = None"
      using ok mem unfolding stage_ok_def by (meson not_None_eq)
    ultimately show ?thesis
      using ok by (intro stage_okI) (auto simp: close_session_def stage_ok_def update_conv')
  next
    fix rc h
    assume h: "fold_accepted st w s o' ?h = settle_moved f (fo_status o') h" "sg_moved h = sg_moved ?h"
      "sg_written h = AList.update f rc (sg_written ?h)" "rc_flowId rc = f" "rc_status rc = fo_status o'"
      and acc: "if fo_status o' = TBlocked then sg_accepted h = sg_accepted ?h
           else \<exists>r. sg_accepted h = AList.update f r (sg_accepted ?h) \<and> bears_out (fo_status o') (fr_outcome r)"
    have sess: "sg_sessions h = sg_sessions g" using arg_cong [OF h(1), of sg_sessions] by simp
    show ?thesis
    proof (rule stage_okI, goal_cases)
      case (1 f' s' o2)
      with ok show ?case by (auto simp: close_session_def h(1) sess stage_ok_def)
    next
      case (2 f' rc')
      then show ?case
        using ok acc h(4,5)
        by (auto simp: close_session_def h(1,3) sess stage_ok_def update_conv' split: if_splits)
    next
      case (3 m)
      then have "mv_flowId m = f \<or> m \<in> set (sg_moved h)"
        by (simp add: close_session_def h(1)) (blast dest: settle_moved_written)
      with 3 ok show ?case by (auto simp: close_session_def h(1-3) stage_ok_def update_conv')
    qed
  qed
qed

lemma fails_ok: "stage_ok g \<Longrightarrow> stage_ok (close_session f (fold_failed w s why (spend s sp g)))"
  by (auto simp: close_session_def fold_failed_def Let_def stage_ok_def split: prod.split option.split)

lemma work_item_id: "work_item work f = Some w \<Longrightarrow> gf_id (fst w) = f"
  by (auto simp: work_item_def dest: find_Some_mem)

interpretation stage: invariant_machine "stage_step st work" stage_ok for st :: "('c::linorder, 'z) stage_input_scheme" and work
proof
  fix g ev
  assume ok: "stage_ok g"
  show "stage_ok (stage_step st work g ev)"
  proof (cases ev)
    case (Within f e)
    with ok show ?thesis
      by (auto simp: stage_step_def split: option.split dest: work_item_id intro!: within_ok [of g f])
  next
    case (Settles f sp)
    with ok show ?thesis
      by (auto simp: stage_step_def split: option.split dest: work_item_id intro!: settles_ok)
  next
    case (Fails f why sp)
    with ok show ?thesis by (auto simp: stage_step_def intro: fails_ok split: option.split)
  qed
qed

lemma open_stage_ok: "list_all (\<lambda>m. mv_settled m = None) moved \<Longrightarrow> stage_ok (open_stage st work moved)"
  by (auto simp: open_stage_def stage_ok_def list_all_iff)

text \<open>No step adds or drops a moved test.\<close>

lemma fold_accepted_ids: "map mv_flowId (sg_moved (fold_accepted st w s o' g)) = map mv_flowId (sg_moved g)"
  by (simp add: fold_accepted_def Let_def split: option.split)

interpretation moved_ids: invariant_machine "stage_step st work" "\<lambda>g. map mv_flowId (sg_moved g) = ids"
  for st :: "('c::linorder, 'z) stage_input_scheme" and work ids
  by unfold_locales
    (auto simp: stage_step_def within_session_def Let_def close_session_def fold_accepted_ids fold_failed_def
      split: stage_event.split option.split prod.split)

lemma stage_runs_ok:
  assumes "list_all (\<lambda>m. mv_settled m = None) moved"
  shows "stage_ok (stage_runs st work moved es)"
    and "map mv_flowId (sg_moved (stage_runs st work moved es)) = map mv_flowId moved"
  unfolding stage_runs_def
  by (rule stage.run_inv, rule open_stage_ok, rule assms) (rule moved_ids.run_inv, simp add: open_stage_def)

lemma moved_tests_open: "list_all (\<lambda>m. mv_settled m = None) (moved_tests reruns ks)"
  by (auto simp: moved_tests_def List.map_filter_def list_all_iff split: prod.split)

lemma still_moved:
  assumes "flowTestMovement rc r \<noteq> None" and "rerun_of reruns (gf_id flow) = Some r" and "(flow, rc) \<in> set ks"
  shows "gf_id flow \<in> set (map mv_flowId (moved_tests reruns ks))"
proof -
  from assms(1) obtain why where "movement_of reruns (flow, rc) = Some (why, r)"
    using assms(2) by (auto simp: movement_of_def)
  with assms(3) show ?thesis by (force simp: moved_tests_def List.map_filter_def)
qed

lemma holds_bears: "flowTestMovement rc r = None \<Longrightarrow> rc_status rc \<noteq> TBlocked \<Longrightarrow> bears_out (rc_status rc) (fr_outcome r)"
  by (cases "rc_status rc") (auto simp: flowTestMovement_def split: if_splits)

lemma index_record_id: "index_record rcs f = Some rc \<Longrightarrow> rc_flowId rc = f"
  by (auto simp: index_record_def dest!: map_of_SomeD)

lemma triage_Kept: "triage dir rs flow rc = Kept rc' \<Longrightarrow> rc = Some rc'"
  by (auto simp: triage_def split: option.splits if_splits)

lemma in_map_filter: "y \<in> set (List.map_filter f xs) \<longleftrightarrow> (\<exists>x\<in>set xs. f x = Some y)"
  by (induction xs) (auto simp: map_filter_simps split: option.split)

lemma kept_flows_iff: "(flow, rc) \<in> set (kept_flows st) \<longleftrightarrow> flow \<in> set (st_flows st) \<and> triage_flow st flow = Kept rc"
proof
  assume "(flow, rc) \<in> set (kept_flows st)"
  then obtain x where "x \<in> set (st_flows st)"
      "(case triage_flow st x of Kept rc \<Rightarrow> Some (x, rc) | Opened _ \<Rightarrow> None) = Some (flow, rc)"
    unfolding kept_flows_def in_map_filter by blast
  then show "flow \<in> set (st_flows st) \<and> triage_flow st flow = Kept rc"
    by (cases "triage_flow st x") auto
next
  show "flow \<in> set (st_flows st) \<and> triage_flow st flow = Kept rc \<Longrightarrow> (flow, rc) \<in> set (kept_flows st)"
    unfolding kept_flows_def in_map_filter by (intro bexI [of _ flow]) simp_all
qed

lemma came_effects:
  "with_product h cleanup body = (es, Came x) \<Longrightarrow> es = [Reserved, BuildRan, BootRan, BodyRan, WentDown] @ cleanup @ [Released]"
  by (auto simp: with_product_def built_and_booted_def body_then_down_def
      split: option.splits sum.splits build_end.splits boot_end.splits)

lemma kept_flows_id: "(flow, rc) \<in> set (kept_flows st) \<Longrightarrow> rc_flowId rc = gf_id flow \<and> flow \<in> set (st_flows st)"
  using index_record_id triage_Kept unfolding kept_flows_iff triage_flow_def by blast

lemma stamp_fields [simp]: "rc_flowId (stamp st rd flow rc) = rc_flowId rc" "rc_status (stamp st rd flow rc) = rc_status rc"
  "rc_file (stamp st rd flow rc) = rc_file rc" "rc_seed (stamp st rd flow rc) = rc_seed rc" "rc_run (stamp st rd flow rc) = rc_run rc"
  by (simp_all add: stamp_def)

lemma kept_after_id: "(flow, rc) \<in> set (kept_after st rd) \<Longrightarrow> rc_flowId rc = gf_id flow \<and> flow \<in> set (st_flows st)"
  by (auto simp: kept_after_def dest: kept_flows_id)

lemma record_after_kept:
  assumes "record_after g kept f = Some rc" and "map_of (sg_written g) f = None"
  obtains flow where "(flow, rc) \<in> set kept" "gf_id flow = f"
  using assms by (auto simp: record_after_def dest!: map_of_SomeD)

lemma set_bySignatureGroup [simp]: "set (bySignatureGroup coll ms) = set ms"
  by (simp add: bySignatureGroup_def Let_def)

lemma body_done_cases:
  "(case x of Some e \<Rightarrow> BodyThrew e | None \<Rightarrow> BodyDone a b c d e') = BodyDone g rows work kept counts
    \<Longrightarrow> x = None \<and> g = a \<and> rows = b \<and> work = c \<and> kept = d \<and> counts = e'"
  by (cases x) simp_all

lemma stage_done_cases:
  assumes "runFlowTestStage st = (es, StageDone rep)"
  obtains (idle) "sr_run rep = None" "rep = report_of st (open_stage st [] []) None 0 (kept_flows st)
                   \<lparr>jd_read = 0, jd_flagged = 0, jd_unavailable = 0\<rparr>"
  | (ran) readings reruns g runs where
      "g = stage_runs st (work_of st readings reruns) (moved_tests reruns (filter (\<lambda>(flow, rc). runnable rc) (kept_after st readings))) (st_events st)"
      "sr_run rep = Some (List.map_filter (stage_result g (kept_after st readings) reruns runs) (st_flows st))"
      "rep = report_of st g (sr_run rep) (length (work_of st readings reruns)) (kept_after st readings) (judged_counts_of st readings)"
      "sg_threw g = None" "es = [Reserved, BuildRan, BootRan, BodyRan, WentDown, CleanedUp, Released]"
proof (cases "opened_flows st = [] \<and> standing st = []")
  case True
  then show thesis using assms idle by (auto simp: runFlowTestStage_def report_of_def Let_def split: if_splits)
next
  case False
  obtain r where r: "with_product (st_host st) [CleanedUp] (Came (stage_body st)) = (es, r)"
    using assms False by (auto simp: runFlowTestStage_def Let_def split: if_splits prod.splits)
  then obtain g rows work kept counts where done': "r = Came (BodyDone g rows work kept counts)"
      "rep = report_of st g (Some rows) (length work) kept counts"
    using assms False by (auto simp: runFlowTestStage_def Let_def split: if_splits settled.splits body_end.splits)
  have body: "stage_body st = BodyDone g rows work kept counts"
    using came_from_body [of "st_host st" "[CleanedUp]" "Came (stage_body st)"] r done'(1) by simp
  have effects: "es = [Reserved, BuildRan, BootRan, BodyRan, WentDown, CleanedUp, Released]"
    using came_effects [OF r [unfolded done'(1)]] by simp
  obtain readings reruns where b: "stage_sessions st readings reruns = BodyDone g rows work kept counts"
    using body by (auto simp: stage_body_def split: sum.splits)
  let ?kept = "kept_after st readings"
  let ?moved = "moved_tests reruns (filter (\<lambda>(flow, rc). runnable rc) ?kept)"
  obtain runs where runs: "rerun_runs st ?moved reruns = Inr runs"
    using b by (cases "rerun_runs st ?moved reruns") (simp_all add: stage_sessions_def Let_def)
  let ?g = "stage_runs st (work_of st readings reruns) ?moved (st_events st)"
  have "(case sg_threw ?g of Some e \<Rightarrow> BodyThrew e
      | None \<Rightarrow> BodyDone ?g (List.map_filter (stage_result ?g ?kept reruns runs) (st_flows st)) (work_of st readings reruns) ?kept
          (judged_counts_of st readings)) = BodyDone g rows work kept counts"
    using b unfolding stage_sessions_def Let_def runs sum.case .
  from body_done_cases [OF this] have "sg_threw g = None" "g = ?g"
    "rows = List.map_filter (stage_result g ?kept reruns runs) (st_flows st)"
    "work = work_of st readings reruns" "kept = ?kept" "counts = judged_counts_of st readings"
    by simp_all
  moreover have "sr_run (report_of st g x n kept counts) = x" for x n by (simp add: report_of_def Let_def)
  ultimately show thesis by (intro ran [of g readings reruns runs, OF _ _ _ _ effects]) (simp_all only: done'(2))
qed

lemma row_matches:
  assumes "stage_result g kept reruns runs flow = Some row" and "stage_ok g"
    and "\<not> bears_out (rr_authored row) (rr_outcome row)"
    and ids: "\<And>flow rc. (flow, rc) \<in> set kept \<Longrightarrow> rc_flowId rc = gf_id flow"
  shows "\<exists>flow' rc r. (flow', rc) \<in> set kept \<and> runnable rc \<and> gf_id flow' = rr_flowId row \<and> rerun_of reruns (gf_id flow') = Some r
    \<and> flowTestMovement rc r \<noteq> None \<and> map_of (sg_written g) (rr_flowId row) = None"
proof -
  let ?f = "gf_id flow"
  from assms(1) obtain rc where rc: "record_after g kept ?f = Some rc" "runnable rc"
    by (auto simp: stage_result_def Let_def split: option.splits if_splits)
  show ?thesis
  proof (cases "map_of (sg_written g) ?f")
    case (Some rc')
    with rc have "rc' = rc" by (simp add: record_after_def)
    with Some assms(2) rc(2) obtain r where r: "map_of (sg_accepted g) ?f = Some r" "bears_out (rc_status rc) (fr_outcome r)"
      unfolding stage_ok_def runnable_def by blast
    with assms(1,3) rc Some show ?thesis
      by (auto simp: stage_result_def Let_def result_row_of_def)
  next
    case None
    with rc obtain flow' where k: "(flow', rc) \<in> set kept" "gf_id flow' = ?f" by (auto elim: record_after_kept)
    from assms(1) rc None obtain r run where r: "rerun_of reruns ?f = Some r" "row = result_row_of rc (fr_outcome r) run"
      by (auto simp: stage_result_def Let_def split: option.splits)
    with assms(3) holds_bears [of rc r] rc(2) have "flowTestMovement rc r \<noteq> None"
      by (auto simp: result_row_of_def runnable_def)
    with k r rc(2) None ids [OF k(1)] show ?thesis
      by (intro exI [of _ flow'] exI [of _ rc] exI [of _ r]) (simp add: result_row_of_def)
  qed
qed

text \<open>C25: The run a stage leaves says of each test what its record says, except where somebody has yet to
  look. A result that does not bear out the status beside it, a passing test that did not pass or a
  failing one that did not fail, is a kept test that moved and that no session settled, and the stage
  lists it as such.\<close>

theorem mismatch_is_unsettled:
  assumes "runFlowTestStage st = (es, StageDone rep)" and "sr_run rep = Some rows" and "row \<in> set rows"
    and "\<not> bears_out (rr_authored row) (rr_outcome row)"
  shows "\<exists>m\<in>set (sr_moved rep). mv_flowId m = rr_flowId row \<and> mv_settled m = None"
  using assms(1)
proof (cases rule: stage_done_cases)
  case (ran readings reruns g runs)
  let ?kept = "kept_after st readings"
  let ?moved = "moved_tests reruns (filter (\<lambda>(flow, rc). runnable rc) ?kept)"
  note ok = stage_runs_ok [OF moved_tests_open [of reruns "filter (\<lambda>(flow, rc). runnable rc) ?kept"],
      of st "work_of st readings reruns" "st_events st", folded ran(1)]
  from assms(2,3) ran(2) obtain flow where "stage_result g ?kept reruns runs flow = Some row"
    by (auto simp: List.map_filter_def)
  from row_matches [OF this ok(1) assms(4)] kept_after_id
  obtain flow' rc r where k: "(flow', rc) \<in> set ?kept" "runnable rc" "gf_id flow' = rr_flowId row"
      "rerun_of reruns (gf_id flow') = Some r" "flowTestMovement rc r \<noteq> None" "map_of (sg_written g) (rr_flowId row) = None"
    by blast
  then have "rr_flowId row \<in> set (map mv_flowId ?moved)"
    using still_moved [OF k(5,4)] by simp
  then have "rr_flowId row \<in> set (map mv_flowId (sg_moved g))" unfolding ok(2) .
  then obtain m where m: "m \<in> set (sg_moved g)" "mv_flowId m = rr_flowId row" by auto
  with ok(1) k(6) have "mv_settled m = None" unfolding stage_ok_def by metis
  moreover have "sr_moved rep = bySignatureGroup (st_coll st) (sg_moved g)"
    using arg_cong [OF ran(3), of sr_moved] by (simp add: report_of_def Let_def)
  ultimately show ?thesis using m by auto
qed (use assms(2) in simp)

section \<open>The index and the directory\<close>

lemma record_after_id:
  assumes "record_after g (kept_after st rd) f = Some rc" and "stage_ok g"
  shows "rc_flowId rc = f"
proof (cases "map_of (sg_written g) f")
  case None
  from record_after_kept [OF assms(1) None] kept_after_id show ?thesis by metis
next
  case (Some rc')
  with assms show ?thesis by (simp add: record_after_def stage_ok_def)
qed

lemma open_stage_written: "map_of (sg_written (open_stage st work moved)) f = None"
  by (simp add: open_stage_def)

lemma tests_one_each:
  assumes "\<And>f rc. rec f = Some rc \<Longrightarrow> rc_flowId rc = f" and "distinct (map gf_id flows)"
  shows "distinct (map rc_flowId (List.map_filter (\<lambda>flow. rec (gf_id flow)) flows))
    \<and> set (map rc_flowId (List.map_filter (\<lambda>flow. rec (gf_id flow)) flows)) \<subseteq> set (map gf_id flows)"
  using assms(2)
proof (induction flows)
  case (Cons flow flows)
  then show ?case using assms(1) [of "gf_id flow"] by (cases "rec (gf_id flow)") (auto simp: map_filter_simps)
qed (simp add: map_filter_simps)


section \<open>A test nobody settled\<close>

text \<open>What the briefing asks of a session: of the specs and seeds it edits its own flow's only.\<close>

fun own_edit :: "stage_event \<Rightarrow> bool" where
  "own_edit (Within f (Edits name _)) \<longleftrightarrow> (if test_file name then name \<in> {flowTestFileName f, flowSeedFileName f} else True)"
| "own_edit _ \<longleftrightarrow> True"

lemma test_file_names: "test_file (flowTestFileName f)" "test_file (flowSeedFileName f)"
  by (simp_all add: test_file_def flowTestFileName_def flowSeedFileName_def suffix_def)

lemma names_apart:
  "flowTestFileName f \<noteq> flowSeedFileName f'" "flowSeedFileName f' \<noteq> flowTestFileName f"
  "flowTestFileName f = flowTestFileName f' \<longleftrightarrow> sanitizeSegment f = sanitizeSegment f'"
  "flowSeedFileName f = flowSeedFileName f' \<longleftrightarrow> sanitizeSegment f = sanitizeSegment f'"
proof -
  have "take 8 (rev (flowTestFileName f)) \<noteq> take 8 (rev (flowSeedFileName f'))"
    by (simp add: flowTestFileName_def flowSeedFileName_def)
  then show "flowTestFileName f \<noteq> flowSeedFileName f'" "flowSeedFileName f' \<noteq> flowTestFileName f" by metis+
qed (simp_all add: flowTestFileName_def flowSeedFileName_def)

lemma restoreFrozen_dir: "name \<notin> {spec_name c, seed_name c} \<Longrightarrow> fst (restoreFrozen c dir) name = dir name"
  by (auto simp: restoreFrozen_def put_file_back_def split: option.split)

lemma validate_dir: "validateOutcome c o' eng dir s = (refused, dir', s') \<Longrightarrow> dir' = dir \<or> dir' = fst (restoreFrozen c dir)"
  by (auto simp: validateOutcome_def Let_def
      split: if_splits prod.splits list.splits sum.splits option.splits flow_verdict.splits)

lemma session_step_dir:
  assumes "name \<notin> {spec_name c, seed_name c}" and "\<And>n t. e = Edits n t \<Longrightarrow> n \<noteq> name"
  shows "sn_dir (session_step c r e) name = sn_dir r name"
  using assms
  by (cases e) (auto simp: session_step_def restoreFrozen_dir dest!: validate_dir split: prod.split)

definition as_accepted :: "tests_dir \<Rightarrow> string \<Rightarrow> stage_state \<Rightarrow> bool" where
  "as_accepted dir f g \<longleftrightarrow>
     sg_dir g (flowTestFileName f) = dir (flowTestFileName f) \<and> sg_dir g (flowSeedFileName f) = dir (flowSeedFileName f)"

lemma other_flow_keeps:
  assumes "as_accepted dir f g" and "sanitizeSegment (gf_id (fst w)) \<noteq> sanitizeSegment f"
    and "own_edit (Within (gf_id (fst w)) e)"
  shows "as_accepted dir f (within_session st w e so g)"
proof -
  have own: "spec_name (flow_input st w) = flowTestFileName (gf_id (fst w))" "seed_name (flow_input st w) = flowSeedFileName (gf_id (fst w))"
    by (simp_all add: flow_input_def spec_name_def seed_name_def)
  have "sn_dir (session_step (flow_input st w) r e) name = sn_dir r name"
    if "name \<in> {flowTestFileName f, flowSeedFileName f}" for r name
  proof (rule session_step_dir)
    show "name \<notin> {spec_name (flow_input st w), seed_name (flow_input st w)}"
      unfolding own using that assms(2) by (auto simp: names_apart dest: sym)
    fix n t assume "e = Edits n t"
    with assms(2,3) that show "n \<noteq> name"
      by (auto simp: names_apart test_file_names split: if_splits)
  qed
  with assms(1) show ?thesis by (simp add: as_accepted_def within_session_def Let_def)
qed

lemma fold_accepted_dir [simp]: "sg_dir (fold_accepted st w s o' g) = sg_dir g"
  by (simp add: fold_accepted_def Let_def split: option.split)

lemma fold_failed_dir:
  "name \<notin> {flowTestFileName (gf_id (fst w)), flowSeedFileName (gf_id (fst w))} \<Longrightarrow> sg_dir (fold_failed w s why g) name = sg_dir g name"
  by (auto simp: fold_failed_def Let_def split: option.split)

lemma fold_failed_restores:
  assumes "snd w = Some p" and "pq_reason p \<noteq> FlowChanged"
    and "pq_spec p = dir (flowTestFileName (gf_id (fst w)))" and "pq_seed p = dir (flowSeedFileName (gf_id (fst w)))"
  shows "as_accepted dir (gf_id (fst w)) (fold_failed w s why g)"
  using assms by (simp add: as_accepted_def fold_failed_def Let_def names_apart)

text \<open>A flow whose session is over and wrote nothing has the files it had.\<close>

definition left_alone :: "tests_dir \<Rightarrow> string \<Rightarrow> stage_state \<Rightarrow> bool" where
  "left_alone dir f g \<longleftrightarrow>
     (sg_threw g = None \<and> session_of g f = None \<and> map_of (sg_written g) f = None \<longrightarrow> as_accepted dir f g)"

lemma map_of_without: "map_of (filter (\<lambda>x. fst x \<noteq> f) xs) f' = (if f' = f then None else map_of xs f')"
  by (induction xs) auto

lemma fold_failed_frame [simp]:
  "sg_sessions (fold_failed w s why g) = sg_sessions g" "sg_written (fold_failed w s why g) = sg_written g"
  "sg_threw (fold_failed w s why g) = sg_threw g"
  by (simp_all add: fold_failed_def Let_def split: prod.split)

lemma close_frame [simp]:
  "sg_dir (close_session f g) = sg_dir g" "sg_written (close_session f g) = sg_written g"
  "sg_threw (close_session f g) = sg_threw g" "sg_unsettled (close_session f g) = sg_unsettled g"
  by (simp_all add: close_session_def)

lemma settles_writes:
  "gf_id (fst w) = f \<Longrightarrow> sg_threw (fold_accepted st w s o' g) = None \<Longrightarrow> map_of (sg_written (fold_accepted st w s o' g)) f \<noteq> None"
  by (auto simp: fold_accepted_def Let_def update_conv' split: option.splits)

lemma fold_accepted_other_written:
  "f \<noteq> gf_id (fst w) \<Longrightarrow> map_of (sg_written (fold_accepted st w s o' g)) f = map_of (sg_written g) f"
  by (auto simp: fold_accepted_def Let_def update_conv' split: option.split)

lemma fold_accepted_threw: "sg_threw (fold_accepted st w s o' g) = None \<Longrightarrow> sg_threw g = None"
  by (auto simp: fold_accepted_def Let_def split: option.splits)

lemma within_frame [simp]:
  "sg_written (within_session st w e so g) = sg_written g" "sg_threw (within_session st w e so g) = sg_threw g"
  "sg_unsettled (within_session st w e so g) = sg_unsettled g"
  by (simp_all add: within_session_def Let_def)

lemma session_of_within: "session_of (within_session st w e so g) f = None \<longleftrightarrow> session_of g f = None \<and> f \<noteq> gf_id (fst w)"
  by (auto simp: session_of_def within_session_def Let_def update_conv')

lemma left_alone_step:
  assumes g: "left_alone dir f g" and own: "own_edit ev"
    and apart: "\<And>w. w \<in> set work \<Longrightarrow> gf_id (fst w) \<noteq> f \<Longrightarrow> sanitizeSegment (gf_id (fst w)) \<noteq> sanitizeSegment f"
    and prior: "\<And>w. w \<in> set work \<Longrightarrow> gf_id (fst w) = f \<Longrightarrow> \<exists>p. snd w = Some p \<and> pq_reason p \<noteq> FlowChanged
      \<and> pq_spec p = dir (flowTestFileName f) \<and> pq_seed p = dir (flowSeedFileName f)"
  shows "left_alone dir f (stage_step st work g ev)"
proof (cases "sg_threw g")
  case None
  note mem = find_Some_mem [of "\<lambda>w. gf_id (fst w) = _" work, folded work_item_def]
  show ?thesis
  proof (cases ev)
    case (Within f' e)
    show ?thesis
    proof (cases "work_item work f' = None \<or> session_of g f' = None")
      case True
      with Within g show ?thesis by (auto simp: stage_step_def split: option.split)
    next
      case False
      then obtain w so where w: "work_item work f' = Some w" "session_of g f' = Some so" by auto
      with mem have w': "w \<in> set work" "gf_id (fst w) = f'" by auto
      have "as_accepted dir f (within_session st w e so g)" if "f' \<noteq> f" "as_accepted dir f g"
        using other_flow_keeps [OF that(2), of w e] apart [OF w'(1)] w'(2) that(1) own Within by simp
      with g w w'(2) None Within show ?thesis
        by (auto simp: stage_step_def left_alone_def session_of_within)
    qed
  next
    case (Settles f' sp)
    show ?thesis
    proof (cases "\<exists>w s o'. work_item work f' = Some w \<and> session_of g f' = Some (s, Some o')")
      case False
      with Settles g show ?thesis by (auto simp: stage_step_def split: option.split)
    next
      case True
      then obtain w s o' where w: "work_item work f' = Some w" "session_of g f' = Some (s, Some o')" by blast
      then have w': "gf_id (fst w) = f'" by (rule_tac work_item_id)
      show ?thesis
      proof (cases "f' = f")
        case True
        with settles_writes [OF w', of st s o' "spend s sp g"] w Settles None show ?thesis
          by (auto simp: stage_step_def left_alone_def)
      next
        case other: False
        then have "session_of (close_session f' (fold_accepted st w s o' (spend s sp g))) f = session_of g f"
          by (simp add: session_of_def close_session_def map_of_without)
        with other g w w' Settles None show ?thesis
          by (simp add: stage_step_def left_alone_def fold_accepted_other_written as_accepted_def)
      qed
    qed
  next
    case (Fails f' why sp)
    show ?thesis
    proof (cases "\<exists>w s. work_item work f' = Some w \<and> session_of g f' = Some (s, None)")
      case False
      with Fails g show ?thesis by (auto simp: stage_step_def split: option.split)
    next
      case True
      then obtain w s where w: "work_item work f' = Some w" "session_of g f' = Some (s, None)" by blast
      with mem have w': "w \<in> set work" "gf_id (fst w) = f'" by auto
      have step: "stage_step st work g ev = close_session f' (fold_failed w s why (spend s sp g))"
        using w Fails None by (simp add: stage_step_def)
      show ?thesis
      proof (cases "f' = f")
        case True
        with prior [OF w'(1)] w'(2) fold_failed_restores [of w _ dir s why "spend s sp g"] show ?thesis
          unfolding step by (auto simp: left_alone_def as_accepted_def)
      next
        case other: False
        with apart [OF w'(1)] w'(2) have "sanitizeSegment (gf_id (fst w)) \<noteq> sanitizeSegment f" by simp
        then have "as_accepted dir f (fold_failed w s why (spend s sp g)) = as_accepted dir f g"
          by (auto simp: as_accepted_def fold_failed_dir names_apart dest: sym)
        with other g w'(2) show ?thesis
          unfolding step by (simp add: left_alone_def session_of_def close_session_def map_of_without as_accepted_def)
      qed
    qed
  qed
qed (use g in \<open>simp add: stage_step_def left_alone_def\<close>)

lemma left_alone_runs:
  assumes "list_all own_edit es"
    and "\<And>w. w \<in> set work \<Longrightarrow> gf_id (fst w) \<noteq> f \<Longrightarrow> sanitizeSegment (gf_id (fst w)) \<noteq> sanitizeSegment f"
    and "\<And>w. w \<in> set work \<Longrightarrow> gf_id (fst w) = f \<Longrightarrow> \<exists>p. snd w = Some p \<and> pq_reason p \<noteq> FlowChanged
      \<and> pq_spec p = st_dir st (flowTestFileName f) \<and> pq_seed p = st_dir st (flowSeedFileName f)"
  shows "left_alone (st_dir st) f (stage_runs st work moved es)"
proof -
  have "left_alone (st_dir st) f (foldl (stage_step st work) g es)" if "left_alone (st_dir st) f g" for g
    using assms(1) that
  proof (induction es arbitrary: g)
    case (Cons e es)
    from Cons.prems(1) have own: "own_edit e" "list_all own_edit es" by simp_all
    have "left_alone (st_dir st) f (stage_step st work g e)"
      by (rule left_alone_step [OF Cons.prems(2) own(1)]) (fact assms(2), fact assms(3))
    from Cons.IH [OF own(2) this] show ?case by simp
  qed simp
  moreover have "left_alone (st_dir st) f (open_stage st work moved)"
    by (simp add: left_alone_def as_accepted_def open_stage_def)
  ultimately show ?thesis by (simp add: stage_runs_def)
qed

definition unsettled_over :: "stage_state \<Rightarrow> bool" where
  "unsettled_over g \<longleftrightarrow> stage_ok g
     \<and> (\<forall>f\<in>fst ` set (sg_unsettled g). (\<forall>x. (f, x) \<notin> set (sg_sessions g)) \<and> map_of (sg_written g) f = None)"

lemma fold_accepted_unsettled [simp]: "sg_unsettled (fold_accepted st w s o' g) = sg_unsettled g"
  by (simp add: fold_accepted_def Let_def split: option.split)

lemma fold_failed_unsettled: "fst ` set (sg_unsettled (fold_failed w s why g)) = insert (gf_id (fst w)) (fst ` set (sg_unsettled g))"
  by (auto simp: fold_failed_def Let_def split: prod.split)

interpretation over: invariant_machine "stage_step st work" unsettled_over for st :: "('c::linorder, 'z) stage_input_scheme" and work
proof
  fix g ev
  assume g: "unsettled_over g"
  then have ok: "stage_ok (stage_step st work g ev)" by (simp add: unsettled_over_def stage.step_inv)
  have sessions: "session_of g f = Some x \<Longrightarrow> f \<notin> fst ` set (sg_unsettled g) \<and> map_of (sg_written g) f = None" for f x
    using g unfolding unsettled_over_def stage_ok_def session_of_def
    by (metis map_of_SomeD option.exhaust prod.exhaust)
  have "(\<forall>x. (f, x) \<notin> set (sg_sessions (stage_step st work g ev))) \<and> map_of (sg_written (stage_step st work g ev)) f = None"
    if f: "f \<in> fst ` set (sg_unsettled (stage_step st work g ev))" for f
  proof -
    have same: ?thesis if "stage_step st work g ev = g"
      unfolding that by (rule bspec [OF conjunct2 [OF g [unfolded unsettled_over_def]] f [unfolded that]])
    show ?thesis
    proof (cases "sg_threw g")
    case None
    show ?thesis
    proof (cases ev)
      case (Within f' e)
      show ?thesis
      proof (cases "\<exists>w so. work_item work f' = Some w \<and> session_of g f' = Some so")
        case True
        then obtain w so where w: "work_item work f' = Some w" "session_of g f' = Some so" by blast
        then have step: "stage_step st work g ev = within_session st w e so g" "gf_id (fst w) = f'"
          using Within None by (simp_all add: stage_step_def work_item_id)
        then have "f \<in> fst ` set (sg_unsettled g)" using f by simp
        then have "f \<noteq> f'" using sessions [OF w(2)] by blast
        with f step g show ?thesis
          by (auto simp: unsettled_over_def within_session_def Let_def dest!: set_update_sessions)
      qed (intro same, use Within in \<open>auto simp: stage_step_def split: option.split\<close>)
    next
      case (Settles f' sp)
      show ?thesis
      proof (cases "\<exists>w s o'. work_item work f' = Some w \<and> session_of g f' = Some (s, Some o')")
        case True
        then obtain w s o' where w: "work_item work f' = Some w" "session_of g f' = Some (s, Some o')" by blast
        then have step: "stage_step st work g ev = close_session f' (fold_accepted st w s o' (spend s sp g))" "gf_id (fst w) = f'"
          using Settles None by (simp_all add: stage_step_def work_item_id)
        then have "f \<in> fst ` set (sg_unsettled g)" using f by simp
        then have "f \<noteq> f'" using sessions [OF w(2)] by blast
        with f step g show ?thesis
          by (auto simp: unsettled_over_def close_session_def fold_accepted_other_written)
      qed (intro same, use Settles in \<open>auto simp: stage_step_def split: option.split\<close>)
    next
      case (Fails f' why sp)
      show ?thesis
      proof (cases "\<exists>w s. work_item work f' = Some w \<and> session_of g f' = Some (s, None)")
        case True
        then obtain w s where w: "work_item work f' = Some w" "session_of g f' = Some (s, None)" by blast
        then have step: "stage_step st work g ev = close_session f' (fold_failed w s why (spend s sp g))" "gf_id (fst w) = f'"
          using Fails None by (simp_all add: stage_step_def work_item_id)
        with f have "f = f' \<or> f \<in> fst ` set (sg_unsettled g)" by (auto simp: fold_failed_unsettled)
        with step g sessions [OF w(2)] show ?thesis
          by (auto simp: unsettled_over_def close_session_def)
      qed (intro same, use Fails in \<open>auto simp: stage_step_def split: option.split\<close>)
    qed
    qed (intro same, simp add: stage_step_def)
  qed
  with ok show "unsettled_over (stage_step st work g ev)" by (auto simp: unsettled_over_def)
qed

lemma open_stage_over: "list_all (\<lambda>m. mv_settled m = None) moved \<Longrightarrow> unsettled_over (open_stage st work moved)"
  by (simp add: unsettled_over_def open_stage_ok) (simp add: open_stage_def)

lemma movement_reason: "flowTestMovement rc r = Some why \<Longrightarrow> why \<noteq> FlowChanged"
  by (auto simp: flowTestMovement_def split: if_splits)

lemma movement_of_reason: "movement_of reruns k = Some (why, r) \<Longrightarrow> why \<noteq> FlowChanged"
  using movement_reason by (auto simp: movement_of_def split: bind_splits)

lemma opened_flows_iff: "w \<in> set (opened_flows st) \<Longrightarrow> fst w \<in> set (st_flows st) \<and> triage_flow st (fst w) = Opened (snd w)"
proof -
  assume "w \<in> set (opened_flows st)"
  then obtain x where "x \<in> set (st_flows st)"
      "(case triage_flow st x of Kept _ \<Rightarrow> None | Opened p \<Rightarrow> Some (x, p)) = Some w"
    unfolding opened_flows_def in_map_filter by blast
  then show ?thesis by (cases "triage_flow st x") auto
qed

lemma repair_prior:
  assumes "repair_of st rd reruns (flow, rc) = Some w"
  shows "fst w = flow \<and> (\<exists>p. snd w = Some p \<and> pq_reason p \<noteq> FlowChanged
    \<and> pq_spec p = source_of (st_dir st) (rc_file rc) \<and> pq_seed p = source_of (st_dir st) (rc_seed rc))"
  using assms
  by (auto simp: repair_of_def Let_def prior_of_def dest: movement_of_reason split: if_splits)

lemma with_diff_base_prior:
  "fst (with_diff_base st w) = fst w
   \<and> (snd w = Some p \<longrightarrow> (\<exists>q. snd (with_diff_base st w) = Some q \<and> pq_reason q = pq_reason p \<and> pq_spec q = pq_spec p \<and> pq_seed q = pq_seed p))"
  by (auto simp: with_diff_base_def split: option.split)

lemma flow_by_id:
  "distinct (map gf_id flows) \<Longrightarrow> a \<in> set flows \<Longrightarrow> b \<in> set flows \<Longrightarrow> gf_id a = gf_id b \<Longrightarrow> a = b"
  by (metis distinct_map inj_onD)

text \<open>The work on a flow whose record is kept: a repair that starts from the files as they are.\<close>

lemma work_on_kept:
  assumes "distinct (map gf_id (st_flows st))" and "flow \<in> set (st_flows st)" and "triage_flow st flow = Kept rc"
    and "w \<in> set (work_of st rd reruns)" and "gf_id (fst w) = gf_id flow"
  shows "\<exists>p. snd w = Some p \<and> pq_reason p \<noteq> FlowChanged
    \<and> pq_spec p = source_of (st_dir st) (rc_file rc) \<and> pq_seed p = source_of (st_dir st) (rc_seed rc)"
proof -
  from assms(4) consider (opened) "w \<in> set (opened_flows st)"
    | (repair) flow' rc' w0 where "(flow', rc') \<in> set (kept_after st rd)" "repair_of st rd reruns (flow', rc') = Some w0"
        "w = with_diff_base st w0"
    by (auto simp: work_of_def in_map_filter)
  then show ?thesis
  proof cases
    case opened
    note o' = conjunct1 [OF opened_flows_iff [OF opened]] conjunct2 [OF opened_flows_iff [OF opened]]
    from flow_by_id [OF assms(1) o'(1) assms(2) assms(5)] o'(2) assms(3) show ?thesis by simp
  next
    case (repair flow' rc' w0)
    from repair(1) obtain rc0 where k: "(flow', rc0) \<in> set (kept_flows st)" "rc' = stamp st rd flow' rc0"
      by (auto simp: kept_after_def)
    from repair_prior [OF repair(2)] obtain p where p: "fst w0 = flow'" "snd w0 = Some p" "pq_reason p \<noteq> FlowChanged"
      "pq_spec p = source_of (st_dir st) (rc_file rc')" "pq_seed p = source_of (st_dir st) (rc_seed rc')" by blast
    with with_diff_base_prior [of st w0 p] repair(3) obtain q where q: "fst w = flow'" "snd w = Some q"
      "pq_reason q = pq_reason p" "pq_spec q = pq_spec p" "pq_seed q = pq_seed p" by auto
    from k(1) have "flow' \<in> set (st_flows st)" "triage_flow st flow' = Kept rc0" unfolding kept_flows_iff by simp_all
    with flow_by_id [OF assms(1) this(1) assms(2)] q(1) assms(3,5) have "rc0 = rc" by auto
    with p q k(2) show ?thesis by auto
  qed
qed

lemma work_flows: "w \<in> set (work_of st rd reruns) \<Longrightarrow> fst w \<in> set (st_flows st)"
  by (auto simp: work_of_def in_map_filter conjunct1 [OF with_diff_base_prior]
      dest!: repair_prior kept_after_id opened_flows_iff)

lemma map_filter_keys:
  "map fst (List.map_filter (\<lambda>x. case t x of Kept rc \<Rightarrow> Some (x, rc) | Opened _ \<Rightarrow> None) xs)
     = filter (\<lambda>x. \<exists>rc. t x = Kept rc) xs"
  by (induction xs) (simp_all add: map_filter_simps split: triaged.split)

lemma kept_record_after:
  assumes "distinct (map gf_id (st_flows st))" and "flow \<in> set (st_flows st)" and "triage_flow st flow = Kept rc"
  shows "map_of (map (\<lambda>(flow, rc). (gf_id flow, rc)) (kept_after st rd)) (gf_id flow) = Some (stamp st rd flow rc)"
proof -
  have "distinct (map (gf_id \<circ> fst) (kept_flows st))"
  proof -
    have "map fst (kept_flows st) = filter (\<lambda>flow. \<exists>rc. triage_flow st flow = Kept rc) (st_flows st)"
      unfolding kept_flows_def by (rule map_filter_keys)
    then have "map (gf_id \<circ> fst) (kept_flows st) = map gf_id (filter (\<lambda>flow. \<exists>rc. triage_flow st flow = Kept rc) (st_flows st))"
      by (metis map_map)
    then show ?thesis using assms(1) by (simp add: distinct_map_filter)
  qed
  moreover have "map fst (map (\<lambda>(flow, rc). (gf_id flow, rc)) (kept_after st rd)) = map (gf_id \<circ> fst) (kept_flows st)"
    by (simp add: kept_after_def case_prod_unfold comp_def)
  moreover have "(flow, stamp st rd flow rc) \<in> set (kept_after st rd)"
    using assms(2,3) by (force simp: kept_after_def kept_flows_iff)
  then have "(gf_id flow, stamp st rd flow rc) \<in> set (map (\<lambda>(flow, rc). (gf_id flow, rc)) (kept_after st rd))"
    by force
  ultimately show ?thesis by (intro map_of_is_SomeI) simp_all
qed

lemma kept_left_alone:
  assumes "list_all own_edit (st_events st)" and "distinct (map gf_id (st_flows st))"
    and "inj_on sanitizeSegment (gf_id ` set (st_flows st))"
    and "flow \<in> set (st_flows st)" and "triage_flow st flow = Kept rc"
    and "source_of (st_dir st) (rc_file rc) = st_dir st (flowTestFileName (gf_id flow))"
    and "source_of (st_dir st) (rc_seed rc) = st_dir st (flowSeedFileName (gf_id flow))"
  shows "left_alone (st_dir st) (gf_id flow) (stage_runs st (work_of st rd reruns) moved (st_events st))"
proof (rule left_alone_runs [OF assms(1)])
  fix w
  assume "w \<in> set (work_of st rd reruns)" and "gf_id (fst w) \<noteq> gf_id flow"
  with work_flows assms(3,4) show "sanitizeSegment (gf_id (fst w)) \<noteq> sanitizeSegment (gf_id flow)"
    by (metis image_eqI inj_onD)
next
  fix w
  assume "w \<in> set (work_of st rd reruns)" and "gf_id (fst w) = gf_id flow"
  from work_on_kept [OF assms(2,4,5) this] assms(6,7)
  show "\<exists>p. snd w = Some p \<and> pq_reason p \<noteq> FlowChanged
    \<and> pq_spec p = st_dir st (flowTestFileName (gf_id flow)) \<and> pq_seed p = st_dir st (flowSeedFileName (gf_id flow))" by simp
qed

text \<open>Writing the index leaves alone the files of a record it has.\<close>

lemma write_keeps_own:
  assumes "rc \<in> set tests" and "rc_file rc = Some (flowTestFileName f)"
    and "rc_seed rc = (if dir (flowSeedFileName f) = None then None else Some (flowSeedFileName f))"
  shows "writeFlowTests tests dir (flowTestFileName f) = dir (flowTestFileName f)
    \<and> writeFlowTests tests dir (flowSeedFileName f) = dir (flowSeedFileName f)"
proof -
  have "set (record_files rc) \<subseteq> set (concat (map record_files tests))" using assms(1) by auto
  moreover have "flowTestFileName f \<in> set (record_files rc)"
    "dir (flowSeedFileName f) \<noteq> None \<Longrightarrow> flowSeedFileName f \<in> set (record_files rc)"
    using assms(2,3) by (auto simp: record_files_def map_filter_simps not_empty_def truthy_def
        flowTestFileName_def flowSeedFileName_def)
  ultimately have "flowTestFileName f \<in> set (concat (map record_files tests))"
    "dir (flowSeedFileName f) \<noteq> None \<Longrightarrow> flowSeedFileName f \<in> set (concat (map record_files tests))"
    by blast+
  then show ?thesis by (cases "dir (flowSeedFileName f)") (auto simp: writeFlowTests_def)
qed

text \<open>C26: A kept test that nobody settled is the test it was. When the session opened on it ends without an
  accepted outcome, the stage lists the flow as unsettled, keeps its record, at most stamped with a new
  reading of the judge, and leaves the spec and the seed in the directory as they were when the stage
  began, whatever that session and the others did in between, as long as each edited the specs and
  seeds of its own flow only.\<close>

theorem unsettled_test_is_put_back:
  assumes "runFlowTestStage st = (es, StageDone rep)"
    and "flow \<in> set (st_flows st)" and "triage_flow st flow = Kept rc" and "gf_id flow \<in> fst ` set (sr_unsettled rep)"
    and "rc_file rc = Some (flowTestFileName (gf_id flow))"
    and "rc_seed rc = (if st_dir st (flowSeedFileName (gf_id flow)) = None then None else Some (flowSeedFileName (gf_id flow)))"
    and "list_all own_edit (st_events st)"
    and "distinct (map gf_id (st_flows st))" and "inj_on sanitizeSegment (gf_id ` set (st_flows st))"
  shows "\<exists>rc'\<in>set (sr_tests rep). (\<exists>j. rc' = rc\<lparr>rc_judged := j\<rparr>)
    \<and> sr_dir rep (flowTestFileName (gf_id flow)) = st_dir st (flowTestFileName (gf_id flow))
    \<and> sr_dir rep (flowSeedFileName (gf_id flow)) = st_dir st (flowSeedFileName (gf_id flow))"
  using assms(1)
proof (cases rule: stage_done_cases)
  case idle
  with assms(4) show ?thesis by (simp add: report_of_def Let_def open_stage_def)
next
  case (ran rd reruns g runs)
  let ?f = "gf_id flow" and ?work = "work_of st rd reruns" and ?kept = "kept_after st rd"
  have over: "unsettled_over g"
    unfolding ran(1) stage_runs_def by (rule over.run_inv, rule open_stage_over, rule moved_tests_open)
  have parts: "sr_unsettled rep = sg_unsettled g"
      "sr_tests rep = List.map_filter (\<lambda>flow. record_after g ?kept (gf_id flow)) (st_flows st)"
      "sr_dir rep = writeFlowTests (sr_tests rep) (sg_dir g)"
    by (subst ran(3), simp add: report_of_def Let_def)+
  note none = bspec [OF conjunct2 [OF over [unfolded unsettled_over_def]] assms(4) [unfolded parts(1)]]
  note none = conjunct1 [OF none] conjunct2 [OF none]
  have sources: "source_of (st_dir st) (rc_file rc) = st_dir st (flowTestFileName ?f)"
      "source_of (st_dir st) (rc_seed rc) = st_dir st (flowSeedFileName ?f)"
    using assms(5,6) by (auto simp: source_of_def not_empty_def truthy_def flowTestFileName_def flowSeedFileName_def)
  have "left_alone (st_dir st) ?f g"
    unfolding ran(1) by (rule kept_left_alone [OF assms(7,8,9,2,3) sources])
  moreover have "session_of g ?f = None"
    using none(1) unfolding session_of_def by (metis map_of_SomeD not_None_eq)
  moreover have "sg_threw g = None" using ran(4) by simp
  ultimately have dir: "as_accepted (st_dir st) ?f g" using none(2) by (simp add: left_alone_def)
  let ?rc = "stamp st rd flow rc"
  have "record_after g ?kept ?f = Some ?rc"
    using kept_record_after [OF assms(8,2,3)] none(2) by (simp add: record_after_def)
  then have member: "?rc \<in> set (sr_tests rep)"
    unfolding parts(2) in_map_filter using assms(2) by blast
  have "sr_dir rep (flowTestFileName ?f) = st_dir st (flowTestFileName ?f)
      \<and> sr_dir rep (flowSeedFileName ?f) = st_dir st (flowSeedFileName ?f)"
    using write_keeps_own [OF member, of ?f "sg_dir g"] assms(5,6) dir
    by (simp add: parts(3) as_accepted_def stamp_def split: if_splits)
  moreover have "\<exists>j. ?rc = rc\<lparr>rc_judged := j\<rparr>"
    by (cases "reading_of st rd ?f = Some Faithful") (auto simp: stamp_def intro: exI [of _ "rc_judged rc"])
  ultimately show ?thesis using member by blast
qed

subsection \<open>A kept test that moves and that its session cannot settle\<close>

definition demo_fail :: pw_result where
  "demo_fail = \<lparr>pr_status = Some PwFailed, pr_duration = Some 5, pr_error = Some (Some ''boom''), pr_errors = [],
     pr_steps = [\<lparr>ps_title = Some ''a'', ps_duration = None, ps_error = Some (Some ''boom'')\<rparr>], pr_attachments = []\<rparr>"

definition demo_fail_report :: pw_report where
  "demo_fail_report =
     \<lparr>rp_suites = [Suite (Some ''x.spec.ts'') [(None, [\<lparr>pt_annotations = [], pt_results = [demo_fail]\<rparr>])] []], rp_errors = []\<rparr>"

definition demo_fail_end :: play_end where
  "demo_fail_end = \<lparr>pe_exitCode = Some 1, pe_timedOut = False, pe_output = []\<rparr>"

definition demo_fail_playground :: playground where
  "demo_fail_playground = \<lparr>pg_installed = True, pg_repoRoot = ''/w'', pg_realRoot = ''/w'',
     pg_play = (\<lambda>patterns. (Some demo_fail_report, demo_fail_end))\<rparr>"

definition demo_kept :: test_record where
  "demo_kept = (demo_record ''x'' TPassing (Some ''x.spec.ts''))\<lparr>rc_judged := Some ''k'',
     rc_run := Some \<lparr>tn_ranAt = ''t0'', tn_durationMs = 5, tn_steps = [], tn_error = None, tn_evidencePath = None, tn_commit = Some ''c0''\<rparr>\<rparr>"

definition demo_guard_flow :: guard_flow where
  "demo_guard_flow = \<lparr>gf_id = ''x'', gf_fingerprint = ''p'', gf_milestones = []\<rparr>"

definition demo_stage :: "string stage_input" where
  "demo_stage =
     \<lparr>st_flows = [demo_guard_flow], st_index = [demo_kept],
      st_dir = (\<lambda>n. if n = ''x.spec.ts'' then Some demo_spec else None), st_readSteps = (\<lambda>ms. [demo_flow_step]),
      st_sha = (\<lambda>t. ''k''), st_coll = id,
      st_host = \<lparr>hr_reserve = None, hr_build = Inr Built, hr_boot = Inr Booted, hr_down = None\<rparr>,
      st_playground = demo_fail_playground, st_readings = Inr (\<lambda>f. None),
      st_events = [Within ''x'' (Edits ''x.spec.ts'' (Some ''half done'')),
                   Fails ''x'' (ContextExhausted NoRetry) \<lparr>sp_turns = 3, sp_tokens = 10, sp_costUsd = 0\<rparr>],
      st_commit = Some ''c1'', st_fetch = None, st_copied = (\<lambda>f. True),
      st_runId = ''r1'', st_stageRunId = ''s1'', st_ranAt = ''t1'', st_now = ''t2''\<rparr>"

definition demo_rerun :: test_result where
  "demo_rerun = reported demo_fail_playground demo_fail_report [] [] (''x'', ''x.spec.ts'')"

lemma demo_standing: "standing demo_stage = [(demo_guard_flow, demo_kept)]"
  by code_simp

lemma demo_body: "stage_body demo_stage = stage_sessions demo_stage (\<lambda>f. None) [demo_rerun]"
proof -
  have asked: "asked_of [(demo_guard_flow, demo_kept)] = [(''x'', ''x.spec.ts'')]" by code_simp
  have broken: "brokenSpecs demo_fail_report [(''x'', ''x.spec.ts'')] = []" by code_simp
  have "runFlowTests demo_fail_playground [(''x'', ''x.spec.ts'')] = Inr [demo_rerun]"
    using run_started [of demo_fail_playground "[(''x'', ''x.spec.ts'')]" demo_fail_report demo_fail_end] broken
    by (simp add: demo_fail_playground_def demo_rerun_def demo_fail_end_def)
  then show ?thesis
    unfolding stage_body_def demo_standing asked by (simp add: demo_stage_def asked)
qed

lemma demo_sessions:
  "case stage_sessions demo_stage (\<lambda>f. None) [demo_rerun] of
     BodyDone g rows work kept counts \<Rightarrow>
       map (\<lambda>k. (rr_flowId k, rr_authored k, rr_outcome k)) rows = [(''x'', TPassing, RFail)] \<and> map fst (sg_unsettled g) = [''x'']
   | _ \<Rightarrow> False"
  by code_simp

lemma demo_stage_done:
  obtains rep row where "runFlowTestStage demo_stage = ([Reserved, BuildRan, BootRan, BodyRan, WentDown, CleanedUp, Released], StageDone rep)"
    "sr_run rep = Some [row]" "rr_flowId row = ''x''" "rr_authored row = TPassing" "rr_outcome row = RFail"
    "''x'' \<in> fst ` set (sr_unsettled rep)"
proof -
  obtain g rows work kept counts where b: "stage_body demo_stage = BodyDone g rows work kept counts"
    and rows: "map (\<lambda>k. (rr_flowId k, rr_authored k, rr_outcome k)) rows = [(''x'', TPassing, RFail)]"
    and un: "map fst (sg_unsettled g) = [''x'']"
    using demo_sessions unfolding demo_body by (auto split: body_end.splits)
  from rows obtain row where row: "rows = [row]" "rr_flowId row = ''x''" "rr_authored row = TPassing" "rr_outcome row = RFail"
    by auto
  let ?rep = "report_of demo_stage g (Some rows) (length work) kept counts"
  have "with_product (st_host demo_stage) [CleanedUp] (Came (stage_body demo_stage))
      = ([Reserved, BuildRan, BootRan, BodyRan, WentDown, CleanedUp, Released], Came (stage_body demo_stage))"
    by (simp add: demo_stage_def with_product_def built_and_booted_def body_then_down_def)
  moreover have "st_flows demo_stage \<noteq> []" "pg_installed (st_playground demo_stage)"
    by (simp_all add: demo_stage_def demo_fail_playground_def)
  ultimately have "runFlowTestStage demo_stage = ([Reserved, BuildRan, BootRan, BodyRan, WentDown, CleanedUp, Released], StageDone ?rep)"
    unfolding runFlowTestStage_def Let_def demo_standing b by simp
  moreover have "sr_run ?rep = Some [row]" "''x'' \<in> fst ` set (sr_unsettled ?rep)"
    using row(1) arg_cong [OF un, of set] by (simp_all add: report_of_def Let_def)
  ultimately show thesis using row that by blast
qed

theorem mismatch_is_unsettled_witness:
  "\<exists>rep. snd (runFlowTestStage demo_stage) = StageDone rep \<and> (\<exists>m\<in>set (sr_moved rep). mv_flowId m = ''x'' \<and> mv_settled m = None)"
proof -
  obtain rep row where d: "runFlowTestStage demo_stage = ([Reserved, BuildRan, BootRan, BodyRan, WentDown, CleanedUp, Released], StageDone rep)"
    "sr_run rep = Some [row]" "rr_flowId row = ''x''" "rr_authored row = TPassing" "rr_outcome row = RFail"
    by (rule demo_stage_done)
  from mismatch_is_unsettled [OF d(1,2), of row] d show ?thesis by simp
qed


theorem unsettled_test_is_put_back_witness:
  "\<exists>rep. snd (runFlowTestStage demo_stage) = StageDone rep \<and> sr_dir rep ''x.spec.ts'' = Some demo_spec"
proof -
  obtain rep row where d: "runFlowTestStage demo_stage = ([Reserved, BuildRan, BootRan, BodyRan, WentDown, CleanedUp, Released], StageDone rep)"
    "''x'' \<in> fst ` set (sr_unsettled rep)"
    by (rule demo_stage_done)
  have flow: "demo_guard_flow \<in> set (st_flows demo_stage)" by (simp add: demo_stage_def)
  have kept: "triage_flow demo_stage demo_guard_flow = Kept demo_kept" by code_simp
  have un: "gf_id demo_guard_flow \<in> fst ` set (sr_unsettled rep)" using d(2) by (simp add: demo_guard_flow_def)
  have names: "flowTestFileName (gf_id demo_guard_flow) = ''x.spec.ts''" by code_simp
  have files: "rc_file demo_kept = Some (flowTestFileName (gf_id demo_guard_flow))"
    "rc_seed demo_kept = (if st_dir demo_stage (flowSeedFileName (gf_id demo_guard_flow)) = None then None
       else Some (flowSeedFileName (gf_id demo_guard_flow)))" by code_simp+
  have own: "list_all own_edit (st_events demo_stage)" by code_simp
  have "distinct (map gf_id (st_flows demo_stage))" "inj_on sanitizeSegment (gf_id ` set (st_flows demo_stage))"
    by (simp_all add: demo_stage_def)
  from unsettled_test_is_put_back [OF d(1) flow kept un files own this] have
    "sr_dir rep ''x.spec.ts'' = st_dir demo_stage ''x.spec.ts''" unfolding names by blast
  with d(1) show ?thesis by (simp add: demo_stage_def)
qed

end
