(* ===== verification/WorkerPool.thy ===== *)
theory WorkerPool
  imports Prelude
begin

text \<open>
  A list of items worked through by a bounded number of workers: \<open>mapWithConcurrency\<close> of
  packages/guard-runner/src/run.ts.

  A worker takes the next index, waits for its item and comes back for another. The state of the pool is the
  next index, the indices being worked on and the results, each under its index; an event is one item that
  settles.
\<close>

record ('i, 'r) work_pool =
  wp_items :: "'i list"
  wp_next :: nat
  wp_running :: "nat list"
  wp_results :: "(nat \<times> 'r) list"

definition workers :: "int \<Rightarrow> nat \<Rightarrow> nat" where
  "workers limit n = nat (max 1 (min limit (int n)))"

definition start_work :: "int \<Rightarrow> 'i list \<Rightarrow> ('i, 'r) work_pool" where
  "start_work limit items =
     (let k = min (workers limit (length items)) (length items)
      in \<lparr>wp_items = items, wp_next = k, wp_running = [0..<k], wp_results = []\<rparr>)"

definition settle_work :: "nat \<Rightarrow> 'r \<Rightarrow> ('i, 'r) work_pool \<Rightarrow> ('i, 'r) work_pool" where
  "settle_work i r p =
     (if i \<notin> set (wp_running p) then p
      else let p = p\<lparr>wp_running := remove1 i (wp_running p), wp_results := wp_results p @ [(i, r)]\<rparr>
           in if wp_next p < length (wp_items p)
              then p\<lparr>wp_next := wp_next p + 1, wp_running := wp_running p @ [wp_next p]\<rparr> else p)"

definition work_done :: "('i, 'r) work_pool \<Rightarrow> bool" where
  "work_done p \<longleftrightarrow> wp_running p = []"

definition work_results :: "('i, 'r) work_pool \<Rightarrow> 'r list" where
  "work_results p = map (\<lambda>i. the (map_of (wp_results p) i)) [0..<length (wp_items p)]"

subsection \<open>What every pool keeps\<close>

definition work_ok :: "int \<Rightarrow> 'i list \<Rightarrow> ('i, 'r) work_pool \<Rightarrow> bool" where
  "work_ok limit items p \<longleftrightarrow>
     wp_items p = items \<and> wp_next p \<le> length items
     \<and> distinct (wp_running p @ map fst (wp_results p))
     \<and> set (wp_running p) \<union> fst ` set (wp_results p) = {..<wp_next p}
     \<and> length (wp_running p) \<le> workers limit (length items)
     \<and> (wp_next p < length items \<longrightarrow> length (wp_running p) = workers limit (length items))"

lemma workers_pos: "0 < workers limit n"
  by (simp add: workers_def)

lemma start_ok: "work_ok limit items (start_work limit items)"
  by (auto simp: work_ok_def start_work_def Let_def)

lemma settle_ok:
  assumes "work_ok limit items p"
  shows "work_ok limit items (settle_work i r p)"
proof (cases "i \<in> set (wp_running p)")
  case True
  have run: "distinct (wp_running p)" "i \<notin> fst ` set (wp_results p)"
    using assms True by (auto simp: work_ok_def)
  have rest: "set (remove1 i (wp_running p)) = set (wp_running p) - {i}" "distinct (remove1 i (wp_running p))"
    "length (remove1 i (wp_running p)) = length (wp_running p) - 1" "0 < length (wp_running p)"
    using run(1) True by (auto simp: length_remove1)
  have fresh: "wp_next p \<notin> set (wp_running p)" "wp_next p \<notin> fst ` set (wp_results p)"
    using assms by (auto simp: work_ok_def)
  have all: "insert i (set (wp_running p) - {i} \<union> fst ` set (wp_results p)) = {..<wp_next p}"
    using assms True by (auto simp: work_ok_def)
  have disj: "set (wp_running p) \<inter> fst ` set (wp_results p) = {}" "distinct (map fst (wp_results p))"
    using assms by (auto simp: work_ok_def)
  show ?thesis
    using assms True run rest fresh all disj workers_pos [of limit "length items"]
    by (auto simp: work_ok_def settle_work_def Let_def lessThan_Suc)
qed (use assms in \<open>simp add: settle_work_def\<close>)

lemma done_all: "work_ok limit items p \<Longrightarrow> work_done p \<Longrightarrow> fst ` set (wp_results p) = {..<length items}"
proof -
  assume ok: "work_ok limit items p" and d: "work_done p"
  then have "wp_next p = length items"
    by (auto simp: work_ok_def work_done_def workers_def)
  with ok d show ?thesis by (auto simp: work_ok_def work_done_def)
qed

text \<open>Once a pool is done every item has its own result, the one of the event it settled with.\<close>

definition settled_as :: "('i, 'r) work_pool \<Rightarrow> ('i \<Rightarrow> 'r \<Rightarrow> bool) \<Rightarrow> bool" where
  "settled_as p P \<longleftrightarrow> list_all (\<lambda>(i, r). i < length (wp_items p) \<longrightarrow> P (wp_items p ! i) r) (wp_results p)"

lemma settle_settled:
  "settled_as p P \<Longrightarrow> (i < length (wp_items p) \<Longrightarrow> P (wp_items p ! i) r) \<Longrightarrow> settled_as (settle_work i r p) P"
  by (auto simp: settled_as_def settle_work_def Let_def)

lemma results_of_items:
  assumes "work_ok limit items p" and "work_done p" and "settled_as p P"
  shows "list_all2 P items (work_results p)"
proof -
  have items: "wp_items p = items" using assms(1) by (simp add: work_ok_def)
  have "P (items ! i) (the (map_of (wp_results p) i))" if "i < length items" for i
  proof -
    have "i \<in> fst ` set (wp_results p)" using done_all [OF assms(1,2)] that by simp
    then obtain r where r: "map_of (wp_results p) i = Some r"
      by (metis map_of_eq_None_iff not_None_eq)
    then have "(i, r) \<in> set (wp_results p)" by (rule map_of_SomeD)
    with assms(3) that r show ?thesis by (auto simp: settled_as_def items list_all_iff)
  qed
  then show ?thesis by (auto simp: list_all2_conv_all_nth work_results_def items)
qed

end
