(* ===== verification/Externals.thy ===== *)
theory Externals
  imports Dependencies
begin

text \<open>
  The accounts a user gives for the external services of an application:
  packages/guard-runner/src/externals.ts, over the declarations of packages/guard-runner/src/recipe.ts.

  The recipe declares which services there are and which environment variables carry them; a local file
  holds what must not be committed. A record of values is an association list of its own names; the process
  environment is a function. The text of a reason is its constructor.
\<close>

section \<open>The declaration and the overlay\<close>

record external_env_source =
  xs_value :: "string option"
  xs_valueFromEnv :: "string option"

record external_decl =
  xd_baseUrlEnv :: string
  xd_baseUrl :: "string option"
  xd_endpoints :: "(string \<times> string) list"
  xd_mode :: "string option"
  xd_env :: "(string \<times> external_env_source) list"
  xd_description :: "string option"

record external_overlay =
  xo_baseUrl :: "string option"
  xo_endpoints :: "(string \<times> string) list"
  xo_env :: "(string \<times> string) list"
  xo_token :: "string option"
  xo_headers :: "(string \<times> string) list"

datatype value_source = FromRecipe | FromLocal | FromProcess

record merged_endpoint =
  xe_envVar :: string
  xe_url :: string
  xe_source :: value_source

record merged_env =
  xv_name :: string
  xv_value :: "string option"
  xv_valueFromEnv :: "string option"
  xv_localValue :: "string option"

record merged_external =
  xm_service :: string
  xm_baseUrlEnv :: string
  xm_baseUrl :: "(string \<times> value_source) option"
  xm_mode :: "string option"
  xm_description :: "string option"
  xm_endpoints :: "merged_endpoint list"
  xm_env :: "merged_env list"
  xm_token :: "string option"
  xm_headers :: "(string \<times> string) list"
  xm_undeclaredLocalEnv :: "string list"

definition overlay_env :: "external_overlay option \<Rightarrow> (string \<times> string) list" where
  "overlay_env ov = (case ov of Some o' \<Rightarrow> xo_env o' | None \<Rightarrow> [])"

definition overlay_endpoints :: "external_overlay option \<Rightarrow> (string \<times> string) list" where
  "overlay_endpoints ov = (case ov of Some o' \<Rightarrow> xo_endpoints o' | None \<Rightarrow> [])"

definition merge_endpoint :: "external_overlay option \<Rightarrow> string \<times> string \<Rightarrow> merged_endpoint" where
  "merge_endpoint ov e =
     (case map_of (overlay_endpoints ov) (fst e) of
        Some local \<Rightarrow> \<lparr>xe_envVar = fst e, xe_url = local, xe_source = FromLocal\<rparr>
      | None \<Rightarrow> \<lparr>xe_envVar = fst e, xe_url = snd e, xe_source = FromRecipe\<rparr>)"

definition merge_env :: "external_overlay option \<Rightarrow> string \<times> external_env_source \<Rightarrow> merged_env" where
  "merge_env ov e =
     \<lparr>xv_name = fst e, xv_value = xs_value (snd e), xv_valueFromEnv = xs_valueFromEnv (snd e),
      xv_localValue = map_of (overlay_env ov) (fst e)\<rparr>"

definition merge_base :: "external_decl \<Rightarrow> external_overlay option \<Rightarrow> (string \<times> value_source) option" where
  "merge_base d ov =
     (case Option.bind ov xo_baseUrl of
        Some u \<Rightarrow> Some (u, FromLocal)
      | None \<Rightarrow> map_option (\<lambda>u. (u, FromRecipe)) (xd_baseUrl d))"

definition merge_external :: "(string \<times> external_overlay) list \<Rightarrow> string \<times> external_decl \<Rightarrow> merged_external" where
  "merge_external local sd =
     (let d = snd sd; ov = map_of local (fst sd)
      in \<lparr>xm_service = fst sd, xm_baseUrlEnv = xd_baseUrlEnv d, xm_baseUrl = merge_base d ov,
          xm_mode = xd_mode d, xm_description = xd_description d,
          xm_endpoints = map (merge_endpoint ov) (xd_endpoints d), xm_env = map (merge_env ov) (xd_env d),
          xm_token = Option.bind ov xo_token, xm_headers = (case ov of Some o' \<Rightarrow> xo_headers o' | None \<Rightarrow> []),
          xm_undeclaredLocalEnv = sort (filter (\<lambda>n. n \<notin> fst ` set (xd_env d)) (map fst (overlay_env ov))
            @ filter (\<lambda>n. n \<notin> fst ` set (xd_endpoints d)) (map fst (overlay_endpoints ov)))\<rparr>)"

definition mergeExternals ::
    "(string \<times> external_decl) list \<Rightarrow> (string \<times> external_overlay) list \<Rightarrow> merged_external list" where
  "mergeExternals declared local = map (merge_external local) declared"

section \<open>Resolution\<close>

datatype unresolved_reason = NoBaseUrl | EnvNotSet string | EnvBlank string | NoValueRegistered string

record external_requirement =
  xq_baseUrl :: bool
  xq_envVar :: string
  xq_resolved :: bool
  xq_source :: "value_source option"
  xq_reason :: "unresolved_reason option"
  xq_secret :: bool
  xq_derived :: bool

record resolved_external =
  xr_service :: string
  xr_state :: dependency_state
  xr_baseUrlEnv :: string
  xr_baseUrl :: "string option"
  xr_requirements :: "external_requirement list"
  xr_endpoints :: "(string \<times> string) list"
  xr_inject :: "(string \<times> string) list"
  xr_secrets :: "(string \<times> string) list"

definition blank :: "string \<Rightarrow> bool" where
  "blank s \<longleftrightarrow> js_trim s = []"

text \<open>What the recipe says where the overlay says nothing.\<close>

definition declared_value ::
    "(string \<Rightarrow> string option) \<Rightarrow> merged_env \<Rightarrow> (string \<times> value_source) option \<times> unresolved_reason option" where
  "declared_value env item =
     (case xv_value item of
        Some v \<Rightarrow> (Some (v, FromRecipe), None)
      | None \<Rightarrow>
          (case xv_valueFromEnv item of
             None \<Rightarrow> (None, Some (NoValueRegistered (xv_name item)))
           | Some n \<Rightarrow>
               (case env n of
                  None \<Rightarrow> (None, Some (EnvNotSet n))
                | Some v \<Rightarrow> if blank v then (None, Some (EnvBlank n)) else (Some (v, FromProcess), None))))"

definition resolveEnvItem ::
    "(string \<Rightarrow> string option) \<Rightarrow> merged_env \<Rightarrow> (string \<times> value_source) option \<times> unresolved_reason option" where
  "resolveEnvItem env item =
     (case xv_localValue item of
        Some v \<Rightarrow> if blank v then declared_value env item else (Some (v, FromLocal), None)
      | None \<Rightarrow> declared_value env item)"

definition base_requirement :: "merged_external \<Rightarrow> external_requirement" where
  "base_requirement m =
     \<lparr>xq_baseUrl = True, xq_envVar = xm_baseUrlEnv m, xq_resolved = (xm_baseUrl m \<noteq> None),
      xq_source = map_option snd (xm_baseUrl m), xq_reason = (if xm_baseUrl m = None then Some NoBaseUrl else None),
      xq_secret = False, xq_derived = False\<rparr>"

definition endpoint_requirement :: "merged_endpoint \<Rightarrow> external_requirement" where
  "endpoint_requirement e =
     \<lparr>xq_baseUrl = True, xq_envVar = xe_envVar e, xq_resolved = True, xq_source = Some (xe_source e), xq_reason = None,
      xq_secret = False, xq_derived = (xe_source e = FromRecipe)\<rparr>"

definition env_item_requirement :: "(string \<Rightarrow> string option) \<Rightarrow> merged_env \<Rightarrow> external_requirement" where
  "env_item_requirement env item =
     (let (value, reason) = resolveEnvItem env item
      in \<lparr>xq_baseUrl = False, xq_envVar = xv_name item, xq_resolved = (value \<noteq> None), xq_source = map_option snd value,
          xq_reason = reason, xq_secret = True, xq_derived = False\<rparr>)"

definition external_requirements :: "(string \<Rightarrow> string option) \<Rightarrow> merged_external \<Rightarrow> external_requirement list" where
  "external_requirements env m =
     base_requirement m # map endpoint_requirement (xm_endpoints m) @ map (env_item_requirement env) (xm_env m)"

text \<open>The variables that are set, by assignment: of two with one name the later stands.\<close>

definition assign_all :: "(string \<times> string) list \<Rightarrow> (string \<times> string) list \<Rightarrow> (string \<times> string) list" where
  "assign_all kvs env = foldl (\<lambda>e (k, v). AList.update k v e) env kvs"

definition own_endpoints :: "merged_external \<Rightarrow> (string \<times> string) list" where
  "own_endpoints m =
     (case xm_baseUrl m of Some (u, _) \<Rightarrow> [(xm_baseUrlEnv m, u)] | None \<Rightarrow> [])
     @ map (\<lambda>e. (xe_envVar e, xe_url e)) (xm_endpoints m)"

definition own_values :: "(string \<Rightarrow> string option) \<Rightarrow> merged_external \<Rightarrow> (string \<times> string) list" where
  "own_values env m =
     List.map_filter (\<lambda>i. map_option (\<lambda>(v, _). (xv_name i, v)) (fst (resolveEnvItem env i))) (xm_env m)"

definition external_state :: "external_requirement list \<Rightarrow> dependency_state" where
  "external_state rs =
     (let voting = filter (\<lambda>r. \<not> xq_derived r) rs; satisfied = length (filter xq_resolved voting)
      in if satisfied = length voting then Provided else if satisfied = 0 then Unprovided else Incomplete)"

definition resolveExternal :: "(string \<Rightarrow> string option) \<Rightarrow> merged_external \<Rightarrow> resolved_external" where
  "resolveExternal env m =
     (let rs = external_requirements env m; state = external_state rs
      in \<lparr>xr_service = xm_service m, xr_state = state, xr_baseUrlEnv = xm_baseUrlEnv m,
          xr_baseUrl = map_option fst (xm_baseUrl m), xr_requirements = rs,
          xr_endpoints = (if state = Provided then own_endpoints m else []),
          xr_inject = (if state = Provided then assign_all (own_endpoints m @ own_values env m) [] else []),
          xr_secrets = (if state = Provided
            then map (\<lambda>(n, v). (xm_service m @ ''.'' @ n, v)) (own_values env m) else [])\<rparr>)"

definition resolveExternals ::
    "(string \<times> external_decl) list \<Rightarrow> (string \<times> external_overlay) list \<Rightarrow> (string \<Rightarrow> string option) \<Rightarrow> resolved_external list" where
  "resolveExternals declared local env = map (resolveExternal env) (mergeExternals declared local)"

definition externalsInjectEnv :: "resolved_external list \<Rightarrow> (string \<times> string) list" where
  "externalsInjectEnv xs = foldl (\<lambda>env x. assign_all (xr_inject x) env) [] xs"

definition externalProxyTargets :: "resolved_external list \<Rightarrow> (string \<times> (string \<times> string) list) list" where
  "externalProxyTargets xs =
     map (\<lambda>x. (xr_service x, xr_endpoints x)) (filter (\<lambda>x. xr_state x = Provided \<and> xr_endpoints x \<noteq> []) xs)"

definition externalsSecrets :: "resolved_external list \<Rightarrow> (string \<times> string) list" where
  "externalsSecrets xs = foldl (\<lambda>m x. assign_all (xr_secrets x) m) [] xs"

text \<open>What the message of an incomplete account names: the variables that are missing, and why.\<close>

definition incomplete_variables :: "resolved_external \<Rightarrow> (string \<times> unresolved_reason option) list" where
  "incomplete_variables x = map (\<lambda>r. (xq_envVar r, xq_reason r)) (filter (\<lambda>r. \<not> xq_resolved r) (xr_requirements x))"

definition firstIncompleteExternal :: "resolved_external list \<Rightarrow> resolved_external option" where
  "firstIncompleteExternal xs = find (\<lambda>x. xr_state x = Incomplete) xs"

definition boundIncompleteExternals :: "string list \<Rightarrow> resolved_external list \<Rightarrow> resolved_external list" where
  "boundIncompleteExternals services xs = filter (\<lambda>x. xr_state x = Incomplete \<and> xr_service x \<in> set services) xs"

section \<open>An account is whole or nothing\<close>

lemma assign_all_get: "map_of (assign_all kvs env) k = (case map_of (rev kvs) k of Some v \<Rightarrow> Some v | None \<Rightarrow> map_of env k)"
  by (induction kvs arbitrary: env) (auto simp: assign_all_def update_conv' map_of_append split: option.split)

lemma assigned_iff: "map_of (assign_all kvs []) k \<noteq> None \<longleftrightarrow> k \<in> fst ` set kvs"
proof -
  have "map_of (rev kvs) k \<noteq> None \<longleftrightarrow> k \<in> fst ` set kvs"
    by (simp add: map_of_eq_None_iff)
  then show ?thesis by (auto simp: assign_all_get split: option.split)
qed

lemma filter_full: "length (filter P xs) = length xs \<longleftrightarrow> (\<forall>x\<in>set xs. P x)"
  using length_filter_less [of _ xs P] filter_True [of xs P] by (metis nat_neq_iff)

lemma state_Provided: "external_state rs = Provided \<longleftrightarrow> (\<forall>r\<in>set rs. xq_derived r \<or> xq_resolved r)"
proof -
  have "external_state rs = Provided \<longleftrightarrow> (\<forall>r\<in>set (filter (\<lambda>r. \<not> xq_derived r) rs). xq_resolved r)"
    unfolding external_state_def Let_def filter_full [symmetric] by (simp del: filter_filter)
  then show ?thesis by auto
qed

text \<open>Where a service is not provided nothing of its account reaches the application, the proxies or the
  redactor; where it is, every variable the recipe declares for it is set, and every value that is secret is
  masked.\<close>

lemma account_is_whole_or_nothing:
  assumes x_def: "x = resolveExternal env m"
  shows "if xr_state x = Provided
    then xm_baseUrl m \<noteq> None \<and> xm_baseUrlEnv m \<in> fst ` set (xr_endpoints x)
      \<and> (\<forall>i\<in>set (xm_env m). map_of (xr_inject x) (xv_name i) \<noteq> None)
      \<and> snd ` set (xr_secrets x) = snd ` set (own_values env m)
    else xr_inject x = [] \<and> xr_secrets x = [] \<and> xr_endpoints x = []"
proof (cases "xr_state x = Provided")
  case True
  then have all: "\<forall>r\<in>set (external_requirements env m). xq_derived r \<or> xq_resolved r"
    by (simp add: x_def resolveExternal_def Let_def state_Provided)
  then have base: "xm_baseUrl m \<noteq> None"
    by (auto simp: external_requirements_def base_requirement_def)
  have "xv_name i \<in> fst ` set (own_values env m)" if i: "i \<in> set (xm_env m)" for i
  proof -
    have "env_item_requirement env i \<in> set (external_requirements env m)"
      using i by (simp add: external_requirements_def)
    with all have "xq_derived (env_item_requirement env i) \<or> xq_resolved (env_item_requirement env i)" by blast
    then have "fst (resolveEnvItem env i) \<noteq> None"
      by (simp add: env_item_requirement_def Let_def case_prod_unfold)
    then obtain v s where "fst (resolveEnvItem env i) = Some (v, s)" by auto
    with i show ?thesis by (force simp: own_values_def map_filter_def image_iff)
  qed
  then have env: "map_of (xr_inject x) (xv_name i) \<noteq> None" if "i \<in> set (xm_env m)" for i
    using True that by (auto simp: x_def resolveExternal_def Let_def assigned_iff simp del: not_None_eq)
  have "snd ` set (xr_secrets x) = snd ` set (own_values env m)"
    using True by (simp add: x_def resolveExternal_def Let_def image_image case_prod_unfold)
  moreover have "xm_baseUrlEnv m \<in> fst ` set (xr_endpoints x)"
    using True base by (auto simp: x_def resolveExternal_def Let_def own_endpoints_def)
  ultimately show ?thesis using True base env by simp
next
  case False
  then show ?thesis by (auto simp: x_def resolveExternal_def Let_def)
qed

text \<open>An origin the recipe copied out of the code does not vote.\<close>

lemma derived_never_votes:
  "external_state (external_requirements env m)
     = external_state (external_requirements env (m\<lparr>xm_endpoints := filter (\<lambda>e. xe_source e \<noteq> FromRecipe) (xm_endpoints m)\<rparr>))"
proof -
  have "filter (\<lambda>r. \<not> xq_derived r) (map endpoint_requirement es)
      = filter (\<lambda>r. \<not> xq_derived r) (map endpoint_requirement (filter (\<lambda>e. xe_source e \<noteq> FromRecipe) es))" for es
    by (induction es) (auto simp: endpoint_requirement_def)
  then show ?thesis by (simp add: external_state_def external_requirements_def base_requirement_def)
qed

end
