(* ===== verification/SharedWorld.thy ===== *)
theory SharedWorld
  imports Prelude
begin

text \<open>
  The world that the executions of one generate share: \<open>createGuardSharedWorld\<close> of
  packages/guard-runner/src/shared-world.ts, a memo of one boot.

  The state is the handle's variables and what became of each boot, of a reset and of a teardown under way; an
  event is a call of the handle or the settling of something a call waits for. The values of a boot are a
  parameter, and what the caller counts as a failure is part of the event. The log has what happened outside.
\<close>

datatype 'v boot_state = Booting | BootValue 'v | BootThrew

datatype world_effect = BootStarted nat | ResetStarted | ResetOk | ResetFailed | DownStarted

datatype reset_outcome = DidReset | DidNotReset | HasNoReset

record 'v shared_world =
  sw_boots :: "'v boot_state list"
  sw_inFlight :: "nat option"
  sw_lifecycle :: "bool option"
  sw_torndown :: bool
  sw_resetting :: "nat option option"
  sw_shutting :: "nat option option"
  sw_log :: "world_effect list"

definition createGuardSharedWorld :: "'v shared_world" where
  "createGuardSharedWorld =
     \<lparr>sw_boots = [], sw_inFlight = None, sw_lifecycle = None, sw_torndown = False, sw_resetting = None,
      sw_shutting = None, sw_log = []\<rparr>"

definition log_effect :: "world_effect \<Rightarrow> 'v shared_world \<Rightarrow> 'v shared_world" where
  "log_effect e w = w\<lparr>sw_log := sw_log w @ [e]\<rparr>"

text \<open>\<open>ensure\<close>: the boot the caller waits for, started by this call when none is remembered. The lifecycle is
  registered once; \<open>has_reset\<close> says whether it can restore.\<close>

definition ensure :: "bool \<Rightarrow> 'v shared_world \<Rightarrow> nat \<times> 'v shared_world" where
  "ensure has_reset w =
     (case sw_inFlight w of
        Some n \<Rightarrow> (n, w)
      | None \<Rightarrow>
          let n = length (sw_boots w)
          in (n, log_effect (BootStarted n)
               (w\<lparr>sw_boots := sw_boots w @ [Booting], sw_inFlight := Some n,
                  sw_lifecycle := (case sw_lifecycle w of Some l \<Rightarrow> Some l | None \<Rightarrow> Some has_reset)\<rparr>)))"

text \<open>A boot settles; one that failed is forgotten while it is the one remembered.\<close>

definition boot_settles :: "nat \<Rightarrow> 'v option \<Rightarrow> bool \<Rightarrow> 'v shared_world \<Rightarrow> 'v shared_world" where
  "boot_settles n value retryable w =
     (if n < length (sw_boots w) \<and> sw_boots w ! n = Booting
      then w\<lparr>sw_boots := (sw_boots w)[n := (case value of Some v \<Rightarrow> BootValue v | None \<Rightarrow> BootThrew)],
             sw_inFlight := (if (value = None \<or> retryable) \<and> sw_inFlight w = Some n then None else sw_inFlight w)\<rparr>
      else w)"

definition booted :: "'v shared_world \<Rightarrow> bool" where
  "booted w \<longleftrightarrow> sw_lifecycle w \<noteq> None"

definition invalidate :: "'v shared_world \<Rightarrow> 'v shared_world" where
  "invalidate w = w\<lparr>sw_inFlight := None\<rparr>"

text \<open>The boot a call waits for has settled.\<close>

definition awaited :: "'v shared_world \<Rightarrow> nat option \<Rightarrow> bool" where
  "awaited w n \<longleftrightarrow> (case n of None \<Rightarrow> True | Some i \<Rightarrow> i < length (sw_boots w) \<and> sw_boots w ! i \<noteq> Booting)"

definition reset_begins :: "'v shared_world \<Rightarrow> 'v shared_world" where
  "reset_begins w =
     (if sw_lifecycle w = Some True \<and> sw_resetting w = None then w\<lparr>sw_resetting := Some (sw_inFlight w)\<rparr> else w)"

definition reset_ends :: "bool \<Rightarrow> 'v shared_world \<Rightarrow> reset_outcome \<times> 'v shared_world" where
  "reset_ends ok w =
     (case sw_resetting w of
        None \<Rightarrow> (HasNoReset, w)
      | Some n \<Rightarrow>
          if \<not> awaited w n then (HasNoReset, w)
          else let w = log_effect ResetStarted (w\<lparr>sw_resetting := None\<rparr>)
               in if ok then (DidReset, log_effect ResetOk (w\<lparr>sw_inFlight := None\<rparr>))
                  else (DidNotReset, log_effect ResetFailed w))"

definition shutdown_begins :: "'v shared_world \<Rightarrow> 'v shared_world" where
  "shutdown_begins w =
     (if sw_torndown w \<or> sw_lifecycle w = None then w
      else w\<lparr>sw_torndown := True, sw_shutting := Some (sw_inFlight w)\<rparr>)"

definition shutdown_ends :: "'v shared_world \<Rightarrow> 'v shared_world" where
  "shutdown_ends w =
     (case sw_shutting w of
        Some n \<Rightarrow> if awaited w n then log_effect DownStarted (w\<lparr>sw_shutting := None\<rparr>) else w
      | None \<Rightarrow> w)"

datatype 'v world_event =
    Ensures bool | BootSettles nat "'v option" bool | Invalidates | ResetBegins | ResetEnds bool
  | ShutdownBegins | ShutdownEnds

definition world_step :: "'v shared_world \<Rightarrow> 'v world_event \<Rightarrow> 'v shared_world" where
  "world_step w e =
     (case e of
        Ensures has_reset \<Rightarrow> snd (ensure has_reset w)
      | BootSettles n value retryable \<Rightarrow> boot_settles n value retryable w
      | Invalidates \<Rightarrow> invalidate w
      | ResetBegins \<Rightarrow> reset_begins w
      | ResetEnds ok \<Rightarrow> snd (reset_ends ok w)
      | ShutdownBegins \<Rightarrow> shutdown_begins w
      | ShutdownEnds \<Rightarrow> shutdown_ends w)"

section \<open>One boot at a time, one teardown\<close>

definition booting :: "'v shared_world \<Rightarrow> nat set" where
  "booting w = {n. n < length (sw_boots w) \<and> sw_boots w ! n = Booting}"

text \<open>While nobody forgets a world on purpose, a boot under way is the one remembered.\<close>

definition one_flight :: "'v shared_world \<Rightarrow> bool" where
  "one_flight w \<longleftrightarrow> (\<forall>n. n < length (sw_boots w) \<and> sw_boots w ! n = Booting \<longrightarrow> sw_inFlight w = Some n)"

definition teardown_ok :: "'v shared_world \<Rightarrow> bool" where
  "teardown_ok w \<longleftrightarrow>
     count_list (sw_log w) DownStarted = (if sw_torndown w \<and> sw_shutting w = None then 1 else 0)
     \<and> (sw_shutting w \<noteq> None \<longrightarrow> sw_torndown w)
     \<and> (sw_torndown w \<longrightarrow> sw_lifecycle w \<noteq> None) \<and> (sw_lifecycle w = None \<longleftrightarrow> sw_boots w = [])"

lemma ensure_flight: "one_flight w \<Longrightarrow> one_flight (snd (ensure h w))"
  by (auto simp: one_flight_def ensure_def log_effect_def Let_def nth_append less_Suc_eq split: option.split)

lemma other_flight [simp]:
  "one_flight (reset_begins w) = one_flight w" "one_flight (shutdown_begins w) = one_flight w"
  "one_flight (shutdown_ends w) = one_flight w"
  by (simp_all add: one_flight_def reset_begins_def shutdown_begins_def shutdown_ends_def log_effect_def split: option.split)

lemma settle_flight: "one_flight w \<Longrightarrow> one_flight (boot_settles n v r w)"
  by (auto simp: one_flight_def boot_settles_def nth_list_update split: option.split) (metis option.inject)+

interpretation teardown: invariant_machine world_step teardown_ok
proof
  fix w :: "'v shared_world" and e
  assume "teardown_ok w"
  then show "teardown_ok (world_step w e)"
    by (cases e)
      (auto simp: world_step_def ensure_def boot_settles_def invalidate_def reset_begins_def reset_ends_def
        shutdown_begins_def shutdown_ends_def teardown_ok_def log_effect_def Let_def split: option.splits)
qed

text \<open>The world is taken down at most once, and only when a boot was started.\<close>

lemma down_at_most_once:
  assumes "w = foldl world_step createGuardSharedWorld es"
  shows "count_list (sw_log w) DownStarted \<le> 1 \<and> (DownStarted \<in> set (sw_log w) \<longrightarrow> sw_boots w \<noteq> [])"
proof -
  have "teardown_ok (createGuardSharedWorld :: 'a shared_world)"
    by (simp add: teardown_ok_def createGuardSharedWorld_def)
  then have "teardown_ok w" unfolding assms by (rule teardown.run_inv)
  then show ?thesis
    by (auto simp: teardown_ok_def count_list_0_iff split: if_splits)
qed

text \<open>While nobody forgets a world on purpose and none is restored, no two boots are under way.\<close>

fun forgets :: "'v world_event \<Rightarrow> bool" where
  "forgets Invalidates = True"
| "forgets (ResetEnds ok) = True"
| "forgets e = False"

lemma one_boot_at_a_time:
  assumes "list_all (\<lambda>e. \<not> forgets e) es"
  shows "card (booting (foldl world_step createGuardSharedWorld es)) \<le> 1"
proof -
  have keeps: "one_flight (foldl world_step w es)" if "one_flight w" "list_all (\<lambda>e. \<not> forgets e) es"
    for w :: "'a shared_world" and es
    using that
  proof (induction es arbitrary: w)
    case (Cons e es)
    have "one_flight (world_step w e)"
      using Cons.prems
      by (cases e) (simp_all add: world_step_def ensure_flight settle_flight)
    with Cons show ?case by simp
  qed simp
  have "one_flight (createGuardSharedWorld :: 'a shared_world)" by (simp add: one_flight_def createGuardSharedWorld_def)
  from keeps [OF this assms] have "booting (foldl world_step createGuardSharedWorld es)
      \<subseteq> set_option (sw_inFlight (foldl world_step (createGuardSharedWorld :: 'a shared_world) es))"
    by (auto simp: one_flight_def booting_def)
  then have "card (booting (foldl world_step createGuardSharedWorld es))
      \<le> card (set_option (sw_inFlight (foldl world_step (createGuardSharedWorld :: 'a shared_world) es)))"
    by (rule card_mono [rotated]) simp
  also have "\<dots> \<le> 1" by (cases "sw_inFlight (foldl world_step (createGuardSharedWorld :: 'a shared_world) es)") simp_all
  finally show ?thesis .
qed

text \<open>A restore waits for the boot it found under way. Where that boot fails and another execution starts the
  next one, the restore runs under it.\<close>

lemma restore_under_a_boot:
  "let w = foldl world_step (createGuardSharedWorld :: string shared_world)
       [Ensures True, ResetBegins, BootSettles 0 None True, Ensures True, ResetEnds True]
   in sw_log w = [BootStarted 0, BootStarted 1, ResetStarted, ResetOk] \<and> sw_boots w ! 1 = Booting"
  by (simp add: world_step_def createGuardSharedWorld_def ensure_def log_effect_def reset_begins_def boot_settles_def
      reset_ends_def awaited_def)

end
