(* ===== verification/Prerequisites.thy ===== *)
theory Prerequisites
  imports Externals CaptureRules
begin

text \<open>
  What a scenario requires of the accounts of a machine: packages/shared/src/guard/prerequisites.ts and
  packages/guard-runner/src/prerequisites.ts.

  A scenario requires an account to be there, or deliberately not to be. The catalog of dependencies and the
  external services are joined into targets; the requirements of a scenario are held against them before it
  runs, and its environment is made of the accounts it binds. The text of a reason is its constructor.
\<close>

section \<open>A scenario as a run reads it\<close>

record run_scenario = guard_scenario +
  rn_id :: string
  rn_title :: string
  rn_binds :: "(string \<times> string list) list"
  rn_flowId :: "string option"
  rn_interface :: "(string list \<times> string list) option"
  rn_mutates :: bool
  rn_server :: "string option"
  rn_needs :: "string list option"
  rn_prerequisites :: "prerequisite list option"

definition setup_text :: "string \<Rightarrow> run_scenario \<Rightarrow> string option" where
  "setup_text k s = Option.bind (gs_setup s) (\<lambda>kvs. case map_of kvs k of Some (JStr t) \<Rightarrow> Some t | _ \<Rightarrow> None)"

text \<open>\<open>setup.preparation\<close>, where an empty name is none, and the services \<open>setup.externals\<close> names.\<close>

definition preparation_of :: "run_scenario \<Rightarrow> string option" where
  "preparation_of s = (case setup_text ''preparation'' s of Some t \<Rightarrow> if t = [] then None else Some t | None \<Rightarrow> None)"

definition externals_of :: "run_scenario \<Rightarrow> string list" where
  "externals_of s = (case gs_setup s of Some kvs \<Rightarrow> field_keys ''externals'' kvs | None \<Rightarrow> [])"

text \<open>An object of strings, as \<open>env\<close> is.\<close>

definition string_fields :: "json option \<Rightarrow> (string \<times> string) list" where
  "string_fields v =
     (case v of
        Some (JObj kvs) \<Rightarrow> List.map_filter (\<lambda>(k, x). case x of JStr t \<Rightarrow> Some (k, t) | _ \<Rightarrow> None) kvs
      | _ \<Rightarrow> [])"

definition setup_env :: "run_scenario \<Rightarrow> (string \<times> string) list" where
  "setup_env s = string_fields (Option.bind (gs_setup s) (\<lambda>kvs. map_of kvs ''env''))"

text \<open>The strings of a scenario that are not its needs, where a token may bind a dependency.\<close>

definition scenario_rest :: "run_scenario \<Rightarrow> json" where
  "scenario_rest s =
     JArr ([JStr (rn_id s), JStr (rn_title s)]
       @ map (\<lambda>p. JStr (pq_dependency p)) (case rn_prerequisites s of Some ps \<Rightarrow> ps | None \<Rightarrow> [])
       @ (case gs_setup s of Some kvs \<Rightarrow> [JObj kvs] | None \<Rightarrow> [])
       @ map JObj (guardExecutionSteps (guard_scenario.truncate s)))"

definition binding_of :: "run_scenario \<Rightarrow> binding_scenario" where
  "binding_of s = \<lparr>bs_needs = rn_needs s, bs_prerequisites = rn_prerequisites s, bs_rest = scenario_rest s\<rparr>"

section \<open>Targets and problems\<close>

datatype target_file = DependenciesLocal | ExternalsLocal

record prerequisite_target =
  pt_name :: string
  pt_state :: dependency_state
  pt_aliases :: "string list"
  pt_registerIn :: target_file
  pt_credentialEnv :: "string list"
  pt_protectedEnv :: "string list option"
  pt_providers :: "(string \<times> string list) list"

datatype prerequisite_match = ResolvesTo prerequisite_target | UnknownName string | AmbiguousName string

definition answers_to :: "string \<Rightarrow> prerequisite_target \<Rightarrow> bool" where
  "answers_to name t \<longleftrightarrow> pt_name t = name \<or> name \<in> set (pt_aliases t)"

definition resolveGuardPrerequisite :: "string \<Rightarrow> prerequisite_target list \<Rightarrow> prerequisite_match" where
  "resolveGuardPrerequisite name targets =
     (case filter (answers_to name) targets of
        [] \<Rightarrow> UnknownName name
      | [t] \<Rightarrow> ResolvesTo t
      | _ \<Rightarrow> AmbiguousName name)"

datatype problem_reason =
    NotKnown string
  | NotUnique string
  | Conflicting string
  | NotProvided string dependency_state
  | NotCleared string
  | Overridden string

record prerequisite_problem =
  px_dependency :: string
  px_reason :: problem_reason
  px_registerIn :: "target_file option"

definition conflicts_with :: "prerequisite_target list \<Rightarrow> prerequisite \<Rightarrow> prerequisite_target \<Rightarrow> prerequisite \<Rightarrow> bool" where
  "conflicts_with targets p t r \<longleftrightarrow>
     pq_mode r \<noteq> pq_mode p
     \<and> (case resolveGuardPrerequisite (pq_dependency r) targets of ResolvesTo t' \<Rightarrow> pt_name t' = pt_name t | _ \<Rightarrow> False)"

definition problem_with ::
    "prerequisite list \<Rightarrow> prerequisite_target list \<Rightarrow> (string \<times> string) list \<Rightarrow> prerequisite \<Rightarrow> prerequisite_problem option" where
  "problem_with requirements targets env p =
     (case resolveGuardPrerequisite (pq_dependency p) targets of
        UnknownName n \<Rightarrow> Some \<lparr>px_dependency = pq_dependency p, px_reason = NotKnown n, px_registerIn = None\<rparr>
      | AmbiguousName n \<Rightarrow> Some \<lparr>px_dependency = pq_dependency p, px_reason = NotUnique n, px_registerIn = None\<rparr>
      | ResolvesTo t \<Rightarrow>
          if list_ex (conflicts_with targets p t) requirements
          then Some \<lparr>px_dependency = pt_name t, px_reason = Conflicting (pt_name t), px_registerIn = None\<rparr>
          else if pq_mode p = ModeProvided \<and> pt_state t \<noteq> Provided
          then Some \<lparr>px_dependency = pt_name t, px_reason = NotProvided (pt_name t) (pt_state t),
                 px_registerIn = Some (pt_registerIn t)\<rparr>
          else if pq_mode p = ModeAbsent
            \<and> (pt_credentialEnv t = [] \<or> list_ex (\<lambda>k. map_of env k \<noteq> Some []) (pt_credentialEnv t))
          then Some \<lparr>px_dependency = pt_name t, px_reason = NotCleared (pt_name t), px_registerIn = None\<rparr>
          else if pq_mode p = ModeProvided
            \<and> list_ex (\<lambda>k. map_of env k \<noteq> None)
                (case pt_protectedEnv t of Some ks \<Rightarrow> ks | None \<Rightarrow> pt_credentialEnv t)
          then Some \<lparr>px_dependency = pt_name t, px_reason = Overridden (pt_name t), px_registerIn = None\<rparr>
          else None)"

definition prerequisiteProblems ::
    "prerequisite list \<Rightarrow> prerequisite_target list \<Rightarrow> (string \<times> string) list \<Rightarrow> prerequisite_problem list" where
  "prerequisiteProblems requirements targets env =
     List.map_filter (problem_with requirements targets env) requirements"

text \<open>The environments a step of its own sets: a command's, a boot's.\<close>

definition step_overrides :: "step \<Rightarrow> (string \<times> string) list list" where
  "step_overrides st =
     (if has_key ''env'' st then [string_fields (map_of st ''env'')] else [])
     @ (case map_of st ''boot'' of
          Some (JObj boot) \<Rightarrow> if has_key ''env'' boot then [string_fields (map_of boot ''env'')] else []
        | _ \<Rightarrow> [])"

fun first_problems ::
    "prerequisite list \<Rightarrow> prerequisite_target list \<Rightarrow> (string \<times> string) list \<Rightarrow> (string \<times> string) list list
      \<Rightarrow> prerequisite_problem list" where
  "first_problems requirements targets environment [] = []"
| "first_problems requirements targets environment (env # envs) =
     (case prerequisiteProblems requirements targets (assign_all env environment) of
        [] \<Rightarrow> first_problems requirements targets environment envs
      | ps \<Rightarrow> ps)"

definition scenarioPrerequisiteProblems ::
    "prerequisite list \<Rightarrow> prerequisite_target list \<Rightarrow> run_scenario \<Rightarrow> (string \<times> string) list \<Rightarrow> prerequisite_problem list" where
  "scenarioPrerequisiteProblems requirements targets s preparationEnv =
     (let environment = assign_all (setup_env s) (assign_all preparationEnv [])
      in case prerequisiteProblems requirements targets environment of
           [] \<Rightarrow> first_problems requirements targets environment (concat (map step_overrides (gs_steps s)))
         | ps \<Rightarrow> ps)"

section \<open>The join of the catalog and the services\<close>

record prerequisites_state =
  rp_targets :: "prerequisite_target list"
  rp_dependencies :: "resolved_dependency list"
  rp_externals :: "resolved_external list"

definition catalog_target :: "resolved_dependency \<Rightarrow> prerequisite_target option" where
  "catalog_target d =
     map_option (\<lambda>st. \<lparr>pt_name = rv_name d, pt_state = st,
         pt_aliases = (case en_services (rv_entry d) of Some ss \<Rightarrow> ss | None \<Rightarrow> []), pt_registerIn = DependenciesLocal,
         pt_credentialEnv = map dq_field (filter (\<lambda>r. dq_secret r \<and> dq_optional r \<noteq> Some True) (rv_requirements d)),
         pt_protectedEnv = Some (map dq_field (rv_requirements d)), pt_providers = []\<rparr>) (rv_state d)"

definition claims_service :: "string \<Rightarrow> resolved_dependency \<Rightarrow> bool" where
  "claims_service service d \<longleftrightarrow>
     rv_state d \<noteq> None \<and> (case en_services (rv_entry d) of Some ss \<Rightarrow> service \<in> set ss | None \<Rightarrow> False)"

definition incomplete_target :: "prerequisite_target \<Rightarrow> prerequisite_target" where
  "incomplete_target t = t\<lparr>pt_state := Incomplete\<rparr>"

definition update_target :: "string \<Rightarrow> (prerequisite_target \<Rightarrow> prerequisite_target) \<Rightarrow> prerequisite_target list \<Rightarrow> prerequisite_target list" where
  "update_target name f ts = update_where (\<lambda>t. pt_name t = name) f ts"

definition open_requirement :: "string \<Rightarrow> bool \<Rightarrow> missing_reason \<Rightarrow> requirement" where
  "open_requirement field secret reason =
     \<lparr>dq_field = field, dq_resolved = False, dq_reason = Some reason, dq_secret = secret, dq_optional = None\<rparr>"

definition contested :: "string \<Rightarrow> resolved_dependency \<Rightarrow> resolved_dependency" where
  "contested service d =
     d\<lparr>rv_state := Some Incomplete, rv_requirements := rv_requirements d @ [open_requirement service False (ManyOwners service)]\<rparr>"

text \<open>The declaration of a service read against the registration of the one dependency that claims it.\<close>

definition registered_names :: "resolved_dependency \<Rightarrow> string list" where
  "registered_names d = (case en_registration (rv_entry d) of Some (RegEnv vars) \<Rightarrow> map ev_name vars | _ \<Rightarrow> [])"

definition registered_overlay ::
    "resolved_dependency \<Rightarrow> external_decl \<Rightarrow> external_overlay option \<Rightarrow> external_overlay" where
  "registered_overlay d decl local =
     \<lparr>xo_baseUrl = (if xd_baseUrlEnv decl \<in> set (registered_names d) then map_of (rv_env d) (xd_baseUrlEnv decl)
                    else Option.bind local xo_baseUrl),
      xo_endpoints = List.map_filter (\<lambda>(k, u). map_option (Pair k)
          (if k \<in> set (registered_names d) then map_of (rv_env d) k else map_of (overlay_endpoints local) k)) (xd_endpoints decl),
      xo_env = rv_env d, xo_token = None, xo_headers = []\<rparr>"

definition registered_external ::
    "resolved_dependency \<Rightarrow> string \<times> external_decl \<Rightarrow> external_overlay option \<Rightarrow> resolved_external" where
  "registered_external d sd local =
     resolveExternal (\<lambda>_. None) (merge_external [(fst sd, registered_overlay d (snd sd) local)] sd)"

definition widened_target :: "resolved_external \<Rightarrow> prerequisite_target \<Rightarrow> prerequisite_target" where
  "widened_target v t =
     t\<lparr>pt_protectedEnv := Some (js_set ((case pt_protectedEnv t of Some ks \<Rightarrow> ks | None \<Rightarrow> []) @ map xq_envVar (xr_requirements v))),
       pt_credentialEnv := js_set (pt_credentialEnv t @ map xq_envVar (filter xq_secret (xr_requirements v))),
       pt_state := (if pt_state t = Provided \<and> xr_state v \<noteq> Provided then Incomplete else pt_state t)\<rparr>"

definition add_open :: "string \<Rightarrow> resolved_dependency \<Rightarrow> external_requirement \<Rightarrow> resolved_dependency" where
  "add_open service d q =
     d\<lparr>rv_requirements := rv_requirements d
         @ [open_requirement (xq_envVar q) (xq_secret q) (ServiceRequires service (xq_envVar q) (rv_name d))]\<rparr>"

text \<open>The list of what is open is filtered before anything is added to it.\<close>

definition with_open :: "resolved_external \<Rightarrow> resolved_dependency \<Rightarrow> resolved_dependency" where
  "with_open v d =
     foldl (add_open (xr_service v)) d
       (filter (\<lambda>q. \<not> xq_resolved q \<and> xq_envVar q \<notin> set (map dq_field (rv_requirements d))) (xr_requirements v))"

definition service_target :: "resolved_external \<Rightarrow> prerequisite_target" where
  "service_target x =
     \<lparr>pt_name = xr_service x, pt_state = xr_state x, pt_aliases = [], pt_registerIn = ExternalsLocal,
      pt_credentialEnv = map xq_envVar (filter xq_secret (xr_requirements x)),
      pt_protectedEnv = Some (map xq_envVar (xr_requirements x)), pt_providers = []\<rparr>"

definition join_external ::
    "(string \<times> external_decl) list \<Rightarrow> (string \<times> external_overlay) list \<Rightarrow> prerequisites_state \<Rightarrow> resolved_external
      \<Rightarrow> prerequisites_state" where
  "join_external declared local s x =
     (let service = xr_service x
      in case filter (claims_service service) (rp_dependencies s) of
           [] \<Rightarrow> s\<lparr>rp_targets := rp_targets s @ [service_target x], rp_externals := rp_externals s @ [x]\<rparr>
         | [d] \<Rightarrow>
             let v = registered_external d (service, the (map_of declared service)) (map_of local service)
             in s\<lparr>rp_targets := update_target (rv_name d) (widened_target v) (rp_targets s),
                  rp_dependencies := map (\<lambda>e. if claims_service service e then with_open v e else e) (rp_dependencies s),
                  rp_externals := rp_externals s @ [v]\<rparr>
         | ds \<Rightarrow>
             s\<lparr>rp_targets := foldl (\<lambda>ts d. update_target (rv_name d) incomplete_target ts) (rp_targets s) ds,
               rp_dependencies := map (\<lambda>e. if claims_service service e then contested service e else e) (rp_dependencies s)\<rparr>)"

definition target_named :: "prerequisite_target list \<Rightarrow> string \<Rightarrow> prerequisite_target option" where
  "target_named ts name = find (\<lambda>t. pt_name t = name) ts"

definition add_provider :: "prerequisite_target list \<Rightarrow> string \<times> external_decl \<Rightarrow> prerequisite_target list" where
  "add_provider ts sd =
     map (\<lambda>t. if answers_to (fst sd) t
              then t\<lparr>pt_providers := pt_providers t
                     @ [(fst sd, sort (xd_baseUrlEnv (snd sd) # map fst (xd_endpoints (snd sd))))]\<rparr>
              else t) ts"

definition settled_external :: "prerequisite_target list \<Rightarrow> resolved_external \<Rightarrow> resolved_external" where
  "settled_external ts x =
     (case find (answers_to (xr_service x)) ts of
        Some t \<Rightarrow> if pt_state t \<noteq> Provided
                  then x\<lparr>xr_state := pt_state t, xr_inject := [], xr_secrets := [], xr_endpoints := []\<rparr> else x
      | None \<Rightarrow> x)"

definition resolvePrerequisites ::
    "(string \<times> external_decl) list \<Rightarrow> (string \<times> external_overlay) list \<Rightarrow> (string \<Rightarrow> string option) \<Rightarrow> resolved_dependencies
      \<Rightarrow> prerequisites_state" where
  "resolvePrerequisites declared local env input =
     (let s = foldl (join_external declared local)
            \<lparr>rp_targets = List.map_filter catalog_target (rs_dependencies input),
             rp_dependencies = rs_dependencies input, rp_externals = []\<rparr>
            (resolveExternals declared local env);
          deps = map (\<lambda>d. case target_named (rp_targets s) (rv_name d) of
              Some t \<Rightarrow> d\<lparr>rv_state := Some (pt_state t)\<rparr> | None \<Rightarrow> d) (rp_dependencies s);
          targets = foldl add_provider (rp_targets s) declared
      in \<lparr>rp_targets = targets, rp_dependencies = deps,
          rp_externals = map (settled_external targets) (rp_externals s)\<rparr>)"

section \<open>The gate and the environment of a scenario\<close>

datatype scenario_block = CatalogBlock dependency_block | ProblemBlock prerequisite_problem

text \<open>A name the scenario binds is required to be provided, unless the catalog has it as something a step
  creates or a requirement names it already.\<close>

definition add_required :: "resolved_dependency list \<Rightarrow> prerequisite list \<Rightarrow> string \<Rightarrow> prerequisite list" where
  "add_required deps ps name =
     (if list_ex (\<lambda>d. rv_name d = name \<and> rv_state d = None) deps \<or> list_ex (\<lambda>p. pq_dependency p = name) ps then ps
      else ps @ [\<lparr>pq_dependency = name, pq_mode = ModeProvided\<rparr>])"

definition required_of :: "resolved_dependency list \<Rightarrow> run_scenario \<Rightarrow> prerequisite list" where
  "required_of deps s =
     foldl (add_required deps) (case rn_prerequisites s of Some ps \<Rightarrow> ps | None \<Rightarrow> [])
       (scenarioDependencyNames (binding_of s))"

definition catalog_of :: "prerequisites_state \<Rightarrow> resolved_dependencies" where
  "catalog_of r = \<lparr>rs_dependencies = rp_dependencies r, rs_unknownLocalNames = [], rs_catalogExists = True\<rparr>"

definition narrowed_to :: "string \<Rightarrow> run_scenario \<Rightarrow> run_scenario" where
  "narrowed_to name s = s\<lparr>rn_needs := Some [name], rn_prerequisites := None, gs_steps := []\<rparr>"

definition scenarioPrerequisiteBlock ::
    "run_scenario \<Rightarrow> prerequisites_state \<Rightarrow> (string \<times> string) list \<Rightarrow> scenario_block option" where
  "scenarioPrerequisiteBlock s resolved preparationEnv =
     (case scenarioPrerequisiteProblems (required_of (rp_dependencies resolved) s) (rp_targets resolved) s preparationEnv of
        [] \<Rightarrow> None
      | problem # _ \<Rightarrow>
          (case dependencyBlockFor (binding_of (narrowed_to (px_dependency problem) s)) (catalog_of resolved) of
             Some b \<Rightarrow> if px_dependency problem \<in> set (map rv_name (rp_dependencies resolved)) then Some (CatalogBlock b)
                       else Some (ProblemBlock problem)
           | None \<Rightarrow> Some (ProblemBlock problem)))"

definition bound_names :: "prerequisites_state \<Rightarrow> run_scenario \<Rightarrow> string list" where
  "bound_names r s =
     map (\<lambda>n. case resolveGuardPrerequisite n (rp_targets r) of ResolvesTo t \<Rightarrow> pt_name t | _ \<Rightarrow> n)
       (scenarioDependencyNames (binding_of s))"

definition registration_bound :: "prerequisites_state \<Rightarrow> run_scenario \<Rightarrow> resolved_dependency \<Rightarrow> bool" where
  "registration_bound r s d \<longleftrightarrow>
     rv_name d \<in> set (bound_names r s) \<and> rv_state d = Some Provided
     \<and> (case en_registration (rv_entry d) of Some (RegEnv _) \<Rightarrow> True | _ \<Rightarrow> False)"

definition secret_values :: "resolved_dependency \<Rightarrow> (string \<times> string) list" where
  "secret_values d =
     List.map_filter (\<lambda>q. case map_of (rv_env d) (dq_field q) of
         Some v \<Rightarrow> if dq_secret q \<and> v \<noteq> [] then Some (rv_name d @ ''.'' @ dq_field q, v) else None
       | None \<Rightarrow> None) (rv_requirements d)"

text \<open>The credentials of an account that is to be absent, where the scenario clears them.\<close>

definition cleared_names :: "prerequisites_state \<Rightarrow> run_scenario \<Rightarrow> string list" where
  "cleared_names r s =
     concat (map (\<lambda>p. case resolveGuardPrerequisite (pq_dependency p) (rp_targets r) of
         ResolvesTo t \<Rightarrow>
           if pq_mode p = ModeAbsent then filter (\<lambda>k. map_of (setup_env s) k = Some []) (pt_credentialEnv t) else []
       | _ \<Rightarrow> []) (case rn_prerequisites s of Some ps \<Rightarrow> ps | None \<Rightarrow> []))"

record account_environment =
  ae_env :: "(string \<times> string) list"
  ae_secrets :: "(string \<times> string) list"

definition scenarioAccountEnvironment :: "run_scenario \<Rightarrow> prerequisites_state \<Rightarrow> account_environment" where
  "scenarioAccountEnvironment s r =
     (let bound = filter (registration_bound r s) (rp_dependencies r)
      in \<lparr>ae_env = assign_all (map (\<lambda>k. (k, [])) (cleared_names r s))
            (foldl (\<lambda>e d. assign_all (registeredEnvironment (rv_env d)) e) (externalsInjectEnv (rp_externals r)) bound),
          ae_secrets = foldl (\<lambda>m d. assign_all (secret_values d) m) (externalsSecrets (rp_externals r)) bound\<rparr>)"

section \<open>What the gate lets through\<close>

definition protected_names :: "prerequisite_target \<Rightarrow> string list" where
  "protected_names t = (case pt_protectedEnv t of Some ks \<Rightarrow> ks | None \<Rightarrow> pt_credentialEnv t)"

definition met_by :: "prerequisite \<Rightarrow> prerequisite_target \<Rightarrow> (string \<times> string) list \<Rightarrow> bool" where
  "met_by p t env \<longleftrightarrow>
     (case pq_mode p of
        ModeProvided \<Rightarrow> pt_state t = Provided \<and> (\<forall>k\<in>set (protected_names t). map_of env k = None)
      | ModeAbsent \<Rightarrow> pt_credentialEnv t \<noteq> [] \<and> (\<forall>k\<in>set (pt_credentialEnv t). map_of env k = Some []))"

lemma problem_None:
  "problem_with requirements targets env p = None
    \<Longrightarrow> \<exists>t. resolveGuardPrerequisite (pq_dependency p) targets = ResolvesTo t \<and> met_by p t env"
  by (cases "pq_mode p")
    (auto simp: problem_with_def met_by_def protected_names_def list_ex_iff split: prerequisite_match.splits if_splits)

lemma no_problems:
  "prerequisiteProblems requirements targets env = [] \<longleftrightarrow> (\<forall>p\<in>set requirements. problem_with requirements targets env p = None)"
  by (auto simp: prerequisiteProblems_def map_filter_def filter_empty_conv)

lemma no_first_problems:
  "first_problems requirements targets environment envs = []
    \<longleftrightarrow> (\<forall>e\<in>set envs. prerequisiteProblems requirements targets (assign_all e environment) = [])"
  by (induction envs) (auto split: list.split)

definition scenario_env :: "run_scenario \<Rightarrow> (string \<times> string) list \<Rightarrow> (string \<times> string) list" where
  "scenario_env s preparationEnv = assign_all (setup_env s) (assign_all preparationEnv [])"

lemma passed_gate:
  assumes "scenarioPrerequisiteBlock s r preparationEnv = None"
  shows "scenarioPrerequisiteProblems (required_of (rp_dependencies r) s) (rp_targets r) s preparationEnv = []"
  using assms by (auto simp: scenarioPrerequisiteBlock_def split: list.splits option.splits if_splits)

lemma required_keeps: "set ps \<subseteq> set (foldl (add_required deps) ps names)"
proof (induction names arbitrary: ps)
  case (Cons n names)
  have "set ps \<subseteq> set (add_required deps ps n)" by (auto simp: add_required_def)
  also note Cons.IH
  finally show ?case by simp
qed simp

lemma required_names:
  assumes "name \<in> set (scenarioDependencyNames (binding_of s))"
    and "\<not> list_ex (\<lambda>d. rv_name d = name \<and> rv_state d = None) deps"
  shows "name \<in> pq_dependency ` set (required_of deps s)"
proof -
  have "name \<in> pq_dependency ` set (foldl (add_required deps) ps names)" if "name \<in> set names" for ps names
    using that
  proof (induction names arbitrary: ps)
    case (Cons n names)
    show ?case
    proof (cases "n = name")
      case True
      then have "name \<in> pq_dependency ` set (add_required deps ps n)"
        using assms(2) by (force simp: add_required_def list_ex_iff)
      then show ?thesis using image_mono [OF required_keeps [of "add_required deps ps n" deps names], of pq_dependency]
        by (simp add: subset_iff)
    qed (use Cons in simp)
  qed simp
  from this [OF assms(1)] show ?thesis by (simp add: required_of_def)
qed


text \<open>A scenario that sends mail through a live account, without an account of the geocoder; one of its steps
  sets a variable of its own.\<close>

definition mail_needs :: "prerequisite list" where
  "mail_needs = [\<lparr>pq_dependency = ''mail'', pq_mode = ModeProvided\<rparr>, \<lparr>pq_dependency = ''geo'', pq_mode = ModeAbsent\<rparr>]"

definition mail_scenario :: run_scenario where
  "mail_scenario =
     \<lparr>gs_steps = [[(''run'', JStr ''send''), (''env'', JObj [(''LANG'', JStr ''C'')])]], gs_teardown = None,
       gs_setup = Some [(''env'', JObj [(''GEO_KEY'', JStr [])])], rn_id = ''s1'', rn_title = ''sends'', rn_binds = [],
       rn_flowId = None, rn_interface = None, rn_mutates = False, rn_server = None, rn_needs = None,
       rn_prerequisites = Some mail_needs\<rparr>"

definition mail_accounts :: prerequisites_state where
  "mail_accounts =
     \<lparr>rp_targets =
        [\<lparr>pt_name = ''mail'', pt_state = Provided, pt_aliases = [], pt_registerIn = ExternalsLocal,
           pt_credentialEnv = [''MAIL_KEY''], pt_protectedEnv = None, pt_providers = []\<rparr>,
         \<lparr>pt_name = ''geo'', pt_state = Provided, pt_aliases = [], pt_registerIn = ExternalsLocal,
           pt_credentialEnv = [''GEO_KEY''], pt_protectedEnv = None, pt_providers = []\<rparr>],
       rp_dependencies = [], rp_externals = []\<rparr>"


end
