(* ===== verification/Recipe.thy ===== *)
theory Recipe
  imports Prerequisites
begin

text \<open>
  The recipe, as a run reads it: packages/guard-runner/src/recipe.ts. Its records hold what the engine looks
  at; a map is an association list in the order of the file. Reading and checking the file is not modelled.
\<close>

section \<open>The declaration\<close>

record api_server_decl =
  sd_serve :: "string list"
  sd_cwd :: "string option"
  sd_healthPath :: "string option"
  sd_readyTimeoutMs :: "nat option"
  sd_env :: "(string \<times> string) list"
  sd_app :: "string option"

record api_server =
  as_name :: string
  as_serve :: "string list"
  as_cwd :: string
  as_healthPath :: string
  as_readyTimeoutMs :: nat
  as_env :: "(string \<times> string) list"
  as_app :: "string option"

text \<open>Where a credential comes from: written out, the environment, or a login at a server.\<close>

record api_credential =
  cy_header :: string
  cy_value :: "string option"
  cy_valueFromEnv :: "string option"
  cy_fromRequest :: "string option option"
  cy_servers :: "string list option"

record services_decl =
  vs_down :: bool
  vs_reset :: bool

record api_decl =
  ap_serve :: "api_server_decl option"
  ap_servers :: "(string \<times> api_server_decl) list"
  ap_defaultServer :: "string option"
  ap_env :: "(string \<times> string) list"
  ap_credentials :: "(string \<times> api_credential) list"
  ap_services :: "services_decl option"
  ap_seed :: "(string \<times> string \<times> string list option) list option"
  ap_externals :: "(string \<times> external_decl) list"

text \<open>A read of the product whose numbers are known: what a private world starts from.\<close>

record baseline_check =
  bk_qualified :: bool
  bk_path :: string
  bk_server :: "string option"
  bk_credential :: "string option"
  bk_counts :: "(string \<times> int) list"
  bk_totals :: "(string \<times> int) list option"

record preparation_decl =
  pn_baseline :: string
  pn_needs :: "string list option"
  pn_checks :: "baseline_check list option"
  pn_postgres :: "string list option"
  pn_env :: "(string \<times> string) list"
  pn_credentials :: "(string \<times> string \<times> string list option) list"
  pn_cleanup :: bool

record web_decl =
  wb_serve :: "string list"
  wb_cwd :: "string option"
  wb_healthPath :: "string option"
  wb_readyTimeoutMs :: "nat option"
  wb_env :: "(string \<times> string) list"
  wb_builds :: bool
  wb_app :: "string option"

record web_surface =
  ws_serve :: "string list"
  ws_cwd :: string
  ws_healthPath :: string
  ws_readyTimeoutMs :: nat
  ws_env :: "(string \<times> string) list"
  ws_builds :: bool

record recipe =
  rx_hasEntry :: bool
  rx_installs :: bool
  rx_env :: "(string \<times> string) list"
  rx_web :: "web_decl option"
  rx_api :: "api_decl option"
  rx_preparations :: "(string \<times> preparation_decl) list"

text \<open>The variables the recipe pins, less those that point at a third party.\<close>

definition externals_owned :: "recipe \<Rightarrow> string list" where
  "externals_owned rx =
     (case rx_api rx of
        None \<Rightarrow> []
      | Some api \<Rightarrow> concat (map (\<lambda>(service, x). xd_baseUrlEnv x # map fst (xd_endpoints x) @ map fst (xd_env x)) (ap_externals api)))"

definition recipeControlledEnvVars :: "recipe \<Rightarrow> string list" where
  "recipeControlledEnvVars rx =
     sort (js_set (filter (\<lambda>n. n \<notin> set (externals_owned rx))
       (map fst (rx_env rx) @ (case rx_api rx of Some api \<Rightarrow> map fst (ap_env api) | None \<Rightarrow> []))))"

section \<open>The servers and the web surface\<close>

definition DEFAULT_API_SERVER_NAME :: string where
  "DEFAULT_API_SERVER_NAME = ''default''"

definition resolved_server :: "(string \<times> string) list \<Rightarrow> string \<Rightarrow> api_server_decl \<Rightarrow> api_server" where
  "resolved_server shared name d =
     \<lparr>as_name = name, as_serve = sd_serve d, as_cwd = (case sd_cwd d of Some c \<Rightarrow> c | None \<Rightarrow> ''sandbox''),
      as_healthPath = (case sd_healthPath d of Some p \<Rightarrow> p | None \<Rightarrow> ''/''),
      as_readyTimeoutMs = (case sd_readyTimeoutMs d of Some t \<Rightarrow> t | None \<Rightarrow> 30000),
      as_env = assign_all (sd_env d) shared, as_app = (if truthy (sd_app d) then sd_app d else None)\<rparr>"

text \<open>The servers in the order of the declaration, and the default. A single \<open>serve\<close> has no environment of
  its own.\<close>

definition resolveApiServers :: "recipe \<Rightarrow> (string \<times> api_server) list \<times> string" where
  "resolveApiServers rx =
     (case rx_api rx of
        None \<Rightarrow> ([], DEFAULT_API_SERVER_NAME)
      | Some api \<Rightarrow>
          let shared = assign_all (ap_env api) (assign_all (rx_env rx) [])
          in case ap_serve api of
               Some d \<Rightarrow> ([(DEFAULT_API_SERVER_NAME, resolved_server shared DEFAULT_API_SERVER_NAME (d\<lparr>sd_env := []\<rparr>))],
                 DEFAULT_API_SERVER_NAME)
             | None \<Rightarrow>
                 (map (\<lambda>(n, d). (n, resolved_server shared n d)) (ap_servers api),
                  case ap_defaultServer api of
                    Some n \<Rightarrow> n
                  | None \<Rightarrow> (case ap_servers api of (n, _) # _ \<Rightarrow> n | [] \<Rightarrow> DEFAULT_API_SERVER_NAME)))"

definition server_name :: "(string \<times> api_server) list \<times> string \<Rightarrow> run_scenario \<Rightarrow> string" where
  "server_name servers s = (case rn_server s of Some n \<Rightarrow> n | None \<Rightarrow> snd servers)"

definition resolveScenarioServer :: "(string \<times> api_server) list \<times> string \<Rightarrow> run_scenario \<Rightarrow> api_server option" where
  "resolveScenarioServer servers s = map_of (fst servers) (server_name servers s)"

definition credentialServers :: "string list option \<Rightarrow> (string \<times> api_server) list \<times> string \<Rightarrow> string list" where
  "credentialServers declared servers = (case declared of Some ns \<Rightarrow> ns | None \<Rightarrow> map fst (fst servers))"

text \<open>What a lookup gives in the language: a value, \<open>null\<close> or \<open>undefined\<close>.\<close>

datatype 'a js_maybe = JsValue 'a | JsNull | JsUndefined

definition resolveWebSurface :: "recipe \<Rightarrow> web_surface js_maybe" where
  "resolveWebSurface rx =
     (case rx_web rx of
        None \<Rightarrow> JsNull
      | Some w \<Rightarrow> JsValue
          \<lparr>ws_serve = wb_serve w, ws_cwd = (case wb_cwd w of Some c \<Rightarrow> c | None \<Rightarrow> ''sandbox''),
            ws_healthPath = (case wb_healthPath w of Some p \<Rightarrow> p | None \<Rightarrow> ''/''),
            ws_readyTimeoutMs = (case wb_readyTimeoutMs w of Some t \<Rightarrow> t | None \<Rightarrow> 60000),
            ws_env = assign_all (wb_env w) (assign_all (rx_env rx) []), ws_builds = wb_builds w\<rparr>)"

section \<open>The credentials\<close>

text \<open>The credentials that are there before anything runs; \<open>Inl\<close> names the first whose variable is not set.\<close>

fun resolveApiCredentials ::
    "(string \<Rightarrow> string option) \<Rightarrow> (string \<times> api_credential) list \<Rightarrow> string + (string \<times> string) list" where
  "resolveApiCredentials env [] = Inr []"
| "resolveApiCredentials env ((name, c) # cs) =
     (if cy_fromRequest c \<noteq> None then resolveApiCredentials env cs
      else case (case cy_value c of Some v \<Rightarrow> Some v
                 | None \<Rightarrow> (case Option.bind (cy_valueFromEnv c) env of
                     Some v \<Rightarrow> if blank v then None else Some v | None \<Rightarrow> None)) of
             None \<Rightarrow> Inl name
           | Some v \<Rightarrow> map_sum id ((#) (name, v)) (resolveApiCredentials env cs))"

text \<open>A value sent as \<open>Authorization\<close> that does not open with a scheme, or not in its usual spelling.\<close>

definition AUTH_SCHEME_TOKENS :: "string list" where
  "AUTH_SCHEME_TOKENS =
     [''Basic'', ''Bearer'', ''Concealed'', ''Digest'', ''DPoP'', ''GNAP'', ''HOBA'', ''Mutual'', ''Negotiate'', ''NTLM'',
      ''OAuth'', ''PrivateToken'', ''SCRAM-SHA-1'', ''SCRAM-SHA-256'', ''vapid'', ''Token'', ''ApiKey'', ''AWS4-HMAC-SHA256'']"

datatype shape_warning = NoAuthScheme string | OddSpelling string string string

definition credentialShapeWarning :: "string \<Rightarrow> string \<times> string \<Rightarrow> shape_warning option" where
  "credentialShapeWarning name cred =
     (if map js_lower (fst cred) \<noteq> ''authorization'' then None
      else let opening = takeWhile (\<lambda>c. c \<noteq> CHR '' '') (snd cred)
           in case find (\<lambda>t. map js_lower t = map js_lower opening) AUTH_SCHEME_TOKENS of
                None \<Rightarrow> Some (NoAuthScheme name)
              | Some t \<Rightarrow> if t \<noteq> opening then Some (OddSpelling name opening t) else None)"

end
