(* ===== verification/Preparation.thy ===== *)
theory Preparation
  imports Recipe Expectations
begin

text \<open>
  The private world of a scenario: packages/guard-runner/src/preparation.ts, preparation-postgres.ts and
  preparation-dependencies.ts.

  A scenario may ask for a world of its own. Two namespaces are allocated, the scenario's own and a peer; both
  are seeded, both are read back through the product, a verifier changes the peer and shows the first
  unchanged. The peer is then removed, and the first is removed when the scenario is done with it. What was
  allocated is a list of numbers, the first 0 and the peer 1; what the outside answers is part of the input,
  and the log has what was done to it. The staged scripts and their containment in the repository are an
  answer too. The text of a reason is its constructor.
\<close>

section \<open>What a preparation owns\<close>

definition preparationOwnedEnvKeys :: "preparation_decl \<Rightarrow> string list" where
  "preparationOwnedEnvKeys p =
     js_set (map fst (pn_env p) @ (case pn_postgres p of Some ks \<Rightarrow> ks | None \<Rightarrow> []))"

datatype baseline_defect = NoBaselineChecks string | NonzeroEmpty string | PathsOverlap string | NotQualified string

definition check_totals :: "baseline_check \<Rightarrow> (string \<times> int) list" where
  "check_totals c = (case bk_totals c of Some ts \<Rightarrow> ts | None \<Rightarrow> [])"

definition checks_of :: "preparation_decl \<Rightarrow> baseline_check list" where
  "checks_of p = (case pn_checks p of Some cs \<Rightarrow> cs | None \<Rightarrow> [])"

definition baselineDefect :: "string \<Rightarrow> preparation_decl \<Rightarrow> baseline_defect option" where
  "baselineDefect name p =
     (if checks_of p = [] then Some (NoBaselineChecks name)
      else if pn_baseline p = ''empty''
        \<and> list_ex (\<lambda>c. list_ex (\<lambda>(k, v). v \<noteq> 0) (bk_counts c @ check_totals c)) (checks_of p)
      then Some (NonzeroEmpty name)
      else if list_ex (\<lambda>c. list_ex (\<lambda>(k, v). map_of (bk_counts c) k \<noteq> None) (check_totals c)) (checks_of p)
      then Some (PathsOverlap name)
      else if list_ex (\<lambda>c. \<not> bk_qualified c) (checks_of p) then Some (NotQualified name)
      else None)"

text \<open>What authoring is offered, where \<open>sound\<close> is the qualification of a check against the repository.\<close>

definition preparationCatalog :: "(baseline_check \<Rightarrow> bool) \<Rightarrow> recipe \<Rightarrow> (string \<times> preparation_decl) list" where
  "preparationCatalog sound rx =
     filter (\<lambda>(name, p). baselineDefect name p = None \<and> list_all sound (checks_of p)) (rx_preparations rx)"

datatype preparation_defect =
    UnknownProfile string
  | BadBaseline baseline_defect
  | OwnsVariables string "string list"

definition RUNNER_KEYS :: "string list" where
  "RUNNER_KEYS =
     [''GUARD_PREPARATION_DIRECTORY'', ''GUARD_PREPARATION_NAMESPACE'', ''GUARD_PREPARATION_BASELINE'', ''GUARD_REPO_ROOT'']"

definition owned_by :: "preparation_decl \<Rightarrow> string list" where
  "owned_by p = js_set (preparationOwnedEnvKeys p @ RUNNER_KEYS)"

definition step_env_keys :: "step \<Rightarrow> string list" where
  "step_env_keys st =
     field_keys ''env'' st @ (case map_of st ''boot'' of Some (JObj boot) \<Rightarrow> field_keys ''env'' boot | _ \<Rightarrow> [])"

definition service_keys :: "recipe \<Rightarrow> string \<Rightarrow> string list" where
  "service_keys rx service =
     (case Option.bind (rx_api rx) (\<lambda>api. map_of (ap_externals api) service) of
        Some x \<Rightarrow> xd_baseUrlEnv x # map fst (xd_endpoints x)
      | None \<Rightarrow> [])"

definition env_conflicts :: "recipe \<Rightarrow> preparation_decl \<Rightarrow> run_scenario \<Rightarrow> string list" where
  "env_conflicts rx p s =
     filter (\<lambda>k. k \<in> set (owned_by p))
       ((case gs_setup s of Some kvs \<Rightarrow> field_keys ''env'' kvs | None \<Rightarrow> [])
        @ concat (map (service_keys rx) (externals_of s))
        @ concat (map step_env_keys (guardExecutionSteps (guard_scenario.truncate s))))"

definition validateScenarioPreparation :: "recipe \<Rightarrow> run_scenario \<Rightarrow> preparation_defect option" where
  "validateScenarioPreparation rx s =
     (case preparation_of s of
        None \<Rightarrow> None
      | Some name \<Rightarrow>
          (case map_of (rx_preparations rx) name of
             None \<Rightarrow> Some (UnknownProfile name)
           | Some p \<Rightarrow>
               (case baselineDefect name p of
                  Some d \<Rightarrow> Some (BadBaseline d)
                | None \<Rightarrow> (case env_conflicts rx p s of [] \<Rightarrow> None | ks \<Rightarrow> Some (OwnsVariables name (js_set ks))))))"

section \<open>A database of one's own\<close>

text \<open>A URL as the platform's parser reads it; the parser, the printer and the decoder of percent signs are
  the platform's.\<close>

record db_url =
  du_protocol :: string
  du_hostname :: string
  du_pathname :: string
  du_hash :: string
  du_params :: "string list"
  du_password :: string

record url_platform =
  up_parse :: "string \<Rightarrow> db_url option"
  up_print :: "string \<Rightarrow> db_url \<Rightarrow> string"  \<comment> \<open>what the text becomes with these parts\<close>
  up_decode :: "string \<Rightarrow> string option"

definition namespace_ok :: "string \<Rightarrow> bool" where
  "namespace_ok n \<longleftrightarrow>
     starts_with ''guard_'' n \<and> length n = 38
     \<and> list_all (\<lambda>c. digit c \<or> c \<in> set ''abcdef'') (drop 6 n)"

definition usable_url :: "db_url \<Rightarrow> bool" where
  "usable_url u \<longleftrightarrow>
     (du_protocol u = ''postgres:'' \<or> du_protocol u = ''postgresql:'') \<and> du_hostname u \<noteq> [] \<and> drop 1 (du_pathname u) \<noteq> []
     \<and> du_hash u = [] \<and> ''dbname'' \<notin> set (du_params u) \<and> ''database'' \<notin> set (du_params u)"

record postgres_binding =
  pb_env :: "(string \<times> string) list"
  pb_baseUrls :: "(string \<times> string) list"
  pb_secrets :: "(string \<times> string) list"

datatype postgres_error = BadNamespace | NeedsDatabaseUrl string

definition url_secrets :: "url_platform \<Rightarrow> string \<Rightarrow> string \<Rightarrow> db_url \<Rightarrow> (string \<times> string) list" where
  "url_secrets url key v u =
     (''postgres.'' @ key @ ''.base'', v)
     # (if du_password u = [] then []
        else (''postgres.'' @ key @ ''.password'', du_password u)
          # (case up_decode url (du_password u) of
               Some d \<Rightarrow> [(''postgres.'' @ key @ ''.decoded-password'', d)] | None \<Rightarrow> []))"

fun bind_urls ::
    "url_platform \<Rightarrow> (string \<times> string) list \<Rightarrow> string \<Rightarrow> string list \<Rightarrow> postgres_binding
      \<Rightarrow> postgres_error + postgres_binding" where
  "bind_urls url env namespace [] b = Inr b"
| "bind_urls url env namespace (key # keys) b =
     (case map_of env key of
        None \<Rightarrow> Inl (NeedsDatabaseUrl key)
      | Some v \<Rightarrow>
          (case (if v = [] then None else up_parse url v) of
             None \<Rightarrow> Inl (NeedsDatabaseUrl key)
           | Some u \<Rightarrow>
               if \<not> usable_url u then Inl (NeedsDatabaseUrl key)
               else let private_url = up_print url v (u\<lparr>du_pathname := CHR ''/'' # namespace\<rparr>)
                    in bind_urls url env namespace keys
                         \<lparr>pb_env = AList.update key private_url (pb_env b), pb_baseUrls = AList.update key v (pb_baseUrls b),
                           pb_secrets = assign_all (url_secrets url key v u @ [(''postgres.'' @ key @ ''.private'', private_url)])
                             (pb_secrets b)\<rparr>))"

definition bindPreparationPostgres ::
    "url_platform \<Rightarrow> preparation_decl \<Rightarrow> (string \<times> string) list \<Rightarrow> string \<Rightarrow> postgres_error + postgres_binding" where
  "bindPreparationPostgres url p env namespace =
     (case pn_postgres p of
        None \<Rightarrow> Inr \<lparr>pb_env = [], pb_baseUrls = [], pb_secrets = []\<rparr>
      | Some keys \<Rightarrow>
          if \<not> namespace_ok namespace then Inl BadNamespace
          else bind_urls url env namespace keys \<lparr>pb_env = [], pb_baseUrls = [], pb_secrets = []\<rparr>)"

section \<open>The accounts a preparation needs\<close>

definition needs_only :: "string list \<Rightarrow> run_scenario" where
  "needs_only needs =
     \<lparr>gs_steps = [], gs_teardown = None, gs_setup = None, rn_id = [], rn_title = [], rn_binds = [], rn_flowId = None,
       rn_interface = None, rn_mutates = False, rn_server = None, rn_needs = Some needs, rn_prerequisites = None\<rparr>"

definition supplied_needs :: "resolved_dependency list \<Rightarrow> string list \<Rightarrow> string list" where
  "supplied_needs deps needs = filter (\<lambda>n. \<not> list_ex (\<lambda>d. rv_name d = n \<and> rv_state d = None) deps) needs"

datatype account_problem = AccountUnavailable prerequisite_problem | NeedsMaterialization string

definition env_registered :: "prerequisites_state \<Rightarrow> string \<Rightarrow> bool" where
  "env_registered r name =
     (case resolveGuardPrerequisite name (rp_targets r) of
        ResolvesTo t \<Rightarrow>
          (case find (\<lambda>d. rv_name d = pt_name t) (rp_dependencies r) of
             Some d \<Rightarrow> (case en_registration (rv_entry d) of None \<Rightarrow> True | Some (RegEnv vars) \<Rightarrow> True | _ \<Rightarrow> False)
           | None \<Rightarrow> True)
      | _ \<Rightarrow> True)"

definition resolvePreparationDependencies ::
    "prerequisites_state \<Rightarrow> string list \<Rightarrow> account_problem + account_environment" where
  "resolvePreparationDependencies r needs =
     (let supplied = supplied_needs (rp_dependencies r) needs
      in case prerequisiteProblems (map (\<lambda>n. \<lparr>pq_dependency = n, pq_mode = ModeProvided\<rparr>) supplied) (rp_targets r) [] of
           problem # _ \<Rightarrow> Inl (AccountUnavailable problem)
         | [] \<Rightarrow>
             (case find (\<lambda>n. \<not> env_registered r n) supplied of
                Some n \<Rightarrow> Inl (NeedsMaterialization n)
              | None \<Rightarrow> Inr (scenarioAccountEnvironment (needs_only needs) r)))"

section \<open>The private world\<close>

record seed_result =
  sz_credentials :: "(string \<times> string \<times> string) list"  \<comment> \<open>name, header and value\<close>
  sz_fixtures :: "(string \<times> json_object) list"

text \<open>What a read of the product gives: the server did not come up, it answered with a status, with text
  that does not parse, or with a document.\<close>

datatype read_answer = NotUp | Status int | NotJson | Document json

datatype prep_failure =
    NoSuchPreparation string
  | BaselineUnfit baseline_defect
  | AccountsMissing account_problem
  | Unqualified string
  | ScriptOutside string
  | NoDatabase postgres_error
  | SeedFailedWith nat string
  | NoServerFor string
  | CredentialUnavailable string string
  | ServerNotUp string
  | ReadReturned string int
  | ReadUnparsed string
  | Observed string int "json option"
  | VerifierFailed string
  | NotIndependent
  | CleanupOf nat

datatype prep_error = Plain prep_failure | WithCleanup prep_failure "nat list"

record allocation =
  al_number :: nat
  al_directory :: string
  al_namespace :: string
  al_env :: "(string \<times> string) list"
  al_baseUrls :: "(string \<times> string) list"

datatype prep_effect = Allocates nat | Seeds nat | Reads nat baseline_check | Verifies | RunsCleanup nat | RemovesFiles nat

record prep_state =
  ps_live :: "allocation list"
  ps_secrets :: "(string \<times> string) list"
  ps_log :: "prep_effect list"

record prep_input =
  pi_recipe :: recipe
  pi_profile :: string
  pi_accountEnv :: "(string \<times> string) list"
  pi_secrets :: "(string \<times> string) list"
  pi_prerequisites :: prerequisites_state
  pi_repoRoot :: string
  pi_url :: url_platform
  pi_qualified :: "baseline_check \<Rightarrow> bool"
  pi_outside :: "string option"  \<comment> \<open>a script that is missing or outside the repository\<close>
  pi_directory :: "nat \<Rightarrow> string"
  pi_namespace :: "nat \<Rightarrow> string"
  pi_seed :: "nat \<Rightarrow> string + seed_result"
  pi_read :: "prep_effect list \<Rightarrow> nat \<Rightarrow> baseline_check \<Rightarrow> (string \<times> string) list \<Rightarrow> read_answer"
  pi_verify :: "string + json_object option"  \<comment> \<open>the fixture \<open>verification\<close>\<close>
  pi_cleanup :: "nat \<Rightarrow> bool"
  pi_remove :: "nat \<Rightarrow> bool"

definition did :: "prep_effect \<Rightarrow> prep_state \<Rightarrow> prep_state" where
  "did e st = st\<lparr>ps_log := ps_log st @ [e]\<rparr>"

text \<open>\<open>allocate\<close>: the bindings are resolved first, then the directory is made and the world registered.\<close>

definition bound_env :: "prep_input \<Rightarrow> preparation_decl \<Rightarrow> nat \<Rightarrow> (string \<times> string) list" where
  "bound_env inp p n =
     map (\<lambda>(k, v). (k, replace_all ''${namespace}'' (pi_namespace inp n) (replace_all ''${directory}'' (pi_directory inp n) v)))
       (pn_env p)"

definition base_env :: "prep_input \<Rightarrow> account_environment \<Rightarrow> (string \<times> string) list" where
  "base_env inp account =
     assign_all (pi_accountEnv inp) (assign_all (ae_env account)
       (assign_all (case rx_api (pi_recipe inp) of Some api \<Rightarrow> ap_env api | None \<Rightarrow> []) (assign_all (rx_env (pi_recipe inp)) [])))"

definition allocation_env ::
    "prep_input \<Rightarrow> preparation_decl \<Rightarrow> account_environment \<Rightarrow> nat \<Rightarrow> postgres_binding \<Rightarrow> (string \<times> string) list" where
  "allocation_env inp p account n b =
     assign_all
       [(''GUARD_REPO_ROOT'', pi_repoRoot inp), (''GUARD_PREPARATION_RUNTIME'', pi_directory inp n @ ''/runtime.mjs''),
        (''GUARD_PREPARATION_DIRECTORY'', pi_directory inp n), (''GUARD_PREPARATION_NAMESPACE'', pi_namespace inp n),
        (''GUARD_PREPARATION_BASELINE'', pn_baseline p)]
       (assign_all (bound_env inp p n) (assign_all (pb_env b) (base_env inp account)))"

definition allocate ::
    "prep_input \<Rightarrow> preparation_decl \<Rightarrow> account_environment \<Rightarrow> nat \<Rightarrow> prep_state \<Rightarrow> (prep_failure + allocation) \<times> prep_state" where
  "allocate inp p account n st =
     (case bindPreparationPostgres (pi_url inp) p (base_env inp account) (pi_namespace inp n) of
        Inl e \<Rightarrow> (Inl (NoDatabase e), st)
      | Inr b \<Rightarrow>
          let a = \<lparr>al_number = n, al_directory = pi_directory inp n, al_namespace = pi_namespace inp n,
                al_env = allocation_env inp p account n b, al_baseUrls = pb_baseUrls b\<rparr>;
              st = st\<lparr>ps_secrets := assign_all
                (map (\<lambda>(k, v). (''allocation'' @ decimal (length (ps_live st)) @ ''.'' @ k, v)) (pb_secrets b)) (ps_secrets st)\<rparr>
          in (Inr a, did (Allocates n) (st\<lparr>ps_live := ps_live st @ [a]\<rparr>)))"

definition seed_world :: "prep_input \<Rightarrow> allocation \<Rightarrow> prep_state \<Rightarrow> (prep_failure + seed_result) \<times> prep_state" where
  "seed_world inp a st =
     (let st = did (Seeds (al_number a)) st
      in case pi_seed inp (al_number a) of
           Inl e \<Rightarrow> (Inl (SeedFailedWith (al_number a) e), st)
         | Inr r \<Rightarrow> (Inr r, st\<lparr>ps_secrets := assign_all
               (map (\<lambda>(n, h, v). (al_namespace a @ ''.'' @ n, v)) (sz_credentials r)) (ps_secrets st)\<rparr>))"

text \<open>One of the reads a baseline is made of. The server is the check's, or the default; a recipe without
  servers is read through its web surface.\<close>

definition server_for :: "recipe \<Rightarrow> baseline_check \<Rightarrow> string" where
  "server_for rx c = (case bk_server c of Some s \<Rightarrow> s | None \<Rightarrow> snd (resolveApiServers rx))"

definition has_server :: "recipe \<Rightarrow> baseline_check \<Rightarrow> bool" where
  "has_server rx c \<longleftrightarrow>
     map_of (fst (resolveApiServers rx)) (server_for rx c) \<noteq> None
     \<or> (\<not> truthy (bk_server c) \<and> fst (resolveApiServers rx) = [] \<and> resolveWebSurface rx \<noteq> JsNull)"

definition check_headers ::
    "recipe \<Rightarrow> preparation_decl \<Rightarrow> seed_result \<Rightarrow> baseline_check \<Rightarrow> (string \<times> string) list option" where
  "check_headers rx p seeded c =
     (case bk_credential c of
        None \<Rightarrow> Some []
      | Some name \<Rightarrow>
          (case (map_of (sz_credentials seeded) name, map_of (pn_credentials p) name) of
             (Some (header, v), Some (h, servers)) \<Rightarrow>
               if fst (resolveApiServers rx) \<noteq> []
                 \<and> server_for rx c \<notin> set (credentialServers servers (resolveApiServers rx))
               then None else Some [(header, v)]
           | _ \<Rightarrow> None))"

definition expected_numbers :: "baseline_check \<Rightarrow> (string \<times> int) list" where
  "expected_numbers c = foldl (\<lambda>m (k, v). AList.update k v m) (bk_counts c) (check_totals c)"

definition observes :: "json \<Rightarrow> string \<times> int \<Rightarrow> bool" where
  "observes doc kv \<longleftrightarrow> lookupJsonPath doc (fst kv) = Some (Js (JNum (snd kv)))"

fun unread :: "baseline_check \<Rightarrow> read_answer \<Rightarrow> prep_failure option" where
  "unread c NotUp = Some (ServerNotUp (bk_path c))"
| "unread c (Status n) = Some (ReadReturned (bk_path c) n)"
| "unread c NotJson = Some (ReadUnparsed (bk_path c))"
| "unread c (Document doc) =
     map_option (\<lambda>(k, v). Observed k v (case lookupJsonPath doc k of Some (Js j) \<Rightarrow> Some j | _ \<Rightarrow> None))
       (find (\<lambda>kv. \<not> observes doc kv) (expected_numbers c))"

definition read_once ::
    "prep_input \<Rightarrow> preparation_decl \<Rightarrow> allocation \<Rightarrow> seed_result \<Rightarrow> baseline_check \<Rightarrow> prep_state \<Rightarrow> prep_failure option \<times> prep_state" where
  "read_once inp p a seeded c st =
     (if \<not> has_server (pi_recipe inp) c then (Some (NoServerFor (server_for (pi_recipe inp) c)), st)
      else case check_headers (pi_recipe inp) p seeded c of
             None \<Rightarrow> (Some (CredentialUnavailable (the (bk_credential c)) (server_for (pi_recipe inp) c)), st)
           | Some headers \<Rightarrow>
               (unread c (pi_read inp (ps_log st) (al_number a) c headers), did (Reads (al_number a) c) st))"

fun checkBaseline ::
    "prep_input \<Rightarrow> preparation_decl \<Rightarrow> allocation \<Rightarrow> seed_result \<Rightarrow> baseline_check list \<Rightarrow> prep_state \<Rightarrow> prep_failure option \<times> prep_state"
where
  "checkBaseline inp p a seeded [] st = (None, st)"
| "checkBaseline inp p a seeded (c # cs) st =
     (case read_once inp p a seeded c st of
        (Some e, st) \<Rightarrow> (Some e, st)
      | (None, st) \<Rightarrow> checkBaseline inp p a seeded cs st)"

subsection \<open>Cleaning up\<close>

text \<open>The files go even when the script of the preparation fails.\<close>

definition cleanup_of :: "prep_input \<Rightarrow> preparation_decl \<Rightarrow> allocation \<Rightarrow> prep_state \<Rightarrow> bool \<times> prep_state" where
  "cleanup_of inp p a st =
     (let n = al_number a; st = (if pn_cleanup p then did (RunsCleanup n) st else st)
      in ((pn_cleanup p \<longrightarrow> pi_cleanup inp n) \<and> pi_remove inp n, did (RemovesFiles n) st))"

fun clean_each :: "prep_input \<Rightarrow> preparation_decl \<Rightarrow> allocation list \<Rightarrow> prep_state \<Rightarrow> nat list \<times> prep_state" where
  "clean_each inp p [] st = ([], st)"
| "clean_each inp p (a # as) st =
     (let (ok, st) = cleanup_of inp p a st; (failed, st) = clean_each inp p as st
      in (if ok then failed else al_number a # failed, st))"

definition close_worlds :: "prep_input \<Rightarrow> preparation_decl \<Rightarrow> prep_state \<Rightarrow> nat list \<times> prep_state" where
  "close_worlds inp p st = clean_each inp p (rev (ps_live st)) (st\<lparr>ps_live := []\<rparr>)"

subsection \<open>Preparing\<close>

type_synonym 'a prepares = "prep_state \<Rightarrow> (prep_failure + 'a) \<times> prep_state"

definition and_then :: "'a prepares \<Rightarrow> ('a \<Rightarrow> 'b prepares) \<Rightarrow> 'b prepares" where
  "and_then m f st = (case m st of (Inl e, st) \<Rightarrow> (Inl e, st) | (Inr a, st) \<Rightarrow> f a st)"

definition both_baselines ::
    "prep_input \<Rightarrow> preparation_decl \<Rightarrow> allocation \<times> seed_result \<Rightarrow> allocation \<times> seed_result \<Rightarrow> unit prepares" where
  "both_baselines inp p one two st =
     (let (e1, st) = checkBaseline inp p (fst one) (snd one) (checks_of p) st;
          (e2, st) = checkBaseline inp p (fst two) (snd two) (checks_of p) st
      in (case (e1, e2) of (Some e, _) \<Rightarrow> Inl e | (None, Some e) \<Rightarrow> Inl e | (None, None) \<Rightarrow> Inr (), st))"

definition verify_worlds :: "prep_input \<Rightarrow> preparation_decl \<Rightarrow> unit prepares" where
  "verify_worlds inp p st =
     (case pi_verify inp of
        Inl e \<Rightarrow> Inl (VerifierFailed e)
      | Inr proof \<Rightarrow>
          if Option.bind proof (\<lambda>kvs. map_of kvs ''baseline'') = Some (JStr (pn_baseline p))
            \<and> Option.bind proof (\<lambda>kvs. map_of kvs ''isolated'') = Some (JBool True)
          then Inr () else Inl NotIndependent, did Verifies st)"

definition once_more :: "prep_input \<Rightarrow> preparation_decl \<Rightarrow> allocation \<Rightarrow> seed_result \<Rightarrow> unit prepares" where
  "once_more inp p a seeded st =
     (case checkBaseline inp p a seeded (checks_of p) st of
        (Some e, st) \<Rightarrow> (Inl e, st) | (None, st) \<Rightarrow> (Inr (), st))"

definition give_up_peer :: "prep_input \<Rightarrow> preparation_decl \<Rightarrow> allocation \<Rightarrow> unit prepares" where
  "give_up_peer inp p peer st =
     (case cleanup_of inp p peer (st\<lparr>ps_live := remove1 peer (ps_live st)\<rparr>) of
        (ok, st) \<Rightarrow> (if ok then Inr () else Inl (CleanupOf (al_number peer)), st))"

definition build_worlds :: "prep_input \<Rightarrow> preparation_decl \<Rightarrow> account_environment \<Rightarrow> (allocation \<times> seed_result) prepares" where
  "build_worlds inp p account =
     and_then (allocate inp p account 0) (\<lambda>primary.
     and_then (allocate inp p account 1) (\<lambda>peer.
     and_then (seed_world inp primary) (\<lambda>seeded.
     and_then (seed_world inp peer) (\<lambda>peer_seeded.
     and_then (both_baselines inp p (primary, seeded) (peer, peer_seeded)) (\<lambda>_.
     and_then (verify_worlds inp p) (\<lambda>_.
     and_then (once_more inp p primary seeded) (\<lambda>_.
     and_then (give_up_peer inp p peer) (\<lambda>_ st. (Inr (primary, seeded), st)))))))))"

record private_world =
  wd_seeded :: seed_result
  wd_env :: "(string \<times> string) list"
  wd_profile :: string
  wd_baseline :: string
  wd_secrets :: "(string \<times> string) list"

definition world_of :: "prep_input \<Rightarrow> preparation_decl \<Rightarrow> account_environment \<Rightarrow> prep_state \<Rightarrow> allocation \<times> seed_result \<Rightarrow> private_world" where
  "world_of inp p account st built =
     \<lparr>wd_seeded = snd built,
       wd_env = filter (\<lambda>(k, v). k \<in> set (preparationOwnedEnvKeys p) \<or> starts_with ''GUARD_PREPARATION_'' k) (al_env (fst built)),
       wd_profile = pi_profile inp, wd_baseline = pn_baseline p,
       wd_secrets = assign_all (ps_secrets st) (assign_all (ae_secrets account) (assign_all (pi_secrets inp) []))\<rparr>"

text \<open>What is refused before anything is allocated.\<close>

definition refused :: "prep_input \<Rightarrow> preparation_decl \<Rightarrow> prep_failure + account_environment" where
  "refused inp p =
     (case baselineDefect (pi_profile inp) p of
        Some d \<Rightarrow> Inl (BaselineUnfit d)
      | None \<Rightarrow>
          (case resolvePreparationDependencies (pi_prerequisites inp) (case pn_needs p of Some ns \<Rightarrow> ns | None \<Rightarrow> []) of
             Inl e \<Rightarrow> Inl (AccountsMissing e)
           | Inr account \<Rightarrow>
               (case find (\<lambda>c. \<not> pi_qualified inp c) (checks_of p) of
                  Some c \<Rightarrow> Inl (Unqualified (bk_path c))
                | None \<Rightarrow> (case pi_outside inp of Some script \<Rightarrow> Inl (ScriptOutside script) | None \<Rightarrow> Inr account))))"

definition nothing_yet :: prep_state where
  "nothing_yet = \<lparr>ps_live = [], ps_secrets = [], ps_log = []\<rparr>"

definition prepareScenario :: "prep_input \<Rightarrow> (prep_error + private_world) \<times> prep_state" where
  "prepareScenario inp =
     (case map_of (rx_preparations (pi_recipe inp)) (pi_profile inp) of
        None \<Rightarrow> (Inl (Plain (NoSuchPreparation (pi_profile inp))), nothing_yet)
      | Some p \<Rightarrow>
          (case refused inp p of
             Inl e \<Rightarrow> (Inl (Plain e), nothing_yet)
           | Inr account \<Rightarrow>
               (case build_worlds inp p account nothing_yet of
                  (Inr built, st) \<Rightarrow> (Inr (world_of inp p account st built), st)
                | (Inl e, st) \<Rightarrow>
                    (case close_worlds inp p st of
                       ([], st) \<Rightarrow> (Inl (Plain e), st)
                     | (failed, st) \<Rightarrow> (Inl (WithCleanup e failed), st)))))"

section \<open>No private world is left behind\<close>

fun allocated_by :: "prep_effect \<Rightarrow> nat list" where
  "allocated_by (Allocates n) = [n]"
| "allocated_by e = []"

fun removed_by :: "prep_effect \<Rightarrow> nat list" where
  "removed_by (RemovesFiles n) = [n]"
| "removed_by e = []"

definition allocated :: "prep_state \<Rightarrow> nat list" where
  "allocated st = concat (map allocated_by (ps_log st))"

definition removed :: "prep_state \<Rightarrow> nat list" where
  "removed st = concat (map removed_by (ps_log st))"

text \<open>What was allocated is what was removed and what is still held.\<close>

definition worlds :: "nat list \<Rightarrow> allocation list \<Rightarrow> prep_state \<Rightarrow> bool" where
  "worlds ns as st \<longleftrightarrow>
     allocated st = ns \<and> ps_live st = as \<and> mset ns = mset (removed st) + mset (map al_number as)"

definition accounted :: "prep_state \<Rightarrow> bool" where
  "accounted st \<longleftrightarrow> (\<exists>ns as. distinct ns \<and> worlds ns as st)"

text \<open>A step from one situation: what it leaves, whether it gives something or fails.\<close>

definition leads :: "(prep_state \<Rightarrow> bool) \<Rightarrow> 'a prepares \<Rightarrow> ('a \<Rightarrow> prep_state \<Rightarrow> bool) \<Rightarrow> bool" where
  "leads P m Q \<longleftrightarrow>
     (\<forall>st. P st \<longrightarrow> (case m st of (Inl e, st') \<Rightarrow> accounted st' | (Inr a, st') \<Rightarrow> Q a st'))"

lemma leads_and_then: "leads P m Q \<Longrightarrow> (\<And>a. leads (Q a) (f a) R) \<Longrightarrow> leads P (and_then m f) R"
  unfolding leads_def and_then_def by (fastforce split: prod.splits sum.splits)

lemma did_simps [simp]:
  "ps_live (did e st) = ps_live st" "allocated (did e st) = allocated st @ allocated_by e"
  "removed (did e st) = removed st @ removed_by e" "ps_secrets (did e st) = ps_secrets st"
  by (simp_all add: did_def allocated_def removed_def)

lemma state_simps [simp]:
  "allocated (st\<lparr>ps_live := as\<rparr>) = allocated st" "removed (st\<lparr>ps_live := as\<rparr>) = removed st"
  "allocated (st\<lparr>ps_secrets := m\<rparr>) = allocated st" "removed (st\<lparr>ps_secrets := m\<rparr>) = removed st"
  by (simp_all add: allocated_def removed_def)

lemma accountedI: "worlds ns as st \<Longrightarrow> distinct ns \<Longrightarrow> accounted st"
  by (auto simp: accounted_def)

lemma leadsI:
  assumes "distinct ns" and "\<And>st. worlds ns as st \<Longrightarrow> worlds ns bs (snd (m st))"
  shows "leads (worlds ns as) m (\<lambda>_. worlds ns bs)"
  unfolding leads_def
proof (intro allI impI)
  fix st
  assume "worlds ns as st"
  then have "worlds ns bs (snd (m st))" by (rule assms(2))
  with assms(1) show "case m st of (Inl e, st') \<Rightarrow> accounted st' | (Inr a, st') \<Rightarrow> worlds ns bs st'"
    by (cases "m st", cases "fst (m st)") (auto intro: accountedI)
qed

lemma allocate_leads:
  assumes "distinct (ns @ [n])"
  shows "leads (worlds ns as) (allocate inp p account n) (\<lambda>a st. al_number a = n \<and> worlds (ns @ [n]) (as @ [a]) st)"
  using assms
  by (auto simp: leads_def allocate_def worlds_def Let_def intro: accountedI split: sum.splits)

lemma seed_leads: "distinct ns \<Longrightarrow> leads (worlds ns as) (seed_world inp a) (\<lambda>_. worlds ns as)"
  by (rule leadsI) (auto simp: seed_world_def worlds_def Let_def split: sum.splits)

lemma read_worlds: "worlds ns as (snd (read_once inp p a seeded c st)) = worlds ns as st"
  by (simp add: read_once_def worlds_def split: option.split)

lemma baseline_worlds: "worlds ns as (snd (checkBaseline inp p a seeded cs st)) = worlds ns as st"
proof (induction cs arbitrary: st)
  case (Cons c cs)
  then show ?case
    using read_worlds [of ns as inp p a seeded c st]
    by (cases "read_once inp p a seeded c st") (auto split: option.splits)
qed simp

lemma baselines_lead: "distinct ns \<Longrightarrow> leads (worlds ns as) (both_baselines inp p one two) (\<lambda>_. worlds ns as)"
  by (rule leadsI) (simp_all add: both_baselines_def Let_def case_prod_unfold baseline_worlds)

lemma once_more_leads: "distinct ns \<Longrightarrow> leads (worlds ns as) (once_more inp p a seeded) (\<lambda>_. worlds ns as)"
  using baseline_worlds [of ns as inp p a seeded "checks_of p"]
  by (intro leadsI) (simp_all add: once_more_def case_prod_unfold split: option.split)

lemma verify_leads: "distinct ns \<Longrightarrow> leads (worlds ns as) (verify_worlds inp p) (\<lambda>_. worlds ns as)"
  by (rule leadsI) (simp_all add: verify_worlds_def worlds_def)

lemma cleanup_simps [simp]:
  "ps_live (snd (cleanup_of inp p a st)) = ps_live st" "allocated (snd (cleanup_of inp p a st)) = allocated st"
  "removed (snd (cleanup_of inp p a st)) = removed st @ [al_number a]"
  by (simp_all add: cleanup_of_def Let_def)

lemma give_up_leads:
  assumes "distinct ns" and "peer \<in> set as"
  shows "leads (worlds ns as) (give_up_peer inp p peer) (\<lambda>_. worlds ns (remove1 peer as))"
proof (rule leadsI [OF assms(1)])
  fix st
  assume w: "worlds ns as st"
  obtain us vs where "as = us @ peer # vs" "peer \<notin> set us"
    using assms(2) by (meson split_list_first)
  with w show "worlds ns (remove1 peer as) (snd (give_up_peer inp p peer st))"
    by (simp add: give_up_peer_def worlds_def case_prod_unfold remove1_append)
qed

lemma clean_each_simps [simp]:
  "ps_live (snd (clean_each inp p as st)) = ps_live st" "allocated (snd (clean_each inp p as st)) = allocated st"
  "removed (snd (clean_each inp p as st)) = removed st @ map al_number as"
  by (induction as arbitrary: st) (simp_all add: Let_def case_prod_unfold)

lemma close_removes: "removed (snd (close_worlds inp p st)) = removed st @ rev (map al_number (ps_live st))"
  by (simp add: close_worlds_def rev_map)

lemma close_all: "accounted st \<Longrightarrow> accounted (snd (close_worlds inp p st)) \<and> ps_live (snd (close_worlds inp p st)) = []"
  by (auto simp: accounted_def worlds_def close_worlds_def intro!: exI)

lemma leads_fact: "(F \<Longrightarrow> leads P m Q) \<Longrightarrow> leads (\<lambda>st. F \<and> P st) m Q"
  by (auto simp: leads_def)

lemma leads_value: "(\<And>st. P st \<Longrightarrow> Q x st) \<Longrightarrow> leads P (\<lambda>st. (Inr x, st)) Q"
  by (simp add: leads_def)

lemma both_worlds_lead:
  assumes a: "al_number a = 0" and peer: "al_number peer = 1"
  shows "leads (worlds [0, 1] [a, peer]) (and_then (seed_world inp a) (\<lambda>seeded. and_then (seed_world inp peer) (\<lambda>peer_seeded.
     and_then (both_baselines inp p (a, seeded) (peer, peer_seeded)) (\<lambda>_. and_then (verify_worlds inp p) (\<lambda>_.
     and_then (once_more inp p a seeded) (\<lambda>_. and_then (give_up_peer inp p peer) (\<lambda>_ st. (Inr (a, seeded), st))))))))
     (\<lambda>b st. al_number (fst b) = 0 \<and> worlds [0, 1] [fst b] st)"
proof -
  have d: "distinct [0, 1 :: nat]" "remove1 peer [a, peer] = [a]" using a peer by auto
  show ?thesis
    by (rule leads_and_then [OF seed_leads] leads_and_then [OF baselines_lead] leads_and_then [OF verify_leads]
        leads_and_then [OF once_more_leads] leads_and_then [OF give_up_leads [where as = "[a, peer]", unfolded d(2)]]
        leads_value | use d a in simp)+
qed

lemma build_leads:
  "leads (worlds [] []) (build_worlds inp p account) (\<lambda>b st. al_number (fst b) = 0 \<and> worlds [0, 1] [fst b] st)"
  unfolding build_worlds_def
  by (rule leads_and_then [OF allocate_leads [where ns = "[]" and as = "[]"]] leads_fact
      leads_and_then [OF allocate_leads [where ns = "[0]"]] both_worlds_lead | simp del: One_nat_def)+


end
