(* ===== verification/RunPlan.thy ===== *)
theory RunPlan
  imports Preparation JsNumber Adjudication
begin

text \<open>
  What a run decides before anything is built: the first part of \<open>runGuard\<close> of
  packages/guard-runner/src/run.ts, with the binding check (binding.ts), the interface check
  (interface-drift.ts) and the repeat token (repeat.ts).

  The documents are given by the keys of their sentences, the interfaces by their fingerprints. A scenario
  that cannot run is set aside with the reason, as a constructor.
\<close>

section \<open>Long values written short\<close>

definition MAX_REPEAT_COUNT :: nat where
  "MAX_REPEAT_COUNT = 1000000"

text \<open>\<open>\$\{repeat:([1-9][0-9]*):([^}]+)\}\<close>: the token, its count and its text.\<close>

definition repeat_at :: "string \<Rightarrow> ((string \<times> nat \<times> string) \<times> nat) option" where
  "repeat_at s =
     (if \<not> starts_with ''${repeat:'' s then None
      else let cnt = takeWhile digit (drop 9 s); r = drop (9 + length cnt) s
           in if cnt = [] \<or> hd cnt = CHR ''0'' \<or> \<not> starts_with '':'' r then None
              else let txt = takeWhile (\<lambda>c. c \<noteq> CHR ''}'') (tl r); n = 10 + length cnt + length txt
                   in if txt = [] \<or> drop n s = [] then None
                      else Some ((take (n + 1) s, digits_value cnt, txt), n))"

fun expanded :: "(string \<times> nat \<times> string) lexeme \<Rightarrow> string" where
  "expanded (Lit c) = [c]"
| "expanded (Tok (token, cnt, txt) _) = (if MAX_REPEAT_COUNT < cnt then token else concat (replicate cnt txt))"

definition expandRepeat :: "string \<Rightarrow> string" where
  "expandRepeat s = (if js_includes ''${repeat:'' s then concat (map expanded (lex repeat_at s)) else s)"

fun mapStrings :: "(string \<Rightarrow> string) \<Rightarrow> json \<Rightarrow> json" where
  "mapStrings f (JStr s) = JStr (f s)"
| "mapStrings f (JArr vs) = JArr (map (mapStrings f) vs)"
| "mapStrings f (JObj kvs) = JObj (map (\<lambda>(k, v). (k, mapStrings f v)) kvs)"
| "mapStrings f v = v"

definition expand_object :: "json_object \<Rightarrow> json_object" where
  "expand_object o' = map (\<lambda>(k, v). (k, mapStrings expandRepeat v)) o'"

definition expandScenarioRepeats :: "run_scenario \<Rightarrow> run_scenario" where
  "expandScenarioRepeats s =
     s\<lparr>gs_steps := map expand_object (gs_steps s), gs_teardown := map_option (map expand_object) (gs_teardown s),
       gs_setup := map_option expand_object (gs_setup s), rn_id := expandRepeat (rn_id s), rn_title := expandRepeat (rn_title s),
       rn_binds := map (\<lambda>(d, ks). (expandRepeat d, map expandRepeat ks)) (rn_binds s),
       rn_flowId := map_option expandRepeat (rn_flowId s),
       rn_interface := map_option (map_prod (map expandRepeat) (map expandRepeat)) (rn_interface s),
       rn_server := map_option expandRepeat (rn_server s), rn_needs := map_option (map expandRepeat) (rn_needs s),
       rn_prerequisites := map_option (map (pq_dependency_update expandRepeat)) (rn_prerequisites s)\<rparr>"

text \<open>What is wrong with the tokens of a text: one that asks for too much, an opening that is no token.\<close>

datatype repeat_defect = RepeatsTooOften string nat | NoRepeatToken string

fun is_lit :: "'m lexeme \<Rightarrow> string" where
  "is_lit (Lit c) = [c]"
| "is_lit (Tok m t) = []"

definition text_defects :: "string \<Rightarrow> repeat_defect list" where
  "text_defects s =
     (if \<not> js_includes ''${repeat:'' s then []
      else List.map_filter (\<lambda>(token, cnt, txt). if MAX_REPEAT_COUNT < cnt then Some (RepeatsTooOften token cnt) else None)
             (meanings (lex repeat_at s))
           @ (let leftover = concat (map is_lit (lex repeat_at s))
              in if js_includes ''${repeat:'' leftover then [NoRepeatToken leftover] else []))"

fun stringsIn :: "json \<Rightarrow> string list" where
  "stringsIn (JStr s) = [s]"
| "stringsIn (JArr vs) = concat (map stringsIn vs)"
| "stringsIn (JObj kvs) = concat (map (\<lambda>(k, v). stringsIn v) kvs)"
| "stringsIn v = []"

definition repeatDefects :: "json \<Rightarrow> repeat_defect list" where
  "repeatDefects v = concat (map text_defects (stringsIn v))"

section \<open>Bindings and interfaces\<close>

datatype binding_resolution = Matches | StaleSentences "string list" | NoDocument

definition resolveBinding :: "string list option \<Rightarrow> string list \<Rightarrow> binding_resolution" where
  "resolveBinding live keys =
     (case live of
        None \<Rightarrow> NoDocument
      | Some ks \<Rightarrow>
          let missing = filter (\<lambda>k. k \<notin> set ks) keys in if missing = [] then Matches else StaleSentences missing)"

datatype verdict_kind = Executable | BindsStale | BindsOrphaned

fun is_stale :: "binding_resolution \<Rightarrow> bool" where
  "is_stale (StaleSentences ks) = True"
| "is_stale r = False"

definition resolveScenarioBinds :: "(string \<Rightarrow> string list option) \<Rightarrow> (string \<times> string list) list \<Rightarrow> verdict_kind" where
  "resolveScenarioBinds tree binds =
     (let rs = map (\<lambda>(doc, keys). resolveBinding (tree doc) keys) binds;
          orphaned = length (filter (\<lambda>r. r = NoDocument) rs)
      in if orphaned = length rs then BindsOrphaned
         else if 0 < orphaned \<or> list_ex is_stale rs then BindsStale else Executable)"

fun drifted_at :: "(string \<Rightarrow> string option) \<Rightarrow> string list \<Rightarrow> string list \<Rightarrow> bool" where
  "drifted_at live [] prints = False"
| "drifted_at live (i # is) prints \<longleftrightarrow>
     (case (live i, prints) of (Some f, e # es) \<Rightarrow> f \<noteq> e | _ \<Rightarrow> True) \<or> drifted_at live is (tl prints)"

definition isInterfaceDrifted :: "(string \<times> string) list option \<Rightarrow> run_scenario \<Rightarrow> bool" where
  "isInterfaceDrifted catalog s =
     (case (rn_interface s, catalog) of
        (Some (path, prints), Some c) \<Rightarrow> drifted_at (map_of (rev c)) path prints
      | _ \<Rightarrow> False)"

section \<open>What each scenario needs\<close>

definition steps_of :: "run_scenario \<Rightarrow> step list" where
  "steps_of s = guardExecutionSteps (guard_scenario.truncate s)"

definition runs_on_server :: "run_scenario \<Rightarrow> bool" where
  "runs_on_server s \<longleftrightarrow> isApiServerScenario (guard_scenario.truncate s)"

definition usesServedSurface :: "run_scenario \<Rightarrow> bool" where
  "usesServedSurface s \<longleftrightarrow> list_ex (\<lambda>st. isWebStep st \<or> isApiRequestStep st) (steps_of s)"

definition usesEntry :: "run_scenario \<Rightarrow> bool" where
  "usesEntry s \<longleftrightarrow> list_ex (has_key ''run'') (steps_of s)"

definition needsPreparedWorld :: "run_scenario \<Rightarrow> bool" where
  "needsPreparedWorld s \<longleftrightarrow>
     runs_on_server s \<or> usesServedSurface s \<or> containsFixtureReference (json_stringify (JArr (map JObj (steps_of s))))"

definition isReadOnlyScenario :: "run_scenario \<Rightarrow> bool" where
  "isReadOnlyScenario s \<longleftrightarrow>
     runs_on_server s
     \<and> list_all (\<lambda>st. case map_of st ''request'' of
           Some (JObj r) \<Rightarrow> map_of r ''method'' = Some (JStr ''GET'') \<or> map_of r ''method'' = Some (JStr ''HEAD'')
         | _ \<Rightarrow> False) (gs_steps s)"

definition orderReadBeforeWrite :: "run_scenario list \<Rightarrow> run_scenario list" where
  "orderReadBeforeWrite ss = filter isReadOnlyScenario ss @ filter (\<lambda>s. \<not> isReadOnlyScenario s) ss"

section \<open>The plan\<close>

text \<open>What the recipe lacks for a scenario, and where a scenario that is selected goes.\<close>

datatype recipe_gap = NoEntry | NoWebBlock | NoApiBlock | NoSuchServer string

datatype selection_end = NoScenarios "string option" | BadCatalog string

record run_ground =
  gd_tree :: "string \<Rightarrow> string list option"
  gd_catalog :: "(string \<times> string) list option"
  gd_dependencies :: "string + resolved_dependencies"
  gd_overlay :: "string + (string \<times> external_overlay) list"
  gd_env :: "string \<Rightarrow> string option"

record run_plan =
  pl_nonExecutable :: "(run_scenario \<times> verdict_kind) list"
  pl_unprepared :: "(run_scenario \<times> recipe_gap) list"
  pl_blocked :: "(run_scenario \<times> scenario_block) list"
  pl_runnable :: "run_scenario list"
  pl_bound :: "(string \<times> api_server) list"
  pl_apiRunnable :: "run_scenario list"
  pl_entryExec :: "run_scenario list"
  pl_servedExec :: "run_scenario list"
  pl_prerequisites :: prerequisites_state
  pl_drifted :: "string list"

definition selectScenarios :: "run_scenario list \<Rightarrow> string option \<Rightarrow> run_scenario list" where
  "selectScenarios ss scenarioId = (if truthy scenarioId then filter (\<lambda>s. Some (rn_id s) = scenarioId) ss else ss)"

definition verdict_of :: "run_ground \<Rightarrow> run_scenario \<Rightarrow> verdict_kind" where
  "verdict_of g s = resolveScenarioBinds (gd_tree g) (rn_binds s)"

text \<open>\<open>boundServerById\<close>, and the scenarios whose server the recipe does not declare.\<close>

definition bind_server :: "recipe \<Rightarrow> (string \<times> api_server) list \<Rightarrow> run_scenario \<Rightarrow> (string \<times> api_server) list" where
  "bind_server rx m s =
     (case resolveScenarioServer (resolveApiServers rx) s of Some server \<Rightarrow> AList.update (rn_id s) server m | None \<Rightarrow> m)"

definition bound_servers :: "recipe \<Rightarrow> run_scenario list \<Rightarrow> (string \<times> api_server) list" where
  "bound_servers rx apiExec = (if rx_api rx = None then [] else foldl (bind_server rx) [] apiExec)"

definition api_runnable :: "recipe \<Rightarrow> run_scenario list \<Rightarrow> run_scenario list" where
  "api_runnable rx apiExec =
     (if rx_api rx = None then [] else filter (\<lambda>s. map_of (bound_servers rx apiExec) (rn_id s) \<noteq> None) apiExec)"

definition api_unprepared :: "recipe \<Rightarrow> run_scenario list \<Rightarrow> (run_scenario \<times> recipe_gap) list" where
  "api_unprepared rx apiExec =
     (if rx_api rx = None then map (\<lambda>s. (s, NoApiBlock)) apiExec
      else map (\<lambda>s. (s, NoSuchServer (server_name (resolveApiServers rx) s)))
             (filter (\<lambda>s. resolveScenarioServer (resolveApiServers rx) s = None) apiExec))"

text \<open>The test for the web surface is one for \<open>undefined\<close>.\<close>

definition sandbox_gap :: "recipe \<Rightarrow> run_scenario \<Rightarrow> recipe_gap option" where
  "sandbox_gap rx s =
     (if \<not> rx_hasEntry rx \<and> usesEntry s then Some NoEntry
      else if resolveWebSurface rx = JsUndefined \<and> usesServedSurface s then Some NoWebBlock
      else None)"

text \<open>The needs of the preparation a scenario names become needs of the scenario.\<close>

definition preparation_decl_of :: "recipe \<Rightarrow> run_scenario \<Rightarrow> preparation_decl option" where
  "preparation_decl_of rx s = Option.bind (preparation_of s) (map_of (rx_preparations rx))"

definition with_preparation_needs :: "recipe \<Rightarrow> resolved_dependencies \<Rightarrow> run_scenario \<Rightarrow> run_scenario" where
  "with_preparation_needs rx deps s =
     (case (case preparation_decl_of rx s of Some p \<Rightarrow> (case pn_needs p of Some ns \<Rightarrow> ns | None \<Rightarrow> []) | None \<Rightarrow> []) of
        [] \<Rightarrow> s
      | needs \<Rightarrow>
          s\<lparr>rn_needs := Some (js_set ((case rn_needs s of Some ns \<Rightarrow> ns | None \<Rightarrow> []) @ needs)),
            rn_prerequisites := Some ((case rn_prerequisites s of Some ps \<Rightarrow> ps | None \<Rightarrow> [])
              @ map (\<lambda>n. \<lparr>pq_dependency = n, pq_mode = ModeProvided\<rparr>) (supplied_needs (rs_dependencies deps) needs))\<rparr>)"

definition gate_of :: "recipe \<Rightarrow> prerequisites_state \<Rightarrow> run_scenario \<Rightarrow> scenario_block option" where
  "gate_of rx pre s =
     scenarioPrerequisiteBlock s pre (case preparation_decl_of rx s of Some p \<Rightarrow> pn_env p | None \<Rightarrow> [])"

definition plan_with :: "recipe \<Rightarrow> run_ground \<Rightarrow> resolved_dependencies \<Rightarrow> prerequisites_state \<Rightarrow> run_scenario list \<Rightarrow> run_plan" where
  "plan_with rx g deps pre selected =
     (let executable = filter (\<lambda>s. verdict_of g s = Executable) selected;
          sandboxExec = filter (\<lambda>s. \<not> runs_on_server s) executable;
          apiExec = filter runs_on_server executable;
          prepared = filter (\<lambda>s. sandbox_gap rx s = None) sandboxExec @ api_runnable rx apiExec;
          offered = map (with_preparation_needs rx deps) prepared
      in \<lparr>pl_nonExecutable = map (\<lambda>s. (s, verdict_of g s)) (filter (\<lambda>s. verdict_of g s \<noteq> Executable) selected),
          pl_unprepared = List.map_filter (\<lambda>s. map_option (Pair s) (sandbox_gap rx s)) sandboxExec @ api_unprepared rx apiExec,
          pl_blocked = List.map_filter (\<lambda>s. map_option (Pair s) (gate_of rx pre s)) offered,
          pl_runnable = filter (\<lambda>s. gate_of rx pre s = None) offered,
          pl_bound = bound_servers rx apiExec, pl_apiRunnable = api_runnable rx apiExec,
          pl_entryExec = filter usesEntry sandboxExec, pl_servedExec = filter usesServedSurface sandboxExec,
          pl_prerequisites = pre,
          pl_drifted = map rn_id (filter (isInterfaceDrifted (gd_catalog g)) selected)\<rparr>)"

definition plan_run :: "recipe \<Rightarrow> run_ground \<Rightarrow> run_scenario list \<Rightarrow> string option \<Rightarrow> selection_end + run_plan" where
  "plan_run rx g scenarios scenarioId =
     (let selected = selectScenarios scenarios scenarioId
      in if selected = [] then Inl (NoScenarios scenarioId)
         else case gd_dependencies g of
                Inl e \<Rightarrow> Inl (BadCatalog e)
              | Inr deps \<Rightarrow>
                  (case gd_overlay g of
                     Inl e \<Rightarrow> Inl (BadCatalog e)
                   | Inr overlay \<Rightarrow>
                       Inr (plan_with rx g deps
                         (resolvePrerequisites (case rx_api rx of Some api \<Rightarrow> ap_externals api | None \<Rightarrow> []) overlay (gd_env g) deps)
                         selected)))"

section \<open>Every scenario goes to one place\<close>

lemma map_filter_ids:
  "mset (map (f \<circ> fst) (List.map_filter (\<lambda>s. map_option (Pair s) (g s)) ss)) + mset (map f (filter (\<lambda>s. g s = None) ss))
    = mset (map f ss)"
  by (induction ss) (auto simp: map_filter_def)

lemma mset_split: "mset (map f (filter P ss)) + mset (map f (filter (\<lambda>s. \<not> P s) ss)) = mset (map f ss)"
  by (induction ss) auto

lemma needs_keep_id [simp]: "rn_id (with_preparation_needs rx deps s) = rn_id s"
  by (simp add: with_preparation_needs_def split: list.split)

lemma needs_keep_ids [simp]: "rn_id \<circ> with_preparation_needs rx deps = rn_id"
  by (simp add: fun_eq_iff)

lemma bound_ids:
  "map_of (foldl (bind_server rx) m ss) i \<noteq> None
    \<longleftrightarrow> map_of m i \<noteq> None \<or> (\<exists>s\<in>set ss. rn_id s = i \<and> resolveScenarioServer (resolveApiServers rx) s \<noteq> None)"
  by (induction ss arbitrary: m) (auto simp: bind_server_def update_conv' split: option.split)

lemma bound_iff:
  assumes "distinct (map rn_id ss)" and "s \<in> set ss"
  shows "map_of (foldl (bind_server rx) [] ss) (rn_id s) \<noteq> None \<longleftrightarrow> resolveScenarioServer (resolveApiServers rx) s \<noteq> None"
proof -
  have "t = s" if "t \<in> set ss" "rn_id t = rn_id s" for t
    using assms that by (metis distinct_map inj_onD)
  with assms(2) bound_ids [of rx "[]" ss "rn_id s"] show ?thesis by auto
qed

lemma api_split:
  assumes "distinct (map rn_id ss)"
  shows "mset (map (rn_id \<circ> fst) (api_unprepared rx ss)) + mset (map rn_id (api_runnable rx ss)) = mset (map rn_id ss)"
proof (cases "rx_api rx = None")
  case True
  then show ?thesis by (simp add: api_unprepared_def api_runnable_def comp_def)
next
  case False
  have "api_runnable rx ss = filter (\<lambda>s. \<not> resolveScenarioServer (resolveApiServers rx) s = None) ss"
    using bound_iff [OF assms, of _ rx] False
    by (auto simp: bound_servers_def api_runnable_def intro!: filter_cong)
  moreover have "map (rn_id \<circ> fst) (api_unprepared rx ss)
      = map rn_id (filter (\<lambda>s. resolveScenarioServer (resolveApiServers rx) s = None) ss)"
    by (simp only: api_unprepared_def False if_False map_map comp_def fst_conv)
  ultimately show ?thesis by (simp only: mset_split)
qed

lemma parts_add_up:
  fixes a :: "'a multiset"
  assumes "b + r = p1 + p2" "u1 + p1 = x" "u2 + p2 = y" "y + x = e" "e + a = tot"
  shows "a + (u1 + u2 + (b + r)) = tot"
proof -
  have "a + (u1 + u2 + (b + r)) = a + ((u1 + p1) + (u2 + p2))" unfolding assms(1) by (simp add: ac_simps)
  also have "\<dots> = tot" unfolding assms(2,3) using assms(4,5) by (simp add: ac_simps)
  finally show ?thesis .
qed

definition planned_ids :: "run_plan \<Rightarrow> string list" where
  "planned_ids pl =
     map (rn_id \<circ> fst) (pl_nonExecutable pl) @ map (rn_id \<circ> fst) (pl_unprepared pl) @ map (rn_id \<circ> fst) (pl_blocked pl)
     @ map rn_id (pl_runnable pl)"

text \<open>A plan loses no scenario and has none twice.\<close>

lemma partition:
  assumes "plan_run rx g scenarios scenarioId = Inr pl" and "distinct (map rn_id scenarios)"
  shows "mset (planned_ids pl) = mset (map rn_id (selectScenarios scenarios scenarioId))"
proof -
  let ?selected = "selectScenarios scenarios scenarioId"
  obtain deps pre where pl: "pl = plan_with rx g deps pre ?selected"
    using assms(1) by (auto simp: plan_run_def Let_def split: if_splits sum.splits)
  define executable where "executable = filter (\<lambda>s. verdict_of g s = Executable) ?selected"
  define sandbox api where "sandbox = filter (\<lambda>s. \<not> runs_on_server s) executable" and "api = filter runs_on_server executable"
  define offered where
    "offered = map (with_preparation_needs rx deps) (filter (\<lambda>s. sandbox_gap rx s = None) sandbox @ api_runnable rx api)"
  have ids: "distinct (map rn_id api)"
    using assms(2) by (simp add: api_def executable_def selectScenarios_def distinct_map inj_on_def)
  have parts: "pl_nonExecutable pl = map (\<lambda>s. (s, verdict_of g s)) (filter (\<lambda>s. \<not> verdict_of g s = Executable) ?selected)"
    "pl_unprepared pl = List.map_filter (\<lambda>s. map_option (Pair s) (sandbox_gap rx s)) sandbox @ api_unprepared rx api"
    "pl_blocked pl = List.map_filter (\<lambda>s. map_option (Pair s) (gate_of rx pre s)) offered"
    "pl_runnable pl = filter (\<lambda>s. gate_of rx pre s = None) offered"
    by (simp_all add: pl plan_with_def Let_def executable_def sandbox_def api_def offered_def)
  have gate: "mset (map (rn_id \<circ> fst) (pl_blocked pl)) + mset (map rn_id (pl_runnable pl))
      = mset (map rn_id (filter (\<lambda>s. sandbox_gap rx s = None) sandbox)) + mset (map rn_id (api_runnable rx api))"
    unfolding parts map_filter_ids by (simp add: offered_def)
  have sides: "mset (map rn_id api) + mset (map rn_id sandbox) = mset (map rn_id executable)"
    unfolding api_def sandbox_def by (rule mset_split)
  have verdicts: "mset (map rn_id executable) + mset (map (rn_id \<circ> fst) (pl_nonExecutable pl)) = mset (map rn_id ?selected)"
    using mset_split [of rn_id "\<lambda>s. verdict_of g s = Executable" ?selected] unfolding parts executable_def by (simp add: comp_def)
  have "mset (planned_ids pl) = mset (map (rn_id \<circ> fst) (pl_nonExecutable pl))
      + (mset (map (rn_id \<circ> fst) (List.map_filter (\<lambda>s. map_option (Pair s) (sandbox_gap rx s)) sandbox))
         + mset (map (rn_id \<circ> fst) (api_unprepared rx api))
         + (mset (map (rn_id \<circ> fst) (pl_blocked pl)) + mset (map rn_id (pl_runnable pl))))"
    unfolding planned_ids_def parts(2) by (simp add: ac_simps)
  also have "\<dots> = mset (map rn_id ?selected)"
    by (rule parts_add_up [OF gate map_filter_ids api_split [OF ids] sides verdicts])
  finally show ?thesis .
qed

text \<open>The plan never finds that a scenario lacks the web surface: a recipe without one gives \<open>null\<close>, and the
  test is one for \<open>undefined\<close>.\<close>

lemma web_gap_is_dead: "sandbox_gap rx s \<noteq> Some NoWebBlock"
  by (simp add: sandbox_gap_def resolveWebSurface_def split: option.split)

end
