(* ===== verification/GuardRun.thy ===== *)
theory GuardRun
  imports RunPlan WorkerPool
begin

text \<open>
  The run of a plan: the second part of \<open>runGuard\<close> of packages/guard-runner/src/run.ts.

  The scenarios that will run are dealt to three pools that work side by side; a scenario that changes the
  shared world waits until they are done and runs alone. The state is the pools, whether the run was stopped
  and whether the marker of a dirty world is on disk; an event is one scenario that settles with the row its
  driver made, the run being stopped, or a driver that throws. Which pool a scenario is in, the widths of the
  pools and the rows of the scenarios set aside are computed from the plan. The text of a failure that the run
  itself writes is its constructor, in \<open>rr_reason\<close>.
\<close>

section \<open>Widths\<close>

text \<open>\<open>parseInt(text, 10)\<close>.\<close>

definition parse_int :: "string \<Rightarrow> int option" where
  "parse_int s =
     (let t = dropWhile js_space s;
          negative = starts_with ''-'' t;
          u = (if negative \<or> starts_with ''+'' t then tl t else t);
          ds = takeWhile digit u
      in if ds = [] then None else Some ((if negative then -1 else 1) * int (digits_value ds)))"

definition positive_setting :: "string option \<Rightarrow> int option" where
  "positive_setting env =
     (case env of Some t \<Rightarrow> (case parse_int t of Some n \<Rightarrow> if 0 < n then Some n else None | None \<Rightarrow> None) | None \<Rightarrow> None)"

definition defaultRunConcurrency :: "string option \<Rightarrow> int \<Rightarrow> int" where
  "defaultRunConcurrency env cpus = (case positive_setting env of Some n \<Rightarrow> n | None \<Rightarrow> min cpus 8)"

definition apiBootConcurrency :: "string option \<Rightarrow> int \<Rightarrow> int" where
  "apiBootConcurrency env general = (case positive_setting env of Some n \<Rightarrow> min n general | None \<Rightarrow> min general 3)"

definition later_pools :: "nat list \<Rightarrow> int" where
  "later_pools counts = int (length (filter (\<lambda>n. 0 < n) counts))"

text \<open>The widths of the three pools, from how many scenarios each has.\<close>

definition lane_widths :: "int \<Rightarrow> int \<Rightarrow> nat \<times> nat \<times> nat \<Rightarrow> int \<times> int \<times> int" where
  "lane_widths concurrency heavyCap counts =
     (case counts of (na, ns, np) \<Rightarrow>
       let wa = (if 0 < na then min heavyCap (max 1 (concurrency - later_pools [ns, np])) else 0);
           remaining = concurrency - wa;
           ws = (if 0 < ns then min heavyCap (max 1 (remaining - later_pools [np])) else 0);
           remaining = remaining - ws
       in (wa, ws, if 0 < np then max 1 remaining else 0))"

section \<open>Who goes where\<close>

definition world_needed :: "run_plan \<Rightarrow> bool" where
  "world_needed pl \<longleftrightarrow> list_ex needsPreparedWorld (pl_runnable pl)"

text \<open>The scenarios of the server that drive a service configured by half.\<close>

definition external_blocked :: "recipe \<Rightarrow> run_plan \<Rightarrow> (run_scenario \<times> resolved_external) list" where
  "external_blocked rx pl =
     (if rx_api rx = None \<or> \<not> world_needed pl then []
      else List.map_filter
        (\<lambda>s. case boundIncompleteExternals (externals_of s) (rp_externals (pl_prerequisites pl)) of
            [] \<Rightarrow> None | x # _ \<Rightarrow> Some (s, x))
        (filter runs_on_server (pl_runnable pl)))"

definition blocked_ids :: "recipe \<Rightarrow> run_plan \<Rightarrow> string list" where
  "blocked_ids rx pl = map (rn_id \<circ> fst) (external_blocked rx pl)"

definition nothing_else_to_run :: "recipe \<Rightarrow> run_plan \<Rightarrow> bool" where
  "nothing_else_to_run rx pl \<longleftrightarrow>
     external_blocked rx pl \<noteq> [] \<and> length (external_blocked rx pl) = length (pl_runnable pl)"

definition isWorldMutator :: "run_scenario \<Rightarrow> bool" where
  "isWorldMutator s \<longleftrightarrow> rn_mutates s \<and> preparation_of s = None"

definition tail_of :: "string list \<Rightarrow> run_scenario list \<Rightarrow> run_scenario list" where
  "tail_of ext runnable = filter (\<lambda>s. isWorldMutator s \<and> rn_id s \<notin> set ext) runnable"

definition main_of :: "run_scenario list \<Rightarrow> run_scenario list" where
  "main_of runnable = filter (\<lambda>s. \<not> isWorldMutator s) runnable"

definition api_lane :: "string list \<Rightarrow> run_scenario list \<Rightarrow> run_scenario list" where
  "api_lane ext runnable =
     orderReadBeforeWrite (filter (\<lambda>s. runs_on_server s \<and> rn_id s \<notin> set ext) (main_of runnable))"

definition served_lane :: "string list \<Rightarrow> run_scenario list \<Rightarrow> run_scenario list" where
  "served_lane served runnable = filter (\<lambda>s. \<not> runs_on_server s \<and> rn_id s \<in> set served) (main_of runnable)"

definition plain_lane :: "string list \<Rightarrow> run_scenario list \<Rightarrow> run_scenario list" where
  "plain_lane served runnable = filter (\<lambda>s. \<not> runs_on_server s \<and> rn_id s \<notin> set served) (main_of runnable)"

section \<open>The rows of what does not run\<close>

datatype row_reason =
    FromDriver
  | BindingLost verdict_kind
  | RecipeLacks recipe_gap
  | DependencyLacks scenario_block
  | AccountHalfConfigured string

record run_row = result_row +
  rr_reason :: row_reason

definition annotation :: "run_plan \<Rightarrow> string \<Rightarrow> json_object" where
  "annotation pl i = (if i \<in> set (pl_drifted pl) then [(''interfaceDrifted'', JBool True)] else [])"

definition bind_json :: "run_scenario \<Rightarrow> json" where
  "bind_json s =
     (case rn_binds s of
        (doc, keys) # _ \<Rightarrow> JObj [(''doc'', JStr doc), (''sentences'', JArr (map JStr keys))]
      | [] \<Rightarrow> JNull)"

definition set_aside :: "run_plan \<Rightarrow> guard_outcome \<Rightarrow> row_reason \<Rightarrow> run_scenario \<Rightarrow> run_row" where
  "set_aside pl out why s =
     \<lparr>rw_id = rn_id s, rw_title = rn_title s, rw_outcome = out, rw_runId = None, rw_ranAt = None, rw_failure = None,
       rw_evidencePath = None, rw_flowId = rn_flowId s, rw_failedMilestone = None, rw_unservedRoute = None,
       rw_adjudication = None,
       rw_rest = [(''binds'', bind_json s), (''durationMs'', JNum 0)] @ annotation pl (rn_id s), rr_reason = why\<rparr>"

definition binding_outcome :: "verdict_kind \<Rightarrow> guard_outcome" where
  "binding_outcome v = (if v = BindsStale then OutStale else OutOrphaned)"

definition rows_set_aside :: "recipe \<Rightarrow> run_plan \<Rightarrow> run_row list" where
  "rows_set_aside rx pl =
     map (\<lambda>(s, v). set_aside pl (binding_outcome v) (BindingLost v) s) (pl_nonExecutable pl)
     @ map (\<lambda>(s, gap). set_aside pl OutError (RecipeLacks gap) s) (pl_unprepared pl)
     @ map (\<lambda>(s, b). set_aside pl OutBlocked (DependencyLacks b) s) (pl_blocked pl)
     @ map (\<lambda>(s, x). set_aside pl OutError (AccountHalfConfigured (xr_service x)) s) (external_blocked rx pl)"

text \<open>A driver's row bears the scenario's own id, title and flow. The repeat tokens of the scenario have been
  spelled out before any driver sees it.\<close>

definition driver_row :: "run_plan \<Rightarrow> run_scenario \<Rightarrow> result_row \<Rightarrow> run_row" where
  "driver_row pl authored r =
     (let s = expandScenarioRepeats authored
      in result_row.extend
           (r\<lparr>rw_id := rn_id s, rw_title := rn_title s, rw_flowId := rn_flowId s,
              rw_rest := rw_rest r @ annotation pl (rn_id s)\<rparr>) \<lparr>rr_reason = FromDriver\<rparr>)"

section \<open>The pools\<close>

type_synonym lane_pool = "(run_scenario, result_row option) work_pool"

datatype lane = ApiLane | ServedLane | PlainLane | TailLane

datatype stop = TimedOut | Aborted

record guard_run =
  gr_api :: lane_pool
  gr_served :: lane_pool
  gr_plain :: lane_pool
  gr_waiting :: "run_scenario list"
  gr_tail :: "lane_pool option"
  gr_stop :: "stop option"
  gr_threw :: bool
  gr_marker :: bool

definition lanes_done :: "guard_run \<Rightarrow> bool" where
  "lanes_done g \<longleftrightarrow> work_done (gr_api g) \<and> work_done (gr_served g) \<and> work_done (gr_plain g)"

text \<open>The scenarios that change the world, once every other one has settled. The marker comes first.\<close>

definition open_tail :: "guard_run \<Rightarrow> guard_run" where
  "open_tail g =
     (if lanes_done g \<and> gr_tail g = None \<and> gr_waiting g \<noteq> [] \<and> gr_stop g = None
      then g\<lparr>gr_marker := True, gr_tail := Some (start_work 1 (gr_waiting g))\<rparr> else g)"

definition settle_lane :: "lane \<Rightarrow> nat \<Rightarrow> result_row option \<Rightarrow> guard_run \<Rightarrow> guard_run" where
  "settle_lane l i r g =
     (case l of
        ApiLane \<Rightarrow> g\<lparr>gr_api := settle_work i r (gr_api g)\<rparr>
      | ServedLane \<Rightarrow> g\<lparr>gr_served := settle_work i r (gr_served g)\<rparr>
      | PlainLane \<Rightarrow> g\<lparr>gr_plain := settle_work i r (gr_plain g)\<rparr>
      | TailLane \<Rightarrow> g\<lparr>gr_tail := map_option (settle_work i r) (gr_tail g)\<rparr>)"

datatype run_event = Settles lane nat result_row | Stops stop | Throws

text \<open>A result that comes after the run was stopped is no result.\<close>

definition guard_step :: "guard_run \<Rightarrow> run_event \<Rightarrow> guard_run" where
  "guard_step g e =
     (if gr_threw g then g
      else case e of
             Settles l i row \<Rightarrow> open_tail (settle_lane l i (if gr_stop g = None then Some row else None) g)
           | Stops s \<Rightarrow> g\<lparr>gr_stop := (if gr_stop g = Some TimedOut then Some TimedOut else Some s)\<rparr>
           | Throws \<Rightarrow> g\<lparr>gr_threw := True\<rparr>)"

definition lanes_of ::
    "recipe \<Rightarrow> run_plan \<Rightarrow> int \<Rightarrow> int
      \<Rightarrow> (int \<times> run_scenario list) \<times> (int \<times> run_scenario list) \<times> (int \<times> run_scenario list)" where
  "lanes_of rx pl concurrency heavyCap =
     (let as = api_lane (blocked_ids rx pl) (pl_runnable pl);
          ss = served_lane (map rn_id (pl_servedExec pl)) (pl_runnable pl);
          ps = plain_lane (map rn_id (pl_servedExec pl)) (pl_runnable pl)
      in case lane_widths concurrency heavyCap (length as, length ss, length ps) of (wa, ws, wp) \<Rightarrow>
           ((wa, as), (ws, ss), (wp, ps)))"

definition start_run :: "recipe \<Rightarrow> run_plan \<Rightarrow> int \<Rightarrow> int \<Rightarrow> bool \<Rightarrow> guard_run" where
  "start_run rx pl concurrency heavyCap marker =
     (case lanes_of rx pl concurrency heavyCap of ((wa, as), (ws, ss), (wp, ps)) \<Rightarrow>
        open_tail
          \<lparr>gr_api = start_work wa as, gr_served = start_work ws ss, gr_plain = start_work wp ps,
            gr_waiting = tail_of (blocked_ids rx pl) (pl_runnable pl), gr_tail = None, gr_stop = None, gr_threw = False,
            gr_marker = marker\<rparr>)"

section \<open>The end of the run\<close>

datatype end_of_run =
    RunStopped stop nat
  | RunThrew
  | Finished "run_row list" bool

definition lane_rows :: "run_plan \<Rightarrow> lane_pool \<Rightarrow> run_row list" where
  "lane_rows pl p = List.map_filter (\<lambda>(s, r). map_option (driver_row pl s) r) (zip (wp_items p) (work_results p))"

definition settled_rows :: "run_plan \<Rightarrow> guard_run \<Rightarrow> run_row list" where
  "settled_rows pl g =
     lane_rows pl (gr_api g) @ lane_rows pl (gr_served g) @ lane_rows pl (gr_plain g)
     @ (case gr_tail g of Some p \<Rightarrow> lane_rows pl p | None \<Rightarrow> [])"

text \<open>The run may go on to its end: every pool has settled.\<close>

definition all_done :: "guard_run \<Rightarrow> bool" where
  "all_done g \<longleftrightarrow> lanes_done g \<and> (case gr_tail g of Some p \<Rightarrow> work_done p | None \<Rightarrow> gr_waiting g = [] \<or> gr_stop g \<noteq> None)"

text \<open>The world is restored where the run owns it and the recipe can; \<open>reset\<close> is how that went. What is given
  first is whether the world was left dirty.\<close>

definition restores :: "recipe \<Rightarrow> bool" where
  "restores rx \<longleftrightarrow> (case Option.bind (rx_api rx) ap_services of Some v \<Rightarrow> vs_reset v | None \<Rightarrow> False)"

definition restore_world :: "recipe \<Rightarrow> bool \<Rightarrow> bool \<Rightarrow> guard_run \<Rightarrow> bool \<times> guard_run" where
  "restore_world rx shared reset g =
     (if gr_tail g = None \<or> gr_stop g \<noteq> None then (False, g)
      else if \<not> shared \<and> restores rx \<and> reset then (False, g\<lparr>gr_marker := False\<rparr>)
      else (True, g))"

text \<open>\<open>late\<close> is a stop that comes while the world is being restored.\<close>

definition finish_run ::
    "(string \<Rightarrow> string) \<Rightarrow> recipe \<Rightarrow> run_plan \<Rightarrow> bool \<Rightarrow> bool \<Rightarrow> stop option \<Rightarrow> guard_run \<Rightarrow> end_of_run \<times> guard_run" where
  "finish_run loc rx pl shared reset late g =
     (if gr_threw g then (RunThrew, g)
      else case restore_world rx shared reset g of (dirty, g) \<Rightarrow>
        (case (case gr_stop g of Some s \<Rightarrow> Some s | None \<Rightarrow> late) of
           Some s \<Rightarrow> (RunStopped s (length (rows_set_aside rx pl) + length (settled_rows pl g)), g)
         | None \<Rightarrow> (Finished (sort_key (loc \<circ> rw_id) (rows_set_aside rx pl @ settled_rows pl g)) dirty, g)))"

text \<open>What a finished run is recorded as: its own board, and the board of the repository.\<close>

definition latest_of :: "run_envelope \<Rightarrow> run_row list \<Rightarrow> bool \<Rightarrow> board" where
  "latest_of env rows dirty =
     \<lparr>bd_run = env\<lparr>ev_rest := ev_rest env @ (if dirty then [(''worldLeftDirty'', JBool True)] else [])\<rparr>,
       bd_summary = summarizeResults (map result_row.truncate rows), bd_scenarios = map result_row.truncate rows\<rparr>"

definition record_run ::
    "(string \<Rightarrow> string) \<Rightarrow> bool \<Rightarrow> board option \<Rightarrow> string list option \<Rightarrow> run_scenario list \<Rightarrow> board \<Rightarrow> board option" where
  "record_run loc persist prior corpusIds scenarios latest =
     (if persist
      then Some (mergeGuardBoard loc prior latest (set (case corpusIds of Some ids \<Rightarrow> ids | None \<Rightarrow> map rn_id scenarios)))
      else None)"

section \<open>What every run keeps\<close>

definition whole :: "guard_run \<Rightarrow> lane_pool \<Rightarrow> bool" where
  "whole g p \<longleftrightarrow> gr_stop g = None \<longrightarrow> settled_as p (\<lambda>s r. r \<noteq> None)"

definition lane_ok :: "int \<Rightarrow> run_scenario list \<Rightarrow> guard_run \<Rightarrow> lane_pool \<Rightarrow> bool" where
  "lane_ok w ss g p \<longleftrightarrow> work_ok w ss p \<and> whole g p"

definition tail_ok :: "run_scenario list \<Rightarrow> guard_run \<Rightarrow> bool" where
  "tail_ok ms g \<longleftrightarrow>
     gr_waiting g = ms
     \<and> (case gr_tail g of Some p \<Rightarrow> lane_ok 1 ms g p \<and> lanes_done g \<and> gr_marker g | None \<Rightarrow> True)"

definition run_ok ::
    "int \<times> run_scenario list \<Rightarrow> int \<times> run_scenario list \<Rightarrow> int \<times> run_scenario list \<Rightarrow> run_scenario list \<Rightarrow> guard_run \<Rightarrow> bool"
where
  "run_ok as ss ps ms g \<longleftrightarrow>
     lane_ok (fst as) (snd as) g (gr_api g) \<and> lane_ok (fst ss) (snd ss) g (gr_served g)
     \<and> lane_ok (fst ps) (snd ps) g (gr_plain g) \<and> tail_ok ms g"

lemma settle_lane_ok:
  assumes "lane_ok w ss g p" and "gr_stop g = None \<Longrightarrow> r \<noteq> None"
  shows "lane_ok w ss g (settle_work i r p)"
  using assms settle_ok [of w ss p i r] settle_settled [of p "\<lambda>s r. r \<noteq> None" i r]
  by (auto simp: lane_ok_def whole_def)

lemma settle_fields [simp]:
  "gr_stop (settle_lane l i r g) = gr_stop g" "gr_waiting (settle_lane l i r g) = gr_waiting g"
  "gr_marker (settle_lane l i r g) = gr_marker g" "gr_threw (settle_lane l i r g) = gr_threw g"
  "gr_api (settle_lane l i r g) = (if l = ApiLane then settle_work i r (gr_api g) else gr_api g)"
  "gr_served (settle_lane l i r g) = (if l = ServedLane then settle_work i r (gr_served g) else gr_served g)"
  "gr_plain (settle_lane l i r g) = (if l = PlainLane then settle_work i r (gr_plain g) else gr_plain g)"
  "gr_tail (settle_lane l i r g) = (if l = TailLane then map_option (settle_work i r) (gr_tail g) else gr_tail g)"
  by (simp_all add: settle_lane_def split: lane.split)

lemma lane_ok_settled [simp]: "lane_ok w ss (settle_lane l i r g) p = lane_ok w ss g p"
  by (simp add: lane_ok_def whole_def)

lemma start_lane_ok: "lane_ok w ss g (start_work w ss)"
  using start_ok [of w ss] by (simp add: lane_ok_def whole_def settled_as_def start_work_def Let_def)

lemma settle_done: "work_done p \<Longrightarrow> settle_work i r p = p"
  by (simp add: work_done_def settle_work_def)

lemma lane_ok_opened: "lane_ok w ss (g\<lparr>gr_marker := b, gr_tail := t\<rparr>) p = lane_ok w ss g p"
  by (simp add: lane_ok_def whole_def)

lemma open_tail_ok: "run_ok as ss ps ms g \<Longrightarrow> run_ok as ss ps ms (open_tail g)"
  by (simp add: run_ok_def tail_ok_def open_tail_def lanes_done_def lane_ok_opened start_lane_ok)

lemma done_settled: "lanes_done g \<Longrightarrow> lanes_done (settle_lane l i r g)"
  by (simp add: lanes_done_def settle_done)

lemma settle_run_ok:
  assumes "run_ok as ss ps ms g" and "gr_stop g = None \<Longrightarrow> r \<noteq> None"
  shows "run_ok as ss ps ms (settle_lane l i r g)"
proof -
  have "tail_ok ms (settle_lane l i r g)"
    using assms settle_lane_ok [of 1 ms g _ r i] done_settled [of g l i r]
    by (auto simp: run_ok_def tail_ok_def split: option.splits)
  with assms show ?thesis by (auto simp: run_ok_def intro: settle_lane_ok)
qed

lemma lane_ok_stopped: "lane_ok w ss g p \<Longrightarrow> lane_ok w ss (g\<lparr>gr_stop := Some s\<rparr>) p"
  by (simp add: lane_ok_def whole_def)

lemma stop_run_ok: "run_ok as ss ps ms g \<Longrightarrow> run_ok as ss ps ms (g\<lparr>gr_stop := Some s\<rparr>)"
  by (cases "gr_tail g") (simp_all add: run_ok_def tail_ok_def lanes_done_def lane_ok_stopped)

lemma threw_run_ok: "run_ok as ss ps ms (g\<lparr>gr_threw := b\<rparr>) = run_ok as ss ps ms g"
  by (cases "gr_tail g") (simp_all add: run_ok_def tail_ok_def lane_ok_def whole_def lanes_done_def)

interpretation pools: invariant_machine guard_step "run_ok as ss ps ms" for as ss ps ms
proof
  fix g e
  assume ok: "run_ok as ss ps ms g"
  show "run_ok as ss ps ms (guard_step g e)"
  proof (cases e)
    case (Settles l i row)
    have "run_ok as ss ps ms (open_tail (settle_lane l i (if gr_stop g = None then Some row else None) g))"
      by (rule open_tail_ok [OF settle_run_ok [OF ok]]) simp
    with ok Settles show ?thesis by (simp add: guard_step_def)
  next
    case (Stops s)
    with ok stop_run_ok show ?thesis by (auto simp: guard_step_def)
  next
    case Throws
    with ok show ?thesis by (simp add: guard_step_def threw_run_ok)
  qed
qed

definition in_flight :: "lane_pool \<Rightarrow> run_scenario list" where
  "in_flight p = map (\<lambda>i. wp_items p ! i) (wp_running p)"

definition tail_in_flight :: "guard_run \<Rightarrow> run_scenario list" where
  "tail_in_flight g = (case gr_tail g of Some p \<Rightarrow> in_flight p | None \<Rightarrow> [])"

definition shared_in_flight :: "guard_run \<Rightarrow> run_scenario list" where
  "shared_in_flight g = in_flight (gr_api g) @ in_flight (gr_served g) @ in_flight (gr_plain g)"

lemma in_flight_items: "work_ok w ss p \<Longrightarrow> set (in_flight p) \<subseteq> set ss"
proof
  fix s
  assume ok: "work_ok w ss p" and "s \<in> set (in_flight p)"
  then obtain i where i: "i \<in> set (wp_running p)" "s = ss ! i" by (auto simp: in_flight_def work_ok_def)
  with ok have "i \<in> {..<wp_next p}" "wp_next p \<le> length ss" by (auto simp: work_ok_def)
  with i(2) show "s \<in> set ss" by simp
qed

lemma in_flight_width: "work_ok w ss p \<Longrightarrow> length (in_flight p) \<le> workers w (length ss)"
  by (simp add: in_flight_def work_ok_def)

lemma done_in_flight: "work_done p \<Longrightarrow> in_flight p = []"
  by (simp add: work_done_def in_flight_def)

lemma start_run_ok:
  assumes "lanes_of rx pl c h = (as, ss, ps)"
  shows "run_ok as ss ps (tail_of (blocked_ids rx pl) (pl_runnable pl)) (start_run rx pl c h m)"
  using assms start_lane_ok
  by (cases as; cases ss; cases ps) (simp add: start_run_def, rule open_tail_ok, simp add: run_ok_def tail_ok_def)

lemma reached_ok:
  assumes "lanes_of rx pl c h = (as, ss, ps)"
  shows "run_ok as ss ps (tail_of (blocked_ids rx pl) (pl_runnable pl)) (foldl guard_step (start_run rx pl c h m) es)"
  by (rule pools.run_inv [OF start_run_ok [OF assms]])

lemma lanes_tame:
  assumes "lanes_of rx pl c h = (as, ss, ps)"
  shows "\<forall>s\<in>set (snd as @ snd ss @ snd ps). \<not> isWorldMutator s"
  using assms
  by (auto simp: lanes_of_def Let_def api_lane_def served_lane_def plain_lane_def main_of_def orderReadBeforeWrite_def
      split: prod.splits)

text \<open>C20: A scenario that changes the shared world runs alone. At every point of every run, what is in flight in
  the three pools changes nothing; at most one scenario that does is in flight, and then nothing else is, and
  the marker of a dirty world has been written.\<close>

theorem mutators_run_alone:
  "let g = foldl guard_step (start_run rx pl concurrency heavyCap marker) es
   in list_all (\<lambda>s. \<not> isWorldMutator s) (shared_in_flight g) \<and> list_all isWorldMutator (tail_in_flight g)
     \<and> length (tail_in_flight g) \<le> 1 \<and> (tail_in_flight g = [] \<or> shared_in_flight g = [] \<and> gr_marker g)"
proof -
  obtain as ss ps where lanes: "lanes_of rx pl concurrency heavyCap = (as, ss, ps)"
    using prod_cases3 by blast
  let ?g = "foldl guard_step (start_run rx pl concurrency heavyCap marker) es"
  let ?ms = "tail_of (blocked_ids rx pl) (pl_runnable pl)"
  have ok: "run_ok as ss ps ?ms ?g" by (rule reached_ok [OF lanes])
  have "set (shared_in_flight ?g) \<subseteq> set (snd as @ snd ss @ snd ps)"
    using ok in_flight_items by (fastforce simp: shared_in_flight_def run_ok_def lane_ok_def)
  with lanes_tame [OF lanes] have tame: "list_all (\<lambda>s. \<not> isWorldMutator s) (shared_in_flight ?g)"
    by (auto simp: list_all_iff)
  show ?thesis
  proof (cases "gr_tail ?g")
    case None
    with tame show ?thesis by (simp add: tail_in_flight_def Let_def)
  next
    case (Some p)
    with ok have p: "work_ok 1 ?ms p" "lanes_done ?g" "gr_marker ?g"
      by (simp_all add: run_ok_def tail_ok_def lane_ok_def)
    have "list_all isWorldMutator (in_flight p)"
      using in_flight_items [OF p(1)] by (auto simp: list_all_iff tail_of_def)
    moreover have "length (in_flight p) \<le> 1" using in_flight_width [OF p(1)] by (simp add: workers_def)
    moreover have "shared_in_flight ?g = []"
      using p(2) by (simp add: shared_in_flight_def lanes_done_def done_in_flight)
    ultimately show ?thesis using tame Some p(3) by (simp add: tail_in_flight_def Let_def)
  qed
qed

section \<open>The bound on what is in flight\<close>

lemma lane_flight:
  assumes "lane_ok w ss g p"
  shows "int (length (in_flight p)) \<le> (if 0 < length ss then max 1 w else 0)"
proof (cases "ss = []")
  case True
  with assms in_flight_items [of w ss p] show ?thesis by (simp add: lane_ok_def)
next
  case False
  have "length (in_flight p) \<le> workers w (length ss)" using assms in_flight_width by (simp add: lane_ok_def)
  also have "int \<dots> \<le> max 1 w" by (auto simp: workers_def max_def min_def)
  finally show ?thesis using False by simp
qed

lemma lane_widths_bounds:
  assumes "lane_widths c h (na, ns, np) = (wa, ws, wp)" and "1 \<le> h" and "h \<le> c"
  shows "(if 0 < na then max 1 wa else 0) + (if 0 < ns then max 1 ws else 0) + (if 0 < np then max 1 wp else 0)
      \<le> max c (later_pools [na, ns, np])"
    and "max 1 wa \<le> h" and "max 1 ws \<le> h"
  using assms by (auto simp: lane_widths_def Let_def later_pools_def max_def min_def split: if_splits)

text \<open>C21: What is in flight is bounded. With a cap between one and the concurrency, no more than the cap is in
  flight in either of the pools whose scenarios keep a server, and no more in all than the concurrency, or one
  for each pool that has scenarios where that is more.\<close>

theorem in_flight_bounded:
  assumes "1 \<le> heavyCap" and "heavyCap \<le> concurrency"
  shows "let g = foldl guard_step (start_run rx pl concurrency heavyCap marker) es;
             lanes = lanes_of rx pl concurrency heavyCap
         in int (length (in_flight (gr_api g))) \<le> heavyCap \<and> int (length (in_flight (gr_served g))) \<le> heavyCap
           \<and> int (length (shared_in_flight g))
               \<le> max concurrency (later_pools
                   [length (snd (fst lanes)), length (snd (fst (snd lanes))), length (snd (snd (snd lanes)))])"
proof -
  obtain wa as ws ss wp ps where lanes: "lanes_of rx pl concurrency heavyCap = ((wa, as), (ws, ss), (wp, ps))"
    by (metis prod.exhaust)
  have widths: "lane_widths concurrency heavyCap (length as, length ss, length ps) = (wa, ws, wp)"
    using lanes by (auto simp: lanes_of_def Let_def split: prod.splits)
  let ?g = "foldl guard_step (start_run rx pl concurrency heavyCap marker) es"
  have ok: "lane_ok wa as ?g (gr_api ?g)" "lane_ok ws ss ?g (gr_served ?g)" "lane_ok wp ps ?g (gr_plain ?g)"
    using reached_ok [OF lanes, of marker es] by (simp_all add: run_ok_def)
  note b = lane_widths_bounds [OF widths assms]
  have "int (length (in_flight (gr_api ?g))) \<le> heavyCap"
    using lane_flight [OF ok(1)] b(2) assms(1) by (auto split: if_splits)
  moreover have "int (length (in_flight (gr_served ?g))) \<le> heavyCap"
    using lane_flight [OF ok(2)] b(3) assms(1) by (auto split: if_splits)
  moreover have "int (length (shared_in_flight ?g)) \<le> max concurrency (later_pools [length as, length ss, length ps])"
    using lane_flight [OF ok(1)] lane_flight [OF ok(2)] lane_flight [OF ok(3)] b(1)
    unfolding shared_in_flight_def length_append of_nat_add by linarith
  ultimately show ?thesis using lanes by (simp add: Let_def)
qed

text \<open>A concurrency of one does not bound what is in flight by one: a pool that has scenarios has a worker.\<close>

lemma one_is_not_the_bound: "lane_widths 1 1 (1, 1, 1) = (1, 1, 1)"
  by (simp add: lane_widths_def later_pools_def)

section \<open>Every scenario is answered\<close>

lemma map_filter_zip_all:
  "list_all2 (\<lambda>s r. r \<noteq> None) ss rs
    \<Longrightarrow> map f (List.map_filter (\<lambda>(s, r). map_option (row s) r) (zip ss rs)) = map (\<lambda>(s, r). f (row s (the r))) (zip ss rs)"
  by (induction rule: list_all2_induct) (auto simp: map_filter_def)

lemma driver_row_id: "expandRepeat (rn_id s) = rn_id s \<Longrightarrow> rw_id (driver_row pl s r) = rn_id s"
  by (simp add: driver_row_def expandScenarioRepeats_def result_row.defs)

lemma lane_row_ids:
  assumes "lane_ok w ss g p" and "work_done p" and "gr_stop g = None" and "\<forall>s\<in>set ss. expandRepeat (rn_id s) = rn_id s"
  shows "map rw_id (lane_rows pl p) = map rn_id ss"
proof -
  have all: "list_all2 (\<lambda>s r. r \<noteq> None) ss (work_results p)"
    using assms results_of_items [of w ss p "\<lambda>s r. r \<noteq> None"] by (simp add: lane_ok_def whole_def)
  have items: "wp_items p = ss" using assms(1) by (simp add: lane_ok_def work_ok_def)
  have "map rw_id (lane_rows pl p) = map (\<lambda>(s, r). rw_id (driver_row pl s (the r))) (zip ss (work_results p))"
    unfolding lane_rows_def items by (rule map_filter_zip_all [OF all])
  also have "\<dots> = map rn_id (map fst (zip ss (work_results p)))"
    using assms(4) by (auto simp: driver_row_id dest: set_zip_leftD)
  also have "map fst (zip ss (work_results p)) = ss" using list_all2_lengthD [OF all] by simp
  finally show ?thesis .
qed

lemma five_parts:
  assumes "\<forall>x\<in>set xs. length (filter (\<lambda>P. P x) [A, B, C, D, E]) = 1"
  shows "mset (map f (filter A xs)) + mset (map f (filter B xs)) + mset (map f (filter C xs)) + mset (map f (filter D xs))
    + mset (map f (filter E xs)) = mset (map f xs)"
  using assms by (induction xs) (auto split: if_splits)

lemma external_scenarios:
  "\<exists>Q. map fst (external_blocked rx pl) = filter Q (pl_runnable pl) \<and> (\<forall>s. Q s \<longrightarrow> runs_on_server s)"
proof -
  let ?b = "\<lambda>s. boundIncompleteExternals (externals_of s) (rp_externals (pl_prerequisites pl))"
  have pairs: "map fst (List.map_filter (\<lambda>s. case ?b s of [] \<Rightarrow> None | x # _ \<Rightarrow> Some (s, x)) ss) = filter (\<lambda>s. ?b s \<noteq> []) ss" for ss
    by (induction ss) (auto simp: map_filter_def split: list.splits)
  show ?thesis
  proof (cases "rx_api rx = None \<or> \<not> world_needed pl")
    case True
    then show ?thesis by (auto simp: external_blocked_def intro!: exI [of _ "\<lambda>_. False"])
  next
    case False
    then show ?thesis
      by (intro exI [of _ "\<lambda>s. runs_on_server s \<and> ?b s \<noteq> []"]) (auto simp: external_blocked_def pairs)
  qed
qed

lemma reads_first: "mset (map f (orderReadBeforeWrite ss)) = mset (map f ss)"
  using mset_split [of f isReadOnlyScenario ss] by (simp add: orderReadBeforeWrite_def)

text \<open>Every scenario that will run is in one of the pools, waits for its turn alone, or is settled for the
  service it drives.\<close>

lemma dealt:
  assumes "distinct (map rn_id (pl_runnable pl))" and "lanes_of rx pl c h = (as, ss, ps)"
  shows "mset (blocked_ids rx pl) + mset (map rn_id (snd as)) + mset (map rn_id (snd ss)) + mset (map rn_id (snd ps))
    + mset (map rn_id (tail_of (blocked_ids rx pl) (pl_runnable pl))) = mset (map rn_id (pl_runnable pl))"
proof -
  let ?run = "pl_runnable pl" and ?ext = "blocked_ids rx pl" and ?served = "map rn_id (pl_servedExec pl)"
  obtain Q where Q: "map fst (external_blocked rx pl) = filter Q ?run" "\<And>s. Q s \<Longrightarrow> runs_on_server s"
    using external_scenarios by blast
  have ext: "?ext = map rn_id (filter Q ?run)" using Q(1) by (metis blocked_ids_def map_map)
  have in_ext: "rn_id s \<in> set ?ext \<longleftrightarrow> Q s" if "s \<in> set ?run" for s
    using assms(1) that unfolding ext by (auto simp: distinct_map inj_on_def)
  let ?A = "\<lambda>s. \<not> isWorldMutator s \<and> runs_on_server s \<and> rn_id s \<notin> set ?ext"
  let ?S = "\<lambda>s. \<not> isWorldMutator s \<and> \<not> runs_on_server s \<and> rn_id s \<in> set ?served"
  let ?P = "\<lambda>s. \<not> isWorldMutator s \<and> \<not> runs_on_server s \<and> rn_id s \<notin> set ?served"
  let ?T = "\<lambda>s. isWorldMutator s \<and> rn_id s \<notin> set ?ext"
  have "mset (map rn_id (filter Q ?run)) + mset (map rn_id (filter ?A ?run)) + mset (map rn_id (filter ?S ?run))
      + mset (map rn_id (filter ?P ?run)) + mset (map rn_id (filter ?T ?run)) = mset (map rn_id ?run)"
  proof (rule five_parts, rule ballI)
    fix s
    assume "s \<in> set ?run"
    from in_ext [OF this] Q(2) [of s] show "length (filter (\<lambda>P. P s) [Q, ?A, ?S, ?P, ?T]) = 1" by auto
  qed
  moreover have "snd as = orderReadBeforeWrite (filter ?A ?run)" "snd ss = filter ?S ?run" "snd ps = filter ?P ?run"
    using assms(2)
    by (auto simp: lanes_of_def Let_def api_lane_def served_lane_def plain_lane_def main_of_def filter_filter
        simp del: set_map split: prod.splits)
  ultimately show ?thesis unfolding ext [symmetric] by (simp only: tail_of_def reads_first)
qed

lemma aside_ids:
  "mset (map rw_id (rows_set_aside rx pl))
    = mset (map (rn_id \<circ> fst) (pl_nonExecutable pl)) + mset (map (rn_id \<circ> fst) (pl_unprepared pl))
      + mset (map (rn_id \<circ> fst) (pl_blocked pl)) + mset (blocked_ids rx pl)"
proof -
  have "map rw_id (rows_set_aside rx pl)
      = map (rn_id \<circ> fst) (pl_nonExecutable pl) @ map (rn_id \<circ> fst) (pl_unprepared pl)
        @ map (rn_id \<circ> fst) (pl_blocked pl) @ blocked_ids rx pl"
    by (auto simp: rows_set_aside_def set_aside_def blocked_ids_def)
  then show ?thesis by simp
qed

lemma lanes_ids:
  assumes ok: "run_ok as ss ps ms st" and fin: "all_done st" "gr_stop st = None"
    and plain: "\<forall>s\<in>set (snd as @ snd ss @ snd ps @ ms). expandRepeat (rn_id s) = rn_id s"
  shows "map rw_id (settled_rows pl st) = map rn_id (snd as) @ map rn_id (snd ss) @ map rn_id (snd ps) @ map rn_id ms"
proof -
  have lanes: "map rw_id (lane_rows pl (gr_api st)) = map rn_id (snd as)"
    "map rw_id (lane_rows pl (gr_served st)) = map rn_id (snd ss)"
    "map rw_id (lane_rows pl (gr_plain st)) = map rn_id (snd ps)"
    using ok fin plain lane_row_ids by (auto simp: run_ok_def all_done_def lanes_done_def simp del: map_eq_conv)
  show ?thesis
  proof (cases "gr_tail st")
    case None
    with ok fin have "ms = []" by (simp add: all_done_def run_ok_def tail_ok_def)
    with None lanes show ?thesis by (simp add: settled_rows_def)
  next
    case (Some p)
    with ok fin have "lane_ok 1 ms st p" "work_done p" by (simp_all add: all_done_def run_ok_def tail_ok_def)
    with fin(2) plain have "map rw_id (lane_rows pl p) = map rn_id ms" by (intro lane_row_ids) auto
    with Some lanes show ?thesis by (simp add: settled_rows_def)
  qed
qed

lemma finished:
  assumes "finish_run loc rx pl shared reset late st = (Finished rows dirty, st')"
  shows "gr_stop st = None" and "rows = sort_key (loc \<circ> rw_id) (rows_set_aside rx pl @ settled_rows pl st)"
proof -
  have "settled_rows pl (snd (restore_world rx shared reset st)) = settled_rows pl st"
    "gr_stop (snd (restore_world rx shared reset st)) = gr_stop st"
    by (simp_all add: restore_world_def settled_rows_def split: option.split)
  then show "gr_stop st = None" "rows = sort_key (loc \<circ> rw_id) (rows_set_aside rx pl @ settled_rows pl st)"
    using assms by (cases "restore_world rx shared reset st"; auto simp: finish_run_def split: if_splits option.splits)+
qed

lemma planned_subset:
  assumes "plan_run rx g scenarios scenarioId = Inr pl" and "distinct (map rn_id scenarios)"
  shows "set (map rn_id (pl_runnable pl)) \<subseteq> set (map rn_id scenarios)" and "distinct (map rn_id (pl_runnable pl))"
proof -
  have same: "mset (planned_ids pl) = mset (map rn_id (selectScenarios scenarios scenarioId))"
    by (rule partition [OF assms])
  then have "distinct (planned_ids pl)" "set (planned_ids pl) = rn_id ` set (selectScenarios scenarios scenarioId)"
    using assms(2) mset_eq_imp_distinct_iff [OF same] mset_eq_setD [OF same]
    by (simp_all add: selectScenarios_def distinct_map inj_on_def)
  then show "set (map rn_id (pl_runnable pl)) \<subseteq> set (map rn_id scenarios)" "distinct (map rn_id (pl_runnable pl))"
    by (auto simp: planned_ids_def selectScenarios_def split: if_splits)
qed

text \<open>C19: A run that comes to its end answers every scenario that was selected, once, and its rows are in the
  order of their ids. It does not matter in which order the scenarios settle, what the drivers answer, or
  whether the world was restored; the ids are distinct and hold no token to repeat.\<close>

theorem every_scenario_answered:
  assumes "plan_run rx g scenarios scenarioId = Inr pl" and "distinct (map rn_id scenarios)"
    and "list_all (\<lambda>s. \<not> js_includes ''${repeat:'' (rn_id s)) scenarios"
    and "st = foldl guard_step (start_run rx pl concurrency heavyCap marker) es" and "all_done st"
    and "finish_run loc rx pl shared reset late st = (Finished rows dirty, st')"
  shows "mset (map rw_id rows) = mset (map rn_id (selectScenarios scenarios scenarioId))
    \<and> sorted (map (loc \<circ> rw_id) rows)"
proof -
  obtain as ss ps where lanes: "lanes_of rx pl concurrency heavyCap = (as, ss, ps)" using prod_cases3 by blast
  let ?ext = "blocked_ids rx pl" and ?ms = "tail_of (blocked_ids rx pl) (pl_runnable pl)"
  note ids = planned_subset [OF assms(1,2)] and fin = finished [OF assms(6)] and deal = dealt [OF planned_subset(2) [OF assms(1,2)] lanes]
  have plain: "\<forall>s\<in>set (snd as @ snd ss @ snd ps @ ?ms). expandRepeat (rn_id s) = rn_id s"
  proof
    fix s
    assume "s \<in> set (snd as @ snd ss @ snd ps @ ?ms)"
    then have "rn_id s \<in># mset (map rn_id (pl_runnable pl))" unfolding deal [symmetric] by auto
    with ids(1) assms(3) show "expandRepeat (rn_id s) = rn_id s" by (fastforce simp: expandRepeat_def list_all_iff)
  qed
  have settled: "map rw_id (settled_rows pl st) = map rn_id (snd as) @ map rn_id (snd ss) @ map rn_id (snd ps) @ map rn_id ?ms"
    using reached_ok [OF lanes, of marker es] assms(4,5) fin(1) plain by (intro lanes_ids) simp_all
  have "mset (map rw_id rows) = mset (map rw_id (rows_set_aside rx pl)) + mset (map rw_id (settled_rows pl st))"
    unfolding fin(2) by (simp add: mset_map)
  also have "\<dots> = mset (planned_ids pl)"
    unfolding settled aside_ids planned_ids_def mset_append deal [symmetric] by (simp only: ac_simps)
  also have "\<dots> = mset (map rn_id (selectScenarios scenarios scenarioId))" by (rule partition [OF assms(1,2)])
  finally show ?thesis unfolding fin(2) by (simp del: mset_map)
qed

section \<open>One run\<close>

text \<open>A selection of three: one runs, one has lost a sentence, one asks for a server of a recipe without any.\<close>

definition plan_scenario :: "string \<Rightarrow> step list \<Rightarrow> run_scenario" where
  "plan_scenario i steps =
     \<lparr>gs_steps = steps, gs_teardown = None, gs_setup = None, rn_id = i, rn_title = i, rn_binds = [(''doc'', [i])],
       rn_flowId = None, rn_interface = None, rn_mutates = False, rn_server = None, rn_needs = None, rn_prerequisites = None\<rparr>"

definition plan_recipe :: recipe where
  "plan_recipe = \<lparr>rx_hasEntry = True, rx_installs = False, rx_env = [], rx_web = None, rx_api = None, rx_preparations = []\<rparr>"

definition plan_ground :: run_ground where
  "plan_ground =
     \<lparr>gd_tree = (\<lambda>doc. Some [''a'', ''c'']), gd_catalog = None,
       gd_dependencies = Inr \<lparr>rs_dependencies = [], rs_unknownLocalNames = [], rs_catalogExists = False\<rparr>,
       gd_overlay = Inr [], gd_env = (\<lambda>_. None)\<rparr>"

definition plan_selection :: "run_scenario list" where
  "plan_selection =
     [plan_scenario ''a'' [[(''run'', JStr ''x'')]], plan_scenario ''b'' [[(''run'', JStr ''y'')]],
      plan_scenario ''c'' [[(''request'', JObj [(''method'', JStr ''GET'')])]]]"

definition demo_plan :: run_plan where
  "demo_plan = projr (plan_run plan_recipe plan_ground plan_selection None)"

definition demo_answer :: result_row where
  "demo_answer =
     \<lparr>rw_id = ''a'', rw_title = ''a'', rw_outcome = OutPass, rw_runId = None, rw_ranAt = None, rw_failure = None,
       rw_evidencePath = None, rw_flowId = None, rw_failedMilestone = None, rw_unservedRoute = None, rw_adjudication = None,
       rw_rest = []\<rparr>"

definition demo_end :: "end_of_run \<times> guard_run" where
  "demo_end =
     finish_run id plan_recipe demo_plan False False None
       (foldl guard_step (start_run plan_recipe demo_plan 8 3 False) [Settles PlainLane 0 demo_answer])"

fun outcomes :: "end_of_run \<Rightarrow> (string \<times> guard_outcome) list" where
  "outcomes (Finished rows dirty) = map (\<lambda>r. (rw_id r, rw_outcome r)) rows"
| "outcomes e = []"

theorem every_scenario_answered_witness:
  "outcomes (fst demo_end) = [(''a'', OutPass), (''b'', OutStale), (''c'', OutError)]
    \<and> (\<exists>rows dirty. fst demo_end = Finished rows dirty \<and> mset (map rw_id rows) = {#''a'', ''b'', ''c''#})"
proof -
  let ?st = "foldl guard_step (start_run plan_recipe demo_plan 8 3 False) [Settles PlainLane 0 demo_answer]"
  have outs: "outcomes (fst demo_end) = [(''a'', OutPass), (''b'', OutStale), (''c'', OutError)]" by code_simp
  have planned: "\<not> isl (plan_run plan_recipe plan_ground plan_selection None)" by code_simp
  then have run: "plan_run plan_recipe plan_ground plan_selection None = Inr demo_plan" by (simp add: demo_plan_def)
  have ids: "distinct (map rn_id plan_selection)" by code_simp
  have tokens: "list_all (\<lambda>s. \<not> js_includes ''${repeat:'' (rn_id s)) plan_selection" by code_simp
  have done_: "all_done ?st" by code_simp
  have all: "map rn_id (selectScenarios plan_selection None) = [''a'', ''b'', ''c'']" by code_simp
  obtain rows dirty where "fst demo_end = Finished rows dirty" using outs by (cases "fst demo_end") auto
  then have fin: "demo_end = (Finished rows dirty, snd demo_end)" by (simp add: prod_eq_iff)
  from every_scenario_answered [OF run ids tokens refl done_ fin [unfolded demo_end_def]]
  have "mset (map rw_id rows) = {#''a'', ''b'', ''c''#}" unfolding all by simp
  with outs \<open>fst demo_end = Finished rows dirty\<close> show ?thesis by blast
qed

theorem in_flight_bounded_witness:
  "length (shared_in_flight (foldl guard_step (start_run plan_recipe demo_plan 8 3 False) [])) = 1
    \<and> int (length (in_flight (gr_api (foldl guard_step (start_run plan_recipe demo_plan 8 3 False) [])))) \<le> 3"
proof -
  have "length (shared_in_flight (foldl guard_step (start_run plan_recipe demo_plan 8 3 False) [])) = 1" by code_simp
  with in_flight_bounded [of 3 8 plan_recipe demo_plan False "[]"] show ?thesis by (simp add: Let_def)
qed

end
