(* ===== verification/Spec2Isabelle.thy ===== *)
theory Spec2Isabelle
  imports Prelude Credits JobStore JobQueue Notifications JobSteps JobHarness SessionTypes AgentLoop CreditUnits
    SessionPool UsageMeter Conflicts PrCompare StepStats JsText GuardTokens CaptureRules Redaction
    ScenarioRun JsNumber SchemaCheck Expectations Cookies ApiRun Capabilities Dependencies Board Adjudication
    FlowTests FlowRun FlowSession JudgeKey FlowStage WorkerPool Externals SharedWorld Prerequisites Recipe Preparation
    RunPlan GuardRun
begin

text \<open>
  A verification development of truecourse (TypeScript): a product that reads a repository's documents,
  has agents write scenarios and flow tests that prove what the documents say, runs them, and keeps a board
  of what the product does and does not do.

  \<^bold>\<open>The program and what of it is here.\<close> Work arrives as background jobs. A job is a row in a database
  (\<open>packages/data-store\<close>), a place on a queue and a body that a worker runs (\<open>packages/jobs\<close>). A body that
  needs judgement opens agent sessions (\<open>packages/agent-loop\<close>): each is a loop around a driver, many are run
  by one pool, and every call is metered and paid from a workspace's credit ledger. The scenarios the
  sessions write are run by \<open>packages/guard-runner\<close>: in a sandbox, against an HTTP API, with stubs and proxies
  for the services around it, and as Playwright flow tests. The results are merged into the board, failures
  are adjudicated, and a pull request's run is compared with its base's (\<open>packages/core/src/services\<close>).
  The vocabulary all of these share is \<open>packages/shared\<close>.

  \<^bold>\<open>Jobs and money.\<close>
  \<^item> \<open>Credits\<close>: \<open>PgCreditsStore\<close> of \<open>data-store/src/credits-store.ts\<close> on its two tables. The ledger is an
    account of every movement; a fixed start is granted once.
  \<^item> \<open>CreditUnits\<close>: \<open>shared/src/types/credits.ts\<close>; dollars and credits, and how running out is recognised.
  \<^item> \<open>JobStore\<close>, \<open>Notifications\<close>: \<open>data-store/src/jobs-store.ts\<close>; the statements on the job rows with their
    unique index (one live job for each key, by \<open>invariant_machine\<close>), settled rows (by \<open>latch_machine\<close>),
    pause and requeue.
  \<^item> \<open>JobQueue\<close>: \<open>jobs/src/index.ts\<close>, \<open>semaphore.ts\<close> and the coalescing queue; enqueue, cancel, start, stop.
  \<^item> \<open>JobSteps\<close>, \<open>JobHarness\<close>: \<open>jobs/src/steps.ts\<close>, \<open>harness.ts\<close>; \<open>executeJob\<close> refines a small specification of how a
    claimed job is settled.
  \<^item> \<open>UsageMeter\<close>: the meter, \<open>withCredits\<close> and the metered driver; a locale \<open>row_tally\<close> states once that a counter
    loses nothing and is interpreted for cost, calls and tokens.

  \<^bold>\<open>Sessions.\<close>
  \<^item> \<open>SessionTypes\<close>, \<open>AgentLoop\<close>: \<open>agent-loop/src/session-events.ts\<close>, \<open>agent-loop.ts\<close>; \<open>startSession\<close> over scripts of
    what a driver does, with grants, resumes, retries and corrections. The locale \<open>session_invariant\<close> carries an
    invariant through every run of a session.
  \<^item> \<open>SessionPool\<close>: \<open>runSessionPool\<close> as a machine over what its limiter, sessions and folds do.

  \<^bold>\<open>Running scenarios.\<close>
  \<^item> \<open>GuardTokens\<close>, \<open>CaptureRules\<close>, \<open>Redaction\<close>: the tokens in strings, the rules of captures, the masks on evidence.
  \<^item> \<open>SchemaCheck\<close>, \<open>JsNumber\<close>, \<open>Expectations\<close>, \<open>Cookies\<close>: how a response is judged.
  \<^item> \<open>ScenarioRun\<close>: \<open>guard-runner/src/run-scenario.ts\<close>; \<open>ApiRun\<close>: \<open>guard-runner/src/api\<close>. Steps, teardown, settlement.
  \<^item> \<open>Capabilities\<close>: \<open>guard-runner/src/capabilities\<close>; stubs and fault proxies as machines over the calls they get.
  \<^item> \<open>Dependencies\<close>, \<open>Externals\<close>, \<open>Prerequisites\<close>: the catalog of outside services and its instances, the accounts of a
    machine (\<open>guard-runner/src/externals.ts\<close>), and the gate that holds a scenario against both (\<open>prerequisites.ts\<close>).
  \<^item> \<open>Recipe\<close>, \<open>Preparation\<close>: what a run reads of the recipe, and the private world of a scenario (\<open>preparation.ts\<close>),
    allocated, seeded, read back, verified and removed. Every step of it accounts for the worlds it allocated and removed.
  \<^item> \<open>WorkerPool\<close>, \<open>RunPlan\<close>, \<open>GuardRun\<close>: \<open>runGuard\<close> of \<open>guard-runner/src/run.ts\<close>. The plan deals each selected scenario to one
    place; the run is a machine over three pools and the serialized tail of the scenarios that change the
    world, with one invariant that says what is in each pool and what has settled.
  \<^item> \<open>SharedWorld\<close>: \<open>guard-runner/src/shared-world.ts\<close>; one boot that many executions share.
  \<^item> \<open>StepStats\<close>: what the steps of a run did.

  \<^bold>\<open>Flow tests.\<close>
  \<^item> \<open>FlowTests\<close>: \<open>shared/src/guard/flow-tests.ts\<close>, \<open>guard-runner/src/flow-tests.ts\<close>; records, movement, reports,
    \<open>runFlowTests\<close> with its retry without the specs that do not load, and what is kept of a run.
  \<^item> \<open>FlowRun\<close>: a product brought up, used and taken down, and a run of the stored tests.
  \<^item> \<open>FlowSession\<close>: one author's session, its gates and the judge; \<open>JudgeKey\<close>: the key of a judge's reading is exact,
    by a reader that gets every part back out of the text that is hashed.
  \<^item> \<open>FlowStage\<close>: the stage of a generate, from the index before to the index after.

  \<^bold>\<open>What becomes of results.\<close>
  \<^item> \<open>Board\<close>, \<open>Adjudication\<close>: the merge of a run, and the verdicts on its failures.
  \<^item> \<open>PrCompare\<close>: a pull request against its base. \<open>Conflicts\<close>: rulings on documents that contradict each other.

  \<open>Prelude\<close> and \<open>JsText\<close> hold what they share: the operations of JavaScript's \<open>Map\<close>, \<open>Set\<close>, arrays and strings,
  and two locales. \<open>invariant_machine\<close> lifts a step's invariant to a run, \<open>latch_machine\<close> a property that, once it
  holds, stays; both are interpreted on the machines of the components, and the properties rest on those
  facts. The present theory composes components: what out of credits means from the balance down to the
  pool, and what a pass says of the stubs and proxies beside the application.

  \<^bold>\<open>How the code is read.\<close> A method is a function from the state to the state and its answer, in the order of
  the code's statements. A throw is \<open>Inl\<close> or a constructor, the text of a message usually its constructor.
  What other processes do (the model behind a driver, a worker, Playwright, an application under test, the
  network) is an input: a script of events, or a function from what was asked to what came back. So is what
  the platform answers: clocks, ids, the file system, regular expressions a user writes, \<open>URL\<close>, \<open>Date.parse\<close>,
  \<open>sha256\<close>; regular expressions of the code are written out. \<open>localeCompare\<close> is the order of a collation key.
  Strings are lists of code units below 256. Costs are rationals and numbers of a JSON document integers,
  except in \<open>JsNumber\<close> and what uses it, where a number is a double. Durations are left out.

  \<^bold>\<open>Bounds and fuel.\<close> No function of the model is partial. Loops of the code end by a measure: the specs still
  to run in \<open>runFlowTests\<close> (a report that names every spec broken ends it), the grants, retries and corrections
  left in \<open>AgentLoop\<close>, the text left for a scanner. Where the code polls or waits, the number of polls is an
  input or the list of events is finite, and a property that says a session ends states how many driver runs
  it takes at most. The walk down the causes of an error in \<open>JobHarness\<close> stops where the code does, after
  sixteen; the fuel of \<open>Expectations.index_groups\<close> is the length of the text it reads.

  \<^bold>\<open>Not modelled.\<close> The dashboard, the landing page, the edition under \<open>ee\<close>, the adapters to providers and to
  GitHub, SQL migrations, and rendering hold little state of their own. The generator
  (\<open>packages/guard-generator\<close>), the interface mapper, the source facts, the consolidator and the guard setup are for the most part
  prompts, parsers of third-party formats and the file system; their sessions run on the loop and the pool
  that are here. Browser and terminal drivers, the sandbox, and what a run does before its scenarios start
  (install, build, services, seed, preflights) drive other processes, whose answers are inputs of the runs;
  in \<open>GuardRun\<close> a driver's call is one event. The checks of the recipe file are left out. Prompts, briefings and the wording of messages are left
  out throughout. The places where the code does not do what it says are lemmas of the theories, named in
  the manifest.
\<close>

section \<open>Out of credits: from the balance to the paused job\<close>

text \<open>
  Three components meet here: the metered driver answers a session it cannot pay for with the parked
  handle (\<open>UsageMeter.runSession\<close>), the agent loop turns that into the outcome of the session
  (\<open>AgentLoop.startSession\<close>), and the session pool reads the outcome (\<open>SessionPool.end_item\<close>).
\<close>

definition parked_run :: "driver_result \<Rightarrow> driver_run" where
  "parked_run r = \<lparr>dr_sync = [], dr_throws = None, dr_async = [], dr_done = Inr r\<rparr>"

lemma parked_session:
  assumes "\<not> in_preAborted inp" and "driver 0 = parked_run parkedHandle"
  shows "fst (startSession def inp driver) = FailedOutcome CREDITS_PAUSE_FAILURE True \<lparr>sp_turns = 0, sp_tokens = 0, sp_costUsd = 0\<rparr>
    \<and> ls_status (snd (startSession def inp driver)) = SParked \<and> ls_runs (snd (startSession def inp driver)) = 1"
  using assms
  by (simp add: startSession_def first_run_def runOnce_def parked_run_def parkedHandle_def retry_transient_def
      require_tool_def CREDITS_PAUSE_FAILURE_def finalize_def fail_def attach_handle_def open_session_def
      fold_prior_def updateIndex_def append_event_def initial_state_def spent_def Let_def)

interpretation pool_stays_paused: latch_machine "\<lambda>p e. pool_step opts e p"
    "\<lambda>p. pl_paused p \<and> pl_starts p = starts" for opts :: "'i pool_options" and starts
proof
  fix p :: "'i pool" and e
  assume "pl_paused p \<and> pl_starts p = starts"
  then show "pl_paused (pool_step opts e p) \<and> pl_starts (pool_step opts e p) = starts"
    by (cases e) (auto simp: run_task_def run_group_def end_item_def end_fold_def Let_def
        split: option.splits list.splits task.splits)
qed

lemma paused_pool_end: "pl_paused p \<Longrightarrow> pool_end_of opts p \<noteq> PoolReturned rs"
  by (simp add: pool_end_of_def split: option.split)

text \<open>C3: A session that cannot be paid for pauses its whole pool. When the meter has nothing to spend, the
  session is parked, resumable, after one driver run and without a turn spent; the pool it belongs to
  starts no session from then on, and does not return a result list as if it had finished.\<close>

theorem out_of_credits_pauses_the_pool:
  assumes "fst (UsageMeter.runSession m) = Some r" and "driver 0 = parked_run r" and "\<not> in_preAborted inp"
    and "i < length (pl_running p)"
  shows "fst (startSession def inp driver)
      = FailedOutcome CREDITS_PAUSE_FAILURE True \<lparr>sp_turns = 0, sp_tokens = 0, sp_costUsd = 0\<rparr>
    \<and> ls_status (snd (startSession def inp driver)) = SParked
    \<and> ls_runs (snd (startSession def inp driver)) = 1
    \<and> pl_starts (foldl (\<lambda>p e. pool_step opts e p) p (Ended i (fst (startSession def inp driver)) sid # es))
      = pl_starts p
    \<and> pool_end_of opts (foldl (\<lambda>p e. pool_step opts e p) p (Ended i (fst (startSession def inp driver)) sid # es))
      \<noteq> PoolReturned rs"
proof -
  have "r = parkedHandle"
    using assms(1) by (simp add: runSession_def Let_def split: if_splits)
  then have d: "driver 0 = parked_run parkedHandle"
    using assms(2) by simp
  note session = parked_session [where driver = driver and def = def, OF assms(3) d]
  let ?p = "pool_step opts (Ended i (fst (startSession def inp driver)) sid) p"
  have "pl_paused ?p \<and> pl_starts ?p = pl_starts p"
    using assms(4) session
    by (simp add: end_item_def parked_on_credits_def isCreditsPauseFailure_iff)
  note paused = pool_stays_paused.run_latched [OF this, of opts es]
  show ?thesis
    unfolding foldl.simps using session paused paused_pool_end by blast
qed

definition broke_meter :: meter where
  "broke_meter = chargeTo \<lparr>ac_workspaceOrgId = ''o'', ac_balance = 0\<rparr> createUsageMeter"

definition one_running :: "string pool" where
  "one_running = pool_step demo_pool (Begin 0 ''s1'') (open_pool demo_pool False)"

theorem out_of_credits_pauses_the_pool_witness:
  "\<exists>r. fst (UsageMeter.runSession broke_meter) = Some r \<and>
     length (pl_starts (foldl (\<lambda>p e. pool_step demo_pool e p) one_running
       [Ended 0 (fst (startSession demo_def demo_session (\<lambda>k. parked_run r))) ''s2'', Begin 0 ''s3''])) = 1"
proof -
  have r: "fst (UsageMeter.runSession broke_meter) = Some parkedHandle"
    by (simp add: broke_meter_def runSession_def spendable_def chargeTo_def createUsageMeter_def Let_def)
  have fresh_session: "\<not> in_preAborted demo_session"
    by (simp add: demo_session_def)
  have running: "length (pl_running one_running) = 1" "length (pl_starts one_running) = 1"
    by (simp_all add: one_running_def demo_pool_defs)
  then have "0 < length (pl_running one_running)" by simp
  from out_of_credits_pauses_the_pool [OF r refl fresh_session this, where def = demo_def and
      opts = demo_pool and es = "[Begin 0 ''s3'']" and sid = "''s2''" and rs = "[]"]
  have "pl_starts (foldl (\<lambda>p e. pool_step demo_pool e p) one_running
       [Ended 0 (fst (startSession demo_def demo_session (\<lambda>k. parked_run parkedHandle))) ''s2'', Begin 0 ''s3''])
     = pl_starts one_running" by blast
  with r running(2) show ?thesis by metis
qed

section \<open>A pass and its counterparties\<close>

text \<open>C14: What a pass says of the services around the application. Where an API run passes, and what its stubs
  and proxies settled is what they saw, every stub was called exactly as its script has it, and every
  provided service was: no call that the scripts do not have, no request that misses what a route or a
  rule asserts, and every count met.\<close>

theorem pass_keeps_the_scripts:
  assumes "fst (runApiScenario inp setup) = Some (Settled r)" and "ar_outcome r = VPass"
    and "distinct (map fst stubs)" and "startHttpStubs stubs = Some hs"
    and "ai_stubs inp = map_option sv_step (settleStubs stubs (foldl (stub_step rd stubs) hs es))"
    and "ai_externals inp \<longleftrightarrow> settleProxies scripts
      (map (\<lambda>(service, cs). (service, foldl (proxy_step rd (map_of scripts service)) fresh_service cs)) calls) \<noteq> None"
  shows "list_all (\<lambda>(name, d). as_scripted rd d (to_stub rd name es)) stubs
    \<and> list_all (\<lambda>(service, cs).
        list_all (call_ok rd (map_of scripts service)) (firings rd (map_of scripts service) (filter (readable rd) cs))
        \<and> pred_option (\<lambda>n. n = length (filter arrived cs)) (Option.bind (map_of scripts service) ex_calls)) calls"
proof -
  note quiet = passed_without_violation [OF assms(1,2)]
  have "settleStubs stubs (foldl (stub_step rd stubs) hs es) = None"
    using quiet(1) assms(5) by simp
  moreover have "settle_service (map_of scripts service) (foldl (proxy_step rd (map_of scripts service)) fresh_service cs) = None"
    if "(service, cs) \<in> set calls" for service cs
    using quiet(2) assms(6) that unfolding settleProxies_def first_some_None by auto
  then have "\<forall>(service, cs)\<in>set calls.
      list_all (call_ok rd (map_of scripts service)) (firings rd (map_of scripts service) (filter (readable rd) cs))
      \<and> pred_option (\<lambda>n. n = length (filter arrived cs)) (Option.bind (map_of scripts service) ex_calls)"
    unfolding service_settlement by blast
  ultimately show ?thesis
    using settlement_exact [OF assms(3,4), of rd es] unfolding list_all_iff [of _ calls] by blast
qed

theorem pass_keeps_the_scripts_witness:
  "fst (runApiScenario demo_api_run SetupDone) = Some (Settled (plain_result VPass None))
   \<and> list_all (\<lambda>(name, d). as_scripted demo_readers d (to_stub demo_readers name [MarkStep 1, demo_call])) demo_stubs"
proof -
  have passes: "fst (runApiScenario demo_api_run SetupDone) = Some (Settled (plain_result VPass None))"
    by code_simp
  have verdict: "ar_outcome (plain_result VPass None) = VPass"
    by (simp add: plain_result_def)
  have dist: "distinct (map fst demo_stubs)" by code_simp
  have start: "startHttpStubs demo_stubs = Some (the (startHttpStubs demo_stubs))"
    by (simp add: startHttpStubs_def demo_stubs_def)
  have "settleStubs demo_stubs (foldl (stub_step demo_readers demo_stubs) (the (startHttpStubs demo_stubs))
      [MarkStep 1, demo_call]) = None"
    by code_simp
  then have stubs: "ai_stubs demo_api_run = map_option sv_step (settleStubs demo_stubs
      (foldl (stub_step demo_readers demo_stubs) (the (startHttpStubs demo_stubs)) [MarkStep 1, demo_call]))"
    by (simp add: demo_api_run_def)
  have proxies: "ai_externals demo_api_run \<longleftrightarrow> settleProxies []
      (map (\<lambda>(service, cs). (service, foldl (proxy_step demo_readers (map_of [] service)) fresh_service cs)) []) \<noteq> None"
    by (simp add: demo_api_run_def settleProxies_def)
  from pass_keeps_the_scripts [OF passes verdict dist start stubs proxies] passes show ?thesis by blast
qed

end
